(* ===== verification/C_Strings.thy ===== *)
theory C_Strings
  imports Prelude
begin

text \<open>
  The part of the C library the program computes with: \<open>atoi\<close>, \<open>%d\<close> of \<open>printf\<close>,
  \<open>strncmp\<close>, \<open>strchr\<close>, \<open>fgets\<close>, and the scan set \<open>%[^c]\<close> of \<open>sscanf\<close>.
  A C string is the list of its characters without the terminating NUL; a file is the list
  of its characters. \<open>atoi\<close> and \<open>%d\<close> are over \<^typ>\<open>int\<close>: the C standard leaves the
  value of \<open>atoi\<close> undefined when the number does not fit an \<open>int\<close>, so the model and the
  code agree wherever the code is defined.
\<close>

section \<open>Characters\<close>

definition is_digit :: "char \<Rightarrow> bool" where
  "is_digit c = (48 \<le> (of_char c :: nat) \<and> (of_char c :: nat) \<le> 57)"

definition digit_val :: "char \<Rightarrow> int" where
  "digit_val c = of_char c - 48"

definition digit_char :: "nat \<Rightarrow> char" where
  "digit_char d = char_of (48 + d)"

definition is_space :: "char \<Rightarrow> bool" where
  "is_space c = (c \<in> {SPC, TAB, LF, CHR 0x0B, CHR 0x0C, CR})"

lemma of_char_digit_char: "d < 10 \<Longrightarrow> (of_char (digit_char d) :: nat) = 48 + d"
  by (simp add: digit_char_def)

lemma is_digit_digit_char [simp]: "d < 10 \<Longrightarrow> is_digit (digit_char d)"
  by (simp add: is_digit_def of_char_digit_char)

lemma digit_val_digit_char [simp]: "d < 10 \<Longrightarrow> digit_val (digit_char d) = int d"
proof -
  assume d: "d < 10"
  have "(of_char (digit_char d) :: int) = int (of_char (digit_char d))"
    by (simp add: of_char_def) 
  then show ?thesis using of_char_digit_char [OF d] by (simp add: digit_val_def)
qed

lemma not_digit_consts [simp]:
  "\<not> is_digit SPC" "\<not> is_digit LF" "\<not> is_digit CR" "\<not> is_digit TAB" "\<not> is_digit NUL"
  "\<not> is_digit (CHR '','')" "\<not> is_digit (CHR ''-'')" "\<not> is_digit (CHR ''+'')"
  "\<not> is_digit (CHR ''='')" "\<not> is_digit (CHR '':'')" "\<not> is_digit (CHR ''/'')"
  "\<not> is_digit (CHR ''*'')" "\<not> is_digit (CHR '')'')" "\<not> is_digit (CHR ''['')"
  by (simp_all add: is_digit_def)

lemma digit_not_space [simp]: "is_digit c \<Longrightarrow> \<not> is_space c"
  by (auto simp: is_space_def is_digit_def)

section \<open>atoi and the conversion \<open>%d\<close>\<close>

fun digits_val :: "int \<Rightarrow> cstring \<Rightarrow> int" where
  "digits_val acc [] = acc"
| "digits_val acc (c # cs) =
     (if is_digit c then digits_val (acc * 10 + digit_val c) cs else acc)"

definition atoi :: "cstring \<Rightarrow> int" where
  "atoi s =
     (case dropWhile is_space s of
        [] \<Rightarrow> 0
      | c # r \<Rightarrow>
          if c = CHR ''-'' then - digits_val 0 r
          else if c = CHR ''+'' then digits_val 0 r
          else digits_val 0 (c # r))"

fun show_nat :: "nat \<Rightarrow> cstring" where
  "show_nat n =
     (if n < 10 then [digit_char n] else show_nat (n div 10) @ [digit_char (n mod 10)])"

declare show_nat.simps [simp del]

definition show_int :: "int \<Rightarrow> cstring" where
  "show_int i = (if i < 0 then CHR ''-'' # show_nat (nat (- i)) else show_nat (nat i))"

lemma show_nat_digits: "\<forall>c \<in> set (show_nat n). is_digit c"
proof (induction n rule: show_nat.induct)
  case (1 n)
  then show ?case by (subst show_nat.simps) auto
qed

lemma show_nat_ne [simp]: "show_nat n \<noteq> []"
  by (subst show_nat.simps) simp

lemma digits_val_append_digit:
  "\<forall>c \<in> set xs. is_digit c \<Longrightarrow> digits_val a (xs @ ys) = digits_val (digits_val a xs) ys"
  by (induction xs arbitrary: a) auto

lemma digits_val_show_nat: "digits_val 0 (show_nat n) = int n"
proof (induction n rule: show_nat.induct)
  case (1 n)
  show ?case
  proof (cases "n < 10")
    case True
    then show ?thesis by (simp add: show_nat.simps [of n])
  next
    case False
    have "digits_val 0 (show_nat n)
        = digits_val (digits_val 0 (show_nat (n div 10))) [digit_char (n mod 10)]"
      using False by (simp add: show_nat.simps [of n] digits_val_append_digit [OF show_nat_digits])
    also have "\<dots> = int (n div 10) * 10 + int (n mod 10)" using "1.IH" False by simp
    also have "\<dots> = int n" by presburger
    finally show ?thesis .
  qed
qed

lemma digits_val_stop: "rest = [] \<or> \<not> is_digit (hd rest) \<Longrightarrow> digits_val a rest = a"
  by (cases rest) auto

lemma digits_val_show_nat_rest:
  "rest = [] \<or> \<not> is_digit (hd rest) \<Longrightarrow> digits_val 0 (show_nat n @ rest) = int n"
  by (simp add: digits_val_append_digit [OF show_nat_digits] digits_val_show_nat digits_val_stop)

lemma hd_show_nat_digit: "is_digit (hd (show_nat n))"
  using show_nat_digits [of n] by (cases "show_nat n") auto

text \<open>The round trip: \<open>atoi\<close> reads back what \<open>%d\<close> printed, whatever non-digit follows.\<close>

lemma atoi_show_int_rest [cstr_simps]:
  assumes "rest = [] \<or> \<not> is_digit (hd rest)"
  shows "atoi (show_int i @ rest) = i"
proof (cases "i < 0")
  case True
  have "\<not> is_space (CHR ''-'')" by (simp add: is_space_def)
  with True assms show ?thesis
    by (simp add: atoi_def show_int_def digits_val_show_nat_rest)
next
  case False
  obtain c cs where c: "show_nat (nat i) = c # cs" by (cases "show_nat (nat i)") auto
  then have d: "is_digit c" using hd_show_nat_digit [of "nat i"] by simp
  then have "c \<noteq> CHR ''-''" "c \<noteq> CHR ''+''" by auto
  with d c False assms show ?thesis
    using digits_val_show_nat_rest [OF assms, of "nat i"]
    by (simp add: atoi_def show_int_def)
qed

lemma atoi_show_int [cstr_simps, simp]: "atoi (show_int i) = i"
  using atoi_show_int_rest [of "[]" i] by simp

lemma atoi_space [simp]: "atoi (SPC # s) = atoi s"
  by (simp add: atoi_def is_space_def)

lemma show_int_chars: "c \<in> set (show_int i) \<Longrightarrow> is_digit c \<or> c = CHR ''-''"
  using show_nat_digits by (auto simp: show_int_def split: if_splits)

lemma show_int_ne [simp]: "show_int i \<noteq> []"
  by (simp add: show_int_def)

lemma show_int_inj: "show_int i = show_int j \<Longrightarrow> i = j"
  by (metis atoi_show_int)

lemma show_nat_length: "n < 10 ^ k \<Longrightarrow> 0 < k \<Longrightarrow> length (show_nat n) \<le> k"
proof (induction k arbitrary: n)
  case (Suc k)
  show ?case
  proof (cases "n < 10")
    case True
    then show ?thesis by (simp add: show_nat.simps [of n])
  next
    case False
    then have "0 < k" using Suc.prems(1) by (cases k) auto
    moreover have "n div 10 < 10 ^ k" using Suc.prems(1) by (simp add: less_mult_imp_div_less mult.commute)
    ultimately show ?thesis using Suc.IH [of "n div 10"] False by (simp add: show_nat.simps [of n])
  qed
qed simp

lemma show_int_length: "0 \<le> i \<Longrightarrow> i < 10 ^ k \<Longrightarrow> 0 < k \<Longrightarrow> length (show_int i) \<le> k"
proof -
  assume a: "0 \<le> i" "i < 10 ^ k" "0 < k"
  then have "nat i < 10 ^ k" by (metis nat_less_iff of_nat_numeral of_nat_power)
  with a show ?thesis by (simp add: show_int_def show_nat_length)
qed

section \<open>String search and comparison\<close>

text \<open>\<open>strchr s c\<close> splits \<open>s\<close> at the first \<open>c\<close>: the part before and the part after it.\<close>

definition strchr :: "cstring \<Rightarrow> char \<Rightarrow> (cstring \<times> cstring) option" where
  "strchr s c =
     (if c \<in> set s then Some (takeWhile (\<lambda>x. x \<noteq> c) s, tl (dropWhile (\<lambda>x. x \<noteq> c) s))
      else None)"

lemma strchr_append [simp]: "c \<notin> set u \<Longrightarrow> strchr (u @ c # v) c = Some (u, v)"
proof -
  assume u: "c \<notin> set u"
  have "takeWhile (\<lambda>x. x \<noteq> c) (u @ c # v) = u" by (rule takeWhile_stop) (use u in auto)
  moreover have "dropWhile (\<lambda>x. x \<noteq> c) (u @ c # v) = c # v"
    by (rule dropWhile_stop) (use u in auto)
  ultimately show ?thesis by (simp add: strchr_def)
qed

lemma strchr_None [simp]: "c \<notin> set s \<Longrightarrow> strchr s c = None"
  by (simp add: strchr_def)

lemma strchr_SomeD: "strchr s c = Some (u, v) \<Longrightarrow> s = u @ c # v \<and> c \<notin> set u"
proof -
  assume a: "strchr s c = Some (u, v)"
  then have "c \<in> set s" by (simp add: strchr_def split: if_splits)
  then obtain x y where s: "s = x @ c # y" and x: "c \<notin> set x"
    using split_list_first by metis
  with a show ?thesis by simp
qed

text \<open>\<open>strncmp a b n == 0\<close>\<close>

definition strneq :: "cstring \<Rightarrow> cstring \<Rightarrow> nat \<Rightarrow> bool" where
  "strneq a b n = (take n a = take n b)"

section \<open>fgets\<close>

text \<open>
  \<open>fgets(buf, n, f)\<close> reads at most \<open>n - 1\<close> characters, through the first newline; it returns
  NULL at end of file. The model returns the characters read and the rest of the file.
\<close>

fun fgets_aux :: "nat \<Rightarrow> cstring \<Rightarrow> cstring \<times> cstring" where
  "fgets_aux 0 s = ([], s)"
| "fgets_aux (Suc n) [] = ([], [])"
| "fgets_aux (Suc n) (c # s) =
     (if c = LF then ([c], s)
      else (case fgets_aux n s of (l, r) \<Rightarrow> (c # l, r)))"

definition fgets :: "nat \<Rightarrow> cstring \<Rightarrow> (cstring \<times> cstring) option" where
  "fgets n s = (if s = [] then None else Some (fgets_aux (n - 1) s))"

lemma fgets_aux_append: "fgets_aux n s = (l, r) \<Longrightarrow> s = l @ r"
  by (induction n s arbitrary: l r rule: fgets_aux.induct) (auto split: if_splits prod.splits)

lemma fgets_aux_progress: "s \<noteq> [] \<Longrightarrow> 0 < n \<Longrightarrow> fgets_aux n s = (l, r) \<Longrightarrow> l \<noteq> []"
  by (cases n; cases s) (auto split: if_splits prod.splits)

lemma fgets_shorter:
  assumes "fgets n s = Some (l, r)" and "1 < n"
  shows "length r < length s"
proof -
  from assms(1) have "s \<noteq> []" and f: "fgets_aux (n - 1) s = (l, r)"
    by (auto simp: fgets_def split: if_splits)
  from f have "s = l @ r" by (rule fgets_aux_append)
  moreover have "l \<noteq> []"
    using fgets_aux_progress [OF \<open>s \<noteq> []\<close> _ f] assms(2) by simp
  ultimately show ?thesis by simp
qed

lemma fgets_aux_line: "LF \<notin> set l \<Longrightarrow> length l < n \<Longrightarrow> fgets_aux n (l @ LF # r) = (l @ [LF], r)"
proof (induction l arbitrary: n)
  case Nil
  then show ?case by (cases n) auto
next
  case (Cons a l)
  then show ?case by (cases n) auto
qed

lemma fgets_line: "LF \<notin> set l \<Longrightarrow> Suc (length l) < n \<Longrightarrow> fgets n (l @ LF # r) = Some (l @ [LF], r)"
  by (simp add: fgets_def fgets_aux_line)

lemma fgets_Nil [simp]: "fgets n [] = None"
  by (simp add: fgets_def)

text \<open>The lines a loop \<open>while (fgets(buf, n, f))\<close> sees.\<close>

function fgets_lines :: "nat \<Rightarrow> cstring \<Rightarrow> cstring list" where
  "fgets_lines n s =
     (if n < 2 then []
      else (case fgets n s of None \<Rightarrow> [] | Some (l, r) \<Rightarrow> l # fgets_lines n r))"
  by pat_completeness auto
termination
proof (relation "measure (\<lambda>(n, s). length s)")
  show "wf (measure (\<lambda>(n :: nat, s :: cstring). length s))" by simp
next
  fix n :: nat and s x2 l r
  assume "\<not> n < 2" "fgets n s = Some x2" "(l, r) = x2"
  then have "length r < length s" using fgets_shorter [of n s l r] by simp
  then show "((n, r), n, s) \<in> measure (\<lambda>(n, s). length s)" by simp
qed

declare fgets_lines.simps [simp del]

lemma fgets_lines_Nil [simp]: "fgets_lines n [] = []"
  by (simp add: fgets_lines.simps)

lemma fgets_lines_line:
  "LF \<notin> set l \<Longrightarrow> Suc (length l) < n \<Longrightarrow>
   fgets_lines n (l @ LF # r) = (l @ [LF]) # fgets_lines n r"
  by (subst fgets_lines.simps) (simp add: fgets_line)

lemma fgets_lines_concat:
  assumes "\<And>l. l \<in> set ls \<Longrightarrow> LF \<notin> set l \<and> Suc (length l) < n"
  shows "fgets_lines n (concat (map (\<lambda>l. l @ [LF]) ls)) = map (\<lambda>l. l @ [LF]) ls"
  using assms by (induction ls) (auto simp: fgets_lines_line)

section \<open>sscanf with scan sets\<close>

text \<open>
  \<open>sscanf(s, "%[^c]c%[^c]c...", a1, ..., ak)\<close>: each \<open>%[^c]\<close> takes a non-empty run of
  characters other than \<open>c\<close>, each literal \<open>c\<close> must match. The model returns the fields that
  were assigned, at most \<open>k\<close> of them; their number is the return value of \<open>sscanf\<close>
  (\<open>EOF\<close>, when \<open>s\<close> is empty, also differs from \<open>k\<close>).
\<close>

fun sscanf_sets :: "nat \<Rightarrow> char \<Rightarrow> cstring \<Rightarrow> cstring list" where
  "sscanf_sets 0 c s = []"
| "sscanf_sets (Suc k) c s =
     (let f = takeWhile (\<lambda>x. x \<noteq> c) s; r = dropWhile (\<lambda>x. x \<noteq> c) s
      in if f = [] then []
         else f # (case r of [] \<Rightarrow> [] | _ # r' \<Rightarrow> sscanf_sets k c r'))"

lemma sscanf_sets_length: "length (sscanf_sets k c s) \<le> k"
  by (induction k c s rule: sscanf_sets.induct) (auto simp: Let_def split: list.splits)

lemma sscanf_sets_step:
  "f \<noteq> [] \<Longrightarrow> c \<notin> set f \<Longrightarrow> sscanf_sets (Suc k) c (f @ c # r) = f # sscanf_sets k c r"
proof -
  assume f: "f \<noteq> []" "c \<notin> set f"
  have "takeWhile (\<lambda>x. x \<noteq> c) (f @ c # r) = f" by (rule takeWhile_stop) (use f in auto)
  moreover have "dropWhile (\<lambda>x. x \<noteq> c) (f @ c # r) = c # r"
    by (rule dropWhile_stop) (use f in auto)
  ultimately show ?thesis using f by (simp add: Let_def)
qed

lemma sscanf_sets_last:
  "f \<noteq> [] \<Longrightarrow> c \<notin> set f \<Longrightarrow> sscanf_sets (Suc k) c f = [f]"
proof -
  assume f: "f \<noteq> []" "c \<notin> set f"
  have "takeWhile (\<lambda>x. x \<noteq> c) f = f" by (rule takeWhile_all) (use f in auto)
  moreover have "dropWhile (\<lambda>x. x \<noteq> c) f = []" by (rule dropWhile_all) (use f in auto)
  ultimately show ?thesis using f(1)
    by (simp add: Let_def del: takeWhile_eq_all_conv dropWhile_eq_Nil_conv)
qed

end
