(* ===== verification/File_Process.thy ===== *)
theory File_Process
  imports C_Strings
begin

text \<open>
  \<open>fileprocess.c\<close>: names of files and directories, the row count, and the copy loop \<open>cp_file\<close>,
  whose \<open>read\<close> and \<open>write\<close> calls are answered by two scripts. What \<open>stat\<close> and
  \<open>access\<close> answer is an input.
\<close>

section \<open>Names\<close>

text \<open>\<open>strrchr(s, '/')\<close>: the parts before and after the last separator.\<close>

definition strrchr_slash :: "cstring \<Rightarrow> (cstring \<times> cstring) option" where
  "strrchr_slash s =
     (if CHR ''/'' \<in> set s
      then Some (rev (tl (dropWhile (\<lambda>c. c \<noteq> CHR ''/'') (rev s))), rev (takeWhile (\<lambda>c. c \<noteq> CHR ''/'') (rev s)))
      else None)"

definition get_file_name :: "cstring \<Rightarrow> nat \<Rightarrow> cstring" where
  "get_file_name path sz =
     (let s = (case strrchr_slash path of None \<Rightarrow> path | Some (_, r) \<Rightarrow> r)
      in if sz - 1 < length s then [] else s)"

definition get_dir_name :: "cstring \<Rightarrow> nat \<Rightarrow> cstring" where
  "get_dir_name path sz =
     (case strrchr_slash path of
        None \<Rightarrow> []
      | Some (d, _) \<Rightarrow> if sz - 1 < length d then [] else d)"

lemma strrchr_slash_append [simp]:
  assumes "CHR ''/'' \<notin> set f"
  shows "strrchr_slash (d @ CHR ''/'' # f) = Some (d, f)"
proof -
  have "rev (d @ CHR ''/'' # f) = rev f @ CHR ''/'' # rev d" by simp
  moreover have "takeWhile (\<lambda>c. c \<noteq> CHR ''/'') (rev f @ CHR ''/'' # rev d) = rev f"
    by (rule takeWhile_stop) (use assms in auto)
  moreover have "dropWhile (\<lambda>c. c \<noteq> CHR ''/'') (rev f @ CHR ''/'' # rev d) = CHR ''/'' # rev d"
    by (rule dropWhile_stop) (use assms in auto)
  ultimately show ?thesis by (simp add: strrchr_slash_def)
qed

lemma strrchr_slash_None [simp]: "CHR ''/'' \<notin> set s \<Longrightarrow> strrchr_slash s = None"
  by (simp add: strrchr_slash_def)

lemma get_file_name_join:
  assumes "CHR ''/'' \<notin> set f" and "length f < sz" and "length d < sz"
  shows "get_file_name (d @ CHR ''/'' # f) sz = f" "get_dir_name (d @ CHR ''/'' # f) sz = d"
  using assms by (auto simp: get_file_name_def get_dir_name_def)

section \<open>stat\<close>

text \<open>What \<open>stat64\<close> answers for a path: is it a directory, its size and modification time.\<close>

type_synonym file_stat = "(bool \<times> int \<times> time_t) option"

definition if_isdir :: "file_stat \<Rightarrow> int" where
  "if_isdir st = (case st of None \<Rightarrow> -1 | Some (d, _, _) \<Rightarrow> if d then 1 else 0)"

definition get_file_size :: "file_stat \<Rightarrow> int" where
  "get_file_size st =
     (if if_isdir st \<noteq> 0 then 0 else (case st of None \<Rightarrow> -1 | Some (_, sz, _) \<Rightarrow> sz))"

definition get_file_last_modify :: "file_stat \<Rightarrow> time_t" where
  "get_file_last_modify st =
     (if if_isdir st \<noteq> 0 then -1 else (case st of None \<Rightarrow> -1 | Some (_, _, t) \<Rightarrow> t))"

section \<open>Rows\<close>

definition GetFileRows :: "cstring option \<Rightarrow> int" where
  "GetFileRows file = (case file of None \<Rightarrow> -1 | Some c \<Rightarrow> int (length (fgets_lines 8192 c)))"

lemma GetFileRows_lines:
  assumes "\<And>l. l \<in> set ls \<Longrightarrow> LF \<notin> set l \<and> Suc (length l) < 8192"
  shows "GetFileRows (Some (concat (map (\<lambda>l. l @ [LF]) ls))) = int (length ls)"
  using fgets_lines_concat [of ls 8192] assms by (simp add: GetFileRows_def)

section \<open>cp_file\<close>

datatype read_result = ReadData cstring | ReadEof | ReadEintr | ReadError
datatype write_result = Wrote nat | WriteEintr | WriteError

text \<open>
  The inner loop: write the \<open>n\<close> bytes at \<open>ptr\<close>. The result is the bytes that reached the file,
  the rest of the script and whether the last \<open>write\<close> returned -1. The kernel writes at most
  what it is given.
\<close>

fun cp_write :: "cstring \<Rightarrow> write_result list \<Rightarrow> (cstring \<times> write_result list \<times> bool) option" where
  "cp_write ptr [] = None"
| "cp_write ptr (w # ws) =
     (case w of
        WriteError \<Rightarrow> Some ([], ws, True)
      | WriteEintr \<Rightarrow> cp_write ptr ws
      | Wrote k \<Rightarrow>
          let k = min k (length ptr) in
          if k = 0 then Some ([], ws, False)
          else if k = length ptr then Some (ptr, ws, False)
          else (case cp_write (drop k ptr) ws of
                  None \<Rightarrow> None
                | Some (out, ws', e) \<Rightarrow> Some (take k ptr @ out, ws', e)))"

text \<open>
  The outer loop; the flag is \<open>bytes_write == -1\<close>, \<^const>\<open>None\<close> while \<open>bytes_write\<close> has no
  value. It returns the destination's new content and the result of the function; with an empty
  source the result is the value of an uninitialised variable, \<^const>\<open>None\<close>.
\<close>

fun cp_loop :: "bool option \<Rightarrow> read_result list \<Rightarrow> write_result list \<Rightarrow> (cstring \<times> int option) option" where
  "cp_loop bw [] ws = None"
| "cp_loop bw (r # rs) ws =
     (case r of
        ReadEof \<Rightarrow> Some ([], map_option (\<lambda>b. if b then 0 else 1) bw)
      | ReadError \<Rightarrow> Some ([], map_option (\<lambda>b. if b then 0 else 1) bw)
      | ReadEintr \<Rightarrow> cp_loop bw rs ws
      | ReadData d \<Rightarrow>
          (case cp_write d ws of
             None \<Rightarrow> None
           | Some (out, ws', True) \<Rightarrow> Some (out, Some 0)
           | Some (out, ws', False) \<Rightarrow>
               (case cp_loop (Some False) rs ws' of
                  None \<Rightarrow> None
                | Some (out', res) \<Rightarrow> Some (out @ out', res))))"

definition cp_file ::
  "bool \<Rightarrow> bool \<Rightarrow> bool \<Rightarrow> bool \<Rightarrow> read_result list \<Rightarrow> write_result list \<Rightarrow> (cstring option \<times> int option) option" where
  "cp_file dest_exists if_over open_src open_dest rs ws =
     (if dest_exists \<and> \<not> if_over then Some (None, Some 0)
      else if \<not> open_src then Some (None, Some 0)
      else if \<not> open_dest then Some (None, Some 0)
      else map_option (\<lambda>(out, res). (Some out, res)) (cp_loop None rs ws))"

text \<open>A script of writes that always make progress, with interruptions, and enough of them.\<close>

definition progress :: "write_result list \<Rightarrow> bool" where
  "progress ws = (\<forall>w \<in> set ws. w = WriteEintr \<or> (\<exists>k>0. w = Wrote k))"

lemma cp_write_progress:
  "progress ws \<Longrightarrow> d \<noteq> [] \<Longrightarrow> cp_write d ws = Some (out, ws', e) \<Longrightarrow> out = d \<and> \<not> e \<and> progress ws'"
proof (induction d ws arbitrary: out rule: cp_write.induct)
  case (2 ptr w ws)
  have p: "progress ws" using "2.prems"(1) by (simp add: progress_def)
  show ?case
  proof (cases w)
    case (Wrote k)
    then have k: "0 < k" using "2.prems"(1) by (auto simp: progress_def)
    let ?k = "min k (length ptr)"
    show ?thesis
    proof (cases "?k = length ptr")
      case True
      with 2 Wrote p show ?thesis by (auto simp: Let_def)
    next
      case False
      then have lt: "?k < length ptr" by simp
      then obtain o2 where o2: "cp_write (drop ?k ptr) ws = Some (o2, ws', e)" "out = take ?k ptr @ o2"
        using "2.prems" Wrote k by (auto simp: Let_def split: option.splits if_splits)
      have "?k \<noteq> 0" using k "2.prems"(2) by simp
      then have "o2 = drop ?k ptr \<and> \<not> e \<and> progress ws'"
        using "2.IH"(1) [OF Wrote refl _ False p _ o2(1)] lt by simp
      then show ?thesis using o2(2) by simp
    qed
  next
    case WriteEintr
    with 2 p show ?thesis by simp
  next
    case WriteError
    with "2.prems"(1) show ?thesis by (auto simp: progress_def)
  qed
qed simp

lemma cp_loop_copies:
  "progress ws \<Longrightarrow> ReadError \<notin> set rs \<Longrightarrow> (\<forall>d. ReadData d \<in> set rs \<longrightarrow> d \<noteq> []) \<Longrightarrow>
   cp_loop bw (rs @ [ReadEof]) ws = Some (out, res) \<Longrightarrow> ReadEof \<notin> set rs \<Longrightarrow>
   out = concat (map (\<lambda>r. case r of ReadData d \<Rightarrow> d | _ \<Rightarrow> []) rs) \<and>
   (res = (if \<exists>d. ReadData d \<in> set rs then Some 1 else map_option (\<lambda>b. if b then 0 else 1) bw))"
proof (induction rs arbitrary: bw ws out)
  case (Cons r rs)
  show ?case
  proof (cases r)
    case (ReadData d)
    obtain o1 ws' e where w: "cp_write d ws = Some (o1, ws', e)"
      using Cons.prems(4) ReadData by (auto split: option.splits)
    have ne: "d \<noteq> []" using Cons.prems(3) ReadData by simp
    have w': "o1 = d" "\<not> e" "progress ws'" using cp_write_progress [OF Cons.prems(1) ne w] by auto
    then obtain o2 where o2: "cp_loop (Some False) (rs @ [ReadEof]) ws' = Some (o2, res)" "out = d @ o2"
      using Cons.prems(4) ReadData w by (auto split: option.splits bool.splits)
    then show ?thesis
      using Cons.IH [OF w'(3) _ _ o2(1)] Cons.prems(2,3,5) ReadData by (auto split: if_splits)
  next
    case ReadEintr
    then show ?thesis using Cons.IH [OF Cons.prems(1)] Cons.prems by auto
  qed (use Cons.prems in auto)
qed auto

text \<open>
  A failing \<open>read\<close> is reported as success: the copy is cut off and \<open>cp_file\<close> returns 1.
\<close>

lemma cp_file_read_error:
  "cp_file False False True True [ReadData ''abc'', ReadError] [Wrote 3] = Some (Some ''abc'', Some 1)"
  by (simp add: cp_file_def)

text \<open>
  \<open>cp_file\<close> copies the whole file. When both files open and no \<open>read\<close> or \<open>write\<close> fails,
  however many calls are interrupted and however few bytes each \<open>write\<close> takes, a return means
  that the new file is what was read; the result is 1 for a source that is not empty.
\<close>

theorem cp_file_copies:
  assumes "\<forall>w \<in> set ws. w = WriteEintr \<or> (\<exists>k>0. w = Wrote k)" and "set rs \<inter> {ReadError, ReadEof} = {}"
    and "\<forall>d. ReadData d \<in> set rs \<longrightarrow> d \<noteq> []" and "\<exists>d. ReadData d \<in> set rs"
    and "cp_file False over True True (rs @ [ReadEof]) ws = Some (dest, res)"
  shows "dest = Some (concat (map (\<lambda>r. case r of ReadData d \<Rightarrow> d | _ \<Rightarrow> []) rs)) \<and> res = Some 1"
proof -
  obtain out where out: "cp_loop None (rs @ [ReadEof]) ws = Some (out, res)" "dest = Some out"
    using assms(5) by (auto simp: cp_file_def)
  show ?thesis
    using cp_loop_copies [OF _ _ assms(3) out(1)] assms(1,2,4) out(2) by (auto simp: progress_def)
qed

theorem cp_file_copies_witness:
  "cp_file False False True True ([ReadData ''abc'', ReadEintr, ReadData ''d''] @ [ReadEof])
     [Wrote 2, WriteEintr, Wrote 1, Wrote 1] = Some (Some ''abcd'', Some 1)"
proof -
  let ?rs = "[ReadData ''abc'', ReadEintr, ReadData ''d'']" and ?ws = "[Wrote 2, WriteEintr, Wrote 1, Wrote 1]"
  obtain dest res where r: "cp_file False False True True (?rs @ [ReadEof]) ?ws = Some (dest, res)"
    by (simp add: cp_file_def Let_def)
  have "dest = Some (concat (map (\<lambda>r. case r of ReadData d \<Rightarrow> d | _ \<Rightarrow> []) ?rs)) \<and> res = Some 1"
    by (rule cp_file_copies [OF _ _ _ _ r]) (auto intro: exI [of _ "''d''"])
  with r show ?thesis by simp
qed

unbundle bit_operations_syntax

section \<open>Permissions\<close>

text \<open>
  \<open>access\<close> answers 0 or -1. \<open>stat64\<close> answers with a mode, whose top four bits are the type of the file; \<open>S_IRUSR\<close> is 0400, \<open>S_IWUSR\<close> 0200.
\<close>

definition access_result :: "bool \<Rightarrow> int" where
  "access_result ok = (if ok then 0 else -1)"

definition if_file_read :: "bool \<Rightarrow> int" where
  "if_file_read may_read = access_result may_read + 1"

definition if_file_write :: "bool \<Rightarrow> int" where
  "if_file_write may_write = access_result may_write + 1"

definition if_file_exist :: "bool \<Rightarrow> int" where
  "if_file_exist is_there = access_result is_there + 1"

definition S_ISREG :: "32 word \<Rightarrow> bool" where
  "S_ISREG st_mode = (st_mode AND 0xF000 = 0x8000)"

definition S_ISDIR :: "32 word \<Rightarrow> bool" where
  "S_ISDIR st_mode = (st_mode AND 0xF000 = 0x4000)"

definition if_isfile :: "32 word option \<Rightarrow> int" where
  "if_isfile st = (case st of None \<Rightarrow> -1 | Some st_mode \<Rightarrow> if S_ISREG st_mode then 1 else 0)"

definition if_dir_read :: "32 word option \<Rightarrow> int" where
  "if_dir_read st = (case st of None \<Rightarrow> -1 | Some st_mode \<Rightarrow> if 0x100 AND st_mode = 0x100 then 1 else 0)"

definition if_dir_write :: "32 word option \<Rightarrow> int" where
  "if_dir_write st = (case st of None \<Rightarrow> -1 | Some st_mode \<Rightarrow> if 0x80 AND st_mode = 0x80 then 1 else 0)"

lemma file_tests: "if_file_read b \<noteq> 0 \<longleftrightarrow> b" "if_file_write b \<noteq> 0 \<longleftrightarrow> b" "if_file_exist b \<noteq> 0 \<longleftrightarrow> b"
  by (simp_all add: if_file_read_def if_file_write_def if_file_exist_def access_result_def)

lemma isfile_no_dir: "if_isfile (Some m) = 1 \<Longrightarrow> \<not> S_ISDIR m"
  by (auto simp: if_isfile_def S_ISREG_def S_ISDIR_def split: if_splits)

text \<open>
  \<open>if_dir_read\<close> and \<open>if_dir_write\<close> test neither that the path is a directory nor the permissions of the caller: a plain file that its owner
  may read passes.
\<close>

lemma dir_read_takes_files: "if_isfile (Some 0x8100) = 1" "if_dir_read (Some 0x8100) = 1"
  by (simp_all add: if_isfile_def S_ISREG_def if_dir_read_def)

end
