(* ===== verification/G_String.thy ===== *)
theory G_String
  imports C_Strings
begin

text \<open>
  \<open>g_string.c\<close>: words of a line, replacement in a buffer, substrings. The two routines that
  walk a buffer (\<open>get_string_wards_by_pos\<close>, \<open>string_replace\<close>) are modelled over the array
  the pointer runs through, terminator and all: a read behind the array is \<^const>\<open>None\<close>.
  The reference definitions are \<open>words\<close> and \<open>replace_all\<close>.
\<close>

section \<open>Words\<close>

text \<open>The separator test shared by \<open>get_string_wards_count\<close> and \<open>get_string_wards_by_pos\<close>.\<close>

definition ward_sep :: "char \<Rightarrow> bool" where
  "ward_sep c = (c = SPC \<or> c = LF \<or> c = TAB)"

lemma ward_sep_NUL [simp]: "\<not> ward_sep NUL"
  by (simp add: ward_sep_def)

text \<open>The loop of \<open>get_string_wards_count\<close>; the flag is \<open>_state == IN_WARD\<close>.\<close>

fun wards_count_loop :: "bool \<Rightarrow> nat \<Rightarrow> cstring \<Rightarrow> nat" where
  "wards_count_loop inw num [] = num"
| "wards_count_loop inw num (c # s) =
     (if ward_sep c then wards_count_loop False num s
      else if \<not> inw then wards_count_loop True (num + 1) s
      else wards_count_loop True num s)"

definition get_string_wards_count :: "cstring \<Rightarrow> nat" where
  "get_string_wards_count s = wards_count_loop False 0 s"

text \<open>
  The inner loop of \<open>get_string_wards_by_pos\<close>: copy the word at \<open>_tmp\<close>. It returns from
  the function with a value (at a separator, or when the buffer is full), or it leaves the
  loop at the terminator.
\<close>

fun ward_copy :: "nat \<Rightarrow> cstring \<Rightarrow> char list \<Rightarrow> (nat option \<times> cstring \<times> char list) option" where
  "ward_copy sz buf [] = None"
| "ward_copy sz buf (c # m) =
     (if c = NUL then Some (None, buf, c # m)
      else if ward_sep c then Some (Some (length buf), buf, c # m)
      else if sz \<le> length buf then Some (Some sz, buf, c # m)
      else ward_copy sz (buf @ [c]) m)"

lemma ward_copy_length: "ward_copy sz buf m = Some (r, b, m') \<Longrightarrow> length m' \<le> length m"
  by (induction sz buf m rule: ward_copy.induct) (auto split: if_splits)

text \<open>
  The function itself. When the copied word ends at the terminator the outer loop steps
  over the terminator (\<open>_tmp++\<close>) and goes on reading what lies behind it.
\<close>

function wards_by_pos_loop ::
  "nat \<Rightarrow> nat \<Rightarrow> bool \<Rightarrow> nat \<Rightarrow> cstring \<Rightarrow> char list \<Rightarrow> (nat \<times> cstring) option" where
  "wards_by_pos_loop pos sz inw num buf [] = None"
| "wards_by_pos_loop pos sz inw num buf (c # m) =
     (if c = NUL then Some (0, buf)
      else if ward_sep c then wards_by_pos_loop pos sz False num buf m
      else if inw then wards_by_pos_loop pos sz True num buf m
      else if Suc num = pos then
        (case ward_copy sz buf (c # m) of
           None \<Rightarrow> None
         | Some (Some r, buf', _) \<Rightarrow> Some (r, buf')
         | Some (None, buf', m') \<Rightarrow> wards_by_pos_loop pos sz True (Suc num) buf' (tl m'))
      else wards_by_pos_loop pos sz True (Suc num) buf m)"
  by pat_completeness auto
termination
proof (relation "measure (\<lambda>(pos, sz, inw, num, buf, m). length m)")
  fix pos sz :: nat and inw :: bool and num :: nat and buf :: cstring and c :: char
    and m :: "char list" and x2 x y xa ya
  assume "ward_copy sz buf (c # m) = Some x2" "(x, y) = x2" "(xa, ya) = y"
  then have "length ya \<le> length (c # m)" using ward_copy_length by blast
  then show "((pos, sz, True, Suc num, xa, tl ya), pos, sz, inw, num, buf, c # m)
      \<in> measure (\<lambda>(pos, sz, inw, num, buf, m). length m)" by simp
qed auto

definition get_string_wards_by_pos :: "char list \<Rightarrow> nat \<Rightarrow> nat \<Rightarrow> (nat \<times> cstring) option" where
  "get_string_wards_by_pos mem pos sz = wards_by_pos_loop pos sz False 0 [] mem"

text \<open>The reference: the maximal runs of non-separators.\<close>

function words :: "cstring \<Rightarrow> cstring list" where
  "words [] = []"
| "words (c # s) =
     (if ward_sep c then words s
      else (c # takeWhile (\<lambda>x. \<not> ward_sep x) s) # words (dropWhile (\<lambda>x. \<not> ward_sep x) s))"
  by pat_completeness auto
termination
  by (relation "measure length") (auto simp: le_imp_less_Suc length_dropWhile_le)

lemma words_in: "words (dropWhile (\<lambda>x. \<not> ward_sep x) (c # s)) =
    (if ward_sep c then words s else words (dropWhile (\<lambda>x. \<not> ward_sep x) s))"
  by simp

lemma wards_count_loop_words:
  "wards_count_loop inw num s =
     num + length (words (if inw then dropWhile (\<lambda>x. \<not> ward_sep x) s else s))"
proof (induction s arbitrary: inw num)
  case (Cons c s)
  show ?case by (cases inw) (simp_all add: Cons.IH)
qed simp

lemma wards_count_words: "get_string_wards_count s = length (words s)"
  by (simp add: get_string_wards_count_def wards_count_loop_words)

text \<open>The text up to the next separator, split off a string.\<close>

lemma ward_copy_word:
  assumes "\<And>x. x \<in> set w \<Longrightarrow> \<not> ward_sep x \<and> x \<noteq> NUL" and "d = NUL \<or> ward_sep d"
    and "length buf \<le> sz"
  shows "ward_copy sz buf (w @ d # t) =
     (if length buf + length w \<le> sz
      then Some (if d = NUL then None else Some (length buf + length w), buf @ w, d # t)
      else Some (Some sz, take sz (buf @ w), drop (sz - length buf) w @ d # t))"
  using assms
proof (induction w arbitrary: buf)
  case (Cons x w)
  show ?case
  proof (cases "sz \<le> length buf")
    case True
    with Cons.prems show ?thesis by simp
  next
    case False
    have "ward_copy sz (buf @ [x]) (w @ d # t) =
       (if length (buf @ [x]) + length w \<le> sz
        then Some (if d = NUL then None else Some (length (buf @ [x]) + length w), (buf @ [x]) @ w, d # t)
        else Some (Some sz, take sz ((buf @ [x]) @ w), drop (sz - length (buf @ [x])) w @ d # t))"
      by (rule Cons.IH) (use Cons.prems False in auto)
    moreover obtain k where "sz - length buf = Suc k" using False by (cases "sz - length buf") auto
    moreover from this have "sz - Suc (length buf) = k" by simp
    ultimately show ?thesis using False Cons.prems by simp
  qed
qed auto

text \<open>Once the word has been copied, nothing that lies behind changes the buffer.\<close>

lemma wards_by_pos_done:
  "pos \<le> num \<Longrightarrow> NUL \<in> set m \<Longrightarrow> wards_by_pos_loop pos sz inw num buf m = Some (0, buf)"
  by (induction m arbitrary: inw num) auto

lemma split_word:
  fixes s :: cstring
  assumes "NUL \<notin> set s"
  obtains w d t' where "w = takeWhile (\<lambda>x. \<not> ward_sep x) s"
    and "s @ NUL # t = w @ d # t'" and "d = NUL \<or> ward_sep d"
    and "\<And>x. x \<in> set w \<Longrightarrow> \<not> ward_sep x \<and> x \<noteq> NUL"
    and "d = NUL \<Longrightarrow> t' = t"
proof -
  let ?P = "\<lambda>x. \<not> ward_sep x"
  have w: "x \<in> set (takeWhile ?P s) \<Longrightarrow> ?P x \<and> x \<noteq> NUL" for x
    using assms set_takeWhileD by fastforce
  show ?thesis
  proof (cases "dropWhile ?P s")
    case Nil
    then have "takeWhile ?P s = s" by (metis append_Nil2 takeWhile_dropWhile_id)
    with w that [of s NUL t] show ?thesis by simp
  next
    case (Cons d r)
    then have "s @ NUL # t = takeWhile ?P s @ d # (r @ NUL # t)"
      by (metis append.assoc append_Cons takeWhile_dropWhile_id)
    moreover have "ward_sep d" using hd_dropWhile [of ?P s] Cons by simp
    moreover have "d \<noteq> NUL" using Cons assms set_dropWhileD [of d ?P s] by auto
    ultimately show ?thesis
      by (intro that [of "takeWhile ?P s" d "r @ NUL # t"]) (use w in auto)
  qed
qed

lemma wards_by_pos_words:
  assumes "NUL \<notin> set s" and "NUL \<in> set t" and "num < pos"
  shows "map_option snd (wards_by_pos_loop pos sz inw num [] (s @ NUL # t)) =
    Some (let ws = words (if inw then dropWhile (\<lambda>x. \<not> ward_sep x) s else s)
          in if pos - num \<le> length ws then take sz (ws ! (pos - num - 1)) else [])"
  using assms
proof (induction s arbitrary: inw num)
  case Nil
  then show ?case by simp
next
  case (Cons c s)
  then have c: "c \<noteq> NUL" and s: "NUL \<notin> set s" by auto
  show ?case
  proof (cases "\<not> inw \<and> \<not> ward_sep c \<and> Suc num = pos")
    case False
    then consider "ward_sep c" | "\<not> ward_sep c" "inw" | "\<not> ward_sep c" "\<not> inw" "Suc num \<noteq> pos"
      by auto
    then show ?thesis
    proof cases
      case 1
      with Cons.IH [OF s Cons.prems(2,3), of False] c show ?thesis
        by (auto simp: Let_def split: if_splits)
    next
      case 2
      with Cons.IH [OF s Cons.prems(2,3), of True] c show ?thesis
        by (auto simp: Let_def split: if_splits)
    next
      case 3
      with Cons.prems(3) have "Suc num < pos" by simp
      with Cons.IH [of "Suc num" True] 3 c s Cons.prems(2) show ?thesis
        by (auto simp: Let_def nth_Cons')
    qed
  next
    case True
    obtain w d t' where w: "w = takeWhile (\<lambda>x. \<not> ward_sep x) (c # s)"
      and eq: "(c # s) @ NUL # t = w @ d # t'" and d: "d = NUL \<or> ward_sep d"
      and ok: "\<And>x. x \<in> set w \<Longrightarrow> \<not> ward_sep x \<and> x \<noteq> NUL" and t': "d = NUL \<Longrightarrow> t' = t"
      using split_word [OF Cons.prems(1)] by metis
    have cp: "ward_copy sz [] (w @ d # t') =
       (if length w \<le> sz then Some (if d = NUL then None else Some (length w), w, d # t')
        else Some (Some sz, take sz w, drop sz w @ d # t'))"
      using ward_copy_word [where buf = "[]" and sz = sz and t = t', OF ok d] by simp
    have run: "map_option snd (wards_by_pos_loop pos sz inw num [] ((c # s) @ NUL # t)) = Some (take sz w)"
    proof -
      have "wards_by_pos_loop pos sz inw num [] ((c # s) @ NUL # t) =
        (case ward_copy sz [] ((c # s) @ NUL # t) of
           None \<Rightarrow> None
         | Some (Some r, buf', _) \<Rightarrow> Some (r, buf')
         | Some (None, buf', m') \<Rightarrow> wards_by_pos_loop pos sz True (Suc num) buf' (tl m'))"
        using True c by simp
      then show ?thesis
        unfolding eq cp using t' Cons.prems(2) True
        by (auto simp: wards_by_pos_done)
    qed
    have "words (c # s) ! 0 = w" "1 \<le> length (words (c # s))"
      using True w by auto
    with run True show ?thesis by (auto simp: Let_def)
  qed
qed

text \<open>
  The word a caller finds in its zeroed buffer. The callers pass line buffers that have
  been cleared, so that a second NUL follows the line; \<open>get_ward_mem\<close> shows that nothing
  else about the memory behind the line matters.
\<close>

definition get_ward :: "cstring \<Rightarrow> nat \<Rightarrow> nat \<Rightarrow> cstring" where
  "get_ward s pos sz =
     (case get_string_wards_by_pos (s @ [NUL, NUL]) pos sz of
        None \<Rightarrow> [] | Some (_, buf) \<Rightarrow> buf)"

lemma get_ward_mem:
  assumes "NUL \<notin> set s" and "NUL \<in> set t" and "0 < pos"
  shows "map_option snd (get_string_wards_by_pos (s @ NUL # t) pos sz) = Some (get_ward s pos sz)"
proof -
  have "map_option snd (get_string_wards_by_pos (s @ NUL # t) pos sz) =
        map_option snd (get_string_wards_by_pos (s @ NUL # [NUL]) pos sz)"
    using wards_by_pos_words [OF assms(1,2,3), of sz False]
      wards_by_pos_words [OF assms(1) _ assms(3), of "[NUL]" sz False]
    by (auto simp: get_string_wards_by_pos_def)
  moreover have "\<exists>r. get_string_wards_by_pos (s @ [NUL, NUL]) pos sz = Some r"
    using wards_by_pos_words [OF assms(1) _ assms(3), of "[NUL]" sz False]
    by (auto simp: get_string_wards_by_pos_def)
  ultimately show ?thesis by (auto simp: get_ward_def split: prod.splits)
qed

lemma get_ward_words:
  assumes "NUL \<notin> set s" and "0 < pos"
  shows "get_ward s pos sz =
    (if pos \<le> length (words s) then take sz (words s ! (pos - 1)) else [])"
  using get_ward_mem [OF assms(1) _ assms(2), of "[NUL]" sz]
    wards_by_pos_words [OF assms(1) _ assms(2), of "[NUL]" sz False]
  by (simp add: get_string_wards_by_pos_def Let_def split: if_splits)

lemma words_word:
  "w \<noteq> [] \<Longrightarrow> (\<And>x. x \<in> set w \<Longrightarrow> \<not> ward_sep x) \<Longrightarrow> ward_sep d \<Longrightarrow> words (w @ d # s) = w # words s"
proof -
  assume w: "w \<noteq> []" "\<And>x. x \<in> set w \<Longrightarrow> \<not> ward_sep x" and d: "ward_sep d"
  then obtain c w' where c: "w = c # w'" by (cases w) auto
  have "takeWhile (\<lambda>x. \<not> ward_sep x) (w' @ d # s) = w'"
    by (rule takeWhile_stop) (use w c d in auto)
  moreover have "dropWhile (\<lambda>x. \<not> ward_sep x) (w' @ d # s) = d # s"
    by (rule dropWhile_stop) (use w c d in auto)
  ultimately show ?thesis using c w(2) d by simp
qed

lemma words_sep [simp]: "ward_sep d \<Longrightarrow> words (d # s) = words s"
  by simp

lemma words_nosep: "w \<in> set (words s) \<Longrightarrow> w \<noteq> [] \<and> (\<forall>c \<in> set w. \<not> ward_sep c)"
proof (induction s rule: words.induct)
  case (2 c s)
  show ?case
  proof (cases "ward_sep c")
    case True
    with "2.IH"(1) "2.prems" show ?thesis by simp
  next
    case False
    with "2.prems" consider "w = c # takeWhile (\<lambda>x. \<not> ward_sep x) s"
      | "w \<in> set (words (dropWhile (\<lambda>x. \<not> ward_sep x) s))" by auto
    then show ?thesis
    proof cases
      case 1
      with False show ?thesis by (auto dest: set_takeWhileD)
    next
      case 2
      then show ?thesis by (rule "2.IH"(2) [OF False])
    qed
  qed
qed simp

declare words.simps(2) [simp del]

text \<open>
  \<open>get_string_wards_by_pos\<close> against the reference: on a line (free of NUL) held in a
  buffer with a second NUL behind it, the routine always returns, and it leaves in the
  caller's buffer exactly the \<open>pos\<close>-th word cut to the buffer size, or an empty string when
  \<open>get_string_wards_count\<close> says there is no such word.
\<close>

theorem wards_by_pos_correct:
  assumes "NUL \<notin> set line" and "NUL \<in> set behind" and "0 < pos"
  shows "\<exists>ret. get_string_wards_by_pos (line @ NUL # behind) pos sz =
     Some (ret, if pos \<le> get_string_wards_count line then take sz (words line ! (pos - 1)) else [])"
proof -
  have "map_option snd (get_string_wards_by_pos (line @ NUL # behind) pos sz) =
      Some (if pos \<le> get_string_wards_count line then take sz (words line ! (pos - 1)) else [])"
    using get_ward_mem [OF assms] get_ward_words [OF assms(1,3)]
    by (simp add: wards_count_words)
  then show ?thesis by auto
qed

theorem wards_by_pos_correct_witness:
  "\<exists>ret. get_string_wards_by_pos (''KEY = v'' @ NUL # [NUL]) 3 128 = Some (ret, ''v'')"
proof -
  have w: "words ''KEY = v'' = [''KEY'', ''='', ''v'']" by (simp add: words.simps ward_sep_def)
  have n: "get_string_wards_count ''KEY = v'' = 3"
    by (simp add: get_string_wards_count_def ward_sep_def)
  show ?thesis using wards_by_pos_correct [of "''KEY = v''" "[NUL]" 3 128]
    unfolding n w by simp
qed


section \<open>sub_string and get_string_letter_count\<close>

text \<open>
  \<open>sub_string\<close> returns its code and the buffer. The undefined cases: a start pointer before
  the string (\<open>__start < 1\<close> when counting from the left, \<open>__start < 0\<close> from the right), a
  negative length, which \<open>strncpy\<close> takes as a huge one, and a direction other than 0 and 1,
  for which \<open>_start\<close> is never set.
\<close>

definition sub_string :: "cstring \<Rightarrow> int \<Rightarrow> int \<Rightarrow> int \<Rightarrow> nat \<Rightarrow> (int \<times> cstring) option" where
  "sub_string src direction start len sz =
     (let n = int (length src) in
      if n < start \<or> n < len then Some (-1, [])
      else if direction = 0 \<and> n < start + len then Some (-1, [])
      else if direction = 1 \<and> start < len then Some (-1, [])
      else if len < 0 then None
      else if direction = 0 then
        (if start < 1 then None
         else Some (0, take (min sz (nat len)) (drop (nat start - 1) src)))
      else if direction = 1 then
        (if start < 0 then None
         else Some (0, take (min sz (nat len)) (drop (nat (n - start)) src)))
      else None)"

fun get_string_letter_count :: "cstring \<Rightarrow> char \<Rightarrow> nat" where
  "get_string_letter_count [] c = 0"
| "get_string_letter_count (x # s) c =
     (if x = c then Suc (get_string_letter_count s c) else get_string_letter_count s c)"

lemma get_string_letter_count_eq: "get_string_letter_count s c = count_list s c"
  by (induction s) auto

lemma get_string_letter_count_pos: "0 < get_string_letter_count s c \<longleftrightarrow> c \<in> set s"
  by (induction s) auto

text \<open>
  What a successful call delivers, from either end. From the left the last character of the
  string can never be part of the result, since the guard asks for
  \<open>start + len \<le> strlen(src)\<close> although positions count from 1.
\<close>

lemma sub_string_left:
  assumes "sub_string src 0 start len sz = Some (0, buf)"
  shows "1 \<le> start \<and> 0 \<le> len \<and> start + len \<le> int (length src) \<and>
    buf = take (min sz (nat len)) (drop (nat start - 1) src)"
  using assms by (auto simp: sub_string_def Let_def split: if_splits)

lemma sub_string_right:
  assumes "sub_string src 1 start len sz = Some (0, buf)"
  shows "0 \<le> len \<and> len \<le> start \<and> start \<le> int (length src) \<and>
    buf = take (min sz (nat len)) (drop (length src - nat start) src)"
  using assms by (auto simp: sub_string_def Let_def nat_diff_distrib' split: if_splits)

section \<open>string_replace\<close>

text \<open>
  The inner loop \<open>while (*_cur && *_son_cur)\<close>: \<open>_cur\<close> is an index into the source array, the
  rest of the pattern stands for \<open>_son_cur\<close>.
\<close>

fun replace_match :: "char list \<Rightarrow> nat \<Rightarrow> cstring \<Rightarrow> (nat \<times> cstring) option" where
  "replace_match mem cur pat =
     (case rd mem cur of
        None \<Rightarrow> None
      | Some c \<Rightarrow>
          (case pat of
             [] \<Rightarrow> Some (cur, [])
           | f # fs \<Rightarrow>
               if c = NUL then Some (cur, f # fs)
               else if c \<noteq> f then Some (cur, f # fs)
               else replace_match mem (Suc cur) fs))"

declare replace_match.simps [simp del]

text \<open>
  The outer loop. \<open>out\<close> is what has been written to \<open>__buf\<close>, so that \<open>_left\<close> is
  \<open>sz - length out\<close> and the next write goes to \<open>__buf + __size - _left\<close>. The copy loop
  \<open>while (_left && _prev <= _cur)\<close> moves the characters from \<open>_prev\<close> through \<open>_cur\<close>, the
  terminator included, and \<open>_cur++\<close> may step over the terminator. The loop ends at a NUL;
  it does not end when the pattern and the replacement are empty.
\<close>

partial_function (option) replace_loop ::
  "char list \<Rightarrow> cstring \<Rightarrow> cstring \<Rightarrow> nat \<Rightarrow> nat \<Rightarrow> nat \<Rightarrow> char list \<Rightarrow> char list option" where
  "replace_loop mem pat repl sz cur prev out =
     (case rd mem cur of
        None \<Rightarrow> None
      | Some c \<Rightarrow>
          if c = NUL then Some out
          else
            (case replace_match mem cur pat of
               None \<Rightarrow> None
             | Some (cur', []) \<Rightarrow>
                 if length repl < sz - length out
                 then replace_loop mem pat repl sz cur' cur' (out @ repl)
                 else Some (out @ take (sz - length out - 1) repl)
             | Some (cur', f # fs) \<Rightarrow>
                 (let k = min (sz - length out) (Suc cur' - prev)
                  in replace_loop mem pat repl sz (Suc cur') (prev + k)
                       (out @ take k (drop prev mem)))))"

text \<open>
  \<open>__buf\<close> was cleared before the loop, so the string it holds ends at the first NUL written
  or at the first byte not written; with \<open>sz\<close> non-NUL bytes written it has no terminator
  and \<open>strlen(__buf)\<close> reads behind it. The result is the string in \<open>__buf\<close>; the function
  returns its length.
\<close>

definition string_replace :: "char list \<Rightarrow> cstring \<Rightarrow> cstring \<Rightarrow> nat \<Rightarrow> cstring option" where
  "string_replace mem pat repl sz =
     (case replace_loop mem pat repl sz 0 0 [] of
        None \<Rightarrow> None
      | Some out \<Rightarrow>
          if length out < sz \<or> NUL \<in> set out then Some (takeWhile (\<lambda>c. c \<noteq> NUL) out) else None)"

text \<open>The reference: replace the occurrences from left to right.\<close>

function replace_all :: "cstring \<Rightarrow> cstring \<Rightarrow> cstring \<Rightarrow> cstring" where
  "replace_all pat repl s =
     (if pat = [] \<or> s = [] then s
      else if take (length pat) s = pat
      then repl @ replace_all pat repl (drop (length pat) s)
      else hd s # replace_all pat repl (tl s))"
  by pat_completeness auto
termination
  by (relation "measure (\<lambda>(pat, repl, s). length s)") (auto simp: neq_Nil_conv)

declare replace_all.simps [simp del]

lemma replace_all_Nil [simp]: "replace_all pat repl [] = []"
  by (simp add: replace_all.simps)

lemma replace_all_hit:
  "pat \<noteq> [] \<Longrightarrow> replace_all pat repl (pat @ s) = repl @ replace_all pat repl s"
  by (subst replace_all.simps) auto

lemma replace_all_miss:
  "pat \<noteq> [] \<Longrightarrow> take (length pat) (c # s) \<noteq> pat \<Longrightarrow>
   replace_all pat repl (c # s) = c # replace_all pat repl s"
  by (subst replace_all.simps) auto

text \<open>
  The matcher does not back up: when a partial match fails, the characters it has passed are
  not looked at again. \<open>no_false_start\<close> says that no non-empty proper prefix of the pattern is
  followed by the pattern's first character, which holds for the date marks of the path
  templates unless two opening brackets follow each other inside a mark.
\<close>

fun no_restart :: "char \<Rightarrow> cstring \<Rightarrow> cstring \<Rightarrow> bool" where
  "no_restart h [] s = True"
| "no_restart h (x # q) [] = True"
| "no_restart h (x # q) (d # s) = (d \<noteq> h \<and> (d = x \<longrightarrow> no_restart h q s))"

fun no_false_start :: "cstring \<Rightarrow> cstring \<Rightarrow> bool" where
  "no_false_start pat [] = True"
| "no_false_start pat (c # s) =
     ((c = hd pat \<longrightarrow> no_restart (hd pat) (tl pat) s) \<and> no_false_start pat s)"

lemma no_false_start_drop: "no_false_start pat s \<Longrightarrow> no_false_start pat (drop n s)"
  by (induction s arbitrary: n) (auto simp: drop_Cons split: nat.splits)

text \<open>What the matcher finds at position \<open>length u\<close> of the array.\<close>

lemma replace_match_hit:
  "NUL \<notin> set pat \<Longrightarrow> r \<noteq> [] \<Longrightarrow>
   replace_match (u @ pat @ r) (length u) pat = Some (length u + length pat, [])"
proof (induction pat arbitrary: u)
  case Nil
  then show ?case by (cases r) (simp_all add: replace_match.simps)
next
  case (Cons f pat)
  have "replace_match ((u @ [f]) @ pat @ r) (length (u @ [f])) pat =
      Some (length (u @ [f]) + length pat, [])"
    by (rule Cons.IH) (use Cons.prems in auto)
  with Cons.prems show ?case by (subst replace_match.simps) auto
qed

lemma replace_match_miss:
  assumes "NUL \<notin> set s" and "NUL \<notin> set pat" and "take (length pat) s \<noteq> pat"
  shows "\<exists>p x q. pat = p @ x # q \<and> length p \<le> length s \<and> take (length p) s = p \<and>
     replace_match (u @ s @ NUL # t) (length u) pat = Some (length u + length p, x # q)"
  using assms
proof (induction pat arbitrary: u s)
  case (Cons f pat)
  show ?case
  proof (cases "s = [] \<or> hd s \<noteq> f")
    case True
    then have "replace_match (u @ s @ NUL # t) (length u) (f # pat) = Some (length u, f # pat)"
      by (cases s) (auto simp: replace_match.simps)
    then show ?thesis by (intro exI [of _ "[]"]) auto
  next
    case False
    then obtain s' where s: "s = f # s'" by (cases s) auto
    with Cons.prems have "take (length pat) s' \<noteq> pat" "NUL \<notin> set s'" "NUL \<notin> set pat" by auto
    from Cons.IH [OF this(2,3,1), of "u @ [f]"] obtain p x q where
      "pat = p @ x # q" "length p \<le> length s'" "take (length p) s' = p"
      "replace_match (u @ s @ NUL # t) (Suc (length u)) pat = Some (Suc (length u) + length p, x # q)"
      unfolding s by auto
    moreover have "replace_match (u @ s @ NUL # t) (length u) (f # pat)
        = replace_match (u @ s @ NUL # t) (Suc (length u)) pat"
      using Cons.prems(2) by (subst replace_match.simps) (auto simp: s)
    ultimately show ?thesis
      by (intro exI [of _ "f # p"] exI [of _ x] exI [of _ q]) (simp add: s)
  qed
qed simp

lemma replace_all_no_NUL:
  "NUL \<notin> set repl \<Longrightarrow> NUL \<notin> set s \<Longrightarrow> NUL \<notin> set (replace_all pat repl s)"
proof (induction pat repl s rule: replace_all.induct)
  case (1 pat repl s)
  have d: "NUL \<notin> set (drop (length pat) s)" using "1.prems"(2) by (meson in_set_dropD)
  have t: "s \<noteq> [] \<Longrightarrow> hd s \<noteq> NUL \<and> NUL \<notin> set (tl s)" using "1.prems"(2) by (cases s) auto
  show ?case
    using "1.IH" "1.prems" d t by (subst replace_all.simps) (auto split: if_splits)
qed

lemma replace_all_skip:
  "pat \<noteq> [] \<Longrightarrow> (\<And>c. c \<in> set p \<Longrightarrow> c \<noteq> hd pat) \<Longrightarrow> replace_all pat repl (p @ s) = p @ replace_all pat repl s"
proof (induction p)
  case (Cons c p)
  have "take (length pat) (c # p @ s) \<noteq> pat"
    using Cons.prems(1) Cons.prems(2) [of c] by (cases pat) auto
  then have "replace_all pat repl (c # p @ s) = c # replace_all pat repl (p @ s)"
    using Cons.prems(1) by (rule replace_all_miss [rotated])
  with Cons show ?case by simp
qed simp

lemma no_restartD: "no_restart h (p @ x # q) (p @ d # s) \<Longrightarrow> d \<noteq> h"
  by (induction p) auto

lemma no_false_startD:
  "no_false_start pat (p @ d # s) \<Longrightarrow> p \<noteq> [] \<Longrightarrow> pat = p @ x # q \<Longrightarrow> d \<noteq> hd pat"
  by (cases p) (auto dest: no_restartD)

lemma replace_loop_correct:
  assumes "pat \<noteq> []" and "hd pat \<notin> set (tl pat)" and "NUL \<notin> set pat"
    and "NUL \<notin> set s" and "no_false_start pat s"
    and "length out + length (replace_all pat repl s) < sz"
  shows "\<exists>z. set z \<subseteq> {NUL} \<and>
     (length (out @ replace_all pat repl s @ z) < sz \<or> z \<noteq> []) \<and>
     replace_loop (u @ s @ NUL # NUL # t) pat repl sz (length u) (length u) out
       = Some (out @ replace_all pat repl s @ z)"
  using assms
proof (induction s arbitrary: u out rule: length_induct)
  case (1 s)
  let ?mem = "u @ s @ NUL # NUL # t"
  note prems = "1.prems"
  show ?case
  proof (cases "s = []")
    case True
    with prems show ?thesis by (intro exI [of _ "[]"]) (simp add: replace_loop.simps)
  next
    case ne: False
    then have rd: "rd ?mem (length u) = Some (hd s)" "hd s \<noteq> NUL"
      using prems(4) by (cases s; auto)+
    show ?thesis
    proof (cases "take (length pat) s = pat")
      case True
      define r where "r = drop (length pat) s"
      have s: "s = pat @ r" using True unfolding r_def by (metis append_take_drop_id)
      have ra: "replace_all pat repl s = repl @ replace_all pat repl r"
        unfolding s by (rule replace_all_hit) (rule prems(1))
      have room: "length repl < sz - length out" using prems(6) ra by simp
      have m: "replace_match ?mem (length u) pat = Some (length u + length pat, [])"
        unfolding s using replace_match_hit [OF prems(3), of "r @ NUL # NUL # t" u] by simp
      have step: "replace_loop ?mem pat repl sz (length u) (length u) out =
          replace_loop ?mem pat repl sz (length (u @ pat)) (length (u @ pat)) (out @ repl)"
        using rd m room by (subst replace_loop.simps) simp
      have "length r < length s" using s prems(1) by simp
      moreover have "no_false_start pat r"
        using prems(5) unfolding r_def by (rule no_false_start_drop)
      moreover have "NUL \<notin> set r" using prems(4) s by simp
      moreover have "length (out @ repl) + length (replace_all pat repl r) < sz"
        using prems(6) ra by simp
      ultimately obtain z where z: "set z \<subseteq> {NUL}"
        "length ((out @ repl) @ replace_all pat repl r @ z) < sz \<or> z \<noteq> []"
        "replace_loop ((u @ pat) @ r @ NUL # NUL # t) pat repl sz
          (length (u @ pat)) (length (u @ pat)) (out @ repl)
          = Some ((out @ repl) @ replace_all pat repl r @ z)"
        using "1.IH" prems(1,2,3) by meson
      have "?mem = (u @ pat) @ r @ NUL # NUL # t" using s by simp
      then show ?thesis using z step ra by (intro exI [of _ z]) simp
    next
      case False
      obtain p x q where p: "pat = p @ x # q" "length p \<le> length s" "take (length p) s = p"
        and m: "replace_match ?mem (length u) pat = Some (length u + length p, x # q)"
        using replace_match_miss [OF prems(4,3) False, of u "NUL # t"] by auto
      obtain d r where dr: "s @ NUL # NUL # t = p @ d # r"
        using p(2,3) by (cases "drop (length p) s")
          (metis append_take_drop_id append_Nil2 append.assoc append_Cons)+
      let ?k = "min (sz - length out) (Suc (length p))"
      have step: "replace_loop ?mem pat repl sz (length u) (length u) out =
          replace_loop ?mem pat repl sz (Suc (length u + length p)) (length u + ?k)
            (out @ take ?k (p @ d # r))"
        using rd m dr by (subst replace_loop.simps) (simp add: Let_def)
      have tl: "c \<noteq> hd pat" if "c \<in> set (tl p)" for c
        using that prems(2) p(1) by (cases p) auto
      have skip_p: "replace_all pat repl (p @ w) = p @ replace_all pat repl w"
        if "take (length pat) (p @ w) \<noteq> pat" for w
      proof (cases p)
        case (Cons a p')
        have "replace_all pat repl (a # p' @ w) = a # replace_all pat repl (p' @ w)"
          by (rule replace_all_miss) (use that prems(1) Cons in auto)
        also have "replace_all pat repl (p' @ w) = p' @ replace_all pat repl w"
          by (rule replace_all_skip) (use prems(1) tl Cons in auto)
        finally show ?thesis using Cons by simp
      qed simp
      show ?thesis
      proof (cases "length p = length s")
        case True
        then have s: "s = p" using p(3) by simp
        with dr have d: "d = NUL" "r = NUL # t" by auto
        have ra: "replace_all pat repl s = s"
          using skip_p [of "[]"] False s by simp
        have k: "?k = Suc (length p)" using prems(6) ra s by simp
        have "rd ((u @ p @ [NUL]) @ NUL # t) (length (u @ p @ [NUL])) = Some NUL"
          by (rule rd_append_length)
        then have "rd ?mem (Suc (length u + length p)) = Some NUL" using s by simp
        moreover have "take (Suc (length p)) (p @ d # r) = s @ [NUL]" using s d by simp
        ultimately have "replace_loop ?mem pat repl sz (length u) (length u) out = Some (out @ s @ [NUL])"
          unfolding step k by (subst replace_loop.simps) (simp del: append_assoc)
        with ra show ?thesis by (intro exI [of _ "[NUL]"]) simp
      next
        case less: False
        then obtain e s' where e: "drop (length p) s = e # s'"
          using p(2) by (cases "drop (length p) s") auto
        have "s = p @ drop (length p) s" using p(3) by (metis append_take_drop_id)
        then have "s = p @ e # s'" using e by simp
        then have s: "s = p @ d # s'" using dr by simp
        have dne: "p \<noteq> [] \<Longrightarrow> d \<noteq> hd pat"
          using no_false_startD [of pat p d s' x q] prems(5) p(1) s by simp
        have ra: "replace_all pat repl s = p @ d # replace_all pat repl s'"
        proof (cases "p = []")
          case True
          then show ?thesis using s replace_all_miss [OF prems(1)] False by simp
        next
          case False
          have "replace_all pat repl s = p @ replace_all pat repl (d # s')"
            unfolding s by (rule skip_p) (use \<open>take (length pat) s \<noteq> pat\<close> s in simp)
          moreover have "replace_all pat repl ([d] @ s') = [d] @ replace_all pat repl s'"
            by (rule replace_all_skip) (use prems(1) dne [OF False] in auto)
          ultimately show ?thesis by simp
        qed
        have k: "?k = Suc (length p)" using prems(6) ra by simp
        let ?u = "u @ p @ [d]"
        have step': "replace_loop ?mem pat repl sz (length u) (length u) out =
            replace_loop (?u @ s' @ NUL # NUL # t) pat repl sz (length ?u) (length ?u) (out @ p @ [d])"
          unfolding step k using s by simp
        have "length s' < length s" using s by simp
        moreover have "no_false_start pat s'"
          using no_false_start_drop [OF prems(5), of "Suc (length p)"] s by simp
        moreover have "NUL \<notin> set s'" using prems(4) s by simp
        moreover have "length (out @ p @ [d]) + length (replace_all pat repl s') < sz"
          using prems(6) ra by simp
        ultimately obtain z where "set z \<subseteq> {NUL}"
          "length ((out @ p @ [d]) @ replace_all pat repl s' @ z) < sz \<or> z \<noteq> []"
          "replace_loop (?u @ s' @ NUL # NUL # t) pat repl sz (length ?u) (length ?u) (out @ p @ [d])
            = Some ((out @ p @ [d]) @ replace_all pat repl s' @ z)"
          using "1.IH" prems(1,2,3) by meson
        with step' ra show ?thesis by (intro exI [of _ z]) simp
      qed
    qed
  qed
qed

lemma string_replace_all:
  assumes "pat \<noteq> []" and "hd pat \<notin> set (tl pat)" and "NUL \<notin> set pat"
    and "NUL \<notin> set src" and "NUL \<notin> set repl" and "no_false_start pat src"
    and "length (replace_all pat repl src) < sz"
  shows "string_replace (src @ NUL # NUL # behind) pat repl sz = Some (replace_all pat repl src)"
proof -
  obtain z where z: "set z \<subseteq> {NUL}"
    "length (replace_all pat repl src @ z) < sz \<or> z \<noteq> []"
    "replace_loop (src @ NUL # NUL # behind) pat repl sz 0 0 [] = Some (replace_all pat repl src @ z)"
    using replace_loop_correct [where u = "[]" and out = "[]" and t = behind, OF assms(1-4,6), of repl sz] assms(7)
    by auto
  have n: "NUL \<notin> set (replace_all pat repl src)"
    by (rule replace_all_no_NUL) (use assms in auto)
  have "takeWhile (\<lambda>c. c \<noteq> NUL) (replace_all pat repl src @ z) = replace_all pat repl src"
  proof (cases z)
    case Nil
    with n show ?thesis by (auto intro!: takeWhile_all)
  next
    case (Cons a z')
    with z(1) n show ?thesis by (auto intro!: takeWhile_stop)
  qed
  moreover have "NUL \<in> set z" if "z \<noteq> []" using that z(1) by (cases z) auto
  ultimately show ?thesis using z(2,3) by (auto simp: string_replace_def)
qed

text \<open>
  C28. \<open>string_replace\<close> against the reference, where it is right. For a pattern that starts with a
  character it does not contain again (as \<open>[_CUR_DATE_L]\<close> does), a source string in which no partial match of the pattern is followed by
  the pattern's first character (\<open>no_false_start\<close>), held in an array with two NULs behind it, and
  a buffer with room for the result, the routine returns and the buffer holds the source with every
  occurrence replaced. Without these premises an occurrence can be left in place: \<open>string_replace_misses\<close>.
\<close>

theorem string_replace_correct:
  assumes "pat \<noteq> []" and "hd pat \<notin> set (tl pat)" and "NUL \<notin> set pat"
    and "NUL \<notin> set src" and "NUL \<notin> set repl" and "no_false_start pat src"
    and "length (replace_all pat repl src) < sz"
  shows "string_replace (src @ NUL # NUL # behind) pat repl sz = Some (replace_all pat repl src)"
  using string_replace_all [OF assms] .

theorem string_replace_correct_witness:
  "string_replace (''/d/[_CUR_M]/x'' @ NUL # NUL # []) ''[_CUR_M]'' ''0503'' 256 = Some ''/d/0503/x''"
proof -
  have r: "replace_all ''[_CUR_M]'' ''0503'' ''/d/[_CUR_M]/x'' = ''/d/0503/x''"
    by code_simp
  have n: "no_false_start ''[_CUR_M]'' ''/d/[_CUR_M]/x''"
    by simp
  show ?thesis using string_replace_correct [of "''[_CUR_M]''" "''/d/[_CUR_M]/x''" "''0503''" 256 "[]"] n
    by (simp add: r)
qed

text \<open>
  The condition is needed: on a mark that follows an opening bracket the matcher has already
  passed the bracket that starts the mark, and leaves the mark in place.
\<close>

lemma string_replace_misses:
  "string_replace (''[[M]'' @ NUL # NUL # []) ''[M]'' ''03'' 16 = Some ''[[M]''"
  "replace_all ''[M]'' ''03'' ''[[M]'' = ''[03''"
  by (simp_all add: string_replace_def replace_loop.simps replace_match.simps replace_all.simps
      rd_def nth_Cons' Let_def)

end
