(* ===== verification/Ftp_Reply.thy ===== *)
theory Ftp_Reply
  imports G_String File_Process "HOL-Library.Sublist"
begin

text \<open>
  The control connection of the FTP client (\<open>ftpprocess.c\<close>): the receive buffer, the parser of
  replies \<open>getreply\<close>, and \<open>command\<close>. What \<open>select\<close> and \<open>read\<close> answer on the control
  connection is a script; a server that has nothing more to say lets \<open>select\<close> time out. The text of
  the last reply (\<open>_ftp_reply_string\<close>) only goes to the log and is left out.
\<close>

section \<open>State\<close>

text \<open>One round of \<open>select\<close> and \<open>read\<close>. No data is the end of the stream.\<close>

datatype ctl_answer = SelectError | SelectTimeout | SelectOther | CtlData cstring | CtlError

datatype transfer_type = TYPE_A | TYPE_E | TYPE_I | TYPE_L

text \<open>
  What \<open>select\<close> says about a data connection or a file, before a \<open>read\<close> or \<open>write\<close>: failure, time out,
  or success with the descriptor's bit.
\<close>

datatype select_answer = SelFail | SelExpired | SelReady bool

text \<open>
  The static variables. \<open>ftp_cout\<close> and \<open>ftp_data\<close> tell whether the stream and the data socket are
  open, \<open>ftp_buf\<close> is \<open>pbuf[0..len)\<close> (the rest of the array is zero), \<open>ftp_pasv\<close> the whole
  array. \<open>ctl_in\<close> is the script of the control connection, \<open>ctl_out\<close> what was sent. The rest is
  the world: the results of the socket and file calls in their order (\<open>sys_in\<close>; a call without an
  answer fails), the own address as \<open>getsockname\<close> tells it, the data connection's reads and
  writes, the local file's reads and writes, the local files, and what the server got as data.
\<close>

record ftp =
  ftp_if_conn :: bool
  ftp_cout :: bool
  ftp_data :: bool
  ftp_cp_end :: bool
  ftp_code :: int
  ftp_buf :: cstring
  ftp_pasv :: cstring
  ftp_passive_mode :: bool
  ftp_sendport :: int
  ftp_cur_type :: transfer_type
  ftp_data_addr :: "(32 word \<times> 16 word) option"
  ctl_in :: "ctl_answer list"
  ctl_out :: "cstring list"
  sys_in :: "bool list"
  own_addr :: cstring
  net_in :: "(select_answer \<times> read_result) list"
  net_out :: "(select_answer \<times> write_result) list"
  file_in :: "read_result list"
  file_out :: "write_result list"
  local_files :: "cstring \<rightharpoonup> cstring"
  data_out :: "(cstring \<times> cstring) list"

text \<open>The values the static variables start with, in a silent world.\<close>

definition ftp_start :: ftp where
  "ftp_start =
     \<lparr>ftp_if_conn = False, ftp_cout = False, ftp_data = False, ftp_cp_end = False, ftp_code = 0, ftp_buf = [],
      ftp_pasv = replicate 64 NUL, ftp_passive_mode = False, ftp_sendport = -1, ftp_cur_type = TYPE_I,
      ftp_data_addr = None, ctl_in = [], ctl_out = [], sys_in = [], own_addr = [], net_in = [], net_out = [],
      file_in = [], file_out = [], local_files = Map.empty, data_out = []\<rparr>"

definition lostpeer :: "ftp \<Rightarrow> ftp" where
  "lostpeer f = (if ftp_if_conn f then f\<lparr>ftp_cout := False, ftp_data := False, ftp_if_conn := False\<rparr> else f)"

abbreviation "FTP_BUF_SIZE \<equiv> 2048 :: nat"

section \<open>Receiving\<close>

text \<open>The string an array of characters holds.\<close>

definition c_str :: "cstring \<Rightarrow> cstring" where
  "c_str a = takeWhile (\<lambda>c. c \<noteq> NUL) a"

datatype fill_end = HasLine | Lost | TimedOut

text \<open>
  The loop that reads until the buffer holds a line. Data behind the end of the array, or an array
  without its NUL, is undefined behaviour.
\<close>

fun fill :: "ctl_answer list \<Rightarrow> cstring \<Rightarrow> (fill_end \<times> cstring \<times> ctl_answer list) option" where
  "fill ans b =
     (if LF \<in> set (c_str b) then Some (HasLine, b, ans)
      else case ans of
        [] \<Rightarrow> Some (TimedOut, b, [])
      | a # as \<Rightarrow>
          (case a of
             SelectTimeout \<Rightarrow> Some (TimedOut, b, as)
           | CtlData d \<Rightarrow>
               let b' = b @ take FTP_BUF_SIZE d in
               if d = [] then Some (Lost, [], as)
               else if FTP_BUF_SIZE < length b' \<or> (length b' = FTP_BUF_SIZE \<and> NUL \<notin> set b') then None
               else fill as b'
           | _ \<Rightarrow> Some (Lost, [], as)))"

declare fill.simps [simp del]

section \<open>One line of a reply\<close>

text \<open>
  The local variables of the scanning loop: \<open>dig\<close>, \<open>n\<close>, the code so far, \<open>pflag\<close>, the
  address buffer with its position \<open>px\<close>, and \<open>continuation\<close>.
\<close>

record reply_scan =
  rs_dig :: nat
  rs_n :: int
  rs_code :: int
  rs_pflag :: nat
  rs_px :: nat
  rs_pasv :: cstring
  rs_cont :: nat

definition schar :: "char \<Rightarrow> int" where
  "schar c = (if (of_char c :: int) < 128 then of_char c else of_char c - 256)"

text \<open>The code number, and the address of a 227 reply.\<close>

definition scan_code :: "char \<Rightarrow> reply_scan \<Rightarrow> reply_scan" where
  "scan_code c s = (if rs_dig s < 4 \<and> is_digit c then s\<lparr>rs_code := rs_code s * 10 + digit_val c\<rparr> else s)"

definition scan_flag :: "char \<Rightarrow> reply_scan \<Rightarrow> reply_scan" where
  "scan_flag c s =
     (let s1 = (if rs_pflag s = 0 \<and> rs_code s = 227 then s\<lparr>rs_pflag := 1\<rparr> else s)
      in if 4 < rs_dig s1 \<and> rs_pflag s1 = 1 \<and> is_digit c then s1\<lparr>rs_pflag := 2\<rparr> else s1)"

definition scan_pasv :: "char \<Rightarrow> reply_scan \<Rightarrow> reply_scan" where
  "scan_pasv c s =
     (if rs_pflag s \<noteq> 2 then s
      else if c \<noteq> CR \<and> c \<noteq> CHR '')'' then
        (if rs_px s < 63 then s\<lparr>rs_pasv := (rs_pasv s)[rs_px s := c], rs_px := rs_px s + 1\<rparr> else s)
      else s\<lparr>rs_pasv := (rs_pasv s)[rs_px s := NUL], rs_pflag := 3\<rparr>)"

text \<open>A line is continued when a dash follows its code, or when another whole line is buffered.\<close>

definition scan_cont :: "char \<Rightarrow> cstring \<Rightarrow> reply_scan \<Rightarrow> reply_scan" where
  "scan_cont c p s =
     (if rs_dig s = 4 \<and> (c = CHR ''-'' \<or> 2 \<le> get_string_letter_count (c_str p) LF)
      then s\<lparr>rs_cont := rs_cont s + 1\<rparr> else s)"

definition scan_char :: "char \<Rightarrow> cstring \<Rightarrow> reply_scan \<Rightarrow> reply_scan" where
  "scan_char c p s =
     (let s1 = scan_cont c p (scan_pasv c (scan_flag c (scan_code c s)))
      in if rs_n s1 = 0 then s1\<lparr>rs_n := schar c\<rparr> else s1)"

text \<open>The loop over one line: the rest behind it, or \<open>Inl\<close> at the character \<open>EOF\<close> (0xFF).\<close>

fun scan_line :: "cstring \<Rightarrow> reply_scan \<Rightarrow> (reply_scan + cstring \<times> reply_scan) option" where
  "scan_line [] s = None"
| "scan_line (c # p) s =
     (if c = LF then Some (Inr (p, s))
      else let s1 = s\<lparr>rs_dig := rs_dig s + 1\<rparr> in
           if c = CHR 0xFF then Some (Inl s1)
           else scan_line p (scan_char c p s1))"

definition new_line :: "reply_scan \<Rightarrow> reply_scan" where
  "new_line s = s\<lparr>rs_dig := 0, rs_n := 0, rs_pflag := 0, rs_cont := 0\<rparr>"

lemma scan_line_shorter: "scan_line p s = Some (Inr (p', s')) \<Longrightarrow> length p' < length p"
  by (induction p arbitrary: s) (auto simp: Let_def less_Suc_eq split: if_splits)

text \<open>The lines the buffer holds (the jumps to \<open>continueread\<close>).\<close>

function scan_lines :: "cstring \<Rightarrow> int \<Rightarrow> reply_scan \<Rightarrow> (reply_scan + cstring \<times> int \<times> reply_scan) option" where
  "scan_lines p orig s =
     (case scan_line p (new_line s) of
        None \<Rightarrow> None
      | Some (Inl s1) \<Rightarrow> Some (Inl s1)
      | Some (Inr (p1, s1)) \<Rightarrow>
          if LF \<in> set (c_str p1) \<and> rs_cont s1 \<noteq> 0 \<and> rs_code s1 \<noteq> orig
          then scan_lines p1 (if orig = 0 then rs_code s1 else orig) (s1\<lparr>rs_code := 0\<rparr>)
          else Some (Inr (p1, orig, s1)))"
  by pat_completeness auto
termination
  by (relation "measure (\<lambda>(p, _, _). length p)") (auto dest: scan_line_shorter)

declare scan_lines.simps [simp del]

section \<open>getreply\<close>

definition ctl_size :: "ctl_answer list \<Rightarrow> nat" where
  "ctl_size ans = sum_list (map (\<lambda>a. case a of CtlData d \<Rightarrow> length d | _ \<Rightarrow> 0) ans)"

lemma fill_size: "fill ans b = Some (e, b', ans') \<Longrightarrow> length b' + ctl_size ans' \<le> length b + ctl_size ans"
proof (induction ans arbitrary: b)
  case Nil
  then show ?case by (subst (asm) fill.simps) (auto split: if_splits)
next
  case (Cons a as)
  have f: "fill (a # as) b = Some (e, b', ans')" by (rule Cons.prems)
  show ?case
  proof (cases a)
    case (CtlData d)
    let ?b = "b @ take FTP_BUF_SIZE d"
    show ?thesis
      using f Cons.IH [of ?b] CtlData by (subst (asm) fill.simps) (auto simp: ctl_size_def Let_def split: if_splits)
  qed (use f in \<open>subst (asm) fill.simps, auto simp: ctl_size_def split: if_splits\<close>)+
qed

lemma scan_lines_shorter: "scan_lines p orig s = Some (Inr (p', orig', s')) \<Longrightarrow> length p' < length p"
proof (induction p orig s rule: scan_lines.induct)
  case (1 p orig s)
  then show ?case
    by (subst (asm) (2) scan_lines.simps)
      (fastforce dest: scan_line_shorter split: option.splits sum.splits prod.splits if_splits)
qed

text \<open>
  The loop: its arguments are the buffer, the script, \<open>originalcode\<close> and the scan. The result is
  the value returned, whether the connection is given up, whether a reply is still pending (None for
  unchanged), the code, and the buffer and script left.
\<close>

record reply_end =
  re_ret :: int
  re_lost :: bool
  re_pending :: "bool option"
  re_code :: int
  re_buf :: cstring
  re_pasv :: cstring
  re_in :: "ctl_answer list"

function reply_loop :: "bool \<Rightarrow> ctl_answer list \<Rightarrow> cstring \<Rightarrow> int \<Rightarrow> reply_scan \<Rightarrow> reply_end option" where
  "reply_loop eof ans b orig s =
     (case fill ans b of
        None \<Rightarrow> None
      | Some (Lost, b1, ans1) \<Rightarrow> Some \<lparr>re_ret = 4, re_lost = True, re_pending = Some False, re_code = 421, re_buf = b1, re_pasv = rs_pasv s, re_in = ans1\<rparr>
      | Some (TimedOut, b1, ans1) \<Rightarrow> Some \<lparr>re_ret = 0, re_lost = True, re_pending = Some False, re_code = 0, re_buf = b1, re_pasv = rs_pasv s, re_in = ans1\<rparr>
      | Some (HasLine, b1, ans1) \<Rightarrow>
          (case scan_lines b1 orig (s\<lparr>rs_code := 0\<rparr>) of
             None \<Rightarrow> None
           | Some (Inl s1) \<Rightarrow>
               if eof then Some \<lparr>re_ret = 0, re_lost = False, re_pending = None, re_code = 221, re_buf = b1, re_pasv = rs_pasv s1, re_in = ans1\<rparr>
               else Some \<lparr>re_ret = 4, re_lost = True, re_pending = None, re_code = 421, re_buf = b1, re_pasv = rs_pasv s1, re_in = ans1\<rparr>
           | Some (Inr (b2, orig1, s1)) \<Rightarrow>
               if rs_cont s1 \<noteq> 0 \<and> \<not> (20 \<le> orig1 \<and> orig1 \<le> 29) \<and> rs_code s1 \<noteq> 0
               then reply_loop eof ans1 b2 (if orig1 = 0 then rs_code s1 else orig1) (s1\<lparr>rs_code := 0\<rparr>)
               else Some \<lparr>re_ret = rs_n s1 - 48, re_lost = (rs_code s1 = 421 \<or> orig1 = 421),
                          re_pending = (if rs_n s1 \<noteq> 49 then Some False else None),
                          re_code = rs_code s1, re_buf = b2, re_pasv = rs_pasv s1, re_in = ans1\<rparr>))"
  by pat_completeness auto
termination
  by (relation "measure (\<lambda>(_, ans, b, _, _). length b + ctl_size ans)")
    (auto dest!: fill_size scan_lines_shorter)

declare reply_loop.simps [simp del]

definition getreply :: "bool \<Rightarrow> ftp \<Rightarrow> (int \<times> ftp) option" where
  "getreply expecteof f =
     (case reply_loop expecteof (ctl_in f) (ftp_buf f) 0
             \<lparr>rs_dig = 0, rs_n = 0, rs_code = 0, rs_pflag = 0, rs_px = 0, rs_pasv = ftp_pasv f, rs_cont = 0\<rparr> of
        None \<Rightarrow> None
      | Some r \<Rightarrow>
          let f1 = f\<lparr>ftp_code := re_code r, ftp_buf := re_buf r, ftp_pasv := re_pasv r, ctl_in := re_in r,
                     ftp_cp_end := (case re_pending r of None \<Rightarrow> ftp_cp_end f | Some b \<Rightarrow> b)\<rparr>
          in Some (re_ret r, if re_lost r then lostpeer f1 else f1))"

section \<open>command\<close>

text \<open>
  A verb with its argument. The command is printed into 256 bytes for the log, unless it is a
  password.
\<close>

definition command :: "cstring \<Rightarrow> cstring option \<Rightarrow> ftp \<Rightarrow> (int \<times> ftp) option" where
  "command verb arg f =
     (let text = (case arg of None \<Rightarrow> verb | Some a \<Rightarrow> verb @ '' '' @ a) in
      if \<not> (verb = ''PASS'' \<and> arg \<noteq> None) \<and> 256 \<le> length text then None
      else if \<not> ftp_cout f then Some (-1, f)
      else getreply (verb = ''QUIT'' \<and> arg = None)
             (f\<lparr>ftp_cp_end := True, ctl_out := ctl_out f @ [text @ [CR, LF]]\<rparr>))"

section \<open>Lines that are plain text\<close>

text \<open>Characters a server puts into the text of a reply.\<close>

definition plain :: "cstring \<Rightarrow> bool" where
  "plain t = (LF \<notin> set t \<and> NUL \<notin> set t \<and> CHR 0xFF \<notin> set t)"

lemma plain_simps [simp]:
  "plain []" "plain (c # t) \<longleftrightarrow> c \<noteq> LF \<and> c \<noteq> NUL \<and> c \<noteq> CHR 0xFF \<and> plain t"
  "plain (t @ u) \<longleftrightarrow> plain t \<and> plain u"
  by (auto simp: plain_def)

lemma plain_not_LF: "plain t \<Longrightarrow> LF \<notin> set t"
  by (simp add: plain_def)

lemma digit_plain: "is_digit c \<Longrightarrow> c \<noteq> LF \<and> c \<noteq> NUL \<and> c \<noteq> CHR 0xFF"
  by (auto simp: is_digit_def)

lemma c_str_plain: "NUL \<notin> set a \<Longrightarrow> c_str a = a"
  unfolding c_str_def by (rule takeWhile_all) auto

text \<open>Behind the fourth character only the address and the position change.\<close>

definition same_head :: "reply_scan \<Rightarrow> reply_scan \<Rightarrow> bool" where
  "same_head s s' = (rs_code s' = rs_code s \<and> rs_n s' = rs_n s \<and> rs_cont s' = rs_cont s)"

lemma scan_char_tail:
  "4 < rs_dig s \<Longrightarrow> rs_n s \<noteq> 0 \<Longrightarrow> same_head s (scan_char c p s) \<and> rs_dig (scan_char c p s) = rs_dig s"
  by (auto simp: same_head_def scan_char_def scan_code_def scan_flag_def scan_pasv_def scan_cont_def Let_def)

lemma scan_line_tail:
  "plain t \<Longrightarrow> 4 \<le> rs_dig s \<Longrightarrow> rs_n s \<noteq> 0 \<Longrightarrow>
   \<exists>s'. scan_line (t @ LF # p) s = Some (Inr (p, s')) \<and> same_head s s'"
proof (induction t arbitrary: s)
  case (Cons c t)
  let ?s = "s\<lparr>rs_dig := rs_dig s + 1\<rparr>" and ?s' = "scan_char c (t @ LF # p) (s\<lparr>rs_dig := rs_dig s + 1\<rparr>)"
  have h: "same_head ?s ?s' \<and> rs_dig ?s' = rs_dig ?s" by (rule scan_char_tail) (use Cons.prems in auto)
  then obtain s2 where "scan_line (t @ LF # p) ?s' = Some (Inr (p, s2))" "same_head ?s' s2"
    using Cons.IH [of ?s'] Cons.prems by (auto simp: same_head_def)
  then show ?case using h Cons.prems(1) by (auto simp: same_head_def Let_def)
qed (simp add: same_head_def)

definition code_of :: "char \<Rightarrow> char \<Rightarrow> char \<Rightarrow> int" where
  "code_of a b c = 100 * digit_val a + 10 * digit_val b + digit_val c"

lemma schar_digit: "is_digit c \<Longrightarrow> schar c = digit_val c + 48 \<and> schar c \<noteq> 0"
proof -
  assume "is_digit c"
  then have "(of_char c :: nat) \<le> 57" "48 \<le> (of_char c :: nat)" by (simp_all add: is_digit_def)
  moreover have "(of_char c :: int) = int (of_char c)" by (simp add: of_char_def)
  ultimately show ?thesis by (simp add: schar_def digit_val_def)
qed

text \<open>The first four characters of a line: three digits and a separator.\<close>

lemma scan_char_digit:
  "is_digit c \<Longrightarrow> rs_dig s < 4 \<Longrightarrow> rs_pflag s = 0 \<Longrightarrow>
   scan_char c p s = s\<lparr>rs_code := rs_code s * 10 + digit_val c,
     rs_pflag := (if rs_code s * 10 + digit_val c = 227 then 1 else 0),
     rs_n := (if rs_n s = 0 then schar c else rs_n s)\<rparr>"
  by (simp add: scan_char_def scan_code_def scan_flag_def scan_pasv_def scan_cont_def Let_def)

lemma scan_char_fourth:
  "\<not> is_digit x \<Longrightarrow> rs_dig s = 4 \<Longrightarrow> rs_pflag s \<noteq> 2 \<Longrightarrow> rs_n s \<noteq> 0 \<Longrightarrow>
   scan_char x p s = s\<lparr>rs_pflag := (if rs_pflag s = 0 \<and> rs_code s = 227 then 1 else rs_pflag s),
     rs_cont := (if x = CHR ''-'' \<or> 2 \<le> get_string_letter_count (c_str p) LF then rs_cont s + 1 else rs_cont s)\<rparr>"
  by (simp add: scan_char_def scan_code_def scan_flag_def scan_pasv_def scan_cont_def Let_def)

lemma digit_val_range: "is_digit y \<Longrightarrow> 0 \<le> digit_val y \<and> digit_val y \<le> 9"
proof -
  assume d: "is_digit y"
  have "(of_char y :: int) = int (of_char y)" by (simp add: of_char_def)
  then show ?thesis using d by (simp add: is_digit_def digit_val_def)
qed

lemma scan_line_head:
  assumes d: "is_digit a" "is_digit b" "is_digit c" and x: "x \<noteq> LF" "x \<noteq> CHR 0xFF" "\<not> is_digit x"
    and s: "rs_code s = 0"
  shows "scan_line (a # b # c # x # p) (new_line s) = scan_line p (s\<lparr>rs_cont := (if x = CHR ''-'' \<or> 2 \<le> get_string_letter_count (c_str p) LF then 1 else 0),
    rs_dig := 4, rs_code := code_of a b c, rs_pflag := (if code_of a b c = 227 then 1 else 0), rs_n := schar a\<rparr>)"
proof -
  have l: "a \<noteq> LF" "a \<noteq> CHR 0xFF" "b \<noteq> LF" "b \<noteq> CHR 0xFF" "c \<noteq> LF" "c \<noteq> CHR 0xFF"
    using d [THEN digit_plain] by auto
  have v: "digit_val a \<noteq> 227" "digit_val a * 10 + digit_val b \<noteq> 227"
    using digit_val_range [OF d(1)] digit_val_range [OF d(2)] by auto
  have code: "(digit_val a * 10 + digit_val b) * 10 + digit_val c = code_of a b c"
    by (simp add: code_of_def)
  let ?s1 = "s\<lparr>rs_cont := 0, rs_dig := 1, rs_code := digit_val a, rs_pflag := 0, rs_n := schar a\<rparr>"
  let ?s2 = "s\<lparr>rs_cont := 0, rs_dig := 2, rs_code := digit_val a * 10 + digit_val b, rs_pflag := 0, rs_n := schar a\<rparr>"
  let ?s3 = "s\<lparr>rs_cont := 0, rs_dig := 3, rs_code := code_of a b c,
    rs_pflag := (if code_of a b c = 227 then 1 else 0), rs_n := schar a\<rparr>"
  have 1: "scan_char a q (new_line s\<lparr>rs_dig := 1\<rparr>) = ?s1" for q
    using v d s by (simp add: scan_char_digit new_line_def)
  have 2: "scan_char b q (?s1\<lparr>rs_dig := 2\<rparr>) = ?s2" for q
    using v d schar_digit [OF d(1)] by (subst scan_char_digit) simp_all
  have 3: "scan_char c q (?s2\<lparr>rs_dig := 3\<rparr>) = ?s3" for q
    using v d schar_digit [OF d(1)] code by (subst scan_char_digit) simp_all
  have 4: "scan_char x p (?s3\<lparr>rs_dig := 4\<rparr>) = s\<lparr>rs_cont := (if x = CHR ''-'' \<or> 2 \<le> get_string_letter_count (c_str p) LF then 1 else 0),
    rs_dig := 4, rs_code := code_of a b c, rs_pflag := (if code_of a b c = 227 then 1 else 0), rs_n := schar a\<rparr>"
    using x schar_digit [OF d(1)] by (subst scan_char_fourth) simp_all
  have dig: "new_line s\<lparr>rs_dig := rs_dig (new_line s) + 1\<rparr> = new_line s\<lparr>rs_dig := 1\<rparr>"
    "?s1\<lparr>rs_dig := rs_dig ?s1 + 1\<rparr> = ?s1\<lparr>rs_dig := 2\<rparr>" "?s2\<lparr>rs_dig := rs_dig ?s2 + 1\<rparr> = ?s2\<lparr>rs_dig := 3\<rparr>"
    "?s3\<lparr>rs_dig := rs_dig ?s3 + 1\<rparr> = ?s3\<lparr>rs_dig := 4\<rparr>"
    by (simp_all add: new_line_def)
  show ?thesis
    unfolding scan_line.simps dig Let_def 1 2 3 4 using l x by simp
qed

text \<open>A whole line with a code: what is left, and the variables the callers read.\<close>

lemma scan_line_coded:
  assumes d: "is_digit a" "is_digit b" "is_digit c" and x: "x \<noteq> LF" "x \<noteq> CHR 0xFF" "\<not> is_digit x"
    and t: "plain t" and s: "rs_code s = 0"
  shows "\<exists>s'. scan_line (a # b # c # x # t @ LF # p) (new_line s) = Some (Inr (p, s')) \<and>
    rs_code s' = code_of a b c \<and> rs_n s' = schar a \<and>
    (rs_cont s' = 0 \<longleftrightarrow> x \<noteq> CHR ''-'' \<and> LF \<notin> set (c_str p))"
proof -
  have "NUL \<notin> set t" using t by (simp add: plain_def)
  then have "c_str (t @ LF # p) = t @ LF # c_str p"
    unfolding c_str_def by (subst takeWhile_append2) auto
  then have two: "2 \<le> get_string_letter_count (c_str (t @ LF # p)) LF \<longleftrightarrow> LF \<in> set (c_str p)"
    using t get_string_letter_count_pos [of "c_str p" LF]
    by (auto simp: get_string_letter_count_eq plain_def Suc_le_eq)
  show ?thesis
    unfolding scan_line_head [where p = "t @ LF # p", OF d x s]
    using scan_line_tail [OF t, of "s\<lparr>rs_cont := (if x = CHR ''-'' \<or> 2 \<le> get_string_letter_count (c_str (t @ LF # p)) LF then 1 else 0),
        rs_dig := 4, rs_code := code_of a b c, rs_pflag := (if code_of a b c = 227 then 1 else 0), rs_n := schar a\<rparr>" p]
      schar_digit [OF d(1)] two
    by (auto simp: same_head_def)
qed

section \<open>A reply of one line\<close>

text \<open>Receiving a line in pieces: the loop stops with the line in the buffer.\<close>

lemma fill_has_line: "LF \<in> set (c_str b) \<Longrightarrow> fill ans b = Some (HasLine, b, ans)"
  by (subst fill.simps) simp

lemma fill_chunks:
  assumes "b @ concat chunks = t @ [LF]" and "plain t" and "[] \<notin> set chunks" and "length t + 1 < FTP_BUF_SIZE"
  shows "fill (map CtlData chunks @ rest) b = Some (HasLine, t @ [LF], rest)"
  using assms(1,3)
proof (induction chunks arbitrary: b)
  case Nil
  have "c_str (t @ [LF]) = t @ [LF]" by (rule c_str_plain) (use assms(2) in \<open>auto simp: plain_def\<close>)
  then show ?case using Nil fill_has_line [of "t @ [LF]" rest] by simp
next
  case (Cons d ds)
  have d: "d \<noteq> []" using Cons.prems by auto
  have len: "length b + length d \<le> length t + 1"
    using arg_cong [OF Cons.prems(1), of length] by simp
  have "prefix b t"
  proof -
    have "prefix b (t @ [LF])" using Cons.prems(1) by (metis prefixI)
    moreover have "b \<noteq> t @ [LF]" using len d by (auto simp: neq_Nil_conv)
    ultimately show ?thesis by (metis prefix_snoc)
  qed
  then have "LF \<notin> set (c_str b)"
    using assms(2) by (auto simp: plain_def prefix_def c_str_def dest: set_takeWhileD)
  then show ?case
    using Cons.IH [of "b @ d"] Cons.prems d len assms(4) by (subst fill.simps) (simp add: Let_def)
qed

text \<open>The last line of a reply ends the loops, in whichever of them it is met.\<close>

definition reply_done :: "int \<Rightarrow> int \<Rightarrow> char \<Rightarrow> ctl_answer list \<Rightarrow> reply_end option \<Rightarrow> bool" where
  "reply_done orig code a ans r =
     (\<exists>e. r = Some e \<and> re_ret e = digit_val a \<and> re_code e = code \<and> re_buf e = [] \<and> re_in e = ans \<and>
        re_lost e = (code = 421 \<or> orig = 421) \<and> re_pending e = (if a = CHR ''1'' then None else Some False))"

text \<open>What the loop does with the result of the inner jumps.\<close>

definition reply_after ::
  "bool \<Rightarrow> ctl_answer list \<Rightarrow> cstring \<Rightarrow> (reply_scan + cstring \<times> int \<times> reply_scan) option \<Rightarrow> reply_end option" where
  "reply_after eof ans1 b1 r =
     (case r of
        None \<Rightarrow> None
      | Some (Inl s1) \<Rightarrow>
          if eof then Some \<lparr>re_ret = 0, re_lost = False, re_pending = None, re_code = 221, re_buf = b1, re_pasv = rs_pasv s1, re_in = ans1\<rparr>
          else Some \<lparr>re_ret = 4, re_lost = True, re_pending = None, re_code = 421, re_buf = b1, re_pasv = rs_pasv s1, re_in = ans1\<rparr>
      | Some (Inr (b2, orig1, s1)) \<Rightarrow>
          if rs_cont s1 \<noteq> 0 \<and> \<not> (20 \<le> orig1 \<and> orig1 \<le> 29) \<and> rs_code s1 \<noteq> 0
          then reply_loop eof ans1 b2 (if orig1 = 0 then rs_code s1 else orig1) (s1\<lparr>rs_code := 0\<rparr>)
          else Some \<lparr>re_ret = rs_n s1 - 48, re_lost = (rs_code s1 = 421 \<or> orig1 = 421),
                     re_pending = (if rs_n s1 \<noteq> 49 then Some False else None),
                     re_code = rs_code s1, re_buf = b2, re_pasv = rs_pasv s1, re_in = ans1\<rparr>)"

lemma reply_loop_after:
  "fill ans b = Some (HasLine, b1, ans1) \<Longrightarrow>
   reply_loop eof ans b orig s = reply_after eof ans1 b1 (scan_lines b1 orig (s\<lparr>rs_code := 0\<rparr>))"
  by (subst reply_loop.simps) (simp add: reply_after_def)

lemma char_one: "is_digit a \<Longrightarrow> schar a = 49 \<longleftrightarrow> a = CHR ''1''"
proof -
  assume d: "is_digit a"
  have "(of_char a :: int) = 49 \<longleftrightarrow> a = CHR ''1''"
    using of_char_eq_iff [where 'a = int, of a "CHR ''1''"] by simp
  then show ?thesis using schar_digit [OF d] by (simp add: digit_val_def)
qed

lemma last_line_ends:
  assumes d: "is_digit a" "is_digit b" "is_digit c" and t: "plain t" and s: "rs_code s = 0"
  shows "reply_done orig (code_of a b c) a ans (reply_after eof ans b1 (scan_lines (a # b # c # SPC # t @ [LF]) orig s))"
proof -
  obtain s' where s': "scan_line (a # b # c # SPC # t @ [LF]) (new_line s) = Some (Inr ([], s'))"
    "rs_code s' = code_of a b c" "rs_n s' = schar a" "rs_cont s' = 0"
    using scan_line_coded [OF d, of SPC t s "[]"] t s by (auto simp: c_str_def)
  show ?thesis
    using s' char_one [OF d(1)] schar_digit [OF d(1)]
    by (subst scan_lines.simps) (auto simp: reply_after_def reply_done_def c_str_def)
qed

lemma getreply_done:
  assumes r: "reply_done orig code a rest (reply_loop eof (ctl_in f) (ftp_buf f) 0
    \<lparr>rs_dig = 0, rs_n = 0, rs_code = 0, rs_pflag = 0, rs_px = 0, rs_pasv = ftp_pasv f, rs_cont = 0\<rparr>)"
  shows "\<exists>f'. getreply eof f = Some (digit_val a, f') \<and> ftp_code f' = code \<and> ftp_buf f' = [] \<and> ctl_in f' = rest \<and>
    ftp_cp_end f' = (a = CHR ''1'' \<and> ftp_cp_end f) \<and>
    ftp_if_conn f' = (ftp_if_conn f \<and> code \<noteq> 421 \<and> orig \<noteq> 421) \<and> ctl_out f' = ctl_out f"
  using r by (auto simp: getreply_def reply_done_def lostpeer_def Let_def split: if_splits)

text \<open>
  C23. A reply is read whatever pieces the network delivers it in. When the server sends one line
  \<open>ddd text\<close>, cut into segments in any way, and the line fits the buffer, \<open>getreply\<close> returns the
  first digit, stores the code and takes exactly this line off the connection; the pending mark
  stays only for a preliminary reply, and the connection is given up exactly for code 421.
\<close>

theorem getreply_any_segments:
  assumes "is_digit a" "is_digit b" "is_digit c" and "LF \<notin> set t" "NUL \<notin> set t" "CHR 0xFF \<notin> set t"
    and "concat chunks = a # b # c # SPC # t @ [LF]" and "[] \<notin> set chunks" and "length t < 2043"
    and "ftp_buf f = []" and "ctl_in f = map CtlData chunks @ rest"
  shows "\<exists>f'. getreply eof f = Some (digit_val a, f') \<and> ftp_code f' = 100 * digit_val a + 10 * digit_val b + digit_val c \<and>
    ftp_buf f' = [] \<and> ctl_in f' = rest \<and> ftp_cp_end f' = (a = CHR ''1'' \<and> ftp_cp_end f) \<and>
    ftp_if_conn f' = (ftp_if_conn f \<and> ftp_code f' \<noteq> 421) \<and> ctl_out f' = ctl_out f"
proof -
  have t: "plain t" using assms(4-6) by (simp add: plain_def)
  have "plain (a # b # c # SPC # t)" using t assms(1-3) [THEN digit_plain] by simp
  then have "fill (ctl_in f) (ftp_buf f) = Some (HasLine, a # b # c # SPC # t @ [LF], rest)"
    using fill_chunks [of "[]" chunks "a # b # c # SPC # t" rest] assms(7-11) by simp
  then show ?thesis
    using getreply_done [of 0 "code_of a b c" a rest eof f] last_line_ends [OF assms(1-3) t]
    by (auto simp: reply_loop_after code_of_def)
qed

theorem getreply_any_segments_witness:
  "\<exists>f'. getreply False (ftp_start\<lparr>ctl_in := [CtlData ''23'', CtlData ''0 logged'', CtlData (SPC # ''in'' @ [CR, LF]), SelectTimeout]\<rparr>)
    = Some (2, f') \<and> ftp_code f' = 230 \<and> ctl_in f' = [SelectTimeout]"
  (is "\<exists>f'. getreply False ?f = _ \<and> _")
proof -
  have d: "digit_val (CHR ''2'') = 2" "digit_val (CHR ''3'') = 3" "digit_val (CHR ''0'') = 0"
    by (simp_all add: digit_val_def)
  show ?thesis
    using getreply_any_segments [of "CHR ''2''" "CHR ''3''" "CHR ''0''" "''logged in'' @ [CR]"
        "[''23'', ''0 logged'', SPC # ''in'' @ [CR, LF]]" ?f "[SelectTimeout]" False]
    by (auto simp: ftp_start_def d is_digit_def)
qed

section \<open>Replies of several lines\<close>

text \<open>
  The lines between the first and the last: text of at least four characters that does not start with
  a digit (a server indents such lines).
\<close>

definition inner_line :: "cstring \<Rightarrow> bool" where
  "inner_line l = (plain l \<and> 4 \<le> length l \<and> (\<forall>c \<in> set (take 3 l). \<not> is_digit c))"

lemma schar_0 [simp]: "schar c = 0 \<longleftrightarrow> c = NUL"
proof -
  have "(of_char c :: int) < 256"
    using of_char_mod_256 [of c, where 'a = int] by (metis pos_mod_bound zero_less_numeral)
  moreover have "(of_char c :: int) = 0 \<longleftrightarrow> c = NUL"
    using of_char_eq_iff [where 'a = int, of c NUL] by simp
  ultimately show ?thesis by (auto simp: schar_def)
qed

lemma scan_char_text:
  "\<not> is_digit c \<or> rs_dig s = 4 \<Longrightarrow> rs_dig s \<le> 4 \<Longrightarrow> rs_pflag s = 0 \<Longrightarrow> rs_code s = 0 \<Longrightarrow>
   (rs_dig s = 4 \<Longrightarrow> 2 \<le> get_string_letter_count (c_str p) LF) \<Longrightarrow>
   scan_char c p s = s\<lparr>rs_cont := (if rs_dig s = 4 then rs_cont s + 1 else rs_cont s),
     rs_n := (if rs_n s = 0 then schar c else rs_n s)\<rparr>"
  by (cases "rs_dig s = 4") (simp_all add: scan_char_def scan_code_def scan_flag_def scan_pasv_def scan_cont_def Let_def)

lemma c_str_line: "plain t \<Longrightarrow> c_str (t @ LF # p) = t @ LF # c_str p"
  unfolding c_str_def plain_def by (subst takeWhile_append2) auto

lemma two_lines:
  "plain t \<Longrightarrow> LF \<in> set (c_str p) \<Longrightarrow> 2 \<le> get_string_letter_count (c_str (t @ LF # p)) LF"
  using get_string_letter_count_pos [of "c_str p" LF]
  by (auto simp: c_str_line get_string_letter_count_eq Suc_le_eq)

lemma scan_line_inner:
  assumes l: "inner_line l" and p: "LF \<in> set (c_str p)" and s: "rs_code s = 0"
  shows "\<exists>s'. scan_line (l @ LF # p) (new_line s) = Some (Inr (p, s')) \<and> rs_code s' = 0 \<and> rs_cont s' \<noteq> 0"
proof -
  obtain w x y z t where lt: "l = w # x # y # z # t"
    using l by (auto simp: inner_line_def Suc_le_length_iff numeral_eq_Suc)
  have n: "plain t" "\<not> is_digit w" "\<not> is_digit x" "\<not> is_digit y"
    and c: "w \<noteq> LF" "x \<noteq> LF" "y \<noteq> LF" "z \<noteq> LF" "w \<noteq> CHR 0xFF" "x \<noteq> CHR 0xFF" "y \<noteq> CHR 0xFF" "z \<noteq> CHR 0xFF" "w \<noteq> NUL"
    using l lt by (auto simp: inner_line_def)
  let ?s = "\<lambda>k m. s\<lparr>rs_cont := m, rs_dig := k, rs_pflag := 0, rs_n := schar w\<rparr>"
  have 1: "scan_char w q (new_line s\<lparr>rs_dig := 1\<rparr>) = ?s 1 0" for q
    using n s by (subst scan_char_text) (simp_all add: new_line_def)
  have 2: "scan_char x q ((?s 1 0)\<lparr>rs_dig := 2\<rparr>) = ?s 2 0" for q
    using n s c by (subst scan_char_text) simp_all
  have 3: "scan_char y q ((?s 2 0)\<lparr>rs_dig := 3\<rparr>) = ?s 3 0" for q
    using n s c by (subst scan_char_text) simp_all
  have 4: "scan_char z (t @ LF # p) ((?s 3 0)\<lparr>rs_dig := 4\<rparr>) = ?s 4 1"
    using s c two_lines [OF n(1) p] by (subst scan_char_text) simp_all
  have dig: "new_line s\<lparr>rs_dig := rs_dig (new_line s) + 1\<rparr> = new_line s\<lparr>rs_dig := 1\<rparr>"
    "(?s 1 0)\<lparr>rs_dig := rs_dig (?s 1 0) + 1\<rparr> = (?s 1 0)\<lparr>rs_dig := 2\<rparr>"
    "(?s 2 0)\<lparr>rs_dig := rs_dig (?s 2 0) + 1\<rparr> = (?s 2 0)\<lparr>rs_dig := 3\<rparr>"
    "(?s 3 0)\<lparr>rs_dig := rs_dig (?s 3 0) + 1\<rparr> = (?s 3 0)\<lparr>rs_dig := 4\<rparr>"
    by (simp_all add: new_line_def)
  have "scan_line (l @ LF # p) (new_line s) = scan_line (t @ LF # p) (?s 4 1)"
    unfolding lt append_Cons scan_line.simps dig Let_def 1 2 3 4 using c by simp
  then show ?thesis
    using scan_line_tail [OF n(1), of "?s 4 1" p] s c by (auto simp: same_head_def)
qed

text \<open>The lines that are buffered with the last one.\<close>

lemma inner_lines_end:
  assumes d: "is_digit a" "is_digit b" "is_digit c" and t: "plain t"
    and ls: "\<forall>l \<in> set ls. inner_line l" and o: "orig \<noteq> 0"
  shows "rs_code s = 0 \<Longrightarrow> reply_done orig (code_of a b c) a ans
    (reply_after eof ans b1 (scan_lines (concat (map (\<lambda>l. l @ [LF]) ls) @ a # b # c # SPC # t @ [LF]) orig s))"
  using ls
proof (induction ls arbitrary: s)
  case Nil
  then show ?case using last_line_ends [OF d t] by simp
next
  case (Cons l ls)
  let ?p = "concat (map (\<lambda>l. l @ [LF]) ls) @ a # b # c # SPC # t @ [LF]"
  have "NUL \<notin> set ?p"
    using Cons.prems(2) t d [THEN digit_plain] by (auto simp: inner_line_def plain_def)
  then have p: "LF \<in> set (c_str ?p)" by (simp add: c_str_plain)
  obtain s' where s': "scan_line (l @ LF # ?p) (new_line s) = Some (Inr (?p, s'))" "rs_code s' = 0" "rs_cont s' \<noteq> 0"
    using scan_line_inner [OF _ p, of l s] Cons.prems by auto
  have "scan_lines (concat (map (\<lambda>l. l @ [LF]) (l # ls)) @ a # b # c # SPC # t @ [LF]) orig s = scan_lines ?p orig (s'\<lparr>rs_code := 0\<rparr>)"
    using s' p o by (subst scan_lines.simps) simp
  then show ?case using Cons.IH [of "s'\<lparr>rs_code := 0\<rparr>"] Cons.prems(2) by simp
qed

lemma last_of_several:
  assumes d: "is_digit a" "is_digit b" "is_digit c" and t: "plain t"
    and d1: "is_digit a1" "is_digit b1" "is_digit c1" and x: "x = SPC \<or> x = CHR ''-''" and t1: "plain t1"
    and ls: "\<forall>l \<in> set ls. inner_line l" and o: "code_of a1 b1 c1 \<noteq> 0" and s: "rs_code s = 0"
  shows "reply_done (code_of a1 b1 c1) (code_of a b c) a ans (reply_after eof ans buf
    (scan_lines (a1 # b1 # c1 # x # t1 @ LF # concat (map (\<lambda>l. l @ [LF]) ls) @ a # b # c # SPC # t @ [LF]) 0 s))"
proof -
  let ?p = "concat (map (\<lambda>l. l @ [LF]) ls) @ a # b # c # SPC # t @ [LF]"
  have "NUL \<notin> set ?p"
    using ls t d [THEN digit_plain] by (auto simp: inner_line_def plain_def)
  then have p: "LF \<in> set (c_str ?p)" by (simp add: c_str_plain)
  have x': "x \<noteq> LF" "x \<noteq> CHR 0xFF" "\<not> is_digit x" using x by auto
  obtain s' where s': "scan_line (a1 # b1 # c1 # x # t1 @ LF # ?p) (new_line s) = Some (Inr (?p, s'))"
    "rs_code s' = code_of a1 b1 c1" "rs_cont s' \<noteq> 0"
    using scan_line_coded [OF d1 x' t1 s, of ?p] p by auto
  have "scan_lines (a1 # b1 # c1 # x # t1 @ LF # ?p) 0 s = scan_lines ?p (code_of a1 b1 c1) (s'\<lparr>rs_code := 0\<rparr>)"
    using s' p o by (subst scan_lines.simps) simp
  then show ?thesis using inner_lines_end [OF d t ls o, of "s'\<lparr>rs_code := 0\<rparr>"] by simp
qed

lemma fill_segment:
  "NUL \<notin> set d \<Longrightarrow> LF \<in> set d \<Longrightarrow> length d < FTP_BUF_SIZE \<Longrightarrow> fill (CtlData d # rest) [] = Some (HasLine, d, rest)"
  using fill_has_line [of d rest] c_str_plain [of d]
  by (subst fill.simps) (auto simp: Let_def c_str_plain c_str_def [of "[]"])

lemma getreply_several:
  assumes d: "is_digit a" "is_digit b" "is_digit c" and t: "plain t"
    and d1: "is_digit a1" "is_digit b1" "is_digit c1" and x: "x = SPC \<or> x = CHR ''-''" and t1: "plain t1"
    and ls: "\<forall>l \<in> set ls. inner_line l" and o: "code_of a1 b1 c1 \<noteq> 0"
    and seg: "seg = a1 # b1 # c1 # x # t1 @ LF # concat (map (\<lambda>l. l @ [LF]) ls) @ a # b # c # SPC # t @ [LF]"
    and len: "length seg < FTP_BUF_SIZE" and f: "ftp_buf f = []" "ctl_in f = CtlData seg # rest"
  shows "\<exists>f'. getreply eof f = Some (digit_val a, f') \<and> ftp_code f' = code_of a b c \<and> ftp_buf f' = [] \<and> ctl_in f' = rest \<and>
    ftp_cp_end f' = (a = CHR ''1'' \<and> ftp_cp_end f) \<and>
    ftp_if_conn f' = (ftp_if_conn f \<and> code_of a b c \<noteq> 421 \<and> code_of a1 b1 c1 \<noteq> 421) \<and> ctl_out f' = ctl_out f"
proof -
  have "NUL \<notin> set seg"
    using ls t t1 x d [THEN digit_plain] d1 [THEN digit_plain] by (auto simp: seg inner_line_def plain_def)
  then have "fill (ctl_in f) (ftp_buf f) = Some (HasLine, seg, rest)"
    using fill_segment [of seg rest] len f by (simp add: seg)
  then show ?thesis
    using getreply_done [of "code_of a1 b1 c1" "code_of a b c" a rest eof f] last_of_several [OF d t d1 x t1 ls o]
    by (auto simp: reply_loop_after seg)
qed

text \<open>
  A reply of several lines in one segment is read whole. When the server sends \<open>ddd-text\<close>, any
  inner lines of at least four characters that do not start with digits, and \<open>ddd text\<close>, in
  one segment that fits the buffer, \<open>getreply\<close> returns the first digit and the code of the last line
  and leaves nothing in the buffer.
\<close>

theorem getreply_multi_line:
  assumes "is_digit a" "is_digit b" "is_digit c" "a \<noteq> CHR ''0''" and "plain t" "plain t1" and "\<forall>l \<in> set ls. inner_line l"
    and "ftp_buf f = []"
    and "ctl_in f = CtlData (a # b # c # CHR ''-'' # t1 @ LF # concat (map (\<lambda>l. l @ [LF]) ls) @ a # b # c # SPC # t @ [LF]) # rest"
    and "length t1 + length t + sum_list (map (\<lambda>l. length l + 1) ls) < 2038"
  shows "\<exists>f'. getreply eof f = Some (digit_val a, f') \<and> ftp_code f' = code_of a b c \<and>
    ftp_buf f' = [] \<and> ctl_in f' = rest \<and> ftp_cp_end f' = (a = CHR ''1'' \<and> ftp_cp_end f)"
proof -
  have "digit_val a \<noteq> 0"
    using assms(1,4) of_char_eq_iff [where 'a = int, of a "CHR ''0''"] by (auto simp: digit_val_def)
  then have "code_of a b c \<noteq> 0"
    using digit_val_range [OF assms(1)] digit_val_range [OF assms(2)] digit_val_range [OF assms(3)]
    by (simp add: code_of_def)
  moreover have "length (concat (map (\<lambda>l. l @ [LF]) ls)) = sum_list (map (\<lambda>l. length l + 1) ls)"
    by (simp add: length_concat comp_def)
  ultimately show ?thesis
    using getreply_several [OF assms(1-3,5,1-3) _ assms(6,7) _ refl _ assms(8,9), of eof] assms(10) by auto
qed

theorem getreply_multi_line_witness:
  "\<exists>f'. getreply False (ftp_start\<lparr>ctl_in := [CtlData (''220-hi'' @ [LF] @ ''    be quiet'' @ [LF] @ ''220 ready'' @ [LF])]\<rparr>)
    = Some (2, f') \<and> ftp_code f' = 220 \<and> ctl_in f' = []"
  (is "\<exists>f'. getreply False ?f = _ \<and> _")
proof -
  have d: "digit_val (CHR ''2'') = 2" "digit_val (CHR ''0'') = 0" by (simp_all add: digit_val_def)
  show ?thesis
    using getreply_multi_line [of "CHR ''2''" "CHR ''2''" "CHR ''0''" "''ready''" "''hi''" "[''    be quiet'']" ?f "[]" False]
    by (auto simp: ftp_start_def d code_of_def is_digit_def inner_line_def)
qed

text \<open>
  Two replies in one segment are taken for one. When a preliminary reply (150 of a transfer)
  and the completion reply (226) arrive together, as they do for a small file, \<open>getreply\<close>
  returns the digit and the code of the second: the caller never sees the preliminary reply it
  waits for, and nothing is left to read.
\<close>

theorem two_replies_merge:
  assumes "is_digit b" "is_digit c" "is_digit b2" "is_digit c2" and "plain t" "plain t2"
    and "ftp_buf f = []" and "length t + length t2 < 2038"
    and "ctl_in f = CtlData (CHR ''1'' # b # c # SPC # t @ LF # CHR ''2'' # b2 # c2 # SPC # t2 @ [LF]) # rest"
  shows "\<exists>f'. getreply eof f = Some (2, f') \<and> ftp_code f' = 200 + 10 * digit_val b2 + digit_val c2 \<and>
    ftp_buf f' = [] \<and> ctl_in f' = rest \<and> \<not> ftp_cp_end f'"
proof -
  have d: "is_digit (CHR ''1'')" "is_digit (CHR ''2'')" and v: "digit_val (CHR ''1'') = 1" "digit_val (CHR ''2'') = 2"
    by (simp_all add: is_digit_def digit_val_def)
  have "code_of (CHR ''1'') b c \<noteq> 0"
    using digit_val_range [OF assms(1)] digit_val_range [OF assms(2)] by (simp add: code_of_def v)
  then show ?thesis
    using getreply_several [OF d(2) assms(3,4,6) d(1) assms(1,2) _ assms(5) _ _ refl _ assms(7), of SPC "[]" rest eof] assms(8,9)
    by (auto simp: code_of_def v)
qed

theorem two_replies_merge_witness:
  "\<exists>f'. getreply False (ftp_start\<lparr>ctl_in := [CtlData (''150 open'' @ [LF] @ ''226 done'' @ [LF])]\<rparr>)
    = Some (2, f') \<and> ftp_code f' = 226 \<and> ctl_in f' = []"
  (is "\<exists>f'. getreply False ?f = _ \<and> _")
proof -
  have d: "digit_val (CHR ''2'') = 2" "digit_val (CHR ''6'') = 6" by (simp_all add: digit_val_def)
  show ?thesis
    using two_replies_merge [of "CHR ''5''" "CHR ''0''" "CHR ''2''" "CHR ''6''" "''open''" "''done''" ?f "[]" False]
    by (auto simp: ftp_start_def d is_digit_def)
qed

end
