(* ===== verification/Frame_Utils.thy ===== *)
theory Frame_Utils
  imports C_Strings
begin

text \<open>
  \<open>frame_utils.c\<close>: the CRC-32 the program hashes file names and semaphore names with, and the
  trimming of strings. The checksum is over \<open>unsigned long\<close>, whose width depends on the
  build, so its definitions are polymorphic in the word length; the program's own build is the
  32-bit one (\<open>SIZEOF_LONG 4\<close>, \<open>lib32\<close>), named \<open>ulong\<close> below. The reference is the
  bit-serial division by the polynomial \<open>0x04c11db7\<close>.
\<close>

unbundle bit_operations_syntax

type_synonym ulong = "32 word"

section \<open>The table\<close>

definition crc_table :: "32 word list" where
  "crc_table = [
    0x0, 0x04c11db7, 0x09823b6e, 0x0d4326d9, 0x130476dc, 0x17c56b6b,
    0x1a864db2, 0x1e475005, 0x2608edb8, 0x22c9f00f, 0x2f8ad6d6, 0x2b4bcb61,
    0x350c9b64, 0x31cd86d3, 0x3c8ea00a, 0x384fbdbd, 0x4c11db70, 0x48d0c6c7,
    0x4593e01e, 0x4152fda9, 0x5f15adac, 0x5bd4b01b, 0x569796c2, 0x52568b75,
    0x6a1936c8, 0x6ed82b7f, 0x639b0da6, 0x675a1011, 0x791d4014, 0x7ddc5da3,
    0x709f7b7a, 0x745e66cd, 0x9823b6e0, 0x9ce2ab57, 0x91a18d8e, 0x95609039,
    0x8b27c03c, 0x8fe6dd8b, 0x82a5fb52, 0x8664e6e5, 0xbe2b5b58, 0xbaea46ef,
    0xb7a96036, 0xb3687d81, 0xad2f2d84, 0xa9ee3033, 0xa4ad16ea, 0xa06c0b5d,
    0xd4326d90, 0xd0f37027, 0xddb056fe, 0xd9714b49, 0xc7361b4c, 0xc3f706fb,
    0xceb42022, 0xca753d95, 0xf23a8028, 0xf6fb9d9f, 0xfbb8bb46, 0xff79a6f1,
    0xe13ef6f4, 0xe5ffeb43, 0xe8bccd9a, 0xec7dd02d, 0x34867077, 0x30476dc0,
    0x3d044b19, 0x39c556ae, 0x278206ab, 0x23431b1c, 0x2e003dc5, 0x2ac12072,
    0x128e9dcf, 0x164f8078, 0x1b0ca6a1, 0x1fcdbb16, 0x018aeb13, 0x054bf6a4,
    0x0808d07d, 0x0cc9cdca, 0x7897ab07, 0x7c56b6b0, 0x71159069, 0x75d48dde,
    0x6b93dddb, 0x6f52c06c, 0x6211e6b5, 0x66d0fb02, 0x5e9f46bf, 0x5a5e5b08,
    0x571d7dd1, 0x53dc6066, 0x4d9b3063, 0x495a2dd4, 0x44190b0d, 0x40d816ba,
    0xaca5c697, 0xa864db20, 0xa527fdf9, 0xa1e6e04e, 0xbfa1b04b, 0xbb60adfc,
    0xb6238b25, 0xb2e29692, 0x8aad2b2f, 0x8e6c3698, 0x832f1041, 0x87ee0df6,
    0x99a95df3, 0x9d684044, 0x902b669d, 0x94ea7b2a, 0xe0b41de7, 0xe4750050,
    0xe9362689, 0xedf73b3e, 0xf3b06b3b, 0xf771768c, 0xfa325055, 0xfef34de2,
    0xc6bcf05f, 0xc27dede8, 0xcf3ecb31, 0xcbffd686, 0xd5b88683, 0xd1799b34,
    0xdc3abded, 0xd8fba05a, 0x690ce0ee, 0x6dcdfd59, 0x608edb80, 0x644fc637,
    0x7a089632, 0x7ec98b85, 0x738aad5c, 0x774bb0eb, 0x4f040d56, 0x4bc510e1,
    0x46863638, 0x42472b8f, 0x5c007b8a, 0x58c1663d, 0x558240e4, 0x51435d53,
    0x251d3b9e, 0x21dc2629, 0x2c9f00f0, 0x285e1d47, 0x36194d42, 0x32d850f5,
    0x3f9b762c, 0x3b5a6b9b, 0x0315d626, 0x07d4cb91, 0x0a97ed48, 0x0e56f0ff,
    0x1011a0fa, 0x14d0bd4d, 0x19939b94, 0x1d528623, 0xf12f560e, 0xf5ee4bb9,
    0xf8ad6d60, 0xfc6c70d7, 0xe22b20d2, 0xe6ea3d65, 0xeba91bbc, 0xef68060b,
    0xd727bbb6, 0xd3e6a601, 0xdea580d8, 0xda649d6f, 0xc423cd6a, 0xc0e2d0dd,
    0xcda1f604, 0xc960ebb3, 0xbd3e8d7e, 0xb9ff90c9, 0xb4bcb610, 0xb07daba7,
    0xae3afba2, 0xaafbe615, 0xa7b8c0cc, 0xa379dd7b, 0x9b3660c6, 0x9ff77d71,
    0x92b45ba8, 0x9675461f, 0x8832161a, 0x8cf30bad, 0x81b02d74, 0x857130c3,
    0x5d8a9099, 0x594b8d2e, 0x5408abf7, 0x50c9b640, 0x4e8ee645, 0x4a4ffbf2,
    0x470cdd2b, 0x43cdc09c, 0x7b827d21, 0x7f436096, 0x7200464f, 0x76c15bf8,
    0x68860bfd, 0x6c47164a, 0x61043093, 0x65c52d24, 0x119b4be9, 0x155a565e,
    0x18197087, 0x1cd86d30, 0x029f3d35, 0x065e2082, 0x0b1d065b, 0x0fdc1bec,
    0x3793a651, 0x3352bbe6, 0x3e119d3f, 0x3ad08088, 0x2497d08d, 0x2056cd3a,
    0x2d15ebe3, 0x29d4f654, 0xc5a92679, 0xc1683bce, 0xcc2b1d17, 0xc8ea00a0,
    0xd6ad50a5, 0xd26c4d12, 0xdf2f6bcb, 0xdbee767c, 0xe3a1cbc1, 0xe760d676,
    0xea23f0af, 0xeee2ed18, 0xf0a5bd1d, 0xf464a0aa, 0xf9278673, 0xfde69bc4,
    0x89b8fd09, 0x8d79e0be, 0x803ac667, 0x84fbdbd0, 0x9abc8bd5, 0x9e7d9662,
    0x933eb0bb, 0x97ffad0c, 0xafb010b1, 0xab710d06, 0xa6322bdf, 0xa2f33668,
    0xbcb4666d, 0xb8757bda, 0xb5365d03, 0xb1f740b4
  ]"

lemma length_crc_table [simp]: "length crc_table = 256"
  by (simp add: crc_table_def)

text \<open>One step of the division, and the table entry it gives after eight steps.\<close>

definition crc_poly :: "32 word" where
  "crc_poly = 0x04c11db7"

definition crc_bit :: "32 word \<Rightarrow> 32 word" where
  "crc_bit v = (if bit v 31 then push_bit 1 v XOR crc_poly else push_bit 1 v)"

definition crc_bits8 :: "32 word \<Rightarrow> 32 word" where
  "crc_bits8 v = crc_bit (crc_bit (crc_bit (crc_bit (crc_bit (crc_bit (crc_bit (crc_bit v)))))))"

lemma bit31: "bit (v :: 32 word) 31 \<longleftrightarrow> \<not> v < 0x80000000"
proof -
  have l: "unat v < 2 ^ 32" using unsigned_less [of v] by simp
  have "odd (unat v div 2 ^ 31) \<longleftrightarrow> \<not> unat v < 2 ^ 31"
  proof (cases "unat v < 2 ^ 31")
    case False
    with l have "unat v div 2 ^ 31 = 1" by (intro div_nat_eqI) auto
    with False show ?thesis by simp
  qed simp
  moreover have "bit v 31 \<longleftrightarrow> odd (unat v div 2 ^ 31)"
  proof -
    have "bit (unat v) 31 = bit v 31" by (simp add: bit_unsigned_iff)
    then show ?thesis by (simp add: bit_iff_odd [of "unat v"])
  qed
  ultimately show ?thesis by (simp add: word_less_nat_alt)
qed

lemma crc_bit_eq: "crc_bit v = (if v < 0x80000000 then 2 * v else 2 * v XOR 0x04c11db7)"
  by (simp add: crc_bit_def bit31 crc_poly_def push_bit_eq_mult mult.commute)

lemma crc_bit_xor: "crc_bit (x XOR y) = crc_bit x XOR crc_bit y"
  by (auto simp: crc_bit_def bit_xor_iff push_bit_xor xor.assoc xor.left_commute xor.commute)

lemma crc_bits8_xor: "crc_bits8 (x XOR y) = crc_bits8 x XOR crc_bits8 y"
  by (simp add: crc_bits8_def crc_bit_xor)

lemma crc_bits8_bit: "crc_bits8 (crc_bit v) = crc_bit (crc_bits8 v)"
  by (simp add: crc_bits8_def)

lemma crc_bit_low: "\<not> bit v 31 \<Longrightarrow> crc_bit v = push_bit 1 v"
  by (simp add: crc_bit_def)

lemma crc_bits8_low:
  assumes "\<And>n. 24 \<le> n \<Longrightarrow> \<not> bit v n"
  shows "crc_bits8 v = push_bit 8 v"
proof -
  have "crc_bit (push_bit k v) = push_bit (Suc k) v" if "k < 8" for k
    using assms that by (subst crc_bit_low) (auto simp: bit_push_bit_iff)
  from this [of 0] this [of 1] this [of 2] this [of 3] this [of 4] this [of 5] this [of 6] this [of 7]
  show ?thesis by (simp add: crc_bits8_def numeral_eq_Suc)
qed

text \<open>
  The table against the division: the even entries are one step of the division of an entry
  of half the index, the odd ones add the polynomial. This is checked on the literal table.
\<close>

fun table_chk :: "32 word list \<Rightarrow> 32 word list \<Rightarrow> bool" where
  "table_chk (a # as) (x # y # zs) = (x = crc_bit a \<and> y = x XOR 0x04c11db7 \<and> table_chk as zs)"
| "table_chk as [] = True"
| "table_chk as zs = False"

lemma table_chk_table: "table_chk crc_table crc_table"
  unfolding crc_table_def by (simp add: crc_bit_eq)

lemma table_chk_nth:
  "table_chk as zs \<Longrightarrow> Suc (2 * i) < length zs \<Longrightarrow>
   zs ! (2 * i) = crc_bit (as ! i) \<and> zs ! Suc (2 * i) = zs ! (2 * i) XOR 0x04c11db7"
proof (induction as zs arbitrary: i rule: table_chk.induct)
  case (1 a as x y zs)
  then show ?case by (cases i) auto
qed auto

lemma crc_bits8_0: "crc_bits8 0 = 0"
  using crc_bits8_low [of 0] by simp

lemma crc_bits8_1: "crc_bits8 0x1000000 = 0x04c11db7"
proof -
  have "crc_bit 0x1000000 = 0x2000000" "crc_bit 0x2000000 = 0x4000000"
    "crc_bit 0x4000000 = 0x8000000" "crc_bit 0x8000000 = 0x10000000"
    "crc_bit 0x10000000 = 0x20000000" "crc_bit 0x20000000 = 0x40000000"
    "crc_bit 0x40000000 = 0x80000000" "crc_bit 0x80000000 = 0x04c11db7"
    by (simp_all add: crc_bit_eq)
  then show ?thesis by (simp only: crc_bits8_def)
qed

lemma crc_table_01: "crc_table ! 0 = 0" "crc_table ! Suc 0 = 0x04c11db7"
  by (simp_all add: crc_table_def)

lemma shifted_low: "i < 2 ^ k \<Longrightarrow> k \<le> n \<Longrightarrow> \<not> bit (word_of_nat i :: 'a::len word) n"
proof -
  assume "i < 2 ^ k" "k \<le> n"
  then have "i < 2 ^ n" by (meson less_le_trans one_le_numeral power_increasing)
  then have "\<not> bit i n" by (simp add: bit_iff_odd)
  then show ?thesis by (simp add: bit_of_nat_iff)
qed

lemma crc_table_entry:
  "i < 256 \<Longrightarrow> crc_table ! i = crc_bits8 (push_bit 24 (word_of_nat i))"
proof (induction i rule: less_induct)
  case (less i)
  have dbl: "crc_bits8 (push_bit 24 (word_of_nat (2 * k))) = crc_bit (crc_bits8 (push_bit 24 (word_of_nat k)))"
    if "k < 128" for k
  proof -
    have "\<not> bit (word_of_nat k :: 32 word) 7" by (rule shifted_low [of _ 7]) (use that in auto)
    then have "crc_bit (push_bit 24 (word_of_nat k)) = push_bit 1 (push_bit 24 (word_of_nat k))"
      by (intro crc_bit_low) (simp add: bit_push_bit_iff)
    also have "\<dots> = push_bit 24 (word_of_nat (2 * k))"
      by (simp add: push_bit_eq_mult)
    finally show ?thesis by (metis crc_bits8_bit)
  qed
  show ?case
  proof (cases "i < 2")
    case True
    then have "i = 0 \<or> i = 1" by auto
    then show ?thesis
      by (auto simp: crc_table_01 crc_bits8_0 crc_bits8_1)
  next
    case False
    define k where "k = i div 2"
    have k: "k < i" "k < 128" using False less.prems by (auto simp: k_def)
    then have k3: "Suc (2 * k) < length crc_table" by simp
    have chk: "crc_table ! (2 * k) = crc_bit (crc_table ! k)"
      "crc_table ! Suc (2 * k) = crc_table ! (2 * k) XOR 0x04c11db7"
      using table_chk_nth [OF table_chk_table k3] by auto
    have ev: "crc_table ! (2 * k) = crc_bits8 (push_bit 24 (word_of_nat (2 * k)))"
      using less.IH [of k] k dbl [OF k(2)] chk(1) by simp
    consider "i = 2 * k" | "i = Suc (2 * k)" unfolding k_def by linarith
    then show ?thesis
    proof cases
      case 1
      with ev show ?thesis by simp
    next
      case 2
      have "word_of_nat (Suc (2 * k)) = (word_of_nat (2 * k) XOR 1 :: 32 word)"
        by (simp add: xor_one_eq)
      then have "crc_bits8 (push_bit 24 (word_of_nat (Suc (2 * k)))) =
          crc_bits8 (push_bit 24 (word_of_nat (2 * k))) XOR crc_bits8 (push_bit 24 1)"
        by (simp add: push_bit_xor crc_bits8_xor)
      then show ?thesis using 2 chk ev crc_bits8_1 by simp
    qed
  qed
qed

section \<open>crc32 and hash\<close>

text \<open>
  \<open>COMPUTE(var, ch)\<close>. A \<open>char\<close> may be signed, so that \<open>ch\<close> is sign-extended, but only
  its low eight bits reach the index.
\<close>

definition compute :: "'a::len word \<Rightarrow> 'a word \<Rightarrow> 'a word" where
  "compute var ch =
     push_bit 8 var XOR ucast (crc_table ! unat ((drop_bit 24 var XOR ch) AND 0xff))"

definition char_ulong :: "char \<Rightarrow> 'a::len word" where
  "char_ulong c = word_of_nat (of_char c)"

text \<open>\<open>for (; len != 0; len >>= 8) COMPUTE(crc, len & 0xff);\<close>\<close>

function crc_length :: "'a::len word \<Rightarrow> 'a word \<Rightarrow> 'a word" where
  "crc_length crc len =
     (if len = 0 then crc else crc_length (compute crc (len AND 0xff)) (drop_bit 8 len))"
  by pat_completeness auto
termination
proof (relation "measure (\<lambda>(crc, len). unat len)")
  fix crc len :: "'b::len word"
  assume "len \<noteq> 0"
  then have "unat len div 256 < unat len" by (simp add: unat_gt_0)
  then have "unat (drop_bit 8 len) < unat len"
    by (subst unat_drop_bit_eq) (simp add: drop_bit_eq_div [where ?'a = nat])
  then show "((compute crc (len AND 0xff), drop_bit 8 len), crc, len) \<in> measure (\<lambda>(crc, len). unat len)"
    by simp
qed simp

declare crc_length.simps [simp del]

definition crc32 :: "cstring \<Rightarrow> 'a::len word" where
  "crc32 s = crc_length (fold (\<lambda>c crc. compute crc (char_ulong c)) s 0) (word_of_nat (length s))"

definition hash :: "cstring \<Rightarrow> ulong" where
  "hash s = crc32 s"

text \<open>
  The reference: the message is the string followed by the bytes of its length, least
  significant first, and each byte is divided out bit by bit.
\<close>

fun length_bytes :: "nat \<Rightarrow> nat list" where
  "length_bytes n = (if n = 0 then [] else n mod 256 # length_bytes (n div 256))"

declare length_bytes.simps [simp del]

definition crc_byte :: "nat \<Rightarrow> 32 word \<Rightarrow> 32 word" where
  "crc_byte b crc = crc_bits8 (crc XOR push_bit 24 (word_of_nat b))"

definition crc_serial :: "nat list \<Rightarrow> 32 word" where
  "crc_serial bs = fold crc_byte bs 0"

lemma ff_mask: "(0xff :: 'a::len word) = mask 8"
  by (simp add: mask_eq_exp_minus_1)

lemma and_ff: "(w AND 0xff :: 'a::len word) = take_bit 8 w"
  by (simp only: ff_mask take_bit_eq_mask)

lemma unat_take8: "unat (take_bit 8 w) < 256"
proof -
  have "unat (take_bit 8 w) = take_bit 8 (unat w)" by (rule unsigned_take_bit_eq)
  then show ?thesis using take_bit_nat_less_exp [of 8 "unat w"] by simp
qed

lemma compute_crc_byte:
  "compute crc ch = crc_byte (unat (take_bit 8 ch)) crc" for crc :: "32 word"
proof -
  define ix where "ix = take_bit 8 (drop_bit 24 crc XOR ch)"
  have tab: "crc_table ! unat ix = crc_bits8 (push_bit 24 ix)"
    using crc_table_entry [of "unat ix"] unat_take8 [of "drop_bit 24 crc XOR ch"]
    by (simp add: ix_def of_nat_unat del: take_bit_xor)
  have low: "push_bit 8 crc = crc_bits8 (take_bit 24 crc)"
    by (subst crc_bits8_low) (auto simp: bit_simps intro!: bit_word_eqI)
  have "crc XOR push_bit 24 (take_bit 8 ch) = take_bit 24 crc XOR push_bit 24 ix"
    by (rule bit_word_eqI) (auto simp: ix_def bit_simps)
  then show ?thesis
    by (simp add: compute_def crc_byte_def low tab crc_bits8_xor and_ff del: take_bit_xor flip: ix_def)
qed

lemma char_ulong_unat: "unat (char_ulong c :: 32 word) = of_char c"
proof -
  have "(of_char c :: nat) < 4294967296" using nat_of_char_less_256 [of c] by linarith
  then show ?thesis by (simp add: char_ulong_def unat_of_nat)
qed

lemma take8_char [simp]: "take_bit 8 (char_ulong c :: 32 word) = char_ulong c"
proof (rule iffD2 [OF word_unat_eq_iff])
  have "unat (take_bit 8 (char_ulong c :: 32 word)) = take_bit 8 (unat (char_ulong c :: 32 word))"
    by (rule unsigned_take_bit_eq)
  then show "unat (take_bit 8 (char_ulong c :: 32 word)) = unat (char_ulong c :: 32 word)"
    using nat_of_char_less_256 [of c] by (simp add: char_ulong_unat take_bit_nat_eq_self)
qed

lemma fold_crc_bytes:
  "fold (\<lambda>c crc. compute crc (char_ulong c)) s crc = fold crc_byte (map of_char s) crc"
  by (induction s arbitrary: crc) (simp_all add: compute_crc_byte char_ulong_unat)

lemma crc_length_bytes:
  "n < 2 ^ 32 \<Longrightarrow> crc_length crc (word_of_nat n) = fold crc_byte (length_bytes n) crc" for crc :: "32 word"
proof (induction n arbitrary: crc rule: length_bytes.induct)
  case (1 n)
  show ?case
  proof (cases "n = 0")
    case True
    then show ?thesis by (simp add: crc_length.simps length_bytes.simps)
  next
    case False
    have w: "word_of_nat n \<noteq> (0 :: 32 word)"
      using False 1(2) nat_dvd_not_less [of n "2 ^ 32"] by (simp add: word_of_nat_eq_0_iff)
    have d: "drop_bit 8 (word_of_nat n) = (word_of_nat (n div 256) :: 32 word)"
      using 1(2) by (intro iffD2 [OF word_unat_eq_iff]) (simp add: unat_drop_bit_eq unat_of_nat drop_bit_eq_div unat_div)
    have t: "unat (take_bit 8 (word_of_nat n) :: 32 word) = n mod 256"
      using 1(2) by (simp add: unsigned_take_bit_eq unat_of_nat take_bit_eq_mod mod_mod_cancel unat_mod)
    have "crc_length crc (word_of_nat n) = crc_length (crc_byte (n mod 256) crc) (word_of_nat (n div 256))"
      using w d t by (subst crc_length.simps) (simp add: compute_crc_byte and_ff del: take_bit_of_nat)
    also have "\<dots> = fold crc_byte (length_bytes (n div 256)) (crc_byte (n mod 256) crc)"
      using 1 False by simp
    finally show ?thesis using False by (simp add: length_bytes.simps [of n])
  qed
qed

text \<open>
  C29. The table-driven \<open>crc32\<close> of the 32-bit build computes, for every string shorter than
  4 GiB, the bit-serial CRC with polynomial \<open>0x04c11db7\<close> of the string followed by the bytes
  of its length; the 256 table literals are the entries this needs.
\<close>

theorem crc32_is_serial:
  assumes "length s < 2 ^ 32"
  shows "crc32 s = crc_serial (map of_char s @ length_bytes (length s))"
  using crc_length_bytes [OF assms] by (simp add: crc32_def crc_serial_def fold_crc_bytes)

theorem crc32_is_serial_witness:
  "crc32 ''a'' = crc_serial (map of_char ''a'' @ length_bytes (length ''a''))"
  by (rule crc32_is_serial) simp

text \<open>The 64-bit build: the checksum agrees in its low 32 bits.\<close>

lemma ucast_compute:
  fixes v ch :: "64 word"
  shows "ucast (compute v ch) = compute (ucast v) (ucast ch :: 32 word)"
proof -
  have "unat (take_bit 8 (drop_bit 24 v XOR ch)) = unat (take_bit 8 (drop_bit 24 (ucast v) XOR (ucast ch :: 32 word)))"
    by (rule bit_eqI) (auto simp: bit_simps)
  then show ?thesis unfolding compute_def and_ff
    by (intro bit_word_eqI) (auto simp: bit_simps)
qed

lemma ucast_char_ulong: "ucast (char_ulong c :: 64 word) = (char_ulong c :: 32 word)"
proof -
  have "(of_char c :: nat) < 2 ^ 64" using nat_of_char_less_256 [of c] by (rule less_le_trans) simp
  then show ?thesis by (simp add: char_ulong_def unsigned_of_nat take_bit_nat_eq_self)
qed

lemma ucast_crc_length:
  fixes crc len :: "64 word"
  assumes "unat len < 2 ^ 32"
  shows "ucast (crc_length crc len) = crc_length (ucast crc) (ucast len :: 32 word)"
  using assms
proof (induction crc len rule: crc_length.induct)
  case (1 crc len)
  have z: "(ucast len :: 32 word) = 0 \<longleftrightarrow> len = 0"
    using 1(2) by (simp add: word_unat_eq_iff unsigned_ucast_eq take_bit_nat_eq_self)
  have d: "ucast (drop_bit 8 len) = drop_bit 8 (ucast len :: 32 word)"
    using 1(2)
    by (intro iffD2 [OF word_unat_eq_iff])
      (simp add: unat_div unsigned_ucast_eq take_bit_nat_eq_self drop_bit_eq_div
        le_less_trans [OF div_le_dividend])
  have a: "ucast (len AND 0xff) = (ucast len AND 0xff :: 32 word)"
    by (rule bit_word_eqI) (auto simp: bit_simps)
  have l: "unat (drop_bit 8 len) < 2 ^ 32"
    using 1(2) by (simp add: unat_div drop_bit_eq_div le_less_trans [OF div_le_dividend])
  show ?case
  proof (cases "len = 0")
    case True
    then show ?thesis by (simp add: crc_length.simps)
  next
    case False
    then show ?thesis
      using 1(1) [OF False l] z
      by (subst (1 2) crc_length.simps) (simp add: ucast_compute d a)
  qed
qed

lemma ucast_fold_compute:
  "ucast (fold (\<lambda>c crc. compute crc (char_ulong c)) s (v :: 64 word)) =
   (fold (\<lambda>c crc. compute crc (char_ulong c)) s (ucast v) :: 32 word)"
  by (induction s arbitrary: v) (simp_all add: ucast_compute ucast_char_ulong)

lemma ucast_crc32:
  assumes "length s < 2 ^ 32"
  shows "ucast (crc32 s :: 64 word) = (crc32 s :: 32 word)"
proof -
  have n: "unat (word_of_nat (length s) :: 64 word) = length s"
    using assms by (simp add: unsigned_of_nat take_bit_nat_eq_self)
  have w: "ucast (word_of_nat (length s) :: 64 word) = (word_of_nat (length s) :: 32 word)"
    using assms by (simp add: unsigned_of_nat take_bit_nat_eq_self)
  show ?thesis
    unfolding crc32_def using assms n by (simp add: ucast_crc_length ucast_fold_compute w)
qed

section \<open>Trimming\<close>

definition is_blank :: "char \<Rightarrow> bool" where
  "is_blank c = (c = SPC \<or> c = TAB \<or> c = CR \<or> c = LF)"

definition rtrim :: "cstring \<Rightarrow> cstring" where
  "rtrim s = rev (dropWhile is_blank (rev s))"

definition ltrim :: "cstring \<Rightarrow> cstring" where
  "ltrim s = dropWhile is_blank s"

definition trim :: "cstring \<Rightarrow> cstring \<Rightarrow> cstring" where
  "trim s d = (let s' = ltrim (rtrim s) in if s' = [] then d else s')"

lemma ltrim_id: "s = [] \<or> \<not> is_blank (hd s) \<Longrightarrow> ltrim s = s"
  by (cases s) (auto simp: ltrim_def)

lemma rtrim_id: "s = [] \<or> \<not> is_blank (last s) \<Longrightarrow> rtrim s = s"
  by (cases s rule: rev_cases) (auto simp: rtrim_def)

lemma rtrim_append_blank [simp]: "is_blank c \<Longrightarrow> rtrim (s @ [c]) = rtrim s"
  by (simp add: rtrim_def)

lemma ltrim_last: "ltrim s \<noteq> [] \<Longrightarrow> last (ltrim s) = last s"
  by (induction s) (auto simp: ltrim_def dropWhile_eq_Nil_conv split: if_splits)

lemma rtrim_last: "rtrim s \<noteq> [] \<Longrightarrow> \<not> is_blank (last (rtrim s))"
  unfolding rtrim_def by (simp add: last_rev hd_dropWhile)

lemma ltrim_hd: "ltrim s \<noteq> [] \<Longrightarrow> \<not> is_blank (hd (ltrim s))"
  unfolding ltrim_def by (rule hd_dropWhile) (simp add: dropWhile_eq_Nil_conv)

lemma trim_ends: "trim s [] = [] \<or> \<not> is_blank (hd (trim s [])) \<and> \<not> is_blank (last (trim s []))"
proof (cases "ltrim (rtrim s) = []")
  case False
  then have "rtrim s \<noteq> []" by (auto simp: ltrim_def)
  with False show ?thesis
    using ltrim_hd [OF False] ltrim_last [OF False] rtrim_last [of s]
    by (simp add: trim_def)
qed (simp add: trim_def)

lemma trim_idem: "trim (trim s []) [] = trim s []"
  using trim_ends [of s] by (auto simp: trim_def [of "trim s []"] rtrim_id ltrim_id)

section \<open>GetValue\<close>

text \<open>
  \<open>GetValue(content, key, split)\<close> of \<open>frame_utils.c\<close>: the text between \<open>key\<close>, one more
  character, and \<open>split\<close>. \<^const>\<open>None\<close> is the exception \<open>out_of_range\<close> of \<open>substr\<close>.
\<close>

fun str_find :: "cstring \<Rightarrow> cstring \<Rightarrow> nat option" where
  "str_find pat [] = (if pat = [] then Some 0 else None)"
| "str_find pat (c # s) =
     (if take (length pat) (c # s) = pat then Some 0 else map_option Suc (str_find pat s))"

definition GetValue :: "cstring \<Rightarrow> cstring \<Rightarrow> cstring \<Rightarrow> cstring option" where
  "GetValue content key split =
     (case str_find key content of
        None \<Rightarrow> Some []
      | Some pos \<Rightarrow>
          if length content < pos + length key + 1 then None
          else (let stmp = drop (pos + length key + 1) content
                in case str_find split stmp of
                     None \<Rightarrow> Some stmp
                   | Some p \<Rightarrow> Some (take p stmp)))"

lemma str_find_Some: "str_find pat s = Some p \<Longrightarrow> take (length pat) (drop p s) = pat \<and> p + length pat \<le> length s"
proof (induction pat s arbitrary: p rule: str_find.induct)
  case (2 pat c s)
  show ?case
  proof (cases "take (length pat) (c # s) = pat")
    case True
    then have "length pat \<le> length (c # s)" by (metis length_take min.cobounded1)
    with True 2 show ?thesis by simp
  next
    case False
    with 2 show ?thesis by (cases p) (auto split: option.splits)
  qed
qed (simp split: if_splits)

text \<open>The exception is raised exactly when the first occurrence of the key ends the content.\<close>

lemma GetValue_throws:
  "GetValue content key split = None \<longleftrightarrow>
   (\<exists>p. str_find key content = Some p \<and> p + length key = length content)"
  using str_find_Some [of key content]
  by (fastforce simp: GetValue_def Let_def split: option.splits if_splits)

lemma GetValue_example:
  "GetValue ''tns=db1;user=x'' ''tns'' '';'' = Some ''db1''"
  "GetValue ''user=x;tns'' ''tns'' '';'' = None"
  by code_simp+

section \<open>Other forms of the checksum\<close>

text \<open>
  The overload for a buffer with its length, \<^const>\<open>None\<close> when it reads behind the buffer, and the one for a C++ string, which stops at the
  first zero of the string.
\<close>

definition crc32_buffer :: "char list \<Rightarrow> nat \<Rightarrow> 'a::len word option" where
  "crc32_buffer buffer len =
     (if length buffer < len then None
      else Some (crc_length (fold (\<lambda>c crc. compute crc (char_ulong c)) (take len buffer) 0) (word_of_nat len)))"

definition crc32_string :: "char list \<Rightarrow> 'a::len word" where
  "crc32_string str = crc32 (takeWhile (\<lambda>c. c \<noteq> NUL) str)"

text \<open>The forms agree on the characters of a C string; what follows a zero does not count.\<close>

lemma crc32_buffer_prefix: "crc32_buffer (s @ rest) (length s) = Some (crc32 s)"
  by (simp add: crc32_buffer_def crc32_def)

lemma crc32_forms:
  assumes "NUL \<notin> set s"
  shows "crc32_buffer (s @ NUL # rest) (length s) = Some (crc32_string (s @ NUL # rest))"
proof -
  have "takeWhile (\<lambda>c. c \<noteq> NUL) (s @ NUL # rest) = s"
    using assms by (induction s) auto
  then show ?thesis by (simp add: crc32_buffer_prefix crc32_string_def)
qed

end
