(* ===== verification/Task_Data.thy ===== *)
theory Task_Data
  imports Frame_Utils
begin

text \<open>
  The data the parts of the program share: the schedule entry \<open>T\<close> of \<open>schedule.h\<close>, the task
  \<open>TASK_ITEM\<close> and the directory entry \<open>FTP_FILE_INFO\<close> of \<open>taskitem.h\<close>, the server address of
  \<open>ftpprocess.h\<close>, the error codes and \<open>TFileInfo\<close> of \<open>definitions.h\<close>. A linked list of the
  program is a HOL list; a character array is the string it holds.
\<close>

section \<open>definitions.h, schedule.h, ftpprocess.h\<close>

datatype tERROR = ERR_OK | ERR_Mutex | ERR_NotImplemented

record TFileInfo =
  FileName :: cstring
  nFileSize :: int
  nConflictCount :: nat
  ftptime :: time_t
  nftpid :: int

record SCHEDULE_ITEM =
  sch_id :: int
  sch_month :: cstring
  sch_day :: cstring
  sch_hour :: cstring
  sch_min :: cstring

record FTP_SERVER_INFO =
  srv_ip :: cstring
  srv_port :: int
  srv_user :: cstring
  srv_pass :: cstring

definition FTP_GET :: int where "FTP_GET = 0"
definition FTP_PUT :: int where "FTP_PUT = 1"
definition SFTP_GET :: int where "SFTP_GET = 3"
definition SFTP_PUT :: int where "SFTP_PUT = 4"

section \<open>taskitem.h\<close>

record TASK_ITEM =
  sch_item :: SCHEDULE_ITEM
  ftp_host :: cstring
  ftp_path :: cstring
  local_path :: cstring
  task_file :: cstring
  direction :: int
  del_src :: int
  generate_db_cdr :: int
  file_ctime_escape :: time_t
  use_tmp :: int
  copy_flag :: int
  sh_file :: cstring
  son_dir_mask :: cstring
  cp_dir_1 :: cstring
  cp_dir_2 :: cstring
  cp_dir_3 :: cstring
  cp_dir_4 :: cstring
  ftp_flag :: int

record FTP_FILE_INFO =
  fi_dir :: int
  fi_access :: cstring
  fi_size :: int
  tModifyTime :: time_t
  fi_file :: cstring

text \<open>The first task of the list with the given id.\<close>

fun get_task_item_by_id :: "TASK_ITEM list \<Rightarrow> int \<Rightarrow> TASK_ITEM option" where
  "get_task_item_by_id [] i = None"
| "get_task_item_by_id (t # ts) i =
     (if sch_id (sch_item t) = i then Some t else get_task_item_by_id ts i)"

fun if_in_list_exist :: "FTP_FILE_INFO list \<Rightarrow> FTP_FILE_INFO \<Rightarrow> bool" where
  "if_in_list_exist [] x = False"
| "if_in_list_exist (t # ts) x =
     (if fi_size t = fi_size x \<and> fi_file t = fi_file x then True else if_in_list_exist ts x)"

lemma get_task_item_by_id_find:
  "get_task_item_by_id ts i = List.find (\<lambda>t. sch_id (sch_item t) = i) ts"
  by (induction ts) auto

lemma get_task_item_by_id_Some:
  "get_task_item_by_id ts i = Some t \<Longrightarrow> t \<in> set ts \<and> sch_id (sch_item t) = i"
  by (induction ts) (auto split: if_splits)

lemma if_in_list_exist_iff:
  "if_in_list_exist ts x \<longleftrightarrow> (fi_size x, fi_file x) \<in> (\<lambda>t. (fi_size t, fi_file t)) ` set ts"
  by (induction ts) auto

definition IsNumber :: "cstring \<Rightarrow> bool" where
  "IsNumber s = list_all is_digit s"

end
