(* ===== verification/Ftp_Client.thy ===== *)
theory Ftp_Client
  imports Ftp_Reply Task_Data
begin

text \<open>
  The operations of the FTP client (\<open>ftpprocess.c\<close>): connecting, the data connection in its passive
  and active form, the transfer loops for binary and for text, and the \<open>ftp_\<close> functions the tasks
  call. What is only logged is left out: the numbers of bytes and of bare line feeds, and the time and rate of
  \<open>ptransfer\<close>.
\<close>

abbreviation (input) "PRELIM \<equiv> 1 :: int"
abbreviation (input) "COMPLETE \<equiv> 2 :: int"
abbreviation (input) "CONTINUE \<equiv> 3 :: int"
abbreviation (input) "FTP_ERROR \<equiv> 5 :: int"

section \<open>System calls\<close>

definition sys :: "ftp \<Rightarrow> bool \<times> ftp" where
  "sys f = (case sys_in f of [] \<Rightarrow> (False, f) | b # bs \<Rightarrow> (b, f\<lparr>sys_in := bs\<rparr>))"

text \<open>Calls in a row, up to the first failure.\<close>

fun sys_all :: "nat \<Rightarrow> ftp \<Rightarrow> bool \<times> ftp" where
  "sys_all 0 f = (True, f)"
| "sys_all (Suc k) f = (let (ok, f1) = sys f in if ok then sys_all k f1 else (False, f1))"

definition safe_read :: "select_answer \<Rightarrow> read_result \<Rightarrow> int \<times> cstring" where
  "safe_read s r =
     (case s of
        SelFail \<Rightarrow> (-1, [])
      | SelExpired \<Rightarrow> (0, [])
      | SelReady False \<Rightarrow> (0, [])
      | SelReady True \<Rightarrow> (case r of ReadData d \<Rightarrow> (int (length d), d) | ReadEof \<Rightarrow> (0, []) | _ \<Rightarrow> (-1, [])))"

definition safe_write :: "select_answer \<Rightarrow> write_result \<Rightarrow> nat \<Rightarrow> int" where
  "safe_write s w n =
     (case s of
        SelFail \<Rightarrow> -1
      | SelExpired \<Rightarrow> 0
      | SelReady False \<Rightarrow> 0
      | SelReady True \<Rightarrow> (case w of Wrote k \<Rightarrow> int (min k n) | _ \<Rightarrow> -1))"

section \<open>Type and mode\<close>

definition types :: "(cstring \<times> cstring \<times> transfer_type) list" where
  "types = [(''ascii'', ''A'', TYPE_A), (''binary'', ''I'', TYPE_I), (''image'', ''I'', TYPE_I), (''ebcdic'', ''E'', TYPE_E)]"

definition do_settype :: "cstring \<Rightarrow> ftp \<Rightarrow> ftp option" where
  "do_settype ty f =
     (case map_of types ty of
        None \<Rightarrow> Some (f\<lparr>ftp_code := -1\<rparr>)
      | Some (mode, t) \<Rightarrow>
          do { (r, f1) \<leftarrow> command ''TYPE'' (Some mode) f; Some (if r = COMPLETE then f1\<lparr>ftp_cur_type := t\<rparr> else f1) })"

definition setpassive :: "ftp \<Rightarrow> ftp" where
  "setpassive f = f\<lparr>ftp_passive_mode := \<not> ftp_passive_mode f\<rparr>"

section \<open>Connecting\<close>

text \<open>
  \<open>inet_pton\<close>, \<open>socket\<close>, \<open>connect\<close> and \<open>getsockname\<close> are asked in turn, then \<open>fdopen\<close> twice; the
  streams stay set when the greeting is refused.
\<close>

definition ftp_conn :: "ftp \<Rightarrow> (int \<times> ftp) option" where
  "ftp_conn f =
     (let (ok, f1) = sys_all 4 (setpassive (f\<lparr>ftp_buf := []\<rparr>)) in
      if \<not> ok then Some (-1, f1\<lparr>ftp_code := -1\<rparr>)
      else
        let (cin, f2) = sys f1; (cout, f3) = sys f2; f4 = f3\<lparr>ftp_cout := cout\<rparr> in
        if \<not> cin \<or> \<not> cout then Some (-1, f4\<lparr>ftp_code := -1\<rparr>)
        else do {
          (r, f5) \<leftarrow> getreply False f4;
          if r > 2 then Some (-1, f5\<lparr>ftp_code := -1\<rparr>) else Some (1, f5\<lparr>ftp_if_conn := True\<rparr>)
        })"

definition ftp_login :: "FTP_SERVER_INFO \<Rightarrow> ftp \<Rightarrow> (int \<times> ftp) option" where
  "ftp_login srv f =
     (if \<not> ftp_if_conn f then Some (0, f)
      else do {
        (n, f1) \<leftarrow> command ''USER'' (Some (srv_user srv)) f;
        (n2, f2) \<leftarrow> (if n = CONTINUE then command ''PASS'' (Some (srv_pass srv)) f1 else Some (n, f1));
        Some (if n2 \<noteq> COMPLETE then 0 else 1, f2)
      })"

section \<open>The data connection\<close>

text \<open>
  \<open>sscanf\<close> with \<open>%ld\<close>: white space, a sign, digits. (Values that do not fit a \<open>long\<close> are read
  as they are.)
\<close>

definition scan_long :: "cstring \<Rightarrow> (int \<times> cstring) option" where
  "scan_long s =
     (let t = dropWhile is_space s;
          u = (if t \<noteq> [] \<and> (hd t = CHR ''-'' \<or> hd t = CHR ''+'') then tl t else t);
          d = takeWhile is_digit u; v = digits_val 0 d
      in if d = [] then None
         else Some (if t \<noteq> [] \<and> hd t = CHR ''-'' then - v else v, dropWhile is_digit u))"

fun scan_longs :: "nat \<Rightarrow> cstring \<Rightarrow> int list" where
  "scan_longs 0 s = []"
| "scan_longs (Suc k) s =
     (case scan_long s of
        None \<Rightarrow> []
      | Some (v, r) \<Rightarrow> v # (case r of c # r' \<Rightarrow> if c = CHR '','' then scan_longs k r' else [] | [] \<Rightarrow> []))"

definition addr_of :: "64 word \<Rightarrow> 64 word \<Rightarrow> 64 word \<Rightarrow> 64 word \<Rightarrow> 32 word" where
  "addr_of a1 a2 a3 a4 = ucast (or (or (or (push_bit 24 a1) (push_bit 16 a2)) (push_bit 8 a3)) a4)"

definition port_of :: "64 word \<Rightarrow> 64 word \<Rightarrow> 16 word" where
  "port_of p1 p2 = ucast (or (push_bit 8 p1) p2)"

definition pasv_address :: "cstring \<Rightarrow> (32 word \<times> 16 word) option" where
  "pasv_address s =
     (case scan_longs 6 s of
        [a1, a2, a3, a4, p1, p2] \<Rightarrow>
          Some (addr_of (of_int a1) (of_int a2) (of_int a3) (of_int a4), port_of (of_int p1) (of_int p2))
      | _ \<Rightarrow> None)"

text \<open>The passive branch: result 0 is success.\<close>

definition initconn_pasv :: "ftp \<Rightarrow> (int \<times> ftp) option" where
  "initconn_pasv f =
     (let (ok, f1) = sys f; f2 = f1\<lparr>ftp_data := ok\<rparr> in
      if \<not> ok then Some (1, f2)
      else do {
        (r, f3) \<leftarrow> command ''PASV'' None f2;
        if r \<noteq> COMPLETE then Some (1, f3)
        else case pasv_address (c_str (ftp_pasv f3)) of
            None \<Rightarrow> Some (1, f3)
          | Some a \<Rightarrow>
              let (ok, f4) = sys (f3\<lparr>ftp_data_addr := Some a\<rparr>) in Some (if ok then 0 else 1, f4)
      })"

text \<open>
  The active branch. \<open>tmpno\<close> marks the second round, which is taken when the server refuses \<open>PORT\<close>;
  \<^const>\<open>None\<close> in the result asks for it.
\<close>

definition restore_port :: "bool \<Rightarrow> ftp \<Rightarrow> ftp" where
  "restore_port tmpno f = (if tmpno then f\<lparr>ftp_sendport := 1\<rparr> else f)"

text \<open>\<open>socket\<close>, \<open>setsockopt\<close> (without \<open>PORT\<close> only), \<open>bind\<close>, \<open>getsockname\<close>, and \<open>listen\<close>, whose result is ignored.\<close>

definition listen_socket :: "ftp \<Rightarrow> bool \<times> ftp" where
  "listen_socket f =
     (let (ok, f1) = sys f; f2 = f1\<lparr>ftp_data := ok\<rparr> in
      if \<not> ok then (False, f2)
      else let (ok, f3) = sys_all (if ftp_sendport f2 = 0 then 3 else 2) f2 in
      if \<not> ok then (False, f3\<lparr>ftp_data := False\<rparr>) else (True, snd (sys f3)))"

definition initconn_port :: "bool \<Rightarrow> ftp \<Rightarrow> (int option \<times> ftp) option" where
  "initconn_port tmpno f =
     (let (ok, f1) = listen_socket f in
      if \<not> ok then Some (Some 1, restore_port tmpno f1)
      else if ftp_sendport f1 \<noteq> 0 then do {
        (r, f2) \<leftarrow> command ''PORT'' (Some (own_addr f1)) f1;
        if r = FTP_ERROR \<and> ftp_sendport f2 = -1 then Some (None, f2\<lparr>ftp_sendport := 0\<rparr>)
        else Some (Some (if r \<noteq> COMPLETE then 1 else 0), f2)
      }
      else Some (Some 0, restore_port tmpno f1))"

definition initconn :: "ftp \<Rightarrow> (int \<times> ftp) option" where
  "initconn f =
     (if ftp_passive_mode f then initconn_pasv f
      else do {
        (r, f1) \<leftarrow> initconn_port False f;
        case r of
          Some i \<Rightarrow> Some (i, f1)
        | None \<Rightarrow> do { (r2, f2) \<leftarrow> initconn_port True f1; case r2 of Some i \<Rightarrow> Some (i, f2) | None \<Rightarrow> None }
      })"

text \<open>\<open>dataconn\<close>: \<open>accept\<close> in active mode, then \<open>fdopen\<close>.\<close>

definition dataconn :: "ftp \<Rightarrow> bool \<times> ftp" where
  "dataconn f =
     (if ftp_passive_mode f then sys f
      else let (ok, f1) = sys f in
        if \<not> ok then (False, f1\<lparr>ftp_data := False\<rparr>) else sys f1)"

section \<open>The text streams\<close>

text \<open>
  The transfers of type \<open>TYPE_A\<close> read and write characters by \<open>getc\<close> and \<open>putc\<close>. The characters of a
  stream are the data up to the first \<open>read\<close> that returns none; an output stream is the characters it
  has taken, its error flag, and the answers of its \<open>write\<close> calls, one to each \<open>putc\<close> (streams are taken to be
  unbuffered; \<open>takes\<close> is the answer that takes the character).
\<close>

fun stream_chars :: "read_result list \<Rightarrow> cstring \<times> read_result list" where
  "stream_chars [] = ([], [])"
| "stream_chars (r # rs) =
     (case r of
        ReadData d \<Rightarrow> if d = [] then ([], rs) else (let (s, rest) = stream_chars rs in (d @ s, rest))
      | _ \<Rightarrow> ([], rs))"

definition takes :: "write_result \<Rightarrow> bool" where
  "takes w = (case w of Wrote k \<Rightarrow> 0 < k | _ \<Rightarrow> False)"

type_synonym 'w out_stream = "cstring \<times> bool \<times> 'w list"

fun putc :: "('w \<Rightarrow> bool) \<Rightarrow> char \<Rightarrow> 'w out_stream \<Rightarrow> 'w out_stream" where
  "putc ok c (out, err, []) = (out, True, [])"
| "putc ok c (out, err, w # ws) = (if ok w then (out @ [c], err, ws) else (out, True, ws))"

definition ferror :: "'w out_stream \<Rightarrow> bool" where
  "ferror st = fst (snd st)"

text \<open>\<open>_ftp_crflag\<close> is never set: carriage returns are kept.\<close>

definition ftp_crflag :: bool where
  "ftp_crflag = False"

section \<open>Receiving a file\<close>

text \<open>
  The loop of \<open>recvrequest\<close>: what reaches the local file, and the scripts left. It ends at the end
  of the stream, a failure or a time out, and at the first \<open>write\<close> that is not complete.
\<close>

fun recv_loop ::
  "(select_answer \<times> read_result) list \<Rightarrow> write_result list \<Rightarrow> cstring \<times> (select_answer \<times> read_result) list \<times> write_result list" where
  "recv_loop [] ws = ([], [], ws)"
| "recv_loop ((s, r) # rs) ws =
     (let (c, d) = safe_read s r in
      if c \<le> 0 then ([], rs, ws)
      else (case ws of
              [] \<Rightarrow> ([], rs, [])
            | w # ws' \<Rightarrow>
                (case w of
                   Wrote k \<Rightarrow>
                     if int (min k (length d)) \<noteq> c then (take k d, rs, ws')
                     else (let (out, rest) = recv_loop rs ws' in (d @ out, rest))
                 | _ \<Rightarrow> ([], rs, ws'))))"

text \<open>
  The loop for text, on the characters of the data stream: a carriage return before a line feed is
  dropped unless \<open>tcrflag\<close> is set; others are written, the NUL behind one is not.
\<close>

fun text_recv :: "bool \<Rightarrow> cstring \<Rightarrow> write_result out_stream \<Rightarrow> write_result out_stream" where
  "text_recv tcrflag [] st = st"
| "text_recv tcrflag [c] st = (if c = CR \<and> ferror st then st else putc takes c st)"
| "text_recv tcrflag (c # d # s) st =
     (if c \<noteq> CR then text_recv tcrflag (d # s) (putc takes c st)
      else if d \<noteq> LF \<or> tcrflag then
        (if ferror st then st
         else if d = NUL then text_recv tcrflag s (putc takes CR st)
         else text_recv tcrflag (d # s) (putc takes CR st))
      else text_recv tcrflag s (putc takes LF st))"

text \<open>The switch on the transfer type.\<close>

definition recv_data ::
  "transfer_type \<Rightarrow> (select_answer \<times> read_result) list \<Rightarrow> write_result list \<Rightarrow> cstring \<times> (select_answer \<times> read_result) list \<times> write_result list" where
  "recv_data t ns ws =
     (case t of
        TYPE_I \<Rightarrow> recv_loop ns ws
      | TYPE_L \<Rightarrow> recv_loop ns ws
      | TYPE_A \<Rightarrow>
          (let (s, rs) = stream_chars (map snd ns); (out, err, ws') = text_recv (\<not> ftp_crflag) s ([], False, ws)
           in (out, drop (length ns - length rs) ns, ws'))
      | TYPE_E \<Rightarrow> ([], ns, ws))"

text \<open>\<open>while (_ftp_cp_end) getreply(0);\<close>\<close>

partial_function (option) drain_replies :: "ftp \<Rightarrow> ftp option" where
  "drain_replies f = (if ftp_cp_end f then Option.bind (getreply False f) (\<lambda>(r, f1). drain_replies f1) else Some f)"

declare drain_replies.simps [code]

definition abort_remote :: "bool \<Rightarrow> ftp \<Rightarrow> ftp option" where
  "abort_remote din f =
     (if \<not> ftp_cout f then None
      else
        let f1 = f\<lparr>ctl_out := ctl_out f @ [[CHR 0xFF, CHR 0xF4, CHR 0xFF], CHR 0xF2 # ''ABOR'' @ [CR, LF]]\<rparr>;
            (some, f2) = sys f1; f3 = (if some then f2 else lostpeer f2);
            (bit, f4) = (if din then sys f3 else (False, f3));
            f5 = (if bit then f4\<lparr>net_in := tl (dropWhile (\<lambda>(_, r). case r of ReadData d \<Rightarrow> d \<noteq> [] | _ \<Rightarrow> False) (net_in f4))\<rparr> else f4)
        in do {
          (r, f6) \<leftarrow> getreply False f5;
          f7 \<leftarrow> (if r = FTP_ERROR \<and> ftp_code f6 = 552 then map_option snd (getreply False f6) else Some f6);
          map_option snd (getreply False f7)
        })"

text \<open>The label \<open>abort\<close>; the flag tells whether the data stream \<open>din\<close> is there.\<close>

definition recv_abort :: "bool \<Rightarrow> ftp \<Rightarrow> ftp option" where
  "recv_abort din f =
     (if \<not> ftp_cp_end f then Some (f\<lparr>ftp_code := -1\<rparr>)
      else do { f1 \<leftarrow> abort_remote din f; Some (f1\<lparr>ftp_code := -1, ftp_data := False\<rparr>) })"

definition recvrequest :: "cstring \<Rightarrow> cstring \<Rightarrow> cstring option \<Rightarrow> ftp \<Rightarrow> ftp option" where
  "recvrequest cmd local remote f =
     do {
       f1 \<leftarrow> do_settype ''binary'' f;
       (bad, f2) \<leftarrow> initconn f1;
       if bad \<noteq> 0 then do { f3 \<leftarrow> drain_replies f2; Some (f3\<lparr>ftp_data := False, ftp_code := -1\<rparr>) }
       else do {
         (r, f3) \<leftarrow> command cmd remote f2;
         if r \<noteq> PRELIM then Some (f3\<lparr>ftp_code := -1\<rparr>)
         else
           let (din, f4) = dataconn f3 in
           if \<not> din then recv_abort False f4
           else
             let (fout, f5) = (if local = ''-'' then (True, f4) else sys f4) in
             if \<not> fout then recv_abort True f5
             else
               let f6 = (if local = ''-'' then f5 else f5\<lparr>local_files := (local_files f5)(local \<mapsto> [])\<rparr>);
                   (mem, f7) = sys f6 in
               if \<not> mem then recv_abort True f7
               else
                 let (out, ns, ws) = recv_data (ftp_cur_type f7) (net_in f7) (file_out f7);
                     f8 = f7\<lparr>net_in := ns, file_out := ws,
                             local_files := (if local = ''-'' then local_files f7 else (local_files f7)(local \<mapsto> out)),
                             ftp_data := False\<rparr>
                 in map_option snd (getreply False f8)
       }
     }"

section \<open>Sending a file\<close>

text \<open>
  The two loops of \<open>sendrequest\<close>: what reaches the server. The inner loop gives up on a time out or a
  failure; the outer loop then goes on with the next block.
\<close>

fun send_buf :: "cstring \<Rightarrow> (select_answer \<times> write_result) list \<Rightarrow> cstring \<times> (select_answer \<times> write_result) list" where
  "send_buf p [] = ([], [])"
| "send_buf p ((s, w) # as) =
     (let d = safe_write s w (length p) in
      if d \<le> 0 then ([], as)
      else if nat d = length p then (p, as)
      else (let (out, rest) = send_buf (drop (nat d) p) as in (take (nat d) p @ out, rest)))"

fun send_loop ::
  "read_result list \<Rightarrow> (select_answer \<times> write_result) list \<Rightarrow> cstring \<times> read_result list \<times> (select_answer \<times> write_result) list" where
  "send_loop [] ns = ([], [], ns)"
| "send_loop (r # rs) ns =
     (case r of
        ReadData d \<Rightarrow>
          if d = [] then ([], rs, ns)
          else (let (out, ns1) = send_buf d ns; (out2, rest) = send_loop rs ns1 in (out @ out2, rest))
      | _ \<Rightarrow> ([], rs, ns))"

text \<open>The loop for text: a carriage return goes before each line feed. Then the switch.\<close>

fun text_send :: "cstring \<Rightarrow> (select_answer \<times> write_result) out_stream \<Rightarrow> (select_answer \<times> write_result) out_stream" where
  "text_send [] st = st"
| "text_send (c # s) st =
     (if c = LF
      then (if ferror st then st else text_send s (putc (\<lambda>a. takes (snd a)) c (putc (\<lambda>a. takes (snd a)) CR st)))
      else text_send s (putc (\<lambda>a. takes (snd a)) c st))"

definition send_data ::
  "transfer_type \<Rightarrow> read_result list \<Rightarrow> (select_answer \<times> write_result) list \<Rightarrow> cstring \<times> read_result list \<times> (select_answer \<times> write_result) list" where
  "send_data t rs ns =
     (case t of
        TYPE_I \<Rightarrow> send_loop rs ns
      | TYPE_L \<Rightarrow> send_loop rs ns
      | TYPE_A \<Rightarrow>
          (let (s, rs') = stream_chars rs; (out, err, ns') = text_send s ([], False, ns) in (out, rs', ns'))
      | TYPE_E \<Rightarrow> ([], rs, ns))"

definition send_abort :: "ftp \<Rightarrow> ftp option" where
  "send_abort f =
     (if \<not> ftp_cp_end f then Some (f\<lparr>ftp_code := -1\<rparr>)
      else do { (_, f1) \<leftarrow> getreply False (f\<lparr>ftp_data := False\<rparr>); Some (f1\<lparr>ftp_code := -1\<rparr>) })"

text \<open>\<open>fopen64\<close> and the test for a plain file are the first two answers.\<close>

definition sendrequest :: "cstring \<Rightarrow> cstring \<Rightarrow> ftp \<Rightarrow> ftp option" where
  "sendrequest cmd remote f =
     (let (fin, f1) = sys f in
      if \<not> fin then Some (f1\<lparr>ftp_code := -1\<rparr>)
      else let (plain_file, f2) = sys f1 in
      if \<not> plain_file then Some (f2\<lparr>ftp_code := -1\<rparr>)
      else do {
        (bad, f3) \<leftarrow> initconn f2;
        if bad \<noteq> 0 then Some (f3\<lparr>ftp_code := -1\<rparr>)
        else do {
          (r, f4) \<leftarrow> command cmd (Some remote) f3;
          if r \<noteq> PRELIM then Some f4
          else
            let (dout, f5) = dataconn f4 in
            if \<not> dout then send_abort f5
            else
              let (out, rs, ns) = send_data (ftp_cur_type f5) (file_in f5) (net_out f5);
                  f6 = f5\<lparr>file_in := rs, net_out := ns, data_out := data_out f5 @ [(remote, out)], ftp_data := False\<rparr>
              in map_option snd (getreply False f6)
        }
      })"

section \<open>The functions the tasks call\<close>

definition ftp_ok :: "ftp \<Rightarrow> int" where
  "ftp_ok f = (if ftp_code f div 100 = 2 then 1 else 0)"

text \<open>A single command, judged by its code.\<close>

definition ftp_cmd :: "cstring \<Rightarrow> cstring \<Rightarrow> ftp \<Rightarrow> (int \<times> ftp) option" where
  "ftp_cmd verb arg f =
     (if \<not> ftp_if_conn f then Some (0, f)
      else do { (_, f1) \<leftarrow> command verb (Some arg) f; Some (ftp_ok f1, f1) })"

definition ftp_list :: "cstring option \<Rightarrow> cstring \<Rightarrow> ftp \<Rightarrow> (int \<times> ftp) option" where
  "ftp_list path local f =
     (if \<not> ftp_if_conn f then Some (0, f)
      else do { f1 \<leftarrow> recvrequest ''LIST'' local path f; Some (ftp_ok f1, f1) })"

definition ftp_lcd :: "ftp \<Rightarrow> int \<times> ftp" where
  "ftp_lcd f = (let (ok, f1) = sys f in if \<not> ok then (0, f1\<lparr>ftp_code := -1\<rparr>) else (1, f1\<lparr>ftp_code := 0\<rparr>))"

definition ftp_cd :: "cstring \<Rightarrow> ftp \<Rightarrow> (int \<times> ftp) option" where
  "ftp_cd path f = ftp_cmd ''CWD'' path f"

definition ftp_del :: "cstring \<Rightarrow> ftp \<Rightarrow> (int \<times> ftp) option" where
  "ftp_del remote f = ftp_cmd ''DELE'' remote f"

definition ftp_get :: "cstring \<Rightarrow> cstring \<Rightarrow> ftp \<Rightarrow> (int \<times> ftp) option" where
  "ftp_get local remote f =
     (if \<not> ftp_if_conn f then Some (0, f)
      else do { f1 \<leftarrow> recvrequest ''RETR'' local (Some remote) f; Some (ftp_ok f1, f1) })"

definition ftp_put :: "cstring \<Rightarrow> ftp \<Rightarrow> (int \<times> ftp) option" where
  "ftp_put remote f =
     (if \<not> ftp_if_conn f then Some (0, f)
      else do { f1 \<leftarrow> sendrequest ''STOR'' remote f; Some (ftp_ok f1, f1) })"

definition ftp_quit :: "ftp \<Rightarrow> (int \<times> ftp) option" where
  "ftp_quit f =
     (if \<not> ftp_if_conn f then Some (0, f)
      else do { (_, f1) \<leftarrow> command ''QUIT'' None f; Some (1, f1) })"

definition ftp_rename :: "cstring \<Rightarrow> cstring \<Rightarrow> ftp \<Rightarrow> (int \<times> ftp) option" where
  "ftp_rename src dest f =
     do {
       (r, f1) \<leftarrow> command ''RNFR'' (Some src) f;
       f2 \<leftarrow> (if r = CONTINUE then map_option snd (command ''RNTO'' (Some dest) f1) else Some f1);
       Some (ftp_ok f2, f2)
     }"

text \<open>
  \<open>ftp_mkdir\<close>: \<open>strtok\<close> cuts the path at slashes; the parts are joined again one by one in 4096
  bytes, and each prefix is entered or made.
\<close>

fun split_slash :: "cstring \<Rightarrow> cstring \<Rightarrow> cstring list" where
  "split_slash acc [] = (if acc = [] then [] else [acc])"
| "split_slash acc (c # s) =
     (if c = CHR ''/'' then (if acc = [] then split_slash [] s else acc # split_slash [] s)
      else split_slash (acc @ [c]) s)"

fun mkdir_loop :: "cstring \<Rightarrow> cstring list \<Rightarrow> ftp \<Rightarrow> (int \<times> ftp) option" where
  "mkdir_loop path [] f = Some (ftp_ok f, f)"
| "mkdir_loop path (t # ts) f =
     (let path' = path @ CHR ''/'' # t in
      if 4096 \<le> length path' then None
      else if \<not> ftp_if_conn f then Some (0, f)
      else do {
        (_, f1) \<leftarrow> command ''CWD'' (Some path') f;
        if ftp_ok f1 = 1 then mkdir_loop path' ts f1
        else do {
          (_, f2) \<leftarrow> command ''XMKD'' (Some path') f1;
          if ftp_ok f2 = 1 then mkdir_loop path' ts f2 else Some (0, f2)
        }
      })"

definition ftp_mkdir :: "cstring \<Rightarrow> ftp \<Rightarrow> (int \<times> ftp) option" where
  "ftp_mkdir path f = mkdir_loop [] (split_slash [] path) f"

section \<open>Times\<close>

record timeval =
  tv_sec :: int
  tv_usec :: int

definition tvsub :: "timeval \<Rightarrow> timeval \<Rightarrow> timeval" where
  "tvsub t1 t0 =
     (let tdiff = \<lparr>tv_sec = tv_sec t1 - tv_sec t0, tv_usec = tv_usec t1 - tv_usec t0\<rparr>
      in if tv_usec tdiff < 0 then tdiff\<lparr>tv_sec := tv_sec tdiff - 1, tv_usec := tv_usec tdiff + 1000000\<rparr> else tdiff)"

definition microseconds :: "timeval \<Rightarrow> int" where
  "microseconds t = 1000000 * tv_sec t + tv_usec t"

lemma tvsub_exact: "microseconds (tvsub t1 t0) = microseconds t1 - microseconds t0"
  by (simp add: tvsub_def microseconds_def Let_def)

lemma tvsub_normal:
  "0 \<le> tv_usec t0 \<Longrightarrow> tv_usec t0 < 1000000 \<Longrightarrow> 0 \<le> tv_usec t1 \<Longrightarrow> tv_usec t1 < 1000000 \<Longrightarrow>
   0 \<le> tv_usec (tvsub t1 t0) \<and> tv_usec (tvsub t1 t0) < 1000000"
  by (simp add: tvsub_def Let_def)

end
