(* ===== verification/Ftp_Type.thy ===== *)
theory Ftp_Type
  imports Ftp_Client
begin

text \<open>
  The transfer type. Every operation of the client leaves it alone or sets it to binary, so the loops of
  \<open>recvrequest\<close> and \<open>sendrequest\<close> for text are never taken.
\<close>

named_theorems type_dest \<open>the transfer type after an operation\<close>

section \<open>Operations that leave the type alone\<close>

lemma lostpeer_type [simp]: "ftp_cur_type (lostpeer f) = ftp_cur_type f"
  by (simp add: lostpeer_def)

lemma getreply_type [type_dest]: "getreply e f = Some (r, f') \<Longrightarrow> ftp_cur_type f' = ftp_cur_type f"
  by (auto dest!: type_dest simp: getreply_def Let_def split: option.splits if_splits)

lemma command_type [type_dest]: "command v a f = Some (r, f') \<Longrightarrow> ftp_cur_type f' = ftp_cur_type f"
  by (auto dest!: type_dest simp: command_def Let_def split: if_splits)

lemma sys_type [type_dest]: "sys f = (b, f') \<Longrightarrow> ftp_cur_type f' = ftp_cur_type f"
  by (auto dest!: type_dest simp: sys_def split: list.splits)

lemma snd_sys_type [simp]: "ftp_cur_type (snd (sys f)) = ftp_cur_type f"
  by (simp add: sys_def split: list.splits)

lemma sys_all_type [type_dest]: "sys_all k f = (b, f') \<Longrightarrow> ftp_cur_type f' = ftp_cur_type f"
  by (induction k f rule: sys_all.induct) (auto dest!: type_dest split: prod.splits if_splits)

lemma drain_type [type_dest]: "drain_replies f = Some f' \<Longrightarrow> ftp_cur_type f' = ftp_cur_type f"
  by (erule drain_replies.raw_induct [of "\<lambda>f f'. ftp_cur_type f' = ftp_cur_type f", rotated]) (auto dest!: type_dest split: if_splits bind_splits)

lemma initconn_pasv_type [type_dest]: "initconn_pasv f = Some (r, f') \<Longrightarrow> ftp_cur_type f' = ftp_cur_type f"
  by (auto dest!: type_dest simp: initconn_pasv_def Let_def split: prod.splits if_splits bind_splits option.splits)

lemma listen_type [type_dest]: "listen_socket f = (b, f') \<Longrightarrow> ftp_cur_type f' = ftp_cur_type f"
  by (auto dest!: type_dest simp: listen_socket_def Let_def split: prod.splits if_splits)

lemma initconn_port_type [type_dest]: "initconn_port t f = Some (r, f') \<Longrightarrow> ftp_cur_type f' = ftp_cur_type f"
  by (auto dest!: type_dest simp: initconn_port_def restore_port_def Let_def split: prod.splits if_splits bind_splits)

lemma initconn_type [type_dest]: "initconn f = Some (r, f') \<Longrightarrow> ftp_cur_type f' = ftp_cur_type f"
  by (auto dest!: type_dest simp: initconn_def split: prod.splits if_splits bind_splits option.splits)

lemma dataconn_type [type_dest]: "dataconn f = (b, f') \<Longrightarrow> ftp_cur_type f' = ftp_cur_type f"
  by (auto dest!: type_dest simp: dataconn_def Let_def split: prod.splits if_splits)

lemma abort_remote_type [type_dest]: "abort_remote d f = Some f' \<Longrightarrow> ftp_cur_type f' = ftp_cur_type f"
  by (auto dest!: type_dest simp: abort_remote_def Let_def split: prod.splits if_splits bind_splits)

lemma recv_abort_type [type_dest]: "recv_abort d f = Some f' \<Longrightarrow> ftp_cur_type f' = ftp_cur_type f"
  by (auto dest!: type_dest simp: recv_abort_def split: if_splits bind_splits)

lemma send_abort_type [type_dest]: "send_abort f = Some f' \<Longrightarrow> ftp_cur_type f' = ftp_cur_type f"
  by (auto dest!: type_dest simp: send_abort_def split: if_splits bind_splits)

lemma sendrequest_type [type_dest]: "sendrequest c r f = Some f' \<Longrightarrow> ftp_cur_type f' = ftp_cur_type f"
  by (auto dest!: type_dest simp: sendrequest_def Let_def split: prod.splits if_splits bind_splits)

section \<open>Operations that set it\<close>

lemma settype_binary [type_dest]: "do_settype ''binary'' f = Some f' \<Longrightarrow> ftp_cur_type f' = TYPE_I \<or> ftp_cur_type f' = ftp_cur_type f"
  by (auto dest!: type_dest simp: do_settype_def types_def split: bind_splits if_splits)

lemma recvrequest_type:
  assumes "recvrequest c l r f = Some f'" and "ftp_cur_type f = TYPE_I"
  shows "ftp_cur_type f' = TYPE_I"
  using assms by (auto dest!: type_dest simp: recvrequest_def Let_def split: prod.splits if_splits bind_splits)

section \<open>Sessions\<close>

text \<open>Everything the tasks call.\<close>

datatype ftp_call =
    Conn | Login FTP_SERVER_INFO | List "cstring option" cstring | Lcd | Cd cstring | Mkdir cstring
  | Get cstring cstring | Put cstring | Del cstring | Quit | Rename cstring cstring

fun ftp_do :: "ftp_call \<Rightarrow> ftp \<Rightarrow> (int \<times> ftp) option" where
  "ftp_do Conn f = ftp_conn f"
| "ftp_do (Login s) f = ftp_login s f"
| "ftp_do (List p l) f = ftp_list p l f"
| "ftp_do Lcd f = Some (ftp_lcd f)"
| "ftp_do (Cd p) f = ftp_cd p f"
| "ftp_do (Mkdir p) f = ftp_mkdir p f"
| "ftp_do (Get l r) f = ftp_get l r f"
| "ftp_do (Put r) f = ftp_put r f"
| "ftp_do (Del r) f = ftp_del r f"
| "ftp_do Quit f = ftp_quit f"
| "ftp_do (Rename a b) f = ftp_rename a b f"

lemma mkdir_loop_type: "mkdir_loop p ts f = Some (r, f') \<Longrightarrow> ftp_cur_type f' = ftp_cur_type f"
  by (induction p ts f rule: mkdir_loop.induct) (auto dest!: type_dest simp: Let_def split: if_splits bind_splits)

lemma ftp_do_type:
  assumes "ftp_do c f = Some (r, f')" and "ftp_cur_type f = TYPE_I"
  shows "ftp_cur_type f' = TYPE_I"
proof (cases c)
  case Conn
  then show ?thesis using assms by (auto dest!: type_dest simp: ftp_conn_def setpassive_def Let_def split: prod.splits if_splits bind_splits)
next
  case (Login s)
  then show ?thesis using assms by (auto dest!: type_dest simp: ftp_login_def split: if_splits bind_splits)
next
  case (Mkdir p)
  then show ?thesis using assms mkdir_loop_type by (fastforce simp: ftp_mkdir_def)
next
  case (List p l)
  then show ?thesis using assms by (auto simp: ftp_list_def split: if_splits bind_splits dest!: type_dest dest: recvrequest_type)
next
  case (Get l r)
  then show ?thesis using assms by (auto simp: ftp_get_def split: if_splits bind_splits dest!: type_dest dest: recvrequest_type)
qed (use assms in \<open>auto dest!: type_dest simp: ftp_lcd_def ftp_cd_def ftp_del_def ftp_cmd_def ftp_put_def ftp_quit_def ftp_rename_def Let_def
       split: prod.splits if_splits bind_splits\<close>)

lemma ftp_run_type:
  "fold_option (\<lambda>c f. map_option snd (ftp_do c f)) cs f = Some f' \<Longrightarrow> ftp_cur_type f = TYPE_I \<Longrightarrow> ftp_cur_type f' = TYPE_I"
  by (erule fold_option_invariant [where I = "\<lambda>f. ftp_cur_type f = TYPE_I"]) (auto dest: ftp_do_type)

section \<open>The switches\<close>

text \<open>The way of a download to its switch; the result is the state in which the switch is reached.\<close>

definition recv_ready :: "cstring \<Rightarrow> cstring \<Rightarrow> cstring option \<Rightarrow> ftp \<Rightarrow> ftp option" where
  "recv_ready cmd local remote f =
     do {
       f1 \<leftarrow> do_settype ''binary'' f;
       (bad, f2) \<leftarrow> initconn f1;
       if bad \<noteq> 0 then None
       else do {
         (r, f3) \<leftarrow> command cmd remote f2;
         if r \<noteq> PRELIM then None
         else
           let (din, f4) = dataconn f3; (fout, f5) = (if local = ''-'' then (True, f4) else sys f4);
               f6 = (if local = ''-'' then f5 else f5\<lparr>local_files := (local_files f5)(local \<mapsto> [])\<rparr>); (mem, f7) = sys f6
           in if din \<and> fout \<and> mem then Some f7 else None
       }
     }"

text \<open>And of an upload.\<close>

definition send_ready :: "cstring \<Rightarrow> cstring \<Rightarrow> ftp \<Rightarrow> ftp option" where
  "send_ready cmd remote f =
     (let (fin, f1) = sys f; (plain_file, f2) = sys f1 in
      if \<not> (fin \<and> plain_file) then None
      else do {
        (bad, f3) \<leftarrow> initconn f2;
        if bad \<noteq> 0 then None
        else do {
          (r, f4) \<leftarrow> command cmd (Some remote) f3;
          if r \<noteq> PRELIM then None
          else let (dout, f5) = dataconn f4 in if dout then Some f5 else None
        }
      })"

text \<open>What follows, with the loops for binary.\<close>

definition recv_binary :: "cstring \<Rightarrow> ftp \<Rightarrow> ftp option" where
  "recv_binary local f =
     (let (out, ns, ws) = recv_loop (net_in f) (file_out f)
      in map_option snd (getreply False (f\<lparr>net_in := ns, file_out := ws,
           local_files := (if local = ''-'' then local_files f else (local_files f)(local \<mapsto> out)), ftp_data := False\<rparr>)))"

definition send_binary :: "cstring \<Rightarrow> ftp \<Rightarrow> ftp option" where
  "send_binary remote f =
     (let (out, rs, ns) = send_loop (file_in f) (net_out f)
      in map_option snd (getreply False (f\<lparr>file_in := rs, net_out := ns, data_out := data_out f @ [(remote, out)], ftp_data := False\<rparr>)))"

lemma recv_ready_type: "recv_ready cmd local remote f = Some g \<Longrightarrow> ftp_cur_type f = TYPE_I \<Longrightarrow> ftp_cur_type g = TYPE_I"
  by (auto dest!: type_dest simp: recv_ready_def Let_def split: bind_splits if_splits prod.splits)

lemma send_ready_type: "send_ready cmd remote f = Some g \<Longrightarrow> ftp_cur_type g = ftp_cur_type f"
  by (auto dest!: type_dest simp: send_ready_def Let_def split: bind_splits if_splits prod.splits)

lemma recvrequest_binary:
  assumes "recv_ready cmd local remote f = Some g" and "ftp_cur_type f = TYPE_I"
  shows "recvrequest cmd local remote f = recv_binary local g"
  using assms recv_ready_type [OF assms]
  by (auto simp: recv_ready_def recvrequest_def recv_binary_def recv_data_def Let_def case_prod_beta split: bind_splits if_splits)

lemma sendrequest_binary:
  assumes "send_ready cmd remote f = Some g" and "ftp_cur_type f = TYPE_I"
  shows "sendrequest cmd remote f = send_binary remote g"
  using assms send_ready_type [OF assms(1)]
  by (auto simp: send_ready_def sendrequest_def send_binary_def send_data_def Let_def case_prod_beta split: bind_splits if_splits)

text \<open>
  C35. The client transfers in binary only. After any sequence of the operations the tasks perform,
  from the program's start and with any answers of server and system, the transfer type is
  binary; and any download or upload that then gets to its switch on the type (\<open>recv_ready\<close>,
  \<open>send_ready\<close>) goes through the loop for binary: the loops for text, which rewrite line
  ends, are never taken. (That is the client's side. An upload sends no \<open>TYPE\<close> of its own: what the server takes the
  data for is settled by the download or listing before it.)
\<close>

theorem client_stays_binary:
  assumes "fold_option (\<lambda>c f. map_option snd (ftp_do c f)) cs (ftp_start\<lparr>ctl_in := i, sys_in := b, net_in := n, net_out := m, file_in := r, file_out := w\<rparr>) = Some f"
  shows "ftp_cur_type f = TYPE_I \<and>
    (\<forall>cmd local remote g. recv_ready cmd local remote f = Some g \<longrightarrow> recvrequest cmd local remote f = recv_binary local g) \<and>
    (\<forall>cmd remote g. send_ready cmd remote f = Some g \<longrightarrow> sendrequest cmd remote f = send_binary remote g)"
proof -
  have "ftp_cur_type f = TYPE_I" using ftp_run_type [OF assms] by (simp add: ftp_start_def)
  then show ?thesis using recvrequest_binary sendrequest_binary by blast
qed

text \<open>
  Connecting and fetching a file in binary; an upload of a line then sends it as it is. With the type for text it
  would not.
\<close>

definition line_world :: ftp where
  "line_world = ftp_start\<lparr>ctl_in := map CtlData [''220 hi'' @ [LF], ''200 ok'' @ [LF], ''227 at (10,0,0,1,7,8)'' @ [CR, LF], ''150 go'' @ [LF], ''226 done'' @ [LF],
       ''227 at (10,0,0,1,7,8)'' @ [CR, LF], ''150 go'' @ [LF], ''226 done'' @ [LF]],
     sys_in := replicate 20 True, net_in := [(SelReady True, ReadData [CHR ''b'', CR, LF]), (SelReady True, ReadEof)],
     net_out := replicate 4 (SelReady True, Wrote 1), file_in := [ReadData [CHR ''a'', LF], ReadEof], file_out := [Wrote 3]\<rparr>"

definition line_get :: "ftp option" where
  "line_get = fold_option (\<lambda>c f. map_option snd (ftp_do c f)) [Conn, Get ''x'' ''y''] line_world"

lemma line_runs:
  "map_option (\<lambda>f. local_files f ''x'') line_get = Some (Some [CHR ''b'', CR, LF])"
  "map_option data_out (Option.bind (Option.bind line_get (send_ready ''STOR'' ''z'')) (send_binary ''z'')) = Some [(''z'', [CHR ''a'', LF])]"
  "map_option data_out (Option.bind line_get (\<lambda>f. sendrequest ''STOR'' ''z'' (f\<lparr>ftp_cur_type := TYPE_A\<rparr>))) = Some [(''z'', [CHR ''a'', CR, LF])]"
  by code_simp+

theorem client_stays_binary_witness:
  "\<exists>f g. fold_option (\<lambda>c f. map_option snd (ftp_do c f)) [Conn, Get ''x'' ''y''] line_world = Some f \<and>
     send_ready ''STOR'' ''z'' f = Some g \<and> sendrequest ''STOR'' ''z'' f = send_binary ''z'' g \<and>
     map_option data_out (sendrequest ''STOR'' ''z'' f) = Some [(''z'', [CHR ''a'', LF])]"
proof -
  obtain f where lf: "line_get = Some f" using line_runs(1) by auto
  have f: "fold_option (\<lambda>c f. map_option snd (ftp_do c f)) [Conn, Get ''x'' ''y''] line_world = Some f"
    using lf unfolding line_get_def .
  obtain g where g: "send_ready ''STOR'' ''z'' f = Some g" "map_option data_out (send_binary ''z'' g) = Some [(''z'', [CHR ''a'', LF])]"
    using line_runs(2) unfolding lf by (cases "send_ready ''STOR'' ''z'' f") auto
  have "sendrequest ''STOR'' ''z'' f = send_binary ''z'' g"
    using client_stays_binary [OF f [unfolded line_world_def]] g(1) by blast
  moreover from this have "map_option data_out (sendrequest ''STOR'' ''z'' f) = Some [(''z'', [CHR ''a'', LF])]" using g(2) by simp
  ultimately show ?thesis using f g(1) by blast
qed

end
