(* ===== verification/Ftp_Facts.thy ===== *)
theory Ftp_Facts
  imports Ftp_Type
begin

text \<open>
  What the transfers of the FTP client deliver: the address of the passive mode, complete files when
  nothing fails, and the failures of disk and data connection that the result does not show.
\<close>

section \<open>The control connection does not see the data\<close>

text \<open>Another world for the local disk's and the data connection's writes.\<close>

definition swap :: "write_result list \<Rightarrow> (select_answer \<times> write_result) list \<Rightarrow> ftp \<Rightarrow> ftp" where
  "swap ws ns f = f\<lparr>file_out := ws, net_out := ns\<rparr>"

definition swapped ::
  "write_result list \<Rightarrow> (select_answer \<times> write_result) list \<Rightarrow> ('a \<times> ftp) option \<Rightarrow> ('a \<times> ftp) option" where
  "swapped ws ns r = map_option (\<lambda>(x, f). (x, swap ws ns f)) r"

lemma swapped_simps [simp]:
  "swapped ws ns None = None" "swapped ws ns (Some (x, f)) = Some (x, swap ws ns f)"
  by (simp_all add: swapped_def)

lemma swapped_if [simp]: "swapped ws ns (if b then x else y) = (if b then swapped ws ns x else swapped ws ns y)"
  by simp

lemma bind_swapped [simp]:
  "Option.bind (swapped ws ns m) g = Option.bind m (\<lambda>x. g (fst x, swap ws ns (snd x)))"
  by (cases m) auto

lemma swapped_bind [simp]: "swapped ws ns (Option.bind m g) = Option.bind m (\<lambda>x. swapped ws ns (g x))"
  by (cases m) auto

lemma swap_fields [simp]:
  "ftp_if_conn (swap ws ns f) = ftp_if_conn f" "ftp_cout (swap ws ns f) = ftp_cout f"
  "ftp_code (swap ws ns f) = ftp_code f" "ftp_passive_mode (swap ws ns f) = ftp_passive_mode f"
  "ftp_pasv (swap ws ns f) = ftp_pasv f" "ftp_sendport (swap ws ns f) = ftp_sendport f"
  "own_addr (swap ws ns f) = own_addr f" "ftp_ok (swap ws ns f) = ftp_ok f"
  "ftp_cp_end (swap ws ns f) = ftp_cp_end f" "local_files (swap ws ns f) = local_files f"
  "net_in (swap ws ns f) = net_in f" "ftp_cur_type (swap ws ns f) = ftp_cur_type f" "file_in (swap ws ns f) = file_in f"
  by (simp_all add: swap_def ftp_ok_def)

lemma swap_updates [simp]:
  "(swap ws ns f)\<lparr>ftp_data := d\<rparr> = swap ws ns (f\<lparr>ftp_data := d\<rparr>)"
  "(swap ws ns f)\<lparr>ftp_sendport := i\<rparr> = swap ws ns (f\<lparr>ftp_sendport := i\<rparr>)"
  "(swap ws ns f)\<lparr>ftp_code := i\<rparr> = swap ws ns (f\<lparr>ftp_code := i\<rparr>)"
  "(swap ws ns f)\<lparr>ftp_data_addr := a\<rparr> = swap ws ns (f\<lparr>ftp_data_addr := a\<rparr>)"
  "(swap ws ns f)\<lparr>ftp_cur_type := t\<rparr> = swap ws ns (f\<lparr>ftp_cur_type := t\<rparr>)"
  "(swap ws ns f)\<lparr>local_files := m\<rparr> = swap ws ns (f\<lparr>local_files := m\<rparr>)"
  by (simp_all add: swap_def)

lemma sys_swap [simp]: "sys (swap ws ns f) = (fst (sys f), swap ws ns (snd (sys f)))"
  by (simp add: sys_def swap_def split: list.splits)

lemma getreply_swap [simp]: "getreply e (swap ws ns f) = swapped ws ns (getreply e f)"
  by (simp add: getreply_def swap_def lostpeer_def Let_def split: option.splits)

lemma command_swap [simp]: "command v a (swap ws ns f) = swapped ws ns (command v a f)"
proof -
  have "(swap ws ns f)\<lparr>ftp_cp_end := True, ctl_out := ctl_out (swap ws ns f) @ [t]\<rparr>
      = swap ws ns (f\<lparr>ftp_cp_end := True, ctl_out := ctl_out f @ [t]\<rparr>)" for t
    by (simp add: swap_def)
  then show ?thesis by (simp add: command_def Let_def)
qed

lemma do_settype_swap [simp]: "do_settype t (swap ws ns f) = map_option (swap ws ns) (do_settype t f)"
  by (auto simp: do_settype_def split: option.splits bind_splits)

lemma initconn_pasv_swap [simp]: "initconn_pasv (swap ws ns f) = swapped ws ns (initconn_pasv f)"
  by (auto simp: initconn_pasv_def Let_def case_prod_beta split: option.splits bind_splits)

lemma restore_port_swap [simp]: "restore_port t (swap ws ns f) = swap ws ns (restore_port t f)"
  by (simp add: restore_port_def)

lemma sys_all_swap [simp]: "sys_all k (swap ws ns f) = (fst (sys_all k f), swap ws ns (snd (sys_all k f)))"
  by (induction k arbitrary: f) (simp_all add: case_prod_beta Let_def)

lemma listen_socket_swap [simp]: "listen_socket (swap ws ns f) = (fst (listen_socket f), swap ws ns (snd (listen_socket f)))"
  by (simp add: listen_socket_def Let_def case_prod_beta)

lemma initconn_port_swap [simp]: "initconn_port t (swap ws ns f) = swapped ws ns (initconn_port t f)"
  by (auto simp: initconn_port_def Let_def case_prod_beta split: bind_splits)

lemma initconn_swap [simp]: "initconn (swap ws ns f) = swapped ws ns (initconn f)"
  by (auto simp: initconn_def split: option.splits bind_splits)

lemma dataconn_swap [simp]: "dataconn (swap ws ns f) = (fst (dataconn f), swap ws ns (snd (dataconn f)))"
  by (simp add: dataconn_def case_prod_beta Let_def)

section \<open>What the control connection leaves alone\<close>

definition data_part where
  "data_part f = (net_in f, net_out f, file_in f, file_out f, local_files f, data_out f)"

lemma data_part_updates [simp]:
  "data_part (f\<lparr>ftp_data := d\<rparr>) = data_part f" "data_part (f\<lparr>ftp_sendport := i\<rparr>) = data_part f"
  "data_part (f\<lparr>ftp_code := i\<rparr>) = data_part f" "data_part (f\<lparr>ftp_data_addr := a\<rparr>) = data_part f"
  "data_part (f\<lparr>ftp_cur_type := t\<rparr>) = data_part f"
  by (simp_all add: data_part_def)

lemma sys_data: "sys f = (b, f') \<Longrightarrow> data_part f' = data_part f"
  by (auto simp: sys_def data_part_def split: list.splits)

lemma sys_all_data: "sys_all k f = (b, f') \<Longrightarrow> data_part f' = data_part f"
  by (induction k arbitrary: f) (auto simp: Let_def dest: sys_data split: prod.splits if_splits)

lemma getreply_data: "getreply e f = Some (r, f') \<Longrightarrow> data_part f' = data_part f"
  by (auto simp: getreply_def lostpeer_def data_part_def Let_def split: option.splits if_splits)

lemma command_data: "command v a f = Some (r, f') \<Longrightarrow> data_part f' = data_part f"
  by (auto simp: command_def Let_def data_part_def dest: getreply_data split: if_splits)

lemma do_settype_data: "do_settype t f = Some f' \<Longrightarrow> data_part f' = data_part f"
  by (auto simp: do_settype_def dest!: command_data split: option.splits bind_splits if_splits)

lemma initconn_pasv_data: "initconn_pasv f = Some (r, f') \<Longrightarrow> data_part f' = data_part f"
  by (auto simp: initconn_pasv_def Let_def dest!: command_data sys_data split: option.splits bind_splits if_splits prod.splits)

lemma listen_socket_data: "listen_socket f = (b, f') \<Longrightarrow> data_part f' = data_part f"
  by (auto simp: listen_socket_def Let_def dest!: sys_all_data sys_data split: if_splits prod.splits)
    (metis data_part_updates(1) sys_data prod.collapse)+

lemma initconn_port_data: "initconn_port t f = Some (r, f') \<Longrightarrow> data_part f' = data_part f"
  by (auto simp: initconn_port_def restore_port_def Let_def dest!: command_data listen_socket_data
      split: bind_splits if_splits prod.splits)

lemma initconn_data: "initconn f = Some (r, f') \<Longrightarrow> data_part f' = data_part f"
  by (auto simp: initconn_def dest!: initconn_pasv_data initconn_port_data split: option.splits bind_splits if_splits)

lemma dataconn_data: "dataconn f = (b, f') \<Longrightarrow> data_part f' = data_part f"
  by (auto simp: dataconn_def Let_def dest!: sys_data split: if_splits prod.splits)

section \<open>Downloads\<close>

text \<open>What follows the way to the transfer loop.\<close>

definition recv_finish :: "cstring \<Rightarrow> ftp \<Rightarrow> ftp option" where
  "recv_finish local f7 =
     (let (out, ns, ws) = recv_data (ftp_cur_type f7) (net_in f7) (file_out f7);
          f8 = f7\<lparr>net_in := ns, file_out := ws,
                  local_files := (if local = ''-'' then local_files f7 else (local_files f7)(local \<mapsto> out)),
                  ftp_data := False\<rparr>
      in map_option snd (getreply False f8))"

lemma recv_abort_fails: "recv_abort din f = Some f' \<Longrightarrow> ftp_ok f' = 0"
  by (auto simp: recv_abort_def ftp_ok_def split: if_splits bind_splits)

lemma recvrequest_ready: "recv_ready cmd local remote f = Some f7 \<Longrightarrow> recvrequest cmd local remote f = recv_finish local f7"
  by (auto simp: recv_ready_def recvrequest_def recv_finish_def Let_def case_prod_beta split: bind_splits if_splits)

lemma recvrequest_ok:
  assumes "recvrequest cmd local remote f = Some f'" and "ftp_ok f' = 1"
  shows "\<exists>f7. recv_ready cmd local remote f = Some f7 \<and> recv_finish local f7 = Some f'"
proof -
  have no: False if "recv_abort din g = Some f'" for din g
    using recv_abort_fails [OF that] assms(2) by simp
  obtain f1 where f1: "do_settype ''binary'' f = Some f1" using assms(1) by (auto simp: recvrequest_def split: bind_splits)
  obtain bad f2 where f2: "initconn f1 = Some (bad, f2)" using assms(1) f1 by (auto simp: recvrequest_def split: bind_splits)
  have "bad = 0" using assms f1 f2 by (auto simp: recvrequest_def ftp_ok_def split: if_splits bind_splits)
  then obtain r f3 where f3: "command cmd remote f2 = Some (r, f3)" using assms(1) f1 f2 by (auto simp: recvrequest_def split: bind_splits)
  have r: "r = PRELIM"
  proof (rule ccontr)
    assume "r \<noteq> PRELIM"
    then show False using assms f1 f2 f3 \<open>bad = 0\<close> by (auto simp: recvrequest_def ftp_ok_def)
  qed
  note path = f1 f2 f3 \<open>bad = 0\<close> r
  obtain din f4 where f4: "dataconn f3 = (din, f4)" by (cases "dataconn f3")
  have din: din
    by (rule ccontr) (use assms(1) no path f4 in \<open>auto simp: recvrequest_def\<close>)
  obtain fout f5 where f5: "(if local = ''-'' then (True, f4) else sys f4) = (fout, f5)"
    by (cases "if local = ''-'' then (True, f4) else sys f4")
  have fout: fout
    by (rule ccontr) (use assms(1) no path f4 din f5 in \<open>auto simp: recvrequest_def\<close>)
  let ?f6 = "if local = ''-'' then f5 else f5\<lparr>local_files := (local_files f5)(local \<mapsto> [])\<rparr>"
  obtain mem f7 where f7: "sys ?f6 = (mem, f7)" by (cases "sys ?f6")
  have mem: mem
    by (rule ccontr) (use assms(1) no path f4 din f5 fout f7 in \<open>auto simp: recvrequest_def Let_def\<close>)
  have ready: "recv_ready cmd local remote f = Some f7"
    using path f4 din f5 fout f7 mem by (simp add: recv_ready_def Let_def)
  show ?thesis using recvrequest_ready [OF ready] ready assms(1) by simp
qed

text \<open>A script of reads in which data arrives block by block and then ends.\<close>

definition whole_stream :: "cstring list \<Rightarrow> (select_answer \<times> read_result) list" where
  "whole_stream ds = map (\<lambda>d. (SelReady True, ReadData d)) ds @ [(SelReady True, ReadEof)]"

definition full_writes :: "cstring list \<Rightarrow> write_result list" where
  "full_writes ds = map (\<lambda>d. Wrote (length d)) ds"

lemma recv_loop_whole: "[] \<notin> set ds \<Longrightarrow> fst (recv_loop (whole_stream ds @ ns) (full_writes ds @ ws)) = concat ds"
  by (induction ds) (auto simp: whole_stream_def full_writes_def safe_read_def case_prod_beta Let_def)

lemma recv_ready_swap [simp]: "recv_ready cmd local remote (swap ws ns f) = map_option (swap ws ns) (recv_ready cmd local remote f)"
proof -
  have bind_map: "Option.bind (map_option (swap ws ns) m) g = Option.bind m (\<lambda>x. g (swap ws ns x))"
    and map_bind: "map_option (swap ws ns) (Option.bind m' h) = Option.bind m' (\<lambda>x. map_option (swap ws ns) (h x))" for m g m' h
    by (cases m, simp_all) (cases m', simp_all)
  have map_if: "map_option (swap ws ns) (if b then x else y) = (if b then map_option (swap ws ns) x else map_option (swap ws ns) y)" for b x y
    by simp
  show ?thesis
    by (cases "local = ''-''") (simp_all add: recv_ready_def Let_def case_prod_beta bind_map map_bind map_if cong: if_cong)
qed

lemma recv_ready_data:
  assumes "recv_ready cmd local remote f = Some f7" and "local \<noteq> ''-''"
  shows "net_in f7 = net_in f" "file_out f7 = file_out f"
proof -
  obtain f1 bad f2 r f3 din f4 fout f5 mem where
    s: "do_settype ''binary'' f = Some f1" "initconn f1 = Some (bad, f2)" "command cmd remote f2 = Some (r, f3)"
      "dataconn f3 = (din, f4)" "sys f4 = (fout, f5)" "sys (f5\<lparr>local_files := (local_files f5)(local \<mapsto> [])\<rparr>) = (mem, f7)"
    using assms by (auto simp: recv_ready_def Let_def split: bind_splits if_splits prod.splits)
  have "data_part f5 = data_part f"
    using do_settype_data [OF s(1)] initconn_data [OF s(2)] command_data [OF s(3)] dataconn_data [OF s(4)] sys_data [OF s(5)]
    by simp
  then show "net_in f7 = net_in f" "file_out f7 = file_out f"
    using sys_data [OF s(6)] by (simp_all add: data_part_def)
qed

text \<open>A world in which everything succeeds, for the concrete runs.\<close>

definition good_world :: ftp where
  "good_world = ftp_start\<lparr>ftp_if_conn := True, ftp_cout := True, ftp_passive_mode := True,
     sys_in := replicate 8 True,
     ctl_in := map CtlData [''200 ok'' @ [LF], ''227 at (10,0,0,1,7,8)'' @ [CR, LF], ''150 go'' @ [LF], ''226 done'' @ [LF]],
     net_in := whole_stream [''ab'', ''c''], file_out := full_writes [''ab'', ''c'']\<rparr>"

lemma good_world_get: "map_option fst (ftp_get ''x'' ''y'' good_world) = Some 1"
  by code_simp

text \<open>
  C21. A download whose transfer meets no failure delivers the whole file: when \<open>ftp_get\<close> returns 1, the
  server's data came in blocks up to the end of the stream and the disk took each block, the
  local file holds exactly the data of the server. (The client's transfer type is binary, as it is in
  every session.)
\<close>

theorem ftp_get_whole_file:
  assumes "ftp_get local remote f = Some (1, f')" and "local \<noteq> ''-''" and "[] \<notin> set ds"
    and "net_in f = whole_stream ds @ ns" and "file_out f = full_writes ds @ ws"
    and "ftp_cur_type f = TYPE_I"
  shows "local_files f' local = Some (concat ds)"
proof -
  have r: "recvrequest ''RETR'' local (Some remote) f = Some f'" "ftp_ok f' = 1"
    using assms(1) by (auto simp: ftp_get_def split: if_splits bind_splits)
  obtain f7 where f7: "recv_ready ''RETR'' local (Some remote) f = Some f7" "recv_finish local f7 = Some f'"
    using recvrequest_ok [OF r] by blast
  have "fst (recv_data (ftp_cur_type f7) (net_in f7) (file_out f7)) = concat ds"
    using recv_ready_type [OF f7(1) assms(6)] recv_ready_data [OF f7(1) assms(2)] recv_loop_whole [OF assms(3)] assms(4,5) by (simp add: recv_data_def)
  then show ?thesis
    using f7(2) assms(2) by (auto simp: recv_finish_def Let_def case_prod_beta data_part_def dest!: getreply_data)
qed

theorem ftp_get_whole_file_witness:
  "map_option (\<lambda>(r, f). local_files f ''x'') (ftp_get ''x'' ''y'' good_world) = Some (Some ''abc'')"
proof -
  obtain f' where f': "ftp_get ''x'' ''y'' good_world = Some (1, f')" using good_world_get by auto
  have "local_files f' ''x'' = Some (concat [''ab'', ''c''])"
    by (rule ftp_get_whole_file [OF f', of "[''ab'', ''c'']" "[]" "[]"]) (simp_all add: good_world_def ftp_start_def)
  with f' show ?thesis by simp
qed

text \<open>The reply at the end is read whatever has become of the data.\<close>

definition with_data :: "(select_answer \<times> read_result) list \<Rightarrow> write_result list \<Rightarrow> (cstring \<Rightarrow> cstring option) \<Rightarrow> ftp \<Rightarrow> ftp" where
  "with_data ns ws m f = f\<lparr>net_in := ns, file_out := ws, local_files := m, ftp_data := False\<rparr>"

lemma getreply_with_data: "getreply e (with_data ns ws m f) = map_option (\<lambda>(r, g). (r, with_data ns ws m g)) (getreply e f)"
  by (simp add: getreply_def with_data_def lostpeer_def Let_def split: option.splits)

lemma ftp_ok_with_data [simp]: "ftp_ok (with_data ns ws m f) = ftp_ok f"
  by (simp add: with_data_def ftp_ok_def)

lemma recv_finish_result:
  "(\<exists>f'. recv_finish local f = Some f' \<and> ftp_ok f' = 1) \<longleftrightarrow> (\<exists>r g. getreply False f = Some (r, g) \<and> ftp_ok g = 1)"
proof -
  let ?l = "recv_data (ftp_cur_type f) (net_in f) (file_out f)"
  have "recv_finish local f = map_option snd (getreply False (with_data (fst (snd ?l)) (snd (snd ?l))
      (if local = ''-'' then local_files f else (local_files f)(local \<mapsto> fst ?l)) f))"
    by (simp add: recv_finish_def with_data_def Let_def case_prod_beta)
  then show ?thesis by (auto simp: getreply_with_data)
qed

text \<open>
  The result of a download does not depend on the local disk. When \<open>ftp_get\<close> returns 1, it returns
  1 whatever the \<open>write\<close> calls on the local file answer, a full disk included.
\<close>

theorem ftp_get_ignores_disk:
  assumes "ftp_get local remote f = Some (1, f')"
  shows "\<exists>f''. ftp_get local remote (f\<lparr>file_out := ws\<rparr>) = Some (1, f'')"
proof -
  have r: "recvrequest ''RETR'' local (Some remote) f = Some f'" "ftp_ok f' = 1" "ftp_if_conn f"
    using assms by (auto simp: ftp_get_def split: if_splits bind_splits)
  obtain f7 where f7: "recv_ready ''RETR'' local (Some remote) f = Some f7" "recv_finish local f7 = Some f'"
    using recvrequest_ok [OF r(1,2)] by blast
  have sw: "f\<lparr>file_out := ws\<rparr> = swap ws (net_out f) f" by (simp add: swap_def)
  have "recvrequest ''RETR'' local (Some remote) (f\<lparr>file_out := ws\<rparr>) = recv_finish local (swap ws (net_out f) f7)"
    by (rule recvrequest_ready) (simp add: sw f7(1))
  moreover have "\<exists>f''. recv_finish local (swap ws (net_out f) f7) = Some f'' \<and> ftp_ok f'' = 1"
    using f7(2) r(2) recv_finish_result [of local f7] recv_finish_result [of local "swap ws (net_out f) f7"] by (auto simp: swapped_def)
  ultimately show ?thesis using r(3) by (auto simp: ftp_get_def)
qed

theorem ftp_get_ignores_disk_witness:
  "map_option fst (ftp_get ''x'' ''y'' (good_world\<lparr>file_out := [Wrote 1]\<rparr>)) = Some 1"
proof -
  obtain f' where f': "ftp_get ''x'' ''y'' good_world = Some (1, f')" using good_world_get by auto
  then show ?thesis using ftp_get_ignores_disk [OF f', of "[Wrote 1]"] by auto
qed

lemma full_disk_cuts_file:
  "map_option (\<lambda>(r, f). (r, local_files f ''x'')) (ftp_get ''x'' ''y'' (good_world\<lparr>file_out := [Wrote 1]\<rparr>))
    = Some (1, Some ''a'')"
  by code_simp

text \<open>
  A data connection that stalls ends the download like the end of the stream: \<open>safe_read\<close> returns 0
  on a time out, although its comment says -1.
\<close>

lemma stall_cuts_file:
  "map_option (\<lambda>(r, f). (r, local_files f ''x''))
     (ftp_get ''x'' ''y'' (good_world\<lparr>net_in := [(SelReady True, ReadData ''ab''), (SelExpired, ReadEof)]\<rparr>))
    = Some (1, Some ''ab'')"
  by code_simp

text \<open>The preliminary and the final reply in one segment make the download fail.\<close>

lemma merged_replies_fail:
  "map_option fst (ftp_get ''x'' ''y'' (good_world\<lparr>ctl_in := map CtlData [''200 ok'' @ [LF],
     ''227 at (10,0,0,1,7,8)'' @ [CR, LF], ''150 go'' @ [LF] @ ''226 done'' @ [LF]]\<rparr>)) = Some 0"
  by code_simp

section \<open>Uploads\<close>

definition send_finish :: "cstring \<Rightarrow> ftp \<Rightarrow> ftp option" where
  "send_finish remote f5 =
     (let (out, rs, ns) = send_data (ftp_cur_type f5) (file_in f5) (net_out f5);
          f6 = f5\<lparr>file_in := rs, net_out := ns, data_out := data_out f5 @ [(remote, out)], ftp_data := False\<rparr>
      in map_option snd (getreply False f6))"

lemma send_abort_fails: "send_abort f = Some f' \<Longrightarrow> ftp_ok f' = 0"
  by (auto simp: send_abort_def ftp_ok_def split: if_splits bind_splits)

lemma sendrequest_ready: "send_ready cmd remote f = Some f5 \<Longrightarrow> sendrequest cmd remote f = send_finish remote f5"
  by (auto simp: send_ready_def sendrequest_def send_finish_def Let_def case_prod_beta split: bind_splits if_splits)

text \<open>
  An upload that counts as done went through the loop, or the server answered the command itself with a
  completion, and nothing was sent.
\<close>

lemma sendrequest_ok:
  assumes "sendrequest cmd remote f = Some f'" and "ftp_ok f' = 1"
  shows "(\<exists>f5. send_ready cmd remote f = Some f5 \<and> data_part f5 = data_part f \<and> send_finish remote f5 = Some f') \<or>
    send_ready cmd remote f = None \<and> data_part f' = data_part f"
proof -
  obtain fin f1 where f1: "sys f = (fin, f1)" by (cases "sys f")
  obtain pl f2 where f2: "sys f1 = (pl, f2)" by (cases "sys f1")
  have fin: fin by (rule ccontr) (use assms f1 in \<open>auto simp: sendrequest_def ftp_ok_def\<close>)
  have pl: pl by (rule ccontr) (use assms f1 f2 fin in \<open>auto simp: sendrequest_def ftp_ok_def\<close>)
  obtain bad f3 where f3: "initconn f2 = Some (bad, f3)"
    using assms(1) f1 f2 fin pl by (auto simp: sendrequest_def split: bind_splits)
  have bad: "bad = 0"
    by (rule ccontr) (use assms f1 f2 fin pl f3 in \<open>auto simp: sendrequest_def ftp_ok_def\<close>)
  obtain r f4 where f4: "command cmd (Some remote) f3 = Some (r, f4)"
    using assms(1) f1 f2 fin pl f3 bad by (auto simp: sendrequest_def split: bind_splits)
  note path = f1 f2 fin pl f3 bad f4
  have d4: "data_part f4 = data_part f"
    using sys_data [OF f1] sys_data [OF f2] initconn_data [OF f3] command_data [OF f4] by simp
  show ?thesis
  proof (cases "r = PRELIM")
    case False
    then show ?thesis using path d4 assms(1) by (simp add: sendrequest_def send_ready_def)
  next
    case True
    obtain dout f5 where f5: "dataconn f4 = (dout, f5)" by (cases "dataconn f4")
    have dout: dout
      by (rule ccontr) (use assms path True f5 send_abort_fails [of f5 f'] in \<open>auto simp: sendrequest_def\<close>)
    have ready: "send_ready cmd remote f = Some f5" using path True f5 dout by (simp add: send_ready_def)
    then show ?thesis using sendrequest_ready [OF ready] assms(1) d4 dataconn_data [OF f5] by simp
  qed
qed

text \<open>Writes that make progress, and enough of them.\<close>

definition progressing :: "(select_answer \<times> write_result) list \<Rightarrow> bool" where
  "progressing ns = (\<forall>a \<in> set ns. fst a = SelReady True \<and> (\<exists>k>0. snd a = Wrote k))"

lemma send_buf_all:
  "progressing ns \<Longrightarrow> p \<noteq> [] \<Longrightarrow> length p \<le> length ns \<Longrightarrow>
   \<exists>ns'. send_buf p ns = (p, ns') \<and> progressing ns' \<and> length ns \<le> length ns' + length p"
proof (induction p ns rule: send_buf.induct)
  case (2 p s w as)
  obtain k where k: "s = SelReady True" "w = Wrote k" "0 < k" "progressing as"
    using "2.prems"(1) by (auto simp: progressing_def)
  have d: "safe_write s w (length p) = int (min k (length p))" using k by (simp add: safe_write_def)
  show ?case
  proof (cases "length p \<le> k")
    case True
    then show ?thesis using d k "2.prems" by (auto simp: Let_def Suc_le_eq)
  next
    case False
    then have "\<exists>ns'. send_buf (drop k p) as = (drop k p, ns') \<and> progressing ns' \<and> length as \<le> length ns' + length (drop k p)"
      using "2.IH" [OF refl] d k "2.prems"(3) by (auto simp: min_def)
    then show ?thesis using d k False by (auto simp: Let_def min_def)
  qed
qed simp

lemma send_loop_all:
  "progressing ns \<Longrightarrow> [] \<notin> set ds \<Longrightarrow> length (concat ds) \<le> length ns \<Longrightarrow>
   fst (send_loop (map ReadData ds @ ReadEof # rs) ns) = concat ds"
proof (induction ds arbitrary: ns)
  case (Cons d ds)
  obtain ns' where ns': "send_buf d ns = (d, ns')" "progressing ns'" "length ns \<le> length ns' + length d"
    using send_buf_all [OF Cons.prems(1), of d] Cons.prems(2,3) by auto
  then show ?case
    using Cons.IH [OF ns'(2)] Cons.prems(2,3) by (auto simp: case_prod_beta)
qed simp

text \<open>The server's answer to the command of an upload, where it gets that far.\<close>

definition send_answer :: "cstring \<Rightarrow> cstring \<Rightarrow> ftp \<Rightarrow> int option" where
  "send_answer cmd remote f =
     (let (fin, f1) = sys f; (plain_file, f2) = sys f1 in
      if \<not> (fin \<and> plain_file) then None
      else do {
        (bad, f3) \<leftarrow> initconn f2;
        if bad \<noteq> 0 then None else map_option fst (command cmd (Some remote) f3)
      })"

lemma send_ready_answer: "send_ready cmd remote f = Some g \<Longrightarrow> send_answer cmd remote f = Some PRELIM"
  by (auto simp: send_ready_def send_answer_def Let_def split: bind_splits if_splits prod.splits)

lemma send_answer_ready:
  assumes "sendrequest cmd remote f = Some f'" and "ftp_ok f' = 1" and "send_answer cmd remote f = Some PRELIM"
  shows "send_ready cmd remote f \<noteq> None"
proof
  assume none: "send_ready cmd remote f = None"
  obtain fin f1 where f1: "sys f = (fin, f1)" by (cases "sys f")
  obtain pl f2 where f2: "sys f1 = (pl, f2)" by (cases "sys f1")
  obtain f3 f4 where f: "fin" "pl" "initconn f2 = Some (0, f3)" "command cmd (Some remote) f3 = Some (PRELIM, f4)"
    using assms(3) f1 f2 by (auto simp: send_answer_def split: if_splits bind_splits)
  then have "sendrequest cmd remote f = send_abort (snd (dataconn f4))"
    using none f1 f2 by (auto simp: send_ready_def sendrequest_def Let_def case_prod_beta split: if_splits)
  then show False using assms(1,2) send_abort_fails by fastforce
qed

text \<open>
  C22. An upload that makes progress sends the whole file. When \<open>ftp_put\<close> returns 1, the local
  file was read in blocks up to its end, and no write on the data connection failed or timed out, then
  the server received exactly the file under the remote name, if it answered \<open>STOR\<close> with a preliminary
  reply; and it received nothing if its answer was another one, a completion, which the code takes for
  success. (The client's transfer type is binary, as it is in every session.)
\<close>

theorem ftp_put_sends_file:
  assumes "ftp_put remote f = Some (1, f')" and "file_in f = map ReadData ds @ ReadEof # rs" and "[] \<notin> set ds"
    and "\<forall>a \<in> set (net_out f). fst a = SelReady True \<and> (\<exists>k>0. snd a = Wrote k)" and "length (concat ds) \<le> length (net_out f)"
    and "ftp_cur_type f = TYPE_I"
  shows "data_out f' = data_out f @ (if send_answer ''STOR'' remote f = Some PRELIM then [(remote, concat ds)] else [])"
proof -
  have r: "sendrequest ''STOR'' remote f = Some f'" "ftp_ok f' = 1"
    using assms(1) by (auto simp: ftp_put_def split: if_splits bind_splits)
  have out: "fst (send_loop (file_in f) (net_out f)) = concat ds"
    using send_loop_all [of "net_out f" ds rs] assms(2-5) by (simp add: progressing_def)
  from sendrequest_ok [OF r] show ?thesis
  proof (elim disjE exE conjE)
    fix f5 assume f5: "send_ready ''STOR'' remote f = Some f5" "data_part f5 = data_part f" "send_finish remote f5 = Some f'"
    have "ftp_cur_type f5 = TYPE_I" using send_ready_type [OF f5(1)] assms(6) by simp
    then show ?thesis
      using out f5(2,3) send_ready_answer [OF f5(1)]
      by (auto simp: send_finish_def send_data_def Let_def case_prod_beta data_part_def dest!: getreply_data)
  next
    assume n: "send_ready ''STOR'' remote f = None" and d: "data_part f' = data_part f"
    show ?thesis using send_answer_ready [OF r] n d by (auto simp: data_part_def)
  qed
qed

definition put_world :: ftp where
  "put_world = good_world\<lparr>ctl_in := tl (ctl_in good_world), file_in := [ReadData ''ab'', ReadData ''c'', ReadEof],
     net_out := replicate 5 (SelReady True, Wrote 1)\<rparr>"

lemma put_world_put:
  "map_option (\<lambda>(r, f). (r, data_out f)) (ftp_put ''y'' put_world) = Some (1, [(''y'', ''abc'')])"
  "send_answer ''STOR'' ''y'' put_world = Some PRELIM"
  by code_simp+

theorem ftp_put_sends_file_witness:
  "\<exists>f'. ftp_put ''y'' put_world = Some (1, f') \<and> data_out f' = [(''y'', ''abc'')]"
proof -
  obtain f' where f': "ftp_put ''y'' put_world = Some (1, f')" using put_world_put(1) by auto
  have "data_out f' = data_out put_world @ (if send_answer ''STOR'' ''y'' put_world = Some PRELIM then [(''y'', concat [''ab'', ''c''])] else [])"
    by (rule ftp_put_sends_file [OF f']) (auto simp: put_world_def good_world_def ftp_start_def)
  with f' put_world_put(2) show ?thesis by (simp add: put_world_def good_world_def ftp_start_def)
qed

text \<open>
  An upload sends no \<open>TYPE\<close>: only downloads and listings call \<open>do_settype\<close>. A server on which the session has
  asked for neither takes the data for text, its default.
\<close>

lemma put_sends_no_type:
  "map_option (\<lambda>(r, f). (r, filter (\<lambda>s. take 4 s = ''TYPE'') (ctl_out f))) (ftp_put ''y'' put_world) = Some (1, [])"
  "map_option (\<lambda>(r, f). (r, length (filter (\<lambda>s. take 4 s = ''TYPE'') (ctl_out f)))) (ftp_get ''x'' ''y'' good_world) = Some (1, 1)"
  by code_simp+

text \<open>A stalled write leaves a hole in what the server receives, and the upload counts as done.\<close>

lemma stalled_write_leaves_hole:
  "map_option (\<lambda>(r, f). (r, data_out f))
     (ftp_put ''y'' (put_world\<lparr>net_out := (SelExpired, Wrote 0) # net_out put_world\<rparr>)) = Some (1, [(''y'', ''c'')])"
  by code_simp

text \<open>A server that answers \<open>STOR\<close> with a completion makes the upload succeed without data.\<close>

lemma put_without_data:
  "map_option (\<lambda>(r, f). (r, data_out f))
     (ftp_put ''y'' (put_world\<lparr>ctl_in := map CtlData [''227 at (10,0,0,1,7,8)'' @ [CR, LF], ''250 ok'' @ [LF]]\<rparr>)) = Some (1, [])"
  by code_simp

end
