(* ===== verification/Ftp_Passive.thy ===== *)
theory Ftp_Passive
  imports Ftp_Client
begin

text \<open>
  The passive mode of the FTP client: the address \<open>getreply\<close> keeps from a 227 reply, and the
  address \<open>initconn\<close> makes of it.
\<close>

section \<open>Keeping the address\<close>

text \<open>Where the text of the reply holds the address: \<open>px\<close> characters are written.\<close>

definition pasv_at :: "cstring \<Rightarrow> reply_scan \<Rightarrow> bool" where
  "pasv_at u s = (rs_px s = length u \<and> length (rs_pasv s) = 64 \<and> take (length u) (rs_pasv s) = u \<and> length u < 64)"

lemma scan_char_before:
  "\<not> is_digit c \<Longrightarrow> 4 \<le> rs_dig s \<Longrightarrow> rs_n s \<noteq> 0 \<Longrightarrow> rs_pflag s = 1 \<Longrightarrow>
   rs_pflag (scan_char c p s) = 1 \<and> rs_pasv (scan_char c p s) = rs_pasv s \<and> rs_px (scan_char c p s) = rs_px s"
  by (simp add: scan_char_def scan_code_def scan_flag_def scan_pasv_def scan_cont_def Let_def)

lemma scan_char_keeps:
  assumes "4 < rs_dig s" "rs_n s \<noteq> 0" "rs_pflag s = 2 \<or> (rs_pflag s = 1 \<and> is_digit c)" "c \<noteq> CR" "c \<noteq> CHR '')''"
    and "pasv_at u s" "length u < 63"
  shows "rs_pflag (scan_char c p s) = 2 \<and> pasv_at (u @ [c]) (scan_char c p s)"
  using assms
  by (auto simp: scan_char_def scan_code_def scan_flag_def scan_pasv_def scan_cont_def Let_def pasv_at_def take_Suc_conv_app_nth)

lemma scan_char_stop:
  assumes "4 < rs_dig s" "rs_n s \<noteq> 0" "rs_pflag s = 2" "c = CR \<or> c = CHR '')''" "pasv_at u s" "NUL \<notin> set u"
  shows "rs_pflag (scan_char c p s) = 3 \<and> c_str (rs_pasv (scan_char c p s)) = u"
proof -
  have e: "rs_pflag (scan_char c p s) = 3 \<and> rs_pasv (scan_char c p s) = (rs_pasv s)[length u := NUL]"
    using assms by (auto simp: scan_char_def scan_code_def scan_flag_def scan_pasv_def scan_cont_def Let_def pasv_at_def)
  have "(rs_pasv s)[length u := NUL] = u @ NUL # drop (Suc (length u)) (rs_pasv s)"
    using assms(5) by (simp add: upd_conv_take_nth_drop pasv_at_def)
  moreover have "c_str (u @ NUL # q) = u" for q
    unfolding c_str_def by (rule takeWhile_stop) (use assms(6) in auto)
  ultimately show ?thesis using e by simp
qed

lemma scan_char_after:
  "4 < rs_dig s \<Longrightarrow> rs_n s \<noteq> 0 \<Longrightarrow> rs_pflag s = 3 \<Longrightarrow>
   rs_pflag (scan_char c p s) = 3 \<and> rs_pasv (scan_char c p s) = rs_pasv s"
  by (simp add: scan_char_def scan_code_def scan_flag_def scan_pasv_def scan_cont_def Let_def)

text \<open>Scanning a part of a line.\<close>

fun scan_text :: "cstring \<Rightarrow> cstring \<Rightarrow> reply_scan \<Rightarrow> reply_scan" where
  "scan_text [] q s = s"
| "scan_text (c # u) q s = scan_text u q (scan_char c (u @ q) (s\<lparr>rs_dig := rs_dig s + 1\<rparr>))"

lemma scan_line_text: "plain u \<Longrightarrow> scan_line (u @ q) s = scan_line q (scan_text u q s)"
  by (induction u arbitrary: s) (auto simp: Let_def)

lemma scan_char_next:
  "4 \<le> rs_dig s \<Longrightarrow> rs_n s \<noteq> 0 \<Longrightarrow>
   4 \<le> rs_dig (scan_char c p (s\<lparr>rs_dig := Suc (rs_dig s)\<rparr>)) \<and> rs_n (scan_char c p (s\<lparr>rs_dig := Suc (rs_dig s)\<rparr>)) \<noteq> 0"
  using scan_char_tail [of "s\<lparr>rs_dig := rs_dig s + 1\<rparr>" c p] by (simp add: same_head_def)

lemma scan_text_tail:
  "4 \<le> rs_dig s \<Longrightarrow> rs_n s \<noteq> 0 \<Longrightarrow> 4 \<le> rs_dig (scan_text u q s) \<and> rs_n (scan_text u q s) \<noteq> 0"
  by (induction u arbitrary: s) (simp_all add: scan_char_next)

lemma scan_text_before:
  "\<forall>c \<in> set t. \<not> is_digit c \<Longrightarrow> 4 \<le> rs_dig s \<Longrightarrow> rs_n s \<noteq> 0 \<Longrightarrow> rs_pflag s = 1 \<Longrightarrow>
   rs_pflag (scan_text t q s) = 1 \<and> rs_pasv (scan_text t q s) = rs_pasv s \<and> rs_px (scan_text t q s) = rs_px s"
proof (induction t arbitrary: s)
  case (Cons c t)
  let ?s = "scan_char c (t @ q) (s\<lparr>rs_dig := rs_dig s + 1\<rparr>)"
  have "rs_pflag ?s = 1 \<and> rs_pasv ?s = rs_pasv s \<and> rs_px ?s = rs_px s"
    using scan_char_before [of c "s\<lparr>rs_dig := rs_dig s + 1\<rparr>" "t @ q"] Cons.prems by simp
  then show ?case using Cons.IH [of ?s] scan_char_next [of s c "t @ q"] Cons.prems by simp
qed simp

lemma scan_text_keeps:
  "CR \<notin> set u \<Longrightarrow> CHR '')'' \<notin> set u \<Longrightarrow> 4 \<le> rs_dig s \<Longrightarrow> rs_n s \<noteq> 0 \<Longrightarrow>
   (rs_pflag s = 2 \<or> (rs_pflag s = 1 \<and> u \<noteq> [] \<and> is_digit (hd u))) \<Longrightarrow> pasv_at w s \<Longrightarrow> length w + length u < 64 \<Longrightarrow>
   rs_pflag (scan_text u q s) = 2 \<and> pasv_at (w @ u) (scan_text u q s)"
proof (induction u arbitrary: s w)
  case (Cons c u)
  let ?t = "s\<lparr>rs_dig := rs_dig s + 1\<rparr>"
  let ?s = "scan_char c (u @ q) ?t"
  have "pasv_at w ?t" using Cons.prems(6) by (simp add: pasv_at_def)
  then have "rs_pflag ?s = 2 \<and> pasv_at (w @ [c]) ?s"
    using scan_char_keeps [of ?t c w "u @ q"] Cons.prems by auto
  then show ?case using Cons.IH [of ?s "w @ [c]"] scan_char_next [of s c "u @ q"] Cons.prems by simp
qed auto

lemma scan_text_after:
  "4 \<le> rs_dig s \<Longrightarrow> rs_n s \<noteq> 0 \<Longrightarrow> rs_pflag s = 3 \<Longrightarrow> rs_pasv (scan_text u q s) = rs_pasv s"
proof (induction u arbitrary: s)
  case (Cons c u)
  let ?t = "s\<lparr>rs_dig := rs_dig s + 1\<rparr>"
  show ?case
    using Cons.IH [of "scan_char c (u @ q) ?t"] scan_char_next [of s c "u @ q"] scan_char_after [of ?t c "u @ q"] Cons.prems
    by simp
qed simp

text \<open>A whole 227 reply: the address is what stands between its first digit and the closing mark.\<close>

lemma scan_text_pasv:
  assumes "plain t" "\<forall>c \<in> set t. \<not> is_digit c" and "plain a" "a \<noteq> []" "is_digit (hd a)" "CR \<notin> set a" "CHR '')'' \<notin> set a" "length a < 64"
    and "e = CR \<or> e = CHR '')''" and "plain t2"
    and s: "4 \<le> rs_dig s" "rs_n s \<noteq> 0" "rs_pflag s = 1" "pasv_at [] s"
  shows "\<exists>s'. scan_line (t @ a @ e # t2 @ LF # p) s = Some (Inr (p, s')) \<and> c_str (rs_pasv s') = a"
proof -
  let ?q1 = "a @ e # t2 @ LF # p" and ?q2 = "e # t2 @ LF # p" and ?q3 = "t2 @ LF # p"
  let ?s1 = "scan_text t ?q1 s"
  let ?s2 = "scan_text a ?q2 ?s1"
  let ?s3 = "scan_char e ?q3 (?s2\<lparr>rs_dig := rs_dig ?s2 + 1\<rparr>)"
  have 1: "rs_pflag ?s1 = 1" "pasv_at [] ?s1" "4 \<le> rs_dig ?s1" "rs_n ?s1 \<noteq> 0"
    using scan_text_before [OF assms(2) s(1-3), of ?q1] scan_text_tail [OF s(1,2), of t ?q1] s(4)
    by (simp_all add: pasv_at_def)
  have 2: "rs_pflag ?s2 = 2" "pasv_at a ?s2" "4 \<le> rs_dig ?s2" "rs_n ?s2 \<noteq> 0"
    using scan_text_keeps [OF assms(6,7) 1(3,4) _ 1(2)] assms(4,5,8) 1(1) scan_text_tail [OF 1(3,4), of a ?q2] by auto
  have "pasv_at a (?s2\<lparr>rs_dig := rs_dig ?s2 + 1\<rparr>)" using 2(2) by (simp add: pasv_at_def)
  then have 3: "rs_pflag ?s3 = 3" "c_str (rs_pasv ?s3) = a" "4 \<le> rs_dig ?s3" "rs_n ?s3 \<noteq> 0"
    using scan_char_stop [of "?s2\<lparr>rs_dig := rs_dig ?s2 + 1\<rparr>" e a ?q3] 2 assms(3,9) scan_char_next [of ?s2 e ?q3]
    by (auto simp: plain_def)
  have "scan_line (t @ a @ e # t2 @ LF # p) s = scan_line (t2 @ LF # p) ?s3"
    using assms(9) by (auto simp: scan_line_text [OF assms(1)] scan_line_text [OF assms(3)] Let_def)
  then show ?thesis
    using 3 scan_text_after [OF 3(3,4,1), of t2 "LF # p"] scan_line_text [OF assms(10), of "LF # p"] by simp
qed

section \<open>The reply as a whole\<close>

lemma pasv_reply:
  assumes "plain t" "\<forall>c \<in> set t. \<not> is_digit c" and "plain a" "a \<noteq> []" "is_digit (hd a)" "CR \<notin> set a" "CHR '')'' \<notin> set a" "length a < 64"
    and "e = CR \<or> e = CHR '')''" and "plain t2" and "length (rs_pasv s) = 64" "rs_px s = 0" "rs_code s = 0"
  shows "\<exists>s'. scan_lines (''227 '' @ t @ a @ e # t2 @ [LF]) 0 s = Some (Inr ([], 0, s')) \<and>
    c_str (rs_pasv s') = a \<and> rs_code s' = 227 \<and> rs_n s' = 50 \<and> rs_cont s' = 0"
proof -
  let ?u = "t @ a @ e # t2"
  have d: "is_digit (CHR ''2'')" "is_digit (CHR ''7'')" by (simp_all add: is_digit_def)
  have code: "code_of (CHR ''2'') (CHR ''2'') (CHR ''7'') = 227" by (simp add: code_of_def digit_val_def)
  have u: "plain ?u" using assms(1,3,9,10) by auto
  define s1 where "s1 = s\<lparr>rs_cont := 0, rs_dig := 4, rs_code := 227, rs_pflag := 1, rs_n := schar (CHR ''2'')\<rparr>"
  have one: "\<not> 2 \<le> get_string_letter_count (c_str (?u @ [LF])) LF"
    using u c_str_line [OF u, of "[]"] by (auto simp: get_string_letter_count_eq plain_def c_str_def)
  have head: "scan_line (''227 '' @ ?u @ [LF]) (new_line s) = scan_line (?u @ [LF]) s1"
    using scan_line_head [of "CHR ''2''" "CHR ''2''" "CHR ''7''" SPC s "?u @ [LF]"] d code one assms(13)
    by (simp add: s1_def)
  obtain s' where s': "scan_line (t @ a @ e # t2 @ LF # []) s1 = Some (Inr ([], s'))" "c_str (rs_pasv s') = a"
    using scan_text_pasv [OF assms(1-10), of s1 "[]"] assms(11,12) by (auto simp: s1_def pasv_at_def)
  obtain s2 where "scan_line (?u @ LF # []) s1 = Some (Inr ([], s2))" "same_head s1 s2"
    using scan_line_tail [OF u, of s1 "[]"] by (auto simp: s1_def)
  then have "s2 = s'" "same_head s1 s'" using s'(1) by auto
  then show ?thesis
    using s' head by (subst scan_lines.simps) (auto simp: same_head_def s1_def c_str_def schar_def)
qed

lemma getreply_pasv:
  assumes t: "plain t" "\<forall>c \<in> set t. \<not> is_digit c" and a: "plain a" "a \<noteq> []" "is_digit (hd a)" "CR \<notin> set a" "CHR '')'' \<notin> set a" "length a < 64"
    and e: "e = CR \<or> e = CHR '')''" and t2: "plain t2"
    and chunks: "concat chunks = ''227 '' @ t @ a @ e # t2 @ [LF]" "[] \<notin> set chunks" "length t + length t2 < 1900"
    and f: "ftp_buf f = []" "ctl_in f = map CtlData chunks @ rest" "length (ftp_pasv f) = 64"
  shows "\<exists>f'. getreply eof f = Some (2, f') \<and> c_str (ftp_pasv f') = a \<and> ctl_in f' = rest \<and>
    sys_in f' = sys_in f \<and> ctl_out f' = ctl_out f"
proof -
  let ?s = "\<lparr>rs_dig = 0, rs_n = 0, rs_code = 0, rs_pflag = 0, rs_px = 0, rs_pasv = ftp_pasv f, rs_cont = 0\<rparr>"
  let ?l = "''227 '' @ t @ a @ e # t2"
  have "plain ?l" using t a e t2 by auto
  then have fill: "fill (ctl_in f) (ftp_buf f) = Some (HasLine, ?l @ [LF], rest)"
    using fill_chunks [of "[]" chunks ?l rest] chunks f a(6) by simp
  obtain s' where s': "scan_lines (?l @ [LF]) 0 (?s\<lparr>rs_code := 0\<rparr>) = Some (Inr ([], 0, s'))"
    "c_str (rs_pasv s') = a" "rs_code s' = 227" "rs_n s' = 50" "rs_cont s' = 0"
    using pasv_reply [OF t a e t2, of "?s\<lparr>rs_code := 0\<rparr>"] f(3) by auto
  have "reply_loop eof (ctl_in f) (ftp_buf f) 0 ?s = Some \<lparr>re_ret = 2, re_lost = False, re_pending = Some False,
      re_code = 227, re_buf = [], re_pasv = rs_pasv s', re_in = rest\<rparr>"
    unfolding reply_loop_after [OF fill] s'(1) using s'(3-5) by (simp add: reply_after_def)
  then show ?thesis using s'(2) by (simp add: getreply_def)
qed

section \<open>The address of the data connection\<close>

lemma scan_long_nat:
  assumes "r = [] \<or> \<not> is_digit (hd r)"
  shows "scan_long (show_nat n @ r) = Some (int n, r)"
proof -
  obtain c cs where c: "show_nat n = c # cs" "is_digit c" "\<forall>x \<in> set cs. is_digit x"
    using hd_show_nat_digit [of n] show_nat_digits [of n] by (cases "show_nat n") auto
  then have "c \<noteq> CHR ''-''" "c \<noteq> CHR ''+''" by auto
  moreover have "takeWhile is_digit (show_nat n @ r) = show_nat n"
    using assms show_nat_digits [of n] by (subst takeWhile_append2) (auto simp: takeWhile_eq_Nil_iff)
  moreover have "dropWhile is_digit (show_nat n @ r) = r"
    using assms show_nat_digits [of n] by (subst dropWhile_append2) (auto intro: dropWhile_hd)
  moreover have "dropWhile is_space (show_nat n @ r) = show_nat n @ r"
    by (rule dropWhile_hd) (use c in simp)
  ultimately show ?thesis
    using c digits_val_show_nat [of n] by (simp add: scan_long_def Let_def)
qed

definition comma_join :: "nat list \<Rightarrow> cstring" where
  "comma_join ns = concat (map (\<lambda>n. CHR '','' # show_nat n) ns)"

lemma scan_longs_numbers:
  "length ns = k \<Longrightarrow> scan_longs (Suc k) (show_nat n @ comma_join ns) = map int (n # ns)"
proof (induction ns arbitrary: n k)
  case Nil
  then show ?case using scan_long_nat [of "[]" n] by (simp add: comma_join_def)
next
  case (Cons m ns)
  then obtain k' where k: "k = Suc k'" "length ns = k'" by auto
  have j: "comma_join (m # ns) = CHR '','' # show_nat m @ comma_join ns" by (simp add: comma_join_def)
  show ?case
    unfolding j using Cons.IH [OF k(2), of m] k(1) by (subst scan_longs.simps) (simp add: scan_long_nat)
qed

text \<open>The six numbers, as the reply prints them.\<close>

definition show_address :: "nat \<Rightarrow> nat \<Rightarrow> nat \<Rightarrow> nat \<Rightarrow> nat \<Rightarrow> nat \<Rightarrow> cstring" where
  "show_address h1 h2 h3 h4 p1 p2 = show_nat h1 @ comma_join [h2, h3, h4, p1, p2]"

lemma or_is_plus:
  assumes "b < 2 ^ k"
  shows "or (push_bit k (of_nat a)) (of_nat b) = (of_nat (a * 2 ^ k + b) :: 64 word)"
proof -
  have "and (push_bit k a) b = 0"
  proof (rule bit_eqI)
    fix n
    have "\<not> bit b n" if "k \<le> n"
    proof -
      have "b < 2 ^ n" using assms that by (meson less_le_trans one_le_numeral power_increasing)
      then show ?thesis by (simp add: bit_iff_odd)
    qed
    then show "bit (and (push_bit k a) b) n \<longleftrightarrow> bit (0 :: nat) n" by (auto simp: bit_simps)
  qed
  then have "a * 2 ^ k + b = or (push_bit k a) b"
    using disjunctive_add_eq_or [of "push_bit k a" b] by (simp add: push_bit_eq_mult)
  then show ?thesis by (simp only: of_nat_or_eq push_bit_of_nat)
qed

lemma ucast_nat: "LENGTH('b) \<le> 64 \<Longrightarrow> (ucast (of_nat n :: 64 word) :: 'b::len word) = of_nat n"
  by (rule bit_word_eqI) (simp add: bit_simps)

lemma unat_small: "n < 2 ^ LENGTH('a) \<Longrightarrow> unat (of_nat n :: 'a::len word) = n"
  by (simp add: unat_of_nat)

lemma addr_of_nat:
  assumes "h2 < 256" "h3 < 256" "h4 < 256"
  shows "addr_of (of_nat h1) (of_nat h2) (of_nat h3) (of_nat h4) = of_nat (h1 * 2 ^ 24 + h2 * 2 ^ 16 + h3 * 2 ^ 8 + h4)"
proof -
  have p: "push_bit k (of_nat n) = (of_nat (n * 2 ^ k) :: 64 word)" for k n
    by (simp add: push_bit_of_nat push_bit_eq_mult)
  have 1: "or (push_bit 24 (of_nat h1)) (push_bit 16 (of_nat h2)) = (of_nat (h1 * 2 ^ 24 + h2 * 2 ^ 16) :: 64 word)"
    unfolding p [of 16] by (rule or_is_plus) (use assms in simp)
  have 2: "or (of_nat (h1 * 2 ^ 24 + h2 * 2 ^ 16)) (push_bit 8 (of_nat h3)) = (of_nat (h1 * 2 ^ 24 + h2 * 2 ^ 16 + h3 * 2 ^ 8) :: 64 word)"
  proof -
    have e: "h1 * 2 ^ 24 + h2 * 2 ^ 16 = (h1 * 2 ^ 8 + h2) * 2 ^ 16" by simp
    have "(of_nat ((h1 * 2 ^ 8 + h2) * 2 ^ 16) :: 64 word) = push_bit 16 (of_nat (h1 * 2 ^ 8 + h2))" by (rule p [symmetric])
    then show ?thesis unfolding e p [of 8] by (simp only:) (rule or_is_plus, use assms in simp)
  qed
  have 3: "or (of_nat (h1 * 2 ^ 24 + h2 * 2 ^ 16 + h3 * 2 ^ 8)) (of_nat h4) = (of_nat (h1 * 2 ^ 24 + h2 * 2 ^ 16 + h3 * 2 ^ 8 + h4) :: 64 word)"
  proof -
    have e: "h1 * 2 ^ 24 + h2 * 2 ^ 16 + h3 * 2 ^ 8 = (h1 * 2 ^ 16 + h2 * 2 ^ 8 + h3) * 2 ^ 8" by simp
    have "(of_nat ((h1 * 2 ^ 16 + h2 * 2 ^ 8 + h3) * 2 ^ 8) :: 64 word) = push_bit 8 (of_nat (h1 * 2 ^ 16 + h2 * 2 ^ 8 + h3))"
      by (rule p [symmetric])
    then show ?thesis unfolding e by (simp only:) (rule or_is_plus, use assms in simp)
  qed
  show ?thesis
    unfolding addr_of_def 1 2 3 by (rule ucast_nat) simp
qed

lemma port_of_nat: "p2 < 256 \<Longrightarrow> port_of (of_nat p1) (of_nat p2) = of_nat (p1 * 2 ^ 8 + p2)"
  unfolding port_of_def by (subst or_is_plus, simp, rule ucast_nat, simp)

lemma show_address_text:
  "plain (show_address h1 h2 h3 h4 p1 p2)" "show_address h1 h2 h3 h4 p1 p2 \<noteq> []" "is_digit (hd (show_address h1 h2 h3 h4 p1 p2))"
  "CR \<notin> set (show_address h1 h2 h3 h4 p1 p2)" "CHR '')'' \<notin> set (show_address h1 h2 h3 h4 p1 p2)"
proof -
  have c: "x = CHR '','' \<or> is_digit x" if "x \<in> set (show_address h1 h2 h3 h4 p1 p2)" for x
    using that show_nat_digits by (auto simp: show_address_def comma_join_def)
  then show "plain (show_address h1 h2 h3 h4 p1 p2)" "CR \<notin> set (show_address h1 h2 h3 h4 p1 p2)" "CHR '')'' \<notin> set (show_address h1 h2 h3 h4 p1 p2)"
    by (fastforce simp: plain_def dest: digit_plain)+
  show "show_address h1 h2 h3 h4 p1 p2 \<noteq> []" "is_digit (hd (show_address h1 h2 h3 h4 p1 p2))"
    by (simp_all add: show_address_def hd_show_nat_digit)
qed

lemma show_address_length:
  assumes "h1 < 256" "h2 < 256" "h3 < 256" "h4 < 256" "p1 < 256" "p2 < 256"
  shows "length (show_address h1 h2 h3 h4 p1 p2) < 64"
proof -
  have "length (show_nat n) \<le> 3" if "n < 256" for n using that by (intro show_nat_length) auto
  from assms [THEN this] show ?thesis by (simp add: show_address_def comma_join_def)
qed

lemma pasv_address_shown:
  assumes "h2 < 256" "h3 < 256" "h4 < 256" "p2 < 256"
  shows "pasv_address (show_address h1 h2 h3 h4 p1 p2)
    = Some (of_nat (h1 * 2 ^ 24 + h2 * 2 ^ 16 + h3 * 2 ^ 8 + h4), of_nat (p1 * 2 ^ 8 + p2))"
proof -
  have "scan_longs 6 (show_address h1 h2 h3 h4 p1 p2) = map int [h1, h2, h3, h4, p1, p2]"
    using scan_longs_numbers [of "[h2, h3, h4, p1, p2]" 5 h1] by (simp add: show_address_def eval_nat_numeral)
  then show ?thesis
    using addr_of_nat [OF assms(1-3), of h1] port_of_nat [OF assms(4), of p1] by (simp add: pasv_address_def)
qed

text \<open>
  C24. The passive mode connects to the address the server names. When the server answers \<open>PASV\<close> with
  \<open>227 text(h1,h2,h3,h4,p1,p2)text\<close>, in whatever segments, \<open>initconn\<close> takes exactly the address
  with the bytes \<open>h1\<close> to \<open>h4\<close> and the port \<open>256 * p1 + p2\<close> for the data connection, and its
  result is that of \<open>connect\<close>.
\<close>

theorem passive_address:
  assumes b: "h1 < 256" "h2 < 256" "h3 < 256" "h4 < 256" "p1 < 256" "p2 < 256"
    and t: "plain t" "\<forall>c \<in> set t. \<not> is_digit c" "plain t2" "length t + length t2 < 1900" and e: "e = CR \<or> e = CHR '')''"
    and chunks: "concat chunks = ''227 '' @ t @ show_address h1 h2 h3 h4 p1 p2 @ e # t2 @ [LF]" "[] \<notin> set chunks"
    and f: "ftp_passive_mode f" "ftp_cout f" "sys_in f = True # ok # s" "ftp_buf f = []" "length (ftp_pasv f) = 64"
      "ctl_in f = map CtlData chunks @ rest"
  shows "\<exists>f' addr port. initconn f = Some (if ok then 0 else 1, f') \<and> ftp_data_addr f' = Some (addr, port) \<and>
    unat addr = h1 * 2 ^ 24 + h2 * 2 ^ 16 + h3 * 2 ^ 8 + h4 \<and> unat port = p1 * 256 + p2 \<and>
    ctl_out f' = ctl_out f @ [''PASV'' @ [CR, LF]] \<and> ctl_in f' = rest"
proof -
  let ?f = "f\<lparr>sys_in := ok # s, ftp_data := True, ftp_cp_end := True, ctl_out := ctl_out f @ [''PASV'' @ [CR, LF]]\<rparr>"
  obtain f' where f': "getreply False ?f = Some (2, f')" "c_str (ftp_pasv f') = show_address h1 h2 h3 h4 p1 p2"
    "ctl_in f' = rest" "sys_in f' = ok # s" "ctl_out f' = ctl_out f @ [''PASV'' @ [CR, LF]]"
    using getreply_pasv [OF t(1,2) show_address_text show_address_length [OF b] e t(3) chunks t(4), of ?f rest False] f
    by auto
  let ?addr = "of_nat (h1 * 2 ^ 24 + h2 * 2 ^ 16 + h3 * 2 ^ 8 + h4) :: 32 word" and ?port = "of_nat (p1 * 2 ^ 8 + p2) :: 16 word"
  have "initconn f = Some (if ok then 0 else 1, f'\<lparr>ftp_data_addr := Some (?addr, ?port), sys_in := s\<rparr>)"
    using f f' pasv_address_shown [OF b(2-4,6), of h1 p1]
    by (simp add: initconn_def initconn_pasv_def sys_def command_def Let_def)
  moreover have "unat ?addr = h1 * 2 ^ 24 + h2 * 2 ^ 16 + h3 * 2 ^ 8 + h4" "unat ?port = p1 * 2 ^ 8 + p2"
    by (rule unat_small, use b in simp)+
  ultimately show ?thesis using f' by simp
qed

theorem passive_address_witness:
  "map_option (\<lambda>(r, f'). (r, ftp_data_addr f')) (initconn (ftp_start\<lparr>ftp_cout := True, ftp_passive_mode := True, sys_in := [True, True],
     ctl_in := [CtlData ''227 Passive ('', CtlData (''10,0,0,1,7,8)'' @ [CR, LF])]\<rparr>)) = Some (0, Some (0x0A000001, 1800))"
  (is "map_option _ (initconn ?f) = _")
proof -
  have n: "show_address 10 0 0 (Suc 0) 7 8 = ''10,0,0,1,7,8''" by code_simp
  obtain f' addr port where f': "initconn ?f = Some (0, f')" "ftp_data_addr f' = Some (addr, port)"
    "unat addr = 10 * 2 ^ 24 + 0 * 2 ^ 16 + 0 * 2 ^ 8 + 1" "unat port = 7 * 256 + 8"
    using passive_address [of 10 0 0 1 7 8 "''Passive (''" "[CR]" "CHR '')''"
        "[''227 Passive ('', ''10,0,0,1,7,8)'' @ [CR, LF]]" ?f True "[]" "[]"]
    by (auto simp: n ftp_start_def is_digit_def)
  have "addr = 0x0A000001" "port = 1800"
    using f'(3,4) by (simp_all add: word_unat_eq_iff)
  with f' show ?thesis by simp
qed

end
