(* ===== verification/Sem_Lock.thy ===== *)
theory Sem_Lock
  imports Prelude
begin

text \<open>
  The System V semaphore of \<open>frame_mutex.c\<close> (\<open>tSystemVSemaphore\<close>) and its scoped lock \<open>CSemLock\<close> of
  \<open>thread.h\<close>, which guard the shared memory and the file table, and the locks of several processes as
  a step relation.
\<close>

section \<open>wait, tryacquire and release\<close>

text \<open>What one \<open>semop\<close> answers. Without \<open>IPC_NOWAIT\<close> it does not answer \<open>SemAgain\<close> but blocks.\<close>

datatype semop_answer = SemOk | SemAgain | SemIntr | SemFail

text \<open>
  The blocking form (\<open>nTimes <= 0\<close>) repeats after a signal; a script that ends is a call that blocks for
  ever. The other form tries again while the semaphore is taken, up to \<open>nTimes\<close> more times. The
  result is whether the lock was taken, with the answers not used.
\<close>

fun wait_blocking :: "semop_answer list \<Rightarrow> (bool \<times> semop_answer list) option" where
  "wait_blocking [] = None"
| "wait_blocking (a # as) =
     (case a of SemOk \<Rightarrow> Some (True, as) | SemIntr \<Rightarrow> wait_blocking as | _ \<Rightarrow> Some (False, as))"

fun wait_timed :: "nat \<Rightarrow> nat \<Rightarrow> semop_answer list \<Rightarrow> (bool \<times> semop_answer list) option" where
  "wait_timed n tried [] = None"
| "wait_timed n tried (a # as) =
     (if a = SemOk then Some (True, as)
      else if n < tried + 1 \<or> a \<noteq> SemAgain then Some (False, as)
      else wait_timed n (tried + 1) as)"

definition sem_wait :: "int \<Rightarrow> semop_answer list \<Rightarrow> (bool \<times> semop_answer list) option" where
  "sem_wait nTimes as = (if nTimes \<le> 0 then wait_blocking as else wait_timed (nat nTimes) 0 as)"

definition tryacquire :: "semop_answer \<Rightarrow> bool" where
  "tryacquire a = (a = SemOk)"

fun sem_release :: "semop_answer list \<Rightarrow> (bool \<times> semop_answer list) option" where
  "sem_release [] = None"
| "sem_release (a # as) =
     (case a of SemOk \<Rightarrow> Some (True, as) | SemIntr \<Rightarrow> sem_release as | _ \<Rightarrow> Some (False, as))"

fun_cases wait_timed_ConsE: "wait_timed n t (a # as) = Some (b, r)"

text \<open>The timed form makes at most \<open>nTimes + 1\<close> tries, and gives up only after that many or on an error.\<close>

lemma wait_timed_bound:
  "wait_timed n t as = Some (b, r) \<Longrightarrow> t \<le> n \<Longrightarrow> length as \<le> length r + (n - t) + 1"
proof (induction n t as arbitrary: b rule: wait_timed.induct)
  case (2 n t a as)
  then show ?case by (elim wait_timed_ConsE) (auto dest!: sym [of "Some _"] split: if_splits)
qed simp

lemma wait_timed_gives_up: "t \<le> n \<Longrightarrow> wait_timed n t (replicate (n - t + 1) SemAgain @ r) = Some (False, r)"
proof (induction "n - t" arbitrary: t)
  case 0
  then show ?case by simp
next
  case (Suc d)
  then have "n - t = Suc (n - Suc t)" "d = n - Suc t" "Suc t \<le> n" by auto
  then show ?case using Suc.hyps(1) [of "Suc t"] by simp
qed

text \<open>
  When nobody else moves, the semaphore's value decides: a free one is taken, a taken one blocks the
  blocking form and lets the timed form fail.
\<close>

definition semop_wait :: "nat \<Rightarrow> semop_answer" where
  "semop_wait v = (if 0 < v then SemOk else SemAgain)"

definition wait_value :: "int \<Rightarrow> nat \<Rightarrow> (bool \<times> nat) option" where
  "wait_value nTimes v =
     (if 0 < v then Some (True, v - 1) else if nTimes \<le> 0 then None else Some (False, v))"

lemma wait_value_wait:
  assumes "0 < nTimes"
  shows "wait_value nTimes v = Some (b, v') \<Longrightarrow>
    map_option fst (sem_wait nTimes (replicate (nat nTimes + 1) (semop_wait v))) = Some b"
  using assms wait_timed_gives_up [of 0 "nat nTimes" "[]"]
  by (auto simp: wait_value_def sem_wait_def semop_wait_def split: if_splits)

section \<open>Processes\<close>

text \<open>
  The users of one semaphore: processes inside a \<open>CSemLock\<close> scope whose \<open>TryLock\<close> succeeded
  (\<open>holders\<close>), and processes that have an iterator of the allocator. An iterator takes the
  semaphore when it is created and ignores the result; it releases the semaphore when it
  is destroyed, in either case.
\<close>

record 'p sem_state =
  sem_val :: nat
  holders :: "'p set"
  iterating :: "'p set"

datatype 'p sem_action = Take 'p | Fail 'p | Release 'p | IterNew 'p | IterEnd 'p

inductive sem_step :: "'p sem_state \<Rightarrow> 'p sem_action \<Rightarrow> 'p sem_state \<Rightarrow> bool" where
  take: "0 < sem_val s \<Longrightarrow> p \<notin> holders s \<Longrightarrow>
    sem_step s (Take p) (s\<lparr>sem_val := sem_val s - 1, holders := insert p (holders s)\<rparr>)"
| fail: "sem_step s (Fail p) s"
| release: "p \<in> holders s \<Longrightarrow>
    sem_step s (Release p) (s\<lparr>sem_val := sem_val s + 1, holders := holders s - {p}\<rparr>)"
| iter_ok: "0 < sem_val s \<Longrightarrow> p \<notin> iterating s \<Longrightarrow>
    sem_step s (IterNew p) (s\<lparr>sem_val := sem_val s - 1, iterating := insert p (iterating s)\<rparr>)"
| iter_fail: "sem_val s = 0 \<Longrightarrow> p \<notin> iterating s \<Longrightarrow>
    sem_step s (IterNew p) (s\<lparr>iterating := insert p (iterating s)\<rparr>)"
| iter_end: "p \<in> iterating s \<Longrightarrow>
    sem_step s (IterEnd p) (s\<lparr>sem_val := sem_val s + 1, iterating := iterating s - {p}\<rparr>)"

inductive_simps sem_step_iffs [simp]:
  "sem_step s (Take p) s'" "sem_step s (Fail p) s'" "sem_step s (Release p) s'"
  "sem_step s (IterNew p) s'" "sem_step s (IterEnd p) s'"

text \<open>
  The steps are what the translated \<open>wait\<close> and \<open>release\<close> do: a scope or an iterator gets in exactly when \<open>wait\<close>
  with the value at hand returns \<open>ERR_OK\<close>, and leaves the value \<open>wait\<close> leaves; a \<open>wait\<close> that fails leaves the
  value as it is. \<open>Fail\<close> is a \<open>TryLock\<close> that gave up, at any value, since a signal ends the timed form too; its
  scope releases nothing.
\<close>

lemma take_is_wait:
  "p \<notin> holders s \<Longrightarrow> (\<exists>s'. sem_step s (Take p) s') \<longleftrightarrow> (\<exists>v. wait_value n (sem_val s) = Some (True, v))"
  "sem_step s (Take p) s' \<Longrightarrow> wait_value n (sem_val s) = Some (True, sem_val s')"
  by (auto simp: wait_value_def)

lemma fail_is_wait:
  "wait_value n (sem_val s) = Some (False, v) \<Longrightarrow> sem_step s (Fail p) s' \<Longrightarrow> sem_val s' = v"
  by (auto simp: wait_value_def split: if_splits)

lemma iterator_is_wait:
  "sem_step s (IterNew p) s' \<Longrightarrow> 0 < n \<Longrightarrow> map_option snd (wait_value n (sem_val s)) = Some (sem_val s')"
  by (auto simp: wait_value_def)

lemma release_is_release:
  "sem_step s (Release p) s' \<Longrightarrow> sem_release [SemOk] = Some (True, []) \<and> sem_val s' = sem_val s + 1"
  by auto

inductive sem_run :: "'p sem_state \<Rightarrow> 'p sem_action list \<Rightarrow> 'p sem_state \<Rightarrow> bool" where
  halt: "sem_run s [] s"
| step: "sem_step s a s1 \<Longrightarrow> sem_run s1 as s' \<Longrightarrow> sem_run s (a # as) s'"

inductive_simps sem_run_simps [simp]: "sem_run s [] s'" "sem_run s (a # as) s'"

definition sem_start :: "'p sem_state" where
  "sem_start = \<lparr>sem_val = 1, holders = {}, iterating = {}\<rparr>"

definition scoped :: "'p sem_action \<Rightarrow> bool" where
  "scoped a = (case a of IterNew _ \<Rightarrow> False | IterEnd _ \<Rightarrow> False | _ \<Rightarrow> True)"

lemma scoped_step:
  assumes "sem_step s a s'" and "scoped a" and "finite (holders s)" and "sem_val s + card (holders s) = n"
  shows "finite (holders s') \<and> sem_val s' + card (holders s') = n"
  using assms by (cases rule: sem_step.cases) (auto simp: scoped_def card_insert_if card_Suc_Diff1 simp del: card_Diff_insert)

lemma scoped_run:
  "sem_run s as s' \<Longrightarrow> list_all scoped as \<Longrightarrow> finite (holders s) \<Longrightarrow> sem_val s + card (holders s) = n \<Longrightarrow>
   finite (holders s') \<and> sem_val s' + card (holders s') = n"
  by (induction rule: sem_run.induct) (auto dest: scoped_step)

text \<open>
  C36. Mutual exclusion of the scoped locks. As long as all users of the semaphore are \<open>CSemLock\<close> scopes,
  in every reachable state at most one process is inside, and the semaphore's value is 1
  exactly when nobody is.
\<close>

theorem scoped_locks_exclude:
  assumes "sem_run sem_start as s" and "list_all scoped as"
  shows "card (holders s) + sem_val s = 1 \<and> (p \<in> holders s \<longrightarrow> q \<in> holders s \<longrightarrow> p = q)"
proof -
  have f: "finite (holders s)" and c: "sem_val s + card (holders s) = 1"
    using scoped_run [OF assms, of 1] by (auto simp: sem_start_def)
  then have "card (holders s) \<le> 1" by simp
  then have "p \<in> holders s \<longrightarrow> q \<in> holders s \<longrightarrow> p = q"
    using f by (auto simp: card_le_Suc0_iff_eq)
  then show ?thesis using c by simp
qed

theorem scoped_locks_exclude_witness:
  "\<exists>s. sem_run sem_start [Take (1 :: nat), Fail 2, Release 1, Take 2] s \<and> holders s = {2} \<and> card (holders s) + sem_val s = 1"
proof -
  let ?as = "[Take (1 :: nat), Fail 2, Release 1, Take 2]"
  obtain s where s: "sem_run sem_start ?as s" "holders s = {2}"
    by (auto simp: sem_start_def)
  have "card (holders s) + sem_val s = 1"
    using scoped_locks_exclude [OF s(1), of 2 2] by (simp add: scoped_def)
  with s show ?thesis by auto
qed

text \<open>
  An iterator inside a locked scope breaks the lock. A process that holds the lock and lets an
  iterator come and go (as \<open>malloc_keyhint\<close> does) leaves the semaphore at 2: the iterator
  cannot take it, but releases it. After that two other processes are inside at once.
\<close>

theorem iterator_breaks_lock:
  assumes "p \<noteq> q"
  shows "\<exists>s. sem_run sem_start [Take r, IterNew r, IterEnd r, Release r, Take p, Take q] s \<and> holders s = {p, q}"
proof -
  let ?s = "\<lparr>sem_val = 0, holders = {q, p}, iterating = {}\<rparr>"
  have "sem_run sem_start [Take r, IterNew r, IterEnd r, Release r, Take p, Take q] ?s"
    using assms by (simp add: sem_start_def)
  then show ?thesis by (intro exI [of _ ?s]) auto
qed

theorem iterator_breaks_lock_witness:
  "\<exists>s. sem_run sem_start [Take 0, IterNew 0, IterEnd 0, Release 0, Take 1, Take (2 :: nat)] s \<and> holders s = {1, 2}"
  using iterator_breaks_lock [of "1 :: nat" 2 0] by simp

end
