(* ===== verification/Shm_Alloc.thy ===== *)
theory Shm_Alloc
  imports Sem_Lock
begin

text \<open>
  The shared-memory allocator (\<open>frame_memory.c\<close>, \<open>frame_memory.h\<close>): a pool of blocks with two chains
  through their headers, by address and by key. Addresses are offsets from the start of
  the pool; the pool's memory is a map from offsets to the headers written there. Sizes are those of
  the 64-bit ABI: 72 bytes for the pool's header, 48 for a block's, none for the semaphore.
\<close>

section \<open>State\<close>

record block_header =
  mem_prev :: nat
  mem_next :: nat
  key_prev :: nat
  key_next :: nat
  blk_key :: int
  datasize :: nat

record pool =
  headers :: "nat \<rightharpoonup> block_header"
  mem_start :: nat
  mem_end :: nat
  blocks_head :: nat
  blocks_tail :: nat
  keys_head :: nat
  keys_tail :: nat
  pool_sem :: nat

abbreviation (input) "hdr_size \<equiv> 48 :: nat"
abbreviation (input) "pool_header_size \<equiv> 72 :: nat"

text \<open>\<open>offset2header\<close>, dereferenced: the null pointer and memory without a header give nothing.\<close>

definition header_at :: "pool \<Rightarrow> nat \<Rightarrow> block_header option" where
  "header_at p a = (if a = 0 then None else headers p a)"

text \<open>A write to a field of the header at an offset.\<close>

definition set_header :: "nat \<Rightarrow> (block_header \<Rightarrow> block_header) \<Rightarrow> pool \<Rightarrow> pool option" where
  "set_header a f p = (case header_at p a of None \<Rightarrow> None | Some h \<Rightarrow> Some (p\<lparr>headers := (headers p)(a \<mapsto> f h)\<rparr>))"

text \<open>\<open>reset\<close> of the master, on a segment of \<open>memsize\<close> bytes of zeroes.\<close>

definition pool_reset :: "nat \<Rightarrow> pool" where
  "pool_reset memsize =
     \<lparr>headers = Map.empty, mem_start = pool_header_size, mem_end = pool_header_size + memsize,
      blocks_head = pool_header_size + memsize, blocks_tail = 0, keys_head = 0, keys_tail = 0, pool_sem = 1\<rparr>"

section \<open>malloc\<close>

text \<open>
  An offset that goes through the variable \<open>int tmp\<close>: 32 bits, extended by sign to 64.
\<close>

definition int_tmp :: "nat \<Rightarrow> nat" where
  "int_tmp n = (let t = n mod 2 ^ 32 in if t < 2 ^ 31 then t else t + (2 ^ 64 - 2 ^ 32))"

text \<open>The loop of \<open>malloc\<close> from the first block to one with room behind it, or to the last.\<close>

partial_function (option) malloc_walk :: "pool \<Rightarrow> nat \<Rightarrow> nat \<Rightarrow> nat option" where
  "malloc_walk p sz cur =
     (if cur = blocks_tail p then Some cur
      else Option.bind (header_at p cur) (\<lambda>h.
        if mem_next h < cur + 2 * hdr_size + datasize h + sz then malloc_walk p sz (mem_next h) else Some cur))"

declare malloc_walk.simps [code]

text \<open>Where the new block goes: its offset (0 for none) and the block before it (0 for the front).\<close>

definition malloc_place :: "pool \<Rightarrow> nat \<Rightarrow> (nat \<times> nat) option" where
  "malloc_place p sz =
     (if mem_start p + hdr_size + sz \<le> blocks_head p then Some (mem_start p, 0)
      else do {
        t \<leftarrow> header_at p (blocks_tail p);
        if blocks_tail p + 2 * hdr_size + datasize t + sz \<le> mem_end p - hdr_size
        then Some (blocks_tail p + hdr_size + datasize t, blocks_tail p)
        else do {
          cur \<leftarrow> malloc_walk p sz (blocks_head p);
          h \<leftarrow> header_at p cur;
          if cur + 2 * hdr_size + datasize h + sz \<le> mem_end p - hdr_size \<and> cur + 2 * hdr_size + datasize h + sz \<le> mem_next h
          then Some (cur + hdr_size + datasize h, cur) else Some (0, cur)
        }
      })"

text \<open>Linking the new block; the new header is written where there was free memory.\<close>

definition link_block :: "pool \<Rightarrow> nat \<Rightarrow> nat \<Rightarrow> nat \<Rightarrow> pool option" where
  "link_block p new cur sz =
     do {
       (nxt, p1) \<leftarrow>
         (if cur = 0 then Some (blocks_head p, p\<lparr>blocks_head := new\<rparr>)
          else do {
            h \<leftarrow> header_at p cur;
            p1 \<leftarrow> set_header cur (mem_next_update (\<lambda>_. new)) p;
            Some (int_tmp (mem_next h), p1)
          });
       p2 \<leftarrow> (if nxt \<noteq> mem_end p1 then set_header nxt (mem_prev_update (\<lambda>_. new)) p1
             else Some (p1\<lparr>blocks_tail := new\<rparr>));
       Some (p2\<lparr>headers := (headers p2)(new \<mapsto>
         \<lparr>mem_prev = cur, mem_next = nxt, key_prev = 0, key_next = 0, blk_key = 0, datasize = sz\<rparr>)\<rparr>)
     }"

text \<open>\<open>NullBlock\<close> is returned for size 0, \<open>NoMemory\<close> is the exception.\<close>

datatype alloc_result = NullBlock | Block nat | NoMemory

definition shm_malloc :: "nat \<Rightarrow> pool \<Rightarrow> (alloc_result \<times> pool) option" where
  "shm_malloc sz p =
     (if sz = 0 then Some (NullBlock, p)
      else do {
        (_, v) \<leftarrow> wait_value (-1) (pool_sem p);
        (new, cur) \<leftarrow> malloc_place p sz;
        if new = 0 then Some (NoMemory, p\<lparr>pool_sem := v + 1\<rparr>)
        else do {
          p1 \<leftarrow> link_block p new cur sz;
          Some (Block new, p1\<lparr>pool_sem := v + 1\<rparr>)
        }
      })"

section \<open>free\<close>

text \<open>The key chain, then the chain by address; the header stays in memory. Offset 0 is the null block.\<close>

definition unlink_keys :: "nat \<Rightarrow> pool \<Rightarrow> pool option" where
  "unlink_keys b p =
     do {
       h \<leftarrow> header_at p b;
       p1 \<leftarrow> (if key_next h \<noteq> 0 then set_header (key_next h) (key_prev_update (\<lambda>_. key_prev h)) p
             else Some (if blk_key h \<noteq> 0 then p\<lparr>keys_tail := key_prev h\<rparr> else p));
       if key_prev h \<noteq> 0 then set_header (key_prev h) (key_next_update (\<lambda>_. key_next h)) p1
       else Some (if blk_key h \<noteq> 0 then p1\<lparr>keys_head := key_next h\<rparr> else p1)
     }"

definition unlink_mem :: "nat \<Rightarrow> pool \<Rightarrow> pool option" where
  "unlink_mem b p =
     do {
       h \<leftarrow> header_at p b;
       p1 \<leftarrow> (if mem_prev h = 0 then Some (p\<lparr>blocks_head := mem_next h\<rparr>)
             else set_header (mem_prev h) (mem_next_update (\<lambda>_. mem_next h)) p);
       if mem_next h = mem_end p then Some (p1\<lparr>blocks_tail := mem_prev h\<rparr>)
       else set_header (mem_next h) (mem_prev_update (\<lambda>_. mem_prev h)) p1
     }"

definition shm_free :: "nat \<Rightarrow> pool \<Rightarrow> pool option" where
  "shm_free b p =
     do {
       (_, v) \<leftarrow> wait_value (-1) (pool_sem p);
       p1 \<leftarrow> (if b \<noteq> 0 then do { p1 \<leftarrow> unlink_keys b p; unlink_mem b p1 } else Some p);
       Some (p1\<lparr>pool_sem := v + 1\<rparr>)
     }"

section \<open>Keys\<close>

text \<open>\<open>getfirst\<close> and \<open>getlast\<close> without a hint: the walks along the key chain from either end.\<close>

partial_function (option) first_from :: "pool \<Rightarrow> int \<Rightarrow> nat \<Rightarrow> nat option" where
  "first_from p key cur =
     (if cur = 0 then Some 0
      else Option.bind (header_at p cur) (\<lambda>h. if blk_key h < key then first_from p key (key_next h) else Some cur))"

partial_function (option) last_from :: "pool \<Rightarrow> int \<Rightarrow> nat \<Rightarrow> nat option" where
  "last_from p key cur =
     (if cur = 0 then Some 0
      else Option.bind (header_at p cur) (\<lambda>h. if key < blk_key h then last_from p key (key_prev h) else Some cur))"

declare first_from.simps [code] last_from.simps [code]

text \<open>With \<open>match\<close>, a block with another key counts as not found.\<close>

definition matched :: "pool \<Rightarrow> int \<Rightarrow> bool \<Rightarrow> nat \<Rightarrow> nat option" where
  "matched p key match cur =
     (if cur = 0 \<or> \<not> match then Some cur
      else do { h \<leftarrow> header_at p cur; Some (if blk_key h \<noteq> key then 0 else cur) })"

definition getfirst :: "int \<Rightarrow> bool \<Rightarrow> pool \<Rightarrow> nat option" where
  "getfirst key match p =
     (if key = 0 then Some (if blocks_head p \<noteq> mem_end p then blocks_head p else 0)
      else do { cur \<leftarrow> first_from p key (keys_head p); matched p key match cur })"

definition getlast :: "int \<Rightarrow> bool \<Rightarrow> pool \<Rightarrow> nat option" where
  "getlast key match p =
     (if key = 0 then Some (blocks_tail p)
      else do { cur \<leftarrow> last_from p key (keys_tail p); matched p key match cur })"

text \<open>
  An iterator takes the semaphore for up to five tries when it is made and releases it when it is
  gone; the first value is what the other code in between sees.
\<close>

definition iter_lock :: "nat \<Rightarrow> nat" where
  "iter_lock v = (case wait_value 5 v of None \<Rightarrow> v | Some (_, v') \<Rightarrow> v')"

definition iter_unlock :: "nat \<Rightarrow> nat" where
  "iter_unlock v = v + 1"

text \<open>The insertion into the key chain behind the block \<open>cur\<close>, 0 for the front.\<close>

definition insert_key :: "nat \<Rightarrow> nat \<Rightarrow> pool \<Rightarrow> pool option" where
  "insert_key new cur p =
     (if cur = 0 then do {
        p1 \<leftarrow> (if keys_head p = 0 then Some (p\<lparr>keys_tail := new\<rparr>)
              else do {
                p1 \<leftarrow> set_header (keys_head p) (key_prev_update (\<lambda>_. new)) p;
                set_header new (key_next_update (\<lambda>_. keys_head p)) p1
              });
        Some (p1\<lparr>keys_head := new\<rparr>)
      }
      else do {
        c \<leftarrow> header_at p cur;
        p1 \<leftarrow> set_header new (key_next_update (\<lambda>_. key_next c)) p;
        p2 \<leftarrow> set_header cur (key_next_update (\<lambda>_. new)) p1;
        p3 \<leftarrow> (if key_next c \<noteq> 0 then set_header (key_next c) (key_prev_update (\<lambda>_. new)) p2
              else Some (p2\<lparr>keys_tail := new\<rparr>));
        set_header new (key_prev_update (\<lambda>_. cur)) p3
      })"

text \<open>
  \<open>malloc_key\<close>, that is \<open>malloc_keyhint\<close> with an unused hint. The iterator that finds the place is
  made and destroyed inside the lock.
\<close>

definition malloc_key :: "nat \<Rightarrow> int \<Rightarrow> pool \<Rightarrow> (alloc_result \<times> pool) option" where
  "malloc_key sz key p =
     do {
       (r, p1) \<leftarrow> shm_malloc sz p;
       case r of
         NoMemory \<Rightarrow> Some (NoMemory, p1)
       | NullBlock \<Rightarrow> do { (_, v) \<leftarrow> wait_value (-1) (pool_sem p1); Some (NullBlock, p1\<lparr>pool_sem := v + 1\<rparr>) }
       | Block new \<Rightarrow> do {
           (_, v) \<leftarrow> wait_value (-1) (pool_sem p1);
           p2 \<leftarrow> set_header new (blk_key_update (\<lambda>_. key)) p1;
           if key = 0 then Some (Block new, p2\<lparr>pool_sem := v + 1\<rparr>)
           else do {
             cur \<leftarrow> getlast key False p2;
             p3 \<leftarrow> insert_key new cur p2;
             Some (Block new, p3\<lparr>pool_sem := iter_unlock (iter_lock v) + 1\<rparr>)
           }
         }
     }"

text \<open>The iterator's steps: to the next and the previous block, by key or by address.\<close>

definition iter_next :: "int \<Rightarrow> nat \<Rightarrow> pool \<Rightarrow> (bool \<times> nat) option" where
  "iter_next key cur p =
     (if cur = 0 then Some (False, cur)
      else do {
        h \<leftarrow> header_at p cur;
        if key \<noteq> 0 then
          (if key_next h = 0 then Some (False, cur)
           else do { n \<leftarrow> header_at p (key_next h); Some (if blk_key n = key then (True, key_next h) else (False, cur)) })
        else if mem_next h \<noteq> blocks_head p then Some (True, mem_next h)
        else Some (False, cur)
      })"

definition iter_previous :: "int \<Rightarrow> nat \<Rightarrow> pool \<Rightarrow> (bool \<times> nat) option" where
  "iter_previous key cur p =
     (if cur = 0 then Some (False, cur)
      else do {
        h \<leftarrow> header_at p cur;
        if key \<noteq> 0 then
          (if key_prev h = 0 then Some (False, cur)
           else do { n \<leftarrow> header_at p (key_prev h); Some (if blk_key n = key then (True, key_prev h) else (False, cur)) })
        else if mem_prev h \<noteq> 0 then Some (True, mem_prev h)
        else Some (False, cur)
      })"

end
