(* ===== verification/Shm_Chain.thy ===== *)
theory Shm_Chain
  imports Shm_Alloc
begin

text \<open>
  The two chains of the allocator as lists: the blocks by address, which do not overlap, and the blocks
  by key, which are sorted. \<open>malloc\<close> inserts into the first, \<open>malloc_key\<close> into both, \<open>free\<close> removes.
\<close>

section \<open>Doubly linked lists in the pool\<close>

text \<open>\<open>sel\<close> picks the two links of a header; \<open>p\<close> stands before the list and \<open>e\<close> behind it.\<close>

fun chained :: "(block_header \<Rightarrow> nat \<times> nat) \<Rightarrow> (nat \<rightharpoonup> block_header) \<Rightarrow> nat \<Rightarrow> nat list \<Rightarrow> nat \<Rightarrow> bool" where
  "chained sel H p [] e = True"
| "chained sel H p (b # bs) e = (b \<noteq> 0 \<and> (\<exists>h. H b = Some h \<and> sel h = (p, hd (bs @ [e]))) \<and> chained sel H b bs e)"

definition mem_links :: "block_header \<Rightarrow> nat \<times> nat" where
  "mem_links h = (mem_prev h, mem_next h)"

definition key_links :: "block_header \<Rightarrow> nat \<times> nat" where
  "key_links h = (key_prev h, key_next h)"

lemma chained_cong:
  "chained sel H p bs e \<Longrightarrow> (\<And>b h. b \<in> set bs \<Longrightarrow> H b = Some h \<Longrightarrow> \<exists>h'. H' b = Some h' \<and> sel h' = sel h) \<Longrightarrow> chained sel H' p bs e"
  by (induction sel H p bs e rule: chained.induct) fastforce+

lemma chained_append:
  "chained sel H p (xs @ ys) e \<longleftrightarrow> chained sel H p xs (hd (ys @ [e])) \<and> chained sel H (last (p # xs)) ys e"
proof (induction xs arbitrary: p)
  case (Cons x xs)
  have "hd (xs @ [hd (ys @ [e])]) = hd ((xs @ ys) @ [e])" by (cases xs; cases ys) auto
  then show ?case using Cons by auto
qed simp

lemma chained_nth:
  "chained sel H p (xs @ b # ys) e \<Longrightarrow> \<exists>h. H b = Some h \<and> sel h = (last (p # xs), hd (ys @ [e])) \<and> b \<noteq> 0"
  by (auto simp: chained_append)

lemma chained_header: "chained sel H p bs e \<Longrightarrow> b \<in> set bs \<Longrightarrow> b \<noteq> 0 \<and> (\<exists>h. H b = Some h)"
  by (induction bs arbitrary: p) auto

lemma chained_insert:
  assumes "chained sel H p (xs @ ys) e" and "distinct (xs @ ys)" and new: "new \<noteq> 0" "H' new = Some nh" "sel nh = (last (p # xs), hd (ys @ [e]))"
    and upd: "\<And>b h. b \<in> set (xs @ ys) \<Longrightarrow> H b = Some h \<Longrightarrow> \<exists>h'. H' b = Some h' \<and>
      sel h' = (if ys \<noteq> [] \<and> b = hd ys then new else fst (sel h), if xs \<noteq> [] \<and> b = last xs then new else snd (sel h))"
  shows "chained sel H' p (xs @ new # ys) e"
proof -
  have dj: "xs \<noteq> [] \<Longrightarrow> last xs \<notin> set ys" using assms(2) last_in_set [of xs] by (auto simp del: last_in_set simp: disjoint_iff)
  have xs: "chained sel H p xs (hd (ys @ [e]))" and ys: "chained sel H (last (p # xs)) ys e"
    using assms(1) by (simp_all add: chained_append)
  have "chained sel H' p xs new"
  proof (cases xs rule: rev_cases)
    case (snoc us x)
    obtain h where h: "H x = Some h" "sel h = (last (p # us), hd (ys @ [e]))" "x \<noteq> 0" and c: "chained sel H p us x"
      using xs snoc by (auto simp: chained_append)
    have "ys \<noteq> [] \<longrightarrow> x \<noteq> hd ys" using assms(2) snoc by (auto simp: hd_in_set)
    then have "\<exists>h'. H' x = Some h' \<and> sel h' = (last (p # us), new)" using upd [of x h] h snoc by auto
    moreover have "chained sel H' p us x"
    proof (rule chained_cong [OF c])
      fix c hc assume b: "c \<in> set us" "H c = Some hc"
      then have "c \<noteq> last xs" "ys \<noteq> [] \<longrightarrow> c \<noteq> hd ys" using assms(2) snoc by (auto simp: hd_in_set)
      then show "\<exists>h'. H' c = Some h' \<and> sel h' = sel hc" using upd [of c hc] b snoc by auto
    qed
    ultimately show ?thesis using snoc h(3) by (auto simp: chained_append)
  qed simp
  moreover have "chained sel H' new ys e"
  proof (cases ys)
    case (Cons y ys')
    obtain h where h: "H y = Some h" "sel h = (last (p # xs), hd (ys' @ [e]))" "y \<noteq> 0" and c: "chained sel H y ys' e"
      using ys Cons by auto
    have "xs \<noteq> [] \<longrightarrow> y \<noteq> last xs" using assms(2) Cons dj by auto
    then have "\<exists>h'. H' y = Some h' \<and> sel h' = (new, hd (ys' @ [e]))" using upd [of y h] h Cons by auto
    moreover have "chained sel H' y ys' e"
    proof (rule chained_cong [OF c])
      fix b hb assume b: "b \<in> set ys'" "H b = Some hb"
      then have "b \<noteq> hd ys" "xs \<noteq> [] \<longrightarrow> b \<noteq> last xs" using assms(2) Cons dj by auto
      then show "\<exists>h'. H' b = Some h' \<and> sel h' = sel hb" using upd [of b hb] b Cons by auto
    qed
    ultimately show ?thesis using Cons h(3) by auto
  qed simp
  ultimately show ?thesis using new by (auto simp: chained_append)
qed

lemma chained_remove:
  assumes "chained sel H p (xs @ b # ys) e" and "distinct (xs @ b # ys)"
    and upd: "\<And>c h. c \<in> set (xs @ ys) \<Longrightarrow> H c = Some h \<Longrightarrow> \<exists>h'. H' c = Some h' \<and>
      sel h' = (if ys \<noteq> [] \<and> c = hd ys then last (p # xs) else fst (sel h), if xs \<noteq> [] \<and> c = last xs then hd (ys @ [e]) else snd (sel h))"
  shows "chained sel H' p (xs @ ys) e"
proof -
  have dj: "xs \<noteq> [] \<Longrightarrow> last xs \<notin> set ys" using assms(2) last_in_set [of xs] by (auto simp del: last_in_set simp: disjoint_iff)
  have xs: "chained sel H p xs b" and ys: "chained sel H b ys e"
    using assms(1) by (simp_all add: chained_append)
  have "chained sel H' p xs (hd (ys @ [e]))"
  proof (cases xs rule: rev_cases)
    case (snoc us x)
    obtain h where h: "H x = Some h" "sel h = (last (p # us), b)" "x \<noteq> 0" and c: "chained sel H p us x"
      using xs snoc by (auto simp: chained_append)
    have "ys \<noteq> [] \<longrightarrow> x \<noteq> hd ys" using assms(2) snoc by (auto simp: hd_in_set)
    then have "\<exists>h'. H' x = Some h' \<and> sel h' = (last (p # us), hd (ys @ [e]))" using upd [of x h] h snoc by auto
    moreover have "chained sel H' p us x"
    proof (rule chained_cong [OF c])
      fix c hc assume b: "c \<in> set us" "H c = Some hc"
      then have "c \<noteq> last xs" "ys \<noteq> [] \<longrightarrow> c \<noteq> hd ys" using assms(2) snoc by (auto simp: hd_in_set)
      then show "\<exists>h'. H' c = Some h' \<and> sel h' = sel hc" using upd [of c hc] b snoc by auto
    qed
    ultimately show ?thesis using snoc h(3) by (auto simp: chained_append)
  qed simp
  moreover have "chained sel H' (last (p # xs)) ys e"
  proof (cases ys)
    case (Cons y ys')
    obtain h where h: "H y = Some h" "sel h = (b, hd (ys' @ [e]))" "y \<noteq> 0" and c: "chained sel H y ys' e"
      using ys Cons by auto
    have "xs \<noteq> [] \<longrightarrow> y \<noteq> last xs" using assms(2) Cons dj by auto
    then have "\<exists>h'. H' y = Some h' \<and> sel h' = (last (p # xs), hd (ys' @ [e]))" using upd [of y h] h Cons by auto
    moreover have "chained sel H' y ys' e"
    proof (rule chained_cong [OF c])
      fix c hc assume b: "c \<in> set ys'" "H c = Some hc"
      then have "c \<noteq> hd ys" "xs \<noteq> [] \<longrightarrow> c \<noteq> last xs" using assms(2) Cons dj by auto
      then show "\<exists>h'. H' c = Some h' \<and> sel h' = sel hc" using upd [of c hc] b Cons by auto
    qed
    ultimately show ?thesis using Cons h(3) by auto
  qed simp
  ultimately show ?thesis by (simp add: chained_append)
qed

section \<open>Blocks that do not overlap\<close>

definition blk_size :: "(nat \<rightharpoonup> block_header) \<Rightarrow> nat \<Rightarrow> nat" where
  "blk_size H b = datasize (the (H b))"

text \<open>The first offset behind a list of blocks that starts at \<open>lo\<close> or later.\<close>

fun behind :: "(nat \<rightharpoonup> block_header) \<Rightarrow> nat \<Rightarrow> nat list \<Rightarrow> nat" where
  "behind H lo [] = lo"
| "behind H lo (b # bs) = behind H (b + hdr_size + blk_size H b) bs"

fun spaced :: "(nat \<rightharpoonup> block_header) \<Rightarrow> nat \<Rightarrow> nat list \<Rightarrow> nat \<Rightarrow> bool" where
  "spaced H lo [] e = (lo \<le> e)"
| "spaced H lo (b # bs) e = (lo \<le> b \<and> spaced H (b + hdr_size + blk_size H b) bs e)"

lemma spaced_append:
  "spaced H lo (xs @ ys) e \<longleftrightarrow> spaced H lo xs (behind H lo xs) \<and> spaced H (behind H lo xs) ys e"
  by (induction xs arbitrary: lo) auto

lemma spaced_le: "spaced H lo bs e \<Longrightarrow> lo \<le> e"
  by (induction bs arbitrary: lo) fastforce+

lemma spaced_lower: "spaced H lo bs e \<Longrightarrow> lo' \<le> lo \<Longrightarrow> spaced H lo' bs e"
  by (cases bs) auto

lemma spaced_cong: "(\<And>b. b \<in> set bs \<Longrightarrow> blk_size H' b = blk_size H b) \<Longrightarrow> spaced H' lo bs e = spaced H lo bs e"
  by (induction bs arbitrary: lo) auto

lemma behind_cong: "(\<And>b. b \<in> set bs \<Longrightarrow> blk_size H' b = blk_size H b) \<Longrightarrow> behind H' lo bs = behind H lo bs"
  by (induction bs arbitrary: lo) auto

lemma behind_last: "xs \<noteq> [] \<Longrightarrow> behind H lo xs = last xs + hdr_size + blk_size H (last xs)"
  by (induction xs arbitrary: lo) auto

lemma behind_snoc [simp]: "behind H lo (xs @ [b]) = b + hdr_size + blk_size H b"
  by (induction xs arbitrary: lo) auto

lemma spaced_ge: "spaced H lo bs e \<Longrightarrow> b \<in> set bs \<Longrightarrow> lo \<le> b \<and> b + hdr_size + blk_size H b \<le> e"
proof (induction bs arbitrary: lo)
  case (Cons c bs)
  then have c: "spaced H (c + hdr_size + blk_size H c) bs e" "lo \<le> c" by simp_all
  show ?case using Cons.IH [OF c(1)] spaced_le [OF c(1)] Cons.prems(2) c(2) by auto
qed simp

lemma spaced_distinct: "spaced H lo bs e \<Longrightarrow> distinct bs"
proof (induction bs arbitrary: lo)
  case (Cons b bs)
  then have "spaced H (b + hdr_size + blk_size H b) bs e" by simp
  then show ?case using Cons.IH spaced_ge [of H "b + hdr_size + blk_size H b" bs e b] by auto
qed simp

text \<open>Two blocks of a spaced list do not share a byte.\<close>

lemma spaced_disjoint:
  "spaced H lo bs e \<Longrightarrow> a \<in> set bs \<Longrightarrow> b \<in> set bs \<Longrightarrow> a \<noteq> b \<Longrightarrow>
   a + hdr_size + blk_size H a \<le> b \<or> b + hdr_size + blk_size H b \<le> a"
proof (induction bs arbitrary: lo)
  case (Cons c bs)
  then have c: "spaced H (c + hdr_size + blk_size H c) bs e" by simp
  show ?case using Cons spaced_ge [OF c] by auto
qed simp

section \<open>The invariant of the pool\<close>

definition mem_ok :: "pool \<Rightarrow> nat list \<Rightarrow> bool" where
  "mem_ok p bs = (chained mem_links (headers p) 0 bs (mem_end p) \<and> spaced (headers p) (mem_start p) bs (mem_end p) \<and>
     blocks_head p = hd (bs @ [mem_end p]) \<and> blocks_tail p = last (0 # bs) \<and> 0 < mem_start p \<and> mem_end p < 2 ^ 31)"

definition key_ok :: "pool \<Rightarrow> nat list \<Rightarrow> bool" where
  "key_ok p ks = (chained key_links (headers p) 0 ks 0 \<and> distinct ks \<and> keys_head p = hd (ks @ [0]) \<and> keys_tail p = last (0 # ks) \<and>
     sorted (map (\<lambda>b. blk_key (the (headers p b))) ks))"

text \<open>Exactly the blocks with a key are in the key chain; the others have no key links.\<close>

definition pool_ok :: "pool \<Rightarrow> nat list \<Rightarrow> nat list \<Rightarrow> bool" where
  "pool_ok p bs ks = (mem_ok p bs \<and> key_ok p ks \<and> set ks \<subseteq> set bs \<and>
     (\<forall>b \<in> set bs. (blk_key (the (headers p b)) \<noteq> 0) = (b \<in> set ks) \<and> (b \<notin> set ks \<longrightarrow> key_links (the (headers p b)) = (0, 0))))"

lemma mem_ok_header:
  "mem_ok p bs \<Longrightarrow> b \<in> set bs \<Longrightarrow> \<exists>h. header_at p b = Some h \<and> headers p b = Some h \<and> b \<noteq> 0"
  using chained_header [of mem_links "headers p" 0 bs "mem_end p" b] by (auto simp: mem_ok_def header_at_def)

lemma mem_ok_distinct: "mem_ok p bs \<Longrightarrow> distinct bs"
  unfolding mem_ok_def using spaced_distinct by blast

lemma mem_ok_split:
  assumes "mem_ok p (xs @ b # ys)"
  obtains h where "header_at p b = Some h" "headers p b = Some h" "mem_prev h = last (0 # xs)" "mem_next h = hd (ys @ [mem_end p])" "b \<noteq> 0"
  using chained_nth [of mem_links "headers p" 0 xs b ys "mem_end p"] assms by (auto simp: mem_ok_def header_at_def mem_links_def)

lemma pool_reset_ok: "memsize + 72 < 2 ^ 31 \<Longrightarrow> pool_ok (pool_reset memsize) [] []"
  by (simp add: pool_ok_def mem_ok_def key_ok_def pool_reset_def)

section \<open>Finding a place\<close>

lemma malloc_walk_in:
  assumes "mem_ok p bs"
  shows "malloc_walk p sz (hd zs) = Some cur \<Longrightarrow> bs = us @ zs \<Longrightarrow> zs \<noteq> [] \<Longrightarrow> cur \<in> set zs"
proof (induction zs arbitrary: us)
  case (Cons z zs)
  obtain h where h: "header_at p z = Some h" "mem_next h = hd (zs @ [mem_end p])"
    using assms Cons.prems(2) mem_ok_split [of p us z zs] by auto
  show ?case
  proof (cases "z = blocks_tail p \<or> \<not> mem_next h < z + 2 * hdr_size + datasize h + sz")
    case True
    then show ?thesis using Cons.prems(1) h by (subst (asm) malloc_walk.simps) (auto split: if_splits)
  next
    case False
    have zs: "zs \<noteq> []"
    proof
      assume "zs = []"
      then have "blocks_tail p = z" using assms Cons.prems(2) by (simp add: mem_ok_def)
      then show False using False by simp
    qed
    then have "malloc_walk p sz (hd zs) = Some cur"
      using Cons.prems(1) h False by (subst (asm) malloc_walk.simps) (auto split: if_splits)
    then show ?thesis using Cons.IH [of "us @ [z]"] zs Cons.prems(2) by auto
  qed
qed simp

lemma malloc_place_sound:
  assumes "mem_ok p bs" and "malloc_place p sz = Some (new, cur)" and "new \<noteq> 0"
  shows "\<exists>xs ys. bs = xs @ ys \<and> cur = last (0 # xs) \<and> new = behind (headers p) (mem_start p) xs \<and>
    new + hdr_size + sz \<le> hd (ys @ [mem_end p])"
proof (cases "mem_start p + hdr_size + sz \<le> blocks_head p")
  case True
  then show ?thesis
    using assms by (intro exI [of _ "[]"] exI [of _ bs]) (auto simp: malloc_place_def mem_ok_def)
next
  case False
  obtain t where t: "header_at p (blocks_tail p) = Some t"
    using assms(2) False by (auto simp: malloc_place_def split: bind_splits)
  have ne: "bs \<noteq> []" using t assms(1) by (auto simp: mem_ok_def header_at_def)
  have tail: "blocks_tail p = last bs" using assms(1) ne by (simp add: mem_ok_def)
  show ?thesis
  proof (cases "blocks_tail p + 2 * hdr_size + datasize t + sz \<le> mem_end p - hdr_size")
    case True
    have "datasize t = blk_size (headers p) (last bs)" using t tail by (auto simp: blk_size_def header_at_def split: if_splits)
    then show ?thesis
      using assms(2) False t True tail ne behind_last [OF ne, of "headers p" "mem_start p"]
      by (intro exI [of _ bs] exI [of _ "[]"]) (auto simp: malloc_place_def)
  next
    case far: False
    obtain c h where c: "malloc_walk p sz (blocks_head p) = Some c" "header_at p c = Some h"
      using assms(2) False t far by (auto simp: malloc_place_def split: bind_splits)
    have r: "cur = c" "new = c + hdr_size + datasize h" "c + 2 * hdr_size + datasize h + sz \<le> mem_next h"
      using assms(2,3) False t far c by (auto simp: malloc_place_def split: if_splits)
    have "blocks_head p = hd bs" using assms(1) ne by (simp add: mem_ok_def)
    then have "c \<in> set bs" using malloc_walk_in [OF assms(1), of sz bs c "[]"] c(1) ne by simp
    then obtain us ys where bs: "bs = us @ c # ys" by (meson split_list)
    obtain h' where h': "header_at p c = Some h'" "headers p c = Some h'" "mem_next h' = hd (ys @ [mem_end p])"
      using mem_ok_split [of p us c ys] assms(1) bs by auto
    then have "h' = h" using c(2) by simp
    then show ?thesis
      using r h' bs by (intro exI [of _ "us @ [c]"] exI [of _ ys]) (auto simp: blk_size_def)
  qed
qed

section \<open>Linking a block\<close>

text \<open>What an operation on the chain by address leaves of the other fields.\<close>

definition kept :: "pool \<Rightarrow> pool \<Rightarrow> nat list \<Rightarrow> bool" where
  "kept p p' bs = ((\<forall>b \<in> set bs. \<exists>h h'. headers p b = Some h \<and> headers p' b = Some h' \<and>
       key_links h' = key_links h \<and> blk_key h' = blk_key h \<and> datasize h' = datasize h) \<and>
     keys_head p' = keys_head p \<and> keys_tail p' = keys_tail p \<and> mem_start p' = mem_start p \<and> mem_end p' = mem_end p \<and>
     pool_sem p' = pool_sem p)"

lemma set_header_some: "header_at p b = Some h \<Longrightarrow> set_header b f p = Some (p\<lparr>headers := (headers p)(b \<mapsto> f h)\<rparr>)"
  by (simp add: set_header_def)

lemma int_tmp_small: "n < 2 ^ 31 \<Longrightarrow> int_tmp n = n"
  by (simp add: int_tmp_def)

lemma kept_size: "kept p p' bs \<Longrightarrow> b \<in> set bs \<Longrightarrow> blk_size (headers p') b = blk_size (headers p) b"
  by (fastforce simp: kept_def blk_size_def)

text \<open>The headers after linking, as one function of those before.\<close>

definition linked_headers :: "(nat \<rightharpoonup> block_header) \<Rightarrow> nat list \<Rightarrow> nat list \<Rightarrow> nat \<Rightarrow> nat \<rightharpoonup> block_header" where
  "linked_headers H xs ys new b =
     (case H b of None \<Rightarrow> None
      | Some h \<Rightarrow> Some (h\<lparr>mem_prev := (if ys \<noteq> [] \<and> b = hd ys then new else mem_prev h),
                         mem_next := (if xs \<noteq> [] \<and> b = last xs then new else mem_next h)\<rparr>))"

lemma link_block_result:
  assumes ok: "mem_ok p (xs @ ys)" and cur: "cur = last (0 # xs)" and new: "new \<noteq> 0"
  shows "link_block p new cur sz = Some (p\<lparr>
    headers := (linked_headers (headers p) xs ys new)(new \<mapsto>
      \<lparr>mem_prev = cur, mem_next = hd (ys @ [mem_end p]), key_prev = 0, key_next = 0, blk_key = 0, datasize = sz\<rparr>),
    blocks_head := (if xs = [] then new else blocks_head p), blocks_tail := (if ys = [] then new else blocks_tail p)\<rparr>)"
proof -
  let ?H = "headers p"
  have d: "distinct (xs @ ys)" by (rule mem_ok_distinct [OF ok])
  have small: "hd (ys @ [mem_end p]) < 2 ^ 31"
  proof (cases ys)
    case (Cons y ys')
    then have "y + hdr_size + blk_size ?H y \<le> mem_end p"
      using ok spaced_ge [of ?H "mem_start p" "xs @ ys" "mem_end p" y] by (auto simp: mem_ok_def)
    then show ?thesis using ok Cons by (simp add: mem_ok_def)
  qed (use ok in \<open>simp add: mem_ok_def\<close>)
  define H1 where "H1 = (if xs = [] then ?H else ?H(last xs \<mapsto> (the (?H (last xs)))\<lparr>mem_next := new\<rparr>))"
  define p1 where "p1 = p\<lparr>headers := H1, blocks_head := (if xs = [] then new else blocks_head p)\<rparr>"
  have first: "(if cur = 0 then Some (blocks_head p, p\<lparr>blocks_head := new\<rparr>)
      else do { h \<leftarrow> header_at p cur; p1 \<leftarrow> set_header cur (mem_next_update (\<lambda>_. new)) p; Some (int_tmp (mem_next h), p1) })
    = Some (hd (ys @ [mem_end p]), p1)"
  proof (cases xs rule: rev_cases)
    case Nil
    then show ?thesis using cur ok by (simp add: p1_def H1_def mem_ok_def)
  next
    case (snoc us x)
    obtain h where h: "header_at p x = Some h" "headers p x = Some h" "mem_next h = hd (ys @ [mem_end p])" "x \<noteq> 0"
      using mem_ok_split [of p us x ys] ok snoc by auto
    then show ?thesis
      using cur snoc small by (simp add: p1_def H1_def set_header_some int_tmp_small)
  qed
  have second: "(if hd (ys @ [mem_end p]) \<noteq> mem_end p1 then set_header (hd (ys @ [mem_end p])) (mem_prev_update (\<lambda>_. new)) p1
      else Some (p1\<lparr>blocks_tail := new\<rparr>))
    = Some (p1\<lparr>headers := linked_headers ?H xs ys new, blocks_tail := (if ys = [] then new else blocks_tail p)\<rparr>)"
  proof (cases ys)
    case Nil
    have "H1 = linked_headers ?H xs [] new"
      using mem_ok_header [OF ok, of "last xs"] by (cases "xs = []") (auto simp: H1_def linked_headers_def split: option.splits)
    then show ?thesis using Nil by (simp add: p1_def)
  next
    case (Cons y ys')
    obtain h where h: "headers p y = Some h" "y \<noteq> 0" using mem_ok_header [OF ok, of y] Cons by auto
    have ne: "y \<noteq> mem_end p"
      using ok spaced_ge [of ?H "mem_start p" "xs @ ys" "mem_end p" y] Cons by (auto simp: mem_ok_def)
    have yx: "xs \<noteq> [] \<Longrightarrow> y \<noteq> last xs" using d Cons last_in_set [of xs] by auto
    then have "header_at p1 y = Some h" using h by (simp add: header_at_def p1_def H1_def)
    moreover have "H1(y \<mapsto> h\<lparr>mem_prev := new\<rparr>) = linked_headers ?H xs ys new"
      using h yx Cons mem_ok_header [OF ok, of "last xs"]
      by (cases "xs = []") (auto simp: H1_def linked_headers_def split: option.splits)
    ultimately show ?thesis using Cons ne by (simp add: set_header_some p1_def)
  qed
  show ?thesis
    unfolding link_block_def first Option.bind.simps prod.case second
    by (rule arg_cong [of _ _ Some]) (rule pool.equality; simp add: p1_def)
qed

lemma linked_spaced:
  assumes ok: "mem_ok p (xs @ ys)" and H': "\<And>b. b \<in> set (xs @ ys) \<Longrightarrow> blk_size H' b = blk_size (headers p) b"
    and new: "blk_size H' new = sz" "new = behind (headers p) (mem_start p) xs" "new + hdr_size + sz \<le> hd (ys @ [mem_end p])"
  shows "spaced H' (mem_start p) (xs @ new # ys) (mem_end p)"
proof -
  have s: "spaced (headers p) (mem_start p) xs new" "spaced (headers p) new ys (mem_end p)"
    using ok new(2) by (auto simp: mem_ok_def spaced_append)
  have "spaced (headers p) (new + hdr_size + sz) ys (mem_end p)" using s(2) new(3) by (cases ys) auto
  then show ?thesis
    using s(1) H' new spaced_cong [of xs H' "headers p" "mem_start p" new] spaced_cong [of ys H' "headers p" "new + hdr_size + sz" "mem_end p"]
      behind_cong [of xs H' "headers p" "mem_start p"]
    by (simp add: spaced_append)
qed

lemma link_block_ok:
  assumes ok: "mem_ok p (xs @ ys)" and cur: "cur = last (0 # xs)"
    and new: "new = behind (headers p) (mem_start p) xs" "new + hdr_size + sz \<le> hd (ys @ [mem_end p])"
  shows "\<exists>p'. link_block p new cur sz = Some p' \<and> mem_ok p' (xs @ new # ys) \<and> kept p p' (xs @ ys) \<and> new \<notin> set (xs @ ys) \<and> new \<noteq> 0 \<and>
    (\<exists>h. headers p' new = Some h \<and> key_links h = (0, 0) \<and> blk_key h = 0 \<and> datasize h = sz)"
proof -
  let ?H = "headers p"
  have n0: "new \<noteq> 0"
    using new(1) ok behind_last [of xs ?H "mem_start p"] by (cases "xs = []") (auto simp: mem_ok_def)
  let ?hn = "\<lparr>mem_prev = cur, mem_next = hd (ys @ [mem_end p]), key_prev = 0, key_next = 0, blk_key = 0, datasize = sz\<rparr>"
  let ?H' = "(linked_headers ?H xs ys new)(new \<mapsto> ?hn)"
  let ?p = "p\<lparr>headers := ?H', blocks_head := (if xs = [] then new else blocks_head p), blocks_tail := (if ys = [] then new else blocks_tail p)\<rparr>"
  have res: "link_block p new cur sz = Some ?p" by (rule link_block_result [OF ok cur n0])
  have fresh: "new \<notin> set (xs @ ys)"
  proof
    assume "new \<in> set (xs @ ys)"
    moreover have "b + hdr_size + blk_size ?H b \<le> new" if "b \<in> set xs" for b
      using ok spaced_ge [of ?H "mem_start p" xs new b] that new(1) by (auto simp: mem_ok_def spaced_append)
    moreover have "new + hdr_size + sz \<le> b" if "b \<in> set ys" for b
    proof -
      have "spaced ?H (new + hdr_size + sz) ys (mem_end p)" using ok new by (cases ys) (auto simp: mem_ok_def spaced_append)
      then show ?thesis using spaced_ge that by blast
    qed
    ultimately show False by fastforce
  qed
  define H' where "H' = ?H'"
  have old: "\<exists>h'. H' b = Some h' \<and> key_links h' = key_links h \<and> blk_key h' = blk_key h \<and> datasize h' = datasize h \<and>
      mem_links h' = (if ys \<noteq> [] \<and> b = hd ys then new else fst (mem_links h), if xs \<noteq> [] \<and> b = last xs then new else snd (mem_links h))"
    if b: "b \<in> set (xs @ ys)" "?H b = Some h" for b h
  proof -
    have "b \<noteq> new" using b fresh by auto
    then show ?thesis using b(2) by (simp add: H'_def linked_headers_def key_links_def mem_links_def)
  qed
  have some: "\<exists>h. ?H b = Some h" if b: "b \<in> set (xs @ ys)" for b
    using mem_ok_header [OF ok b] by blast
  have size: "blk_size H' b = blk_size ?H b" if b: "b \<in> set (xs @ ys)" for b
  proof -
    obtain h where h: "?H b = Some h" using some [OF b] by blast
    obtain h' where "H' b = Some h'" "datasize h' = datasize h" using old [OF b h] by blast
    then show ?thesis using h by (simp add: blk_size_def)
  qed
  have hn: "H' new = Some ?hn" by (simp add: H'_def)
  have "chained mem_links H' 0 (xs @ new # ys) (mem_end p)"
  proof (rule chained_insert [where H = ?H and nh = ?hn])
    show "chained mem_links ?H 0 (xs @ ys) (mem_end p)" using ok by (simp add: mem_ok_def)
    show "distinct (xs @ ys)" by (rule mem_ok_distinct [OF ok])
    show "new \<noteq> 0" by (rule n0)
    show "H' new = Some ?hn" by (rule hn)
    show "mem_links ?hn = (last (0 # xs), hd (ys @ [mem_end p]))" using cur by (simp add: mem_links_def)
  next
    fix b h assume "b \<in> set (xs @ ys)" "?H b = Some h"
    then show "\<exists>h'. H' b = Some h' \<and> mem_links h' =
        (if ys \<noteq> [] \<and> b = hd ys then new else fst (mem_links h), if xs \<noteq> [] \<and> b = last xs then new else snd (mem_links h))"
      using old [of b h] by blast
  qed
  moreover have "spaced H' (mem_start p) (xs @ new # ys) (mem_end p)"
    by (rule linked_spaced [OF ok size _ new]) (simp_all add: blk_size_def hn)
  moreover have "(if xs = [] then new else blocks_head p) = hd ((xs @ new # ys) @ [mem_end p])"
    "(if ys = [] then new else blocks_tail p) = last (0 # xs @ new # ys)" "0 < mem_start p" "mem_end p < 2 ^ 31"
    using ok by (auto simp: mem_ok_def)
  ultimately have "mem_ok ?p (xs @ new # ys)" unfolding mem_ok_def H'_def by simp
  moreover have "kept p ?p (xs @ ys)"
    unfolding kept_def using some old by (simp add: H'_def [symmetric]) blast
  ultimately show ?thesis
    using res fresh n0 by (intro exI [of _ ?p]) (simp add: key_links_def)
qed

end
