(* ===== verification/Shm_Facts.thy ===== *)
theory Shm_Facts
  imports Shm_Chain
begin

text \<open>
  What the allocator promises: blocks that do not overlap, first fit, \<open>free\<close> as the inverse of
  \<open>malloc\<close>, and the pools for which it fails.
\<close>

section \<open>malloc keeps the invariant\<close>

lemma kept_keys:
  assumes "key_ok p ks" and "kept p p' bs" and "set ks \<subseteq> set bs"
  shows "key_ok p' ks"
proof -
  have k: "\<exists>h h'. headers p b = Some h \<and> headers p' b = Some h' \<and> key_links h' = key_links h \<and> blk_key h' = blk_key h"
    if "b \<in> set ks" for b
    using assms(2,3) that by (fastforce simp: kept_def)
  have "chained key_links (headers p') 0 ks 0"
    by (rule chained_cong [of _ "headers p"]) (use assms(1) k in \<open>fastforce simp: key_ok_def\<close>)+
  moreover have e: "map (\<lambda>b. blk_key (the (headers p' b))) ks = map (\<lambda>b. blk_key (the (headers p b))) ks"
    using k by fastforce
  have "sorted (map (\<lambda>b. blk_key (the (headers p' b))) ks)"
    unfolding e using assms(1) by (simp add: key_ok_def)
  ultimately show ?thesis using assms(1,2) by (simp add: key_ok_def kept_def)
qed

lemma pool_ok_insert:
  assumes ok: "pool_ok p (xs @ ys) ks" and m: "mem_ok p' (xs @ new # ys)" and k: "kept p p' (xs @ ys)"
    and new: "new \<notin> set (xs @ ys)" "headers p' new = Some h" "key_links h = (0, 0)" "blk_key h = 0"
  shows "pool_ok p' (xs @ new # ys) ks"
proof -
  have sub: "set ks \<subseteq> set (xs @ ys)" using ok by (simp add: pool_ok_def)
  have "key_ok p' ks" by (rule kept_keys [OF _ k sub]) (use ok in \<open>simp add: pool_ok_def\<close>)
  moreover have "(blk_key (the (headers p' b)) \<noteq> 0) = (b \<in> set ks) \<and> (b \<notin> set ks \<longrightarrow> key_links (the (headers p' b)) = (0, 0))"
    if b: "b \<in> set (xs @ new # ys)" for b
  proof (cases "b = new")
    case True
    then show ?thesis using new sub by auto
  next
    case False
    then have b': "b \<in> set (xs @ ys)" using b by auto
    obtain h h' where "headers p b = Some h" "headers p' b = Some h'" "key_links h' = key_links h" "blk_key h' = blk_key h"
      using k b' unfolding kept_def by blast
    moreover have "(blk_key (the (headers p b)) \<noteq> 0) = (b \<in> set ks) \<and> (b \<notin> set ks \<longrightarrow> key_links (the (headers p b)) = (0, 0))"
      using ok b' unfolding pool_ok_def by blast
    ultimately show ?thesis by simp
  qed
  ultimately show ?thesis using m sub unfolding pool_ok_def by auto
qed

lemma shm_malloc_block:
  assumes ok: "pool_ok p bs ks" and r: "shm_malloc sz p = Some (Block new, p')"
  shows "\<exists>xs ys h. bs = xs @ ys \<and> pool_ok p' (xs @ new # ys) ks \<and> kept p p' bs \<and> new \<notin> set bs \<and>
    headers p' new = Some h \<and> datasize h = sz \<and> pool_sem p' = pool_sem p"
proof -
  have sem: "0 < pool_sem p" using r by (auto simp: shm_malloc_def wait_value_def split: if_splits bind_splits)
  obtain cur p1 where c: "malloc_place p sz = Some (new, cur)" "new \<noteq> 0" "link_block p new cur sz = Some p1"
    "p' = p1\<lparr>pool_sem := pool_sem p\<rparr>"
    using r sem by (auto simp: shm_malloc_def wait_value_def split: if_splits bind_splits)
  have m: "mem_ok p bs" using ok by (simp add: pool_ok_def)
  obtain xs ys where xy: "bs = xs @ ys" "cur = last (0 # xs)" "new = behind (headers p) (mem_start p) xs"
    "new + hdr_size + sz \<le> hd (ys @ [mem_end p])"
    using malloc_place_sound [OF m c(1,2)] by blast
  obtain p2 h where l: "link_block p new cur sz = Some p2" "mem_ok p2 (xs @ new # ys)" "kept p p2 (xs @ ys)" "new \<notin> set (xs @ ys)"
    "headers p2 new = Some h" "key_links h = (0, 0)" "blk_key h = 0" "datasize h = sz"
    using link_block_ok [OF _ xy(2-4)] m xy(1) by blast
  then have p1: "p1 = p2" using c(3) by simp
  have "p' = p1" using c(4) l(3) p1 by (simp add: kept_def)
  have "pool_ok p1 (xs @ new # ys) ks"
    by (rule pool_ok_insert [OF _ _ _ _ l(5-7) [folded p1]]) (use ok xy l p1 in simp_all)
  then show ?thesis using l p1 \<open>p' = p1\<close> xy(1) by (auto simp: kept_def)
qed

text \<open>
  A new block does not touch the others. When \<open>malloc\<close> returns a block from a pool in order, the
  block with its header lies inside the pool's memory and shares no byte with any block that is
  in use; all blocks in use keep their sizes and keys, and the pool is in order with the new block.
\<close>

theorem malloc_block_disjoint:
  assumes "pool_ok p bs ks" and "shm_malloc sz p = Some (Block new, p')"
  shows "(\<exists>bs'. pool_ok p' bs' ks \<and> set bs' = insert new (set bs)) \<and>
    mem_start p \<le> new \<and> new + 48 + sz \<le> mem_end p \<and>
    (\<forall>b \<in> set bs. (b + 48 + blk_size (headers p) b \<le> new \<or> new + 48 + sz \<le> b) \<and>
       blk_size (headers p') b = blk_size (headers p) b \<and>
       blk_key (the (headers p' b)) = blk_key (the (headers p b)))"
proof -
  obtain xs ys h where r: "bs = xs @ ys" "pool_ok p' (xs @ new # ys) ks" "kept p p' bs" "new \<notin> set bs"
    "headers p' new = Some h" "datasize h = sz"
    using shm_malloc_block [OF assms] by blast
  have sp: "spaced (headers p') (mem_start p) (xs @ new # ys) (mem_end p)"
    using r(2,3) by (simp add: pool_ok_def mem_ok_def kept_def)
  have n: "blk_size (headers p') new = sz" using r(5,6) by (simp add: blk_size_def)
  have "mem_start p \<le> new" "new + 48 + sz \<le> mem_end p"
    using spaced_ge [OF sp, of new] n by simp_all
  moreover have "(b + 48 + blk_size (headers p) b \<le> new \<or> new + 48 + sz \<le> b) \<and> blk_size (headers p') b = blk_size (headers p) b \<and>
      blk_key (the (headers p' b)) = blk_key (the (headers p b))" if b: "b \<in> set bs" for b
  proof -
    have "blk_size (headers p') b = blk_size (headers p) b" by (rule kept_size [OF r(3) b])
    moreover have "blk_key (the (headers p' b)) = blk_key (the (headers p b))" using r(3) b by (fastforce simp: kept_def)
    moreover have "b \<noteq> new" using b r(4) by auto
    ultimately show ?thesis using spaced_disjoint [OF sp, of b new] b r(1) n by auto
  qed
  ultimately show ?thesis using r(1,2) by (intro conjI exI [of _ "xs @ new # ys"]) auto
qed

section \<open>malloc finds room\<close>

text \<open>
  A block of \<open>sz\<close> bytes fits: before the first block, behind the last one with the length of a header
  to spare, or between two neighbours.
\<close>

definition has_room :: "pool \<Rightarrow> nat list \<Rightarrow> nat \<Rightarrow> bool" where
  "has_room p bs sz =
     (mem_start p + hdr_size + sz \<le> hd (bs @ [mem_end p]) \<or>
      last bs + 3 * hdr_size + blk_size (headers p) (last bs) + sz \<le> mem_end p \<or>
      (\<exists>us b c vs. bs = us @ b # c # vs \<and> b + 2 * hdr_size + blk_size (headers p) b + sz \<le> c))"

lemma malloc_walk_finds:
  assumes m: "mem_ok p bs"
  shows "bs = us @ zs \<Longrightarrow> zs \<noteq> [] \<Longrightarrow> \<exists>cur. malloc_walk p sz (hd zs) = Some cur \<and> cur \<in> set zs \<and>
    ((\<exists>vs b c ws. zs = vs @ b # c # ws \<and> b + 2 * hdr_size + blk_size (headers p) b + sz \<le> c) \<longrightarrow>
     (\<exists>vs c ws. zs = vs @ cur # c # ws \<and> cur + 2 * hdr_size + blk_size (headers p) cur + sz \<le> c))"
proof (induction zs arbitrary: us)
  case (Cons z zs)
  obtain h where h: "header_at p z = Some h" "headers p z = Some h" "mem_next h = hd (zs @ [mem_end p])"
    using mem_ok_split [of p us z zs] m Cons.prems(1) by auto
  have ds: "datasize h = blk_size (headers p) z" using h by (simp add: blk_size_def)
  show ?case
  proof (cases zs)
    case Nil
    then have "z = blocks_tail p" using m Cons.prems(1) by (simp add: mem_ok_def)
    then show ?thesis using Nil by (subst malloc_walk.simps) (auto simp: Cons_eq_append_conv)
  next
    case (Cons c ws)
    have d: "distinct bs" by (rule mem_ok_distinct [OF m])
    have "blocks_tail p = last zs" using m Cons.prems(1) Cons by (simp add: mem_ok_def)
    then have nt: "z \<noteq> blocks_tail p" using d Cons.prems(1) Cons by auto
    show ?thesis
    proof (cases "c < z + 2 * hdr_size + datasize h + sz")
      case True
      then have step: "malloc_walk p sz z = malloc_walk p sz (hd zs)"
        using nt h Cons by (subst malloc_walk.simps) simp
      obtain cur where cur: "malloc_walk p sz (hd zs) = Some cur" "cur \<in> set zs"
        "(\<exists>vs b c ws. zs = vs @ b # c # ws \<and> b + 2 * hdr_size + blk_size (headers p) b + sz \<le> c) \<longrightarrow>
         (\<exists>vs c ws. zs = vs @ cur # c # ws \<and> cur + 2 * hdr_size + blk_size (headers p) cur + sz \<le> c)"
        using Cons.IH [of "us @ [z]"] Cons.prems(1) Cons by auto
      have "\<exists>vs c ws. z # zs = vs @ cur # c # ws \<and> cur + 2 * hdr_size + blk_size (headers p) cur + sz \<le> c"
        if g: "z # zs = vs @ b # c' # ws'" "b + 2 * hdr_size + blk_size (headers p) b + sz \<le> c'" for vs b c' ws'
      proof -
        have "vs \<noteq> []" using g True ds Cons by auto
        then have "zs = tl vs @ b # c' # ws'" using g(1) by (cases vs) auto
        then obtain vs2 c2 ws2 where "zs = vs2 @ cur # c2 # ws2" "cur + 2 * hdr_size + blk_size (headers p) cur + sz \<le> c2"
          using cur(3) g(2) by blast
        then show ?thesis by (intro exI [of _ "z # vs2"]) auto
      qed
      then show ?thesis using cur step by auto
    next
      case False
      then have "malloc_walk p sz z = Some z" using nt h Cons by (subst malloc_walk.simps) simp
      moreover have "\<exists>vs c ws. z # zs = vs @ z # c # ws \<and> z + 2 * hdr_size + blk_size (headers p) z + sz \<le> c"
        using False ds Cons by (intro exI [of _ "[]"]) auto
      ultimately show ?thesis by auto
    qed
  qed
qed simp

lemma malloc_place_complete:
  assumes m: "mem_ok p bs" and ne: "bs \<noteq> []"
  shows "\<exists>new cur. malloc_place p sz = Some (new, cur) \<and> (new \<noteq> 0 \<longleftrightarrow> has_room p bs sz)"
proof (cases "mem_start p + hdr_size + sz \<le> blocks_head p")
  case True
  then show ?thesis using m by (auto simp: malloc_place_def has_room_def mem_ok_def)
next
  case front: False
  have tail: "blocks_tail p = last bs" "blocks_head p = hd bs" using m ne by (simp_all add: mem_ok_def)
  obtain t where t: "header_at p (last bs) = Some t" "headers p (last bs) = Some t" "last bs \<noteq> 0"
    using mem_ok_header [OF m, of "last bs"] ne by auto
  have ts: "datasize t = blk_size (headers p) (last bs)" using t by (simp add: blk_size_def)
  have end48: "hdr_size \<le> mem_end p" using m ne spaced_ge [of "headers p" "mem_start p" bs "mem_end p" "last bs"] by (auto simp: mem_ok_def)
  show ?thesis
  proof (cases "last bs + 2 * hdr_size + datasize t + sz \<le> mem_end p - hdr_size")
    case True
    then show ?thesis using front tail t ts end48 by (auto simp: malloc_place_def has_room_def)
  next
    case rear: False
    obtain cur where cur: "malloc_walk p sz (hd bs) = Some cur" "cur \<in> set bs"
      "(\<exists>vs b c ws. bs = vs @ b # c # ws \<and> b + 2 * hdr_size + blk_size (headers p) b + sz \<le> c) \<longrightarrow>
       (\<exists>vs c ws. bs = vs @ cur # c # ws \<and> cur + 2 * hdr_size + blk_size (headers p) cur + sz \<le> c)"
      using malloc_walk_finds [OF m, of "[]" bs sz] ne by auto
    obtain us ws where bs: "bs = us @ cur # ws" using cur(2) by (meson split_list)
    obtain h where h: "header_at p cur = Some h" "headers p cur = Some h" "mem_next h = hd (ws @ [mem_end p])" "cur \<noteq> 0"
      using mem_ok_split [of p us cur ws] m bs by auto
    have hs: "datasize h = blk_size (headers p) cur" using h by (simp add: blk_size_def)
    let ?gap = "cur + 2 * hdr_size + datasize h + sz \<le> mem_end p - hdr_size \<and> cur + 2 * hdr_size + datasize h + sz \<le> mem_next h"
    have place: "malloc_place p sz = Some (if ?gap then cur + hdr_size + datasize h else 0, cur)"
      using front tail t rear cur(1) h by (auto simp: malloc_place_def)
    have "?gap \<longleftrightarrow> has_room p bs sz"
    proof
      assume g: ?gap
      show "has_room p bs sz"
      proof (cases ws)
        case Nil
        then have "cur = last bs" using bs by simp
        then show ?thesis using g rear hs ts by simp
      next
        case (Cons c ws')
        then show ?thesis using g bs h hs by (auto simp: has_room_def)
      qed
    next
      assume "has_room p bs sz"
      then have "\<exists>us b c vs. bs = us @ b # c # vs \<and> b + 2 * hdr_size + blk_size (headers p) b + sz \<le> c"
        using front rear tail ts m ne end48 by (auto simp: has_room_def)
      then obtain vs2 c ws2 where g: "bs = vs2 @ cur # c # ws2" "cur + 2 * hdr_size + blk_size (headers p) cur + sz \<le> c"
        using cur(3) by blast
      have "us = vs2 \<and> ws = c # ws2"
        using g(1) bs mem_ok_distinct [OF m] by (auto simp: append_eq_append_conv2 append_eq_Cons_conv Cons_eq_append_conv)
      moreover have "c + hdr_size \<le> mem_end p"
        using spaced_ge [of "headers p" "mem_start p" bs "mem_end p" c] m g(1) by (auto simp: mem_ok_def)
      ultimately show ?gap using g(2) h hs by simp
    qed
    then show ?thesis using place h(4) by auto
  qed
qed

text \<open>
  C33. \<open>malloc\<close> finds room when there is some, in a pool that ends below \<open>2 ^ 31\<close>. In such a pool in
  order (\<open>pool_ok\<close>, which includes that bound) that has a block and whose semaphore is free, \<open>malloc\<close> of a
  positive size always returns, with a block exactly if one fits before, between or behind the blocks, and with the
  exception for lack of memory otherwise. A pool of the default size in \<open>main.c\<close> ends at \<open>2 ^ 31\<close> or above, since the
  pool's header is added, and there the second \<open>malloc\<close> crashes: \<open>default_pool_second_malloc\<close>.
\<close>

theorem malloc_finds_room:
  assumes "pool_ok p bs ks" and "bs \<noteq> []" and "0 < sz" and "0 < pool_sem p"
  shows "if has_room p bs sz then \<exists>new p'. shm_malloc sz p = Some (Block new, p')
    else shm_malloc sz p = Some (NoMemory, p)"
proof -
  have m: "mem_ok p bs" using assms(1) by (simp add: pool_ok_def)
  obtain new cur where pl: "malloc_place p sz = Some (new, cur)" "(new \<noteq> 0) = has_room p bs sz"
    using malloc_place_complete [OF m assms(2)] by blast
  show ?thesis
  proof (cases "has_room p bs sz")
    case True
    then have "new \<noteq> 0" using pl(2) by simp
    obtain xs ys where xy: "bs = xs @ ys" "cur = last (0 # xs)" "new = behind (headers p) (mem_start p) xs" "new + hdr_size + sz \<le> hd (ys @ [mem_end p])"
      using malloc_place_sound [OF m pl(1) \<open>new \<noteq> 0\<close>] by blast
    obtain p' where "link_block p new cur sz = Some p'" using link_block_ok [OF _ xy(2-4)] m xy(1) by blast
    then show ?thesis using True pl(1) \<open>new \<noteq> 0\<close> assms(3,4) by (simp add: shm_malloc_def wait_value_def)
  next
    case False
    then have "new = 0" using pl(2) by simp
    then show ?thesis using False pl(1) assms(3,4) by (simp add: shm_malloc_def wait_value_def)
  qed
qed

text \<open>A pool with one block of 8 bytes and one of 16.\<close>

definition two_blocks :: pool where
  "two_blocks = (pool_reset 1000)\<lparr>
     headers := [72 \<mapsto> \<lparr>mem_prev = 0, mem_next = 128, key_prev = 0, key_next = 0, blk_key = 0, datasize = 8\<rparr>,
                 128 \<mapsto> \<lparr>mem_prev = 72, mem_next = 1072, key_prev = 0, key_next = 0, blk_key = 0, datasize = 16\<rparr>],
     blocks_head := 72, blocks_tail := 128\<rparr>"

lemmas malloc_eval = shm_malloc_def malloc_place_def link_block_def header_at_def set_header_def int_tmp_def
  pool_reset_def wait_value_def two_blocks_def

lemma two_blocks_ok: "pool_ok two_blocks [72, 128] []" "pool_sem two_blocks = 1"
  by (simp_all add: pool_ok_def mem_ok_def key_ok_def two_blocks_def pool_reset_def mem_links_def key_links_def blk_size_def)

lemma two_blocks_run:
  "do { (_, p1) \<leftarrow> shm_malloc 8 (pool_reset 1000); shm_malloc 16 p1 } = Some (Block 128, two_blocks)"
  by (simp add: malloc_eval)

lemma two_blocks_malloc: "map_option fst (shm_malloc 100 two_blocks) = Some (Block 192)"
  by (simp add: malloc_eval)

theorem malloc_block_disjoint_witness:
  "map_option fst (shm_malloc 100 two_blocks) = Some (Block 192) \<and> (192 :: nat) + 48 + 100 \<le> mem_end two_blocks"
proof -
  obtain p' where p': "shm_malloc 100 two_blocks = Some (Block 192, p')" using two_blocks_malloc by auto
  then show ?thesis using malloc_block_disjoint [OF two_blocks_ok(1) p'] by simp
qed

theorem malloc_finds_room_witness:
  "\<exists>new p'. shm_malloc 100 two_blocks = Some (Block new, p')"
proof -
  have "has_room two_blocks [72, 128] 100" by (simp add: has_room_def two_blocks_def pool_reset_def blk_size_def)
  then show ?thesis
    using malloc_finds_room [OF two_blocks_ok(1), of 100] two_blocks_ok(2) by simp
qed

section \<open>Pools that fail\<close>

text \<open>A pool without blocks dereferences the null pointer when the size does not fit.\<close>

lemma empty_pool_crashes:
  "memsize < sz + 48 \<Longrightarrow> 0 < sz \<Longrightarrow> shm_malloc sz (pool_reset memsize) = None"
  by (simp add: malloc_eval)

text \<open>
  The pool ends behind its segment. \<open>reset\<close> puts the end of the pool at the size of the segment plus
  the pool's header, so the first \<open>malloc\<close> can return a block whose last bytes are not in the segment.
\<close>

theorem pool_end_overruns:
  assumes "0 < sz" and "memsize < 72 + 48 + sz" and "48 + sz \<le> memsize"
  shows "\<exists>new p'. shm_malloc sz (pool_reset memsize) = Some (Block new, p') \<and> memsize < new + 48 + sz"
  using assms by (auto simp: malloc_eval)

theorem pool_end_overruns_witness:
  "\<exists>new p'. shm_malloc 900 (pool_reset 1000) = Some (Block new, p') \<and> 1000 < new + 48 + 900"
  by (rule pool_end_overruns) simp_all

text \<open>
  The default pool cannot hold two blocks. With the default \<open>SHM_SIZE\<close> of 2147483647 bytes the end of
  the pool does not fit the \<open>int\<close> variable \<open>malloc\<close> passes it through: after a first block
  the second \<open>malloc\<close> writes through an offset near 2^64 (no result), for any sizes.
\<close>

theorem default_pool_second_malloc:
  assumes "0 < s1" and "s1 < 1000000000" and "0 < s2" and "s2 < 1000000000"
  shows "\<exists>p1. shm_malloc s1 (pool_reset 2147483647) = Some (Block 72, p1) \<and> shm_malloc s2 p1 = None"
  using assms by (simp add: malloc_eval)

theorem default_pool_second_malloc_witness:
  "\<exists>p1. shm_malloc 64 (pool_reset 2147483647) = Some (Block 72, p1) \<and> shm_malloc 64 p1 = None"
  by (rule default_pool_second_malloc) simp_all

section \<open>free\<close>

text \<open>Taking a block out of the key chain.\<close>

lemma unlink_keys_ok:
  assumes m: "mem_ok p bs" and k: "key_ok p (us @ b # vs)" and sub: "set (us @ b # vs) \<subseteq> set bs"
    and key: "blk_key (the (headers p b)) \<noteq> 0"
  shows "\<exists>p'. unlink_keys b p = Some p' \<and> key_ok p' (us @ vs) \<and> mem_ok p' bs \<and>
    (\<forall>c \<in> set bs. \<exists>h h'. headers p c = Some h \<and> headers p' c = Some h' \<and> mem_links h' = mem_links h \<and>
       blk_key h' = blk_key h \<and> datasize h' = datasize h \<and> (c \<notin> set (us @ vs) \<longrightarrow> key_links h' = key_links h)) \<and>
    mem_start p' = mem_start p \<and> mem_end p' = mem_end p \<and> pool_sem p' = pool_sem p"
proof -
  let ?H = "headers p"
  have ch: "chained key_links ?H 0 (us @ b # vs) 0" and d: "distinct (us @ b # vs)" using k by (simp_all add: key_ok_def)
  obtain h where h: "?H b = Some h" "key_links h = (last (0 # us), hd (vs @ [0]))" "b \<noteq> 0"
    using chained_nth [OF ch] by blast
  have nz: "c \<noteq> 0 \<and> (\<exists>h. ?H c = Some h)" if "c \<in> set (us @ b # vs)" for c
    using chained_header [OF ch] that by blast
  have dj: "us \<noteq> [] \<Longrightarrow> last us \<notin> set (b # vs)" using d last_in_set [of us] by (auto simp del: last_in_set simp: disjoint_iff)
  define H1 where "H1 = (if vs = [] then ?H else ?H(hd vs \<mapsto> (the (?H (hd vs)))\<lparr>key_prev := last (0 # us)\<rparr>))"
  define H2 where "H2 = (if us = [] then H1 else H1(last us \<mapsto> (the (?H (last us)))\<lparr>key_next := hd (vs @ [0])\<rparr>))"
  let ?p' = "p\<lparr>headers := H2, keys_tail := (if vs = [] then last (0 # us) else keys_tail p),
    keys_head := (if us = [] then hd (vs @ [0]) else keys_head p)\<rparr>"
  have hb: "header_at p b = Some h" using h by (simp add: header_at_def)
  have r1: "(if key_next h \<noteq> 0 then set_header (key_next h) (key_prev_update (\<lambda>_. key_prev h)) p
      else Some (if blk_key h \<noteq> 0 then p\<lparr>keys_tail := key_prev h\<rparr> else p))
    = Some (p\<lparr>headers := H1, keys_tail := (if vs = [] then last (0 # us) else keys_tail p)\<rparr>)"
    using h key nz [of "hd vs"] by (cases vs) (auto simp: H1_def key_links_def set_header_def header_at_def)
  have r2: "(if key_prev h \<noteq> 0 then set_header (key_prev h) (key_next_update (\<lambda>_. key_next h)) (p\<lparr>headers := H1, keys_tail := t\<rparr>)
      else Some (if blk_key h \<noteq> 0 then (p\<lparr>headers := H1, keys_tail := t\<rparr>)\<lparr>keys_head := key_next h\<rparr> else p\<lparr>headers := H1, keys_tail := t\<rparr>))
    = Some (p\<lparr>headers := H2, keys_tail := t, keys_head := (if us = [] then hd (vs @ [0]) else keys_head p)\<rparr>)" for t
  proof (cases us rule: rev_cases)
    case Nil
    then show ?thesis using h key by (simp add: H2_def key_links_def)
  next
    case (snoc us' u)
    have "H1 u = ?H u" using dj snoc by (cases vs) (auto simp: H1_def)
    then show ?thesis using h nz [of u] snoc by (auto simp: H2_def key_links_def set_header_def header_at_def)
  qed
  have res: "unlink_keys b p = Some ?p'"
    unfolding unlink_keys_def hb Option.bind.simps r1 r2 by simp
  have upd: "\<exists>h'. H2 c = Some h' \<and> mem_links h' = mem_links hc \<and> blk_key h' = blk_key hc \<and> datasize h' = datasize hc \<and>
      key_links h' = (if vs \<noteq> [] \<and> c = hd vs then last (0 # us) else fst (key_links hc),
        if us \<noteq> [] \<and> c = last us then hd (vs @ [0]) else snd (key_links hc))"
    if hc: "?H c = Some hc" for c hc
  proof -
    have h1: "H1 c = Some (if vs \<noteq> [] \<and> c = hd vs then hc\<lparr>key_prev := last (0 # us)\<rparr> else hc)"
      using hc by (auto simp: H1_def)
    have "H2 c = Some (if us \<noteq> [] \<and> c = last us then hc\<lparr>key_next := hd (vs @ [0])\<rparr>
        else if vs \<noteq> [] \<and> c = hd vs then hc\<lparr>key_prev := last (0 # us)\<rparr> else hc)"
      using hc h1 by (auto simp: H2_def)
    moreover have "\<not> (us \<noteq> [] \<and> c = last us \<and> vs \<noteq> [] \<and> c = hd vs)" using dj by (cases vs) auto
    ultimately show ?thesis by (auto simp: key_links_def mem_links_def)
  qed
  have "chained key_links H2 0 (us @ vs) 0"
    by (rule chained_remove [OF ch d]) (use upd in \<open>blast\<close>)
  moreover have "sorted (map (\<lambda>c. blk_key (the (H2 c))) (us @ vs))"
  proof -
    have e: "blk_key (the (H2 c)) = blk_key (the (?H c))" if c: "c \<in> set (us @ vs)" for c
    proof -
      obtain hc where "?H c = Some hc" using nz [of c] c by auto
      then show ?thesis using upd [of c hc] by auto
    qed
    have "map (\<lambda>c. blk_key (the (H2 c))) (us @ vs) = map (\<lambda>c. blk_key (the (?H c))) (us @ vs)"
      by (rule map_cong [OF refl]) (rule e)
    then show ?thesis using k by (simp only: key_ok_def) (auto simp: sorted_append)
  qed
  moreover have "(if us = [] then hd (vs @ [0]) else keys_head p) = hd ((us @ vs) @ [0])"
    "(if vs = [] then last (0 # us) else keys_tail p) = last (0 # us @ vs)"
    using k by (auto simp: key_ok_def)
  ultimately have "key_ok ?p' (us @ vs)" using d by (simp add: key_ok_def)
  moreover have "mem_ok ?p' bs"
  proof -
    have "chained mem_links H2 0 bs (mem_end p)"
      by (rule chained_cong [of _ ?H]) (use m upd in \<open>auto simp: mem_ok_def\<close>)
    moreover have "spaced H2 (mem_start p) bs (mem_end p)"
    proof -
      have "blk_size H2 c = blk_size ?H c" if "c \<in> set bs" for c
        using mem_ok_header [OF m that] upd [of c] by (auto simp: blk_size_def)
      then show ?thesis using m spaced_cong [of bs H2 ?H] by (simp add: mem_ok_def)
    qed
    ultimately show ?thesis using m by (simp add: mem_ok_def)
  qed
  moreover have "\<exists>hc h'. ?H c = Some hc \<and> H2 c = Some h' \<and> mem_links h' = mem_links hc \<and>
       blk_key h' = blk_key hc \<and> datasize h' = datasize hc \<and> (c \<notin> set (us @ vs) \<longrightarrow> key_links h' = key_links hc)"
    if c: "c \<in> set bs" for c
  proof -
    obtain hc where hc: "?H c = Some hc" using mem_ok_header [OF m c] by blast
    have "c \<notin> set (us @ vs) \<Longrightarrow> (vs \<noteq> [] \<longrightarrow> c \<noteq> hd vs) \<and> (us \<noteq> [] \<longrightarrow> c \<noteq> last us)" by auto
    then show ?thesis using upd [OF hc] hc by auto
  qed
  ultimately show ?thesis using res by (intro exI [of _ ?p']) auto
qed

text \<open>Taking a block out of the chain by address.\<close>

lemma unlink_mem_ok:
  assumes ok: "mem_ok p (xs @ b # ys)"
  shows "\<exists>p'. unlink_mem b p = Some p' \<and> mem_ok p' (xs @ ys) \<and> kept p p' (xs @ ys)"
proof -
  let ?H = "headers p" and ?e = "mem_end p"
  have ch: "chained mem_links ?H 0 (xs @ b # ys) ?e" using ok by (simp add: mem_ok_def)
  have d: "distinct (xs @ b # ys)" by (rule mem_ok_distinct [OF ok])
  obtain h where h: "header_at p b = Some h" "?H b = Some h" "mem_prev h = last (0 # xs)" "mem_next h = hd (ys @ [?e])"
    using mem_ok_split [OF ok] by blast
  have some: "\<exists>h. ?H c = Some h \<and> header_at p c = Some h" "c \<noteq> 0" "c < ?e" if "c \<in> set (xs @ ys)" for c
    using mem_ok_header [OF ok, of c] spaced_ge [of ?H "mem_start p" "xs @ b # ys" ?e c] that ok by (auto simp: mem_ok_def)
  have dj: "xs \<noteq> [] \<Longrightarrow> last xs \<notin> set ys" using d last_in_set [of xs] by (auto simp del: last_in_set simp: disjoint_iff)
  define H1 where "H1 = (if xs = [] then ?H else ?H(last xs \<mapsto> (the (?H (last xs)))\<lparr>mem_next := hd (ys @ [?e])\<rparr>))"
  define H2 where "H2 = (if ys = [] then H1 else H1(hd ys \<mapsto> (the (?H (hd ys)))\<lparr>mem_prev := last (0 # xs)\<rparr>))"
  let ?p' = "p\<lparr>headers := H2, blocks_head := (if xs = [] then hd (ys @ [?e]) else blocks_head p),
    blocks_tail := (if ys = [] then last (0 # xs) else blocks_tail p)\<rparr>"
  define p1 where "p1 = p\<lparr>headers := H1, blocks_head := (if xs = [] then hd (ys @ [?e]) else blocks_head p)\<rparr>"
  have r1: "(if mem_prev h = 0 then Some (p\<lparr>blocks_head := mem_next h\<rparr>)
      else set_header (mem_prev h) (mem_next_update (\<lambda>_. mem_next h)) p) = Some p1"
    using h some [of "last xs"] by (cases "xs = []") (auto simp: p1_def H1_def set_header_def)
  have r2: "(if mem_next h = ?e then Some (p1\<lparr>blocks_tail := mem_prev h\<rparr>)
      else set_header (mem_next h) (mem_prev_update (\<lambda>_. mem_prev h)) p1) = Some ?p'"
  proof (cases ys)
    case Nil
    then show ?thesis using h by (simp add: p1_def H2_def)
  next
    case (Cons y ys')
    have "H1 y = ?H y" using dj Cons by (auto simp: H1_def)
    then show ?thesis using h some [of y] Cons by (auto simp: p1_def H2_def set_header_def header_at_def)
  qed
  have res: "unlink_mem b p = Some ?p'"
    unfolding unlink_mem_def h(1) Option.bind.simps r1 using r2 by (simp add: p1_def)
  have upd: "\<exists>h'. H2 c = Some h' \<and> key_links h' = key_links hc \<and> blk_key h' = blk_key hc \<and> datasize h' = datasize hc \<and>
      mem_links h' = (if ys \<noteq> [] \<and> c = hd ys then last (0 # xs) else fst (mem_links hc),
        if xs \<noteq> [] \<and> c = last xs then hd (ys @ [?e]) else snd (mem_links hc))"
    if hc: "?H c = Some hc" for c hc
  proof -
    have h1: "H1 c = Some (if xs \<noteq> [] \<and> c = last xs then hc\<lparr>mem_next := hd (ys @ [?e])\<rparr> else hc)"
      using hc by (auto simp: H1_def)
    have "H2 c = Some (if ys \<noteq> [] \<and> c = hd ys then hc\<lparr>mem_prev := last (0 # xs)\<rparr>
        else if xs \<noteq> [] \<and> c = last xs then hc\<lparr>mem_next := hd (ys @ [?e])\<rparr> else hc)"
      using hc h1 by (auto simp: H2_def)
    moreover have "\<not> (xs \<noteq> [] \<and> c = last xs \<and> ys \<noteq> [] \<and> c = hd ys)" using dj by (cases ys) auto
    ultimately show ?thesis by (auto simp: key_links_def mem_links_def)
  qed
  have size: "blk_size H2 c = blk_size ?H c" if c: "c \<in> set (xs @ ys)" for c
  proof -
    obtain hc where "?H c = Some hc" using some(1) [OF c] by blast
    then show ?thesis using upd [of c hc] by (auto simp: blk_size_def)
  qed
  have "chained mem_links H2 0 (xs @ ys) ?e"
    by (rule chained_remove [OF ch d]) (use upd in \<open>blast\<close>)
  moreover have "spaced H2 (mem_start p) (xs @ ys) ?e"
  proof -
    have "spaced ?H (mem_start p) xs (behind ?H (mem_start p) xs)" "spaced ?H (b + hdr_size + blk_size ?H b) ys ?e"
      "behind ?H (mem_start p) xs \<le> b"
      using ok by (auto simp: mem_ok_def spaced_append)
    then have "spaced ?H (mem_start p) (xs @ ys) ?e"
      using spaced_lower [of ?H "b + hdr_size + blk_size ?H b" ys ?e "behind ?H (mem_start p) xs"] by (simp add: spaced_append)
    then show ?thesis using spaced_cong [of "xs @ ys" H2 ?H] size by blast
  qed
  moreover have "(if xs = [] then hd (ys @ [?e]) else blocks_head p) = hd ((xs @ ys) @ [?e])"
    "(if ys = [] then last (0 # xs) else blocks_tail p) = last (0 # xs @ ys)" "0 < mem_start p" "?e < 2 ^ 31"
    using ok by (auto simp: mem_ok_def)
  ultimately have "mem_ok ?p' (xs @ ys)" by (simp add: mem_ok_def)
  moreover have "kept p ?p' (xs @ ys)"
  proof -
    have "\<exists>hc h'. ?H c = Some hc \<and> H2 c = Some h' \<and> key_links h' = key_links hc \<and> blk_key h' = blk_key hc \<and> datasize h' = datasize hc"
      if c: "c \<in> set (xs @ ys)" for c
    proof -
      obtain hc where "?H c = Some hc" using some(1) [OF c] by blast
      then show ?thesis using upd [of c hc] by blast
    qed
    then show ?thesis by (simp add: kept_def)
  qed
  ultimately show ?thesis using res by blast
qed

lemma unlink_keys_none:
  assumes "header_at p b = Some h" and "blk_key h = 0" and "key_links h = (0, 0)"
  shows "unlink_keys b p = Some p"
  using assms by (simp add: unlink_keys_def key_links_def)

text \<open>Either way the block is in the key chain no more, and nothing else has changed.\<close>

lemma unlink_keys_pool:
  assumes ok: "pool_ok p bs ks" and b: "b \<in> set bs"
  shows "\<exists>p'. unlink_keys b p = Some p' \<and> mem_ok p' bs \<and> key_ok p' (remove1 b ks) \<and> pool_sem p' = pool_sem p \<and>
    (\<forall>c \<in> set bs - {b}. blk_size (headers p') c = blk_size (headers p) c \<and>
       blk_key (the (headers p' c)) = blk_key (the (headers p c)) \<and>
       (c \<notin> set ks \<longrightarrow> key_links (the (headers p' c)) = key_links (the (headers p c))))"
proof (cases "b \<in> set ks")
  case True
  then obtain us vs where ks: "ks = us @ b # vs" "b \<notin> set us" by (meson split_list_first)
  have key: "blk_key (the (headers p b)) \<noteq> 0" using ok b True by (simp add: pool_ok_def)
  obtain p' where p': "unlink_keys b p = Some p'" "key_ok p' (us @ vs)" "mem_ok p' bs" "pool_sem p' = pool_sem p"
    and same: "\<forall>c \<in> set bs. \<exists>h h'. headers p c = Some h \<and> headers p' c = Some h' \<and> mem_links h' = mem_links h \<and>
       blk_key h' = blk_key h \<and> datasize h' = datasize h \<and> (c \<notin> set (us @ vs) \<longrightarrow> key_links h' = key_links h)"
    using unlink_keys_ok [of p bs us b vs] ok ks(1) key unfolding pool_ok_def by blast
  have "blk_size (headers p') c = blk_size (headers p) c \<and> blk_key (the (headers p' c)) = blk_key (the (headers p c)) \<and>
      (c \<notin> set ks \<longrightarrow> key_links (the (headers p' c)) = key_links (the (headers p c)))" if c: "c \<in> set bs - {b}" for c
  proof -
    obtain h h' where "headers p c = Some h" "headers p' c = Some h'" "blk_key h' = blk_key h" "datasize h' = datasize h"
      "c \<notin> set (us @ vs) \<longrightarrow> key_links h' = key_links h"
      using same c by blast
    then show ?thesis using ks(1) by (auto simp: blk_size_def)
  qed
  then show ?thesis using p' ks by (auto simp: remove1_append)
next
  case False
  obtain h where h: "header_at p b = Some h" "headers p b = Some h"
    using mem_ok_header [of p bs b] ok b unfolding pool_ok_def by blast
  have "blk_key h = 0" "key_links h = (0, 0)" using ok b False h(2) unfolding pool_ok_def by auto
  then show ?thesis using unlink_keys_none [OF h(1)] ok False by (auto simp: pool_ok_def remove1_idem)
qed

lemma shm_free_ok:
  assumes "pool_ok p bs ks" and "b \<in> set bs" and "0 < pool_sem p"
  shows "\<exists>p'. shm_free b p = Some p' \<and> pool_ok p' (remove1 b bs) (remove1 b ks) \<and> pool_sem p' = pool_sem p \<and>
    (\<forall>c \<in> set bs - {b}. blk_size (headers p') c = blk_size (headers p) c \<and>
       blk_key (the (headers p' c)) = blk_key (the (headers p c)))"
proof -
  obtain p1 where p1: "unlink_keys b p = Some p1" "mem_ok p1 bs" "key_ok p1 (remove1 b ks)" "pool_sem p1 = pool_sem p"
    and c1: "\<forall>c \<in> set bs - {b}. blk_size (headers p1) c = blk_size (headers p) c \<and>
       blk_key (the (headers p1 c)) = blk_key (the (headers p c)) \<and>
       (c \<notin> set ks \<longrightarrow> key_links (the (headers p1 c)) = key_links (the (headers p c)))"
    using unlink_keys_pool [OF assms(1,2)] by blast
  obtain xs ys where bs: "bs = xs @ b # ys" using assms(2) by (meson split_list)
  have d: "distinct (xs @ b # ys)" "distinct ks"
    using mem_ok_distinct [of p bs] assms(1) bs by (auto simp: pool_ok_def key_ok_def)
  obtain p2 where p2: "unlink_mem b p1 = Some p2" "mem_ok p2 (xs @ ys)" "kept p1 p2 (xs @ ys)"
    using unlink_mem_ok p1(2) bs by blast
  have nb: "b \<noteq> 0" using mem_ok_header [OF p1(2) assms(2)] by blast
  have sem: "pool_sem p = pool_sem p2" using p1(4) p2(3) by (simp add: kept_def)
  have res: "shm_free b p = Some p2"
    using p1(1) p2(1) nb assms(3) by (simp add: shm_free_def wait_value_def sem)
  have "set ks \<subseteq> set bs" using assms(1) by (simp add: pool_ok_def)
  then have sub: "set (remove1 b ks) \<subseteq> set (xs @ ys)" using d(2) bs by auto
  have rest: "blk_size (headers p2) c = blk_size (headers p) c" "blk_key (the (headers p2 c)) = blk_key (the (headers p c))"
    "c \<notin> set ks \<longrightarrow> key_links (the (headers p2 c)) = key_links (the (headers p c))" if c: "c \<in> set (xs @ ys)" for c
  proof -
    obtain h h' where "headers p1 c = Some h" "headers p2 c = Some h'" "key_links h' = key_links h" "blk_key h' = blk_key h" "datasize h' = datasize h"
      using p2(3) c unfolding kept_def by blast
    moreover have cb: "c \<in> set bs - {b}" using c d(1) bs by auto
    ultimately show "blk_size (headers p2) c = blk_size (headers p) c" "blk_key (the (headers p2 c)) = blk_key (the (headers p c))"
      "c \<notin> set ks \<longrightarrow> key_links (the (headers p2 c)) = key_links (the (headers p c))"
      using bspec [OF c1 cb] by (simp_all add: blk_size_def)
  qed
  have "pool_ok p2 (xs @ ys) (remove1 b ks)"
    unfolding pool_ok_def
  proof (intro conjI ballI)
    show "mem_ok p2 (xs @ ys)" "key_ok p2 (remove1 b ks)" "set (remove1 b ks) \<subseteq> set (xs @ ys)"
      using p2 kept_keys [OF p1(3) p2(3) sub] sub by auto
    fix c assume c: "c \<in> set (xs @ ys)"
    have cb: "c \<noteq> b" "c \<in> set bs" using c d(1) bs by auto
    then show "(blk_key (the (headers p2 c)) \<noteq> 0) = (c \<in> set (remove1 b ks))"
      "c \<notin> set (remove1 b ks) \<longrightarrow> key_links (the (headers p2 c)) = (0, 0)"
      using rest [OF c] assms(1) unfolding pool_ok_def by (auto simp: in_set_remove1)
  qed
  then show ?thesis
    using res rest bs d sem by (auto simp: remove1_append)
qed

text \<open>
  \<open>free\<close> gives back exactly one block. Freeing a block in use of a pool in order always returns; the
  pool is in order without that block (in either chain), and all other blocks keep their place,
  size and key.
\<close>

theorem free_removes_block:
  assumes "pool_ok p bs ks" and "b \<in> set bs" and "0 < pool_sem p"
  shows "\<exists>p'. shm_free b p = Some p' \<and> pool_ok p' (remove1 b bs) (remove1 b ks) \<and> pool_sem p' = pool_sem p \<and>
    (\<forall>c \<in> set bs - {b}. blk_size (headers p') c = blk_size (headers p) c \<and>
       blk_key (the (headers p' c)) = blk_key (the (headers p c)))"
  by (rule shm_free_ok [OF assms])

theorem free_removes_block_witness:
  "\<exists>p'. shm_free 72 two_blocks = Some p' \<and> pool_ok p' [128] []"
  using free_removes_block [OF two_blocks_ok(1), of 72] two_blocks_ok(2) by auto

text \<open>So freeing undoes \<open>malloc\<close>.\<close>

lemma malloc_free:
  assumes "pool_ok p bs ks" and "shm_malloc sz p = Some (Block new, p')"
  shows "\<exists>p''. shm_free new p' = Some p'' \<and> pool_ok p'' bs ks"
proof -
  obtain xs ys where r: "bs = xs @ ys" "pool_ok p' (xs @ new # ys) ks" "new \<notin> set bs" "pool_sem p' = pool_sem p"
    using shm_malloc_block [OF assms] by blast
  have "0 < pool_sem p" using assms(2) by (auto simp: shm_malloc_def wait_value_def split: if_splits bind_splits)
  moreover have "new \<notin> set ks" using r(1,3) assms(1) by (auto simp: pool_ok_def)
  ultimately show ?thesis
    using shm_free_ok [OF r(2), of new] r by (auto simp: remove1_append remove1_idem)
qed

end
