(* ===== verification/Shm_Keys.thy ===== *)
theory Shm_Keys
  imports Shm_Facts
begin

text \<open>
  Blocks with keys: \<open>malloc_key\<close> inserts into the sorted key chain, \<open>getfirst\<close> finds.
\<close>

section \<open>The place in the key chain\<close>

lemma key_chain_at:
  assumes "key_ok p (us @ b # vs)"
  obtains h where "header_at p b = Some h" "headers p b = Some h" "key_prev h = last (0 # us)" "key_next h = hd (vs @ [0])" "b \<noteq> 0"
  using chained_nth [of key_links "headers p" 0 us b vs 0] assms by (auto simp: key_ok_def header_at_def key_links_def)

abbreviation (input) key_at :: "pool \<Rightarrow> nat \<Rightarrow> int" where
  "key_at p b \<equiv> blk_key (the (headers p b))"

lemma last_from_place:
  "key_ok p (us @ vs @ ws) \<Longrightarrow> (\<forall>b \<in> set vs. key < key_at p b) \<Longrightarrow> (us \<noteq> [] \<longrightarrow> key_at p (last us) \<le> key) \<Longrightarrow>
   last_from p key (last (0 # us @ vs)) = Some (last (0 # us))"
proof (induction vs arbitrary: ws rule: rev_induct)
  case Nil
  show ?case
  proof (cases us rule: rev_cases)
    case Nil
    then show ?thesis by (subst last_from.simps) simp
  next
    case (snoc us' u)
    then obtain h where "header_at p u = Some h" "headers p u = Some h" "u \<noteq> 0"
      using key_chain_at [of p us' u ws] Nil.prems(1) by auto
    then show ?thesis using snoc Nil.prems(3) by (subst last_from.simps) simp
  qed
next
  case (snoc v vs)
  obtain h where h: "header_at p v = Some h" "headers p v = Some h" "key_prev h = last (0 # us @ vs)" "v \<noteq> 0"
    using key_chain_at [of p "us @ vs" v ws] snoc.prems(1) by auto
  have "last_from p key v = last_from p key (last (0 # us @ vs))"
    using h snoc.prems(2) by (subst last_from.simps) simp
  then show ?case using snoc.IH [of "v # ws"] snoc.prems by simp
qed

lemma first_from_place:
  "key_ok p (ws @ us @ vs) \<Longrightarrow> (\<forall>b \<in> set us. key_at p b < key) \<Longrightarrow> (vs \<noteq> [] \<longrightarrow> key \<le> key_at p (hd vs)) \<Longrightarrow>
   first_from p key (hd ((us @ vs) @ [0])) = Some (hd (vs @ [0]))"
proof (induction us arbitrary: ws)
  case Nil
  show ?case
  proof (cases vs)
    case Nil
    then show ?thesis by (subst first_from.simps) simp
  next
    case (Cons v vs')
    then obtain h where "header_at p v = Some h" "headers p v = Some h" "v \<noteq> 0"
      using key_chain_at [of p ws v vs'] Nil.prems(1) by auto
    then show ?thesis using Cons Nil.prems(3) by (subst first_from.simps) simp
  qed
next
  case (Cons u us)
  obtain h where h: "header_at p u = Some h" "headers p u = Some h" "key_next h = hd ((us @ vs) @ [0])" "u \<noteq> 0"
    using key_chain_at [of p ws u "us @ vs"] Cons.prems(1) by auto
  have "first_from p key u = first_from p key (hd ((us @ vs) @ [0]))"
    using h Cons.prems(2) by (subst first_from.simps) simp
  then show ?case using Cons.IH [of "ws @ [u]"] Cons.prems by simp
qed

section \<open>Inserting a key\<close>

definition keyed_headers :: "(nat \<rightharpoonup> block_header) \<Rightarrow> nat list \<Rightarrow> nat list \<Rightarrow> nat \<Rightarrow> nat \<rightharpoonup> block_header" where
  "keyed_headers H us vs new b =
     (case H b of None \<Rightarrow> None
      | Some h \<Rightarrow>
          if b = new then Some (h\<lparr>key_prev := last (0 # us), key_next := hd (vs @ [0])\<rparr>)
          else Some (h\<lparr>key_prev := (if vs \<noteq> [] \<and> b = hd vs then new else key_prev h),
                       key_next := (if us \<noteq> [] \<and> b = last us then new else key_next h)\<rparr>))"

lemma insert_key_result:
  assumes k: "key_ok p (us @ vs)" and new: "new \<notin> set (us @ vs)" "new \<noteq> 0" "headers p new = Some hn" "key_links hn = (0, 0)"
  shows "insert_key new (last (0 # us)) p = Some (p\<lparr>headers := keyed_headers (headers p) us vs new,
    keys_head := (if us = [] then new else keys_head p), keys_tail := (if vs = [] then new else keys_tail p)\<rparr>)"
proof -
  have d: "distinct (us @ vs)" using k by (simp add: key_ok_def)
  show ?thesis
  proof (cases us rule: rev_cases)
    case Nil
    show ?thesis
    proof (cases vs)
      case Nil': Nil
      then have "keys_head p = 0" using k Nil by (simp add: key_ok_def)
      moreover have "keyed_headers (headers p) [] [] new = headers p"
        using new(3,4) by (auto simp: keyed_headers_def key_links_def split: option.splits)
      ultimately show ?thesis using Nil Nil' by (simp add: insert_key_def)
    next
      case (Cons v vs')
      obtain h where h: "header_at p v = Some h" "headers p v = Some h" "v \<noteq> 0"
        using key_chain_at [of p "[]" v vs'] k Nil Cons by auto
      have head: "keys_head p = v" using k Nil Cons by (simp add: key_ok_def)
      have vn: "v \<noteq> new" using new(1) Cons by auto
      have "keyed_headers (headers p) [] vs new = (headers p)(v \<mapsto> h\<lparr>key_prev := new\<rparr>, new \<mapsto> hn\<lparr>key_next := v\<rparr>)"
        using h vn new(3,4) Cons by (auto simp: keyed_headers_def key_links_def split: option.splits)
      then show ?thesis
        using Nil Cons h head vn new(2,3) by (simp add: insert_key_def set_header_def header_at_def)
    qed
  next
    case (snoc us' u)
    obtain h where h: "header_at p u = Some h" "headers p u = Some h" "key_next h = hd (vs @ [0])" "u \<noteq> 0"
      using key_chain_at [of p us' u vs] k snoc by auto
    have un: "u \<noteq> new" using new(1) snoc by auto
    show ?thesis
    proof (cases vs)
      case Nil
      have "keyed_headers (headers p) us [] new = (headers p)(u \<mapsto> h\<lparr>key_next := new\<rparr>, new \<mapsto> hn\<lparr>key_next := 0, key_prev := u\<rparr>)"
        using h un new(3) snoc Nil by (auto simp: keyed_headers_def split: option.splits)
      then show ?thesis
        using Nil snoc h un new(2,3) by (auto simp: insert_key_def set_header_def header_at_def fun_upd_twist)
    next
      case (Cons v vs')
      obtain hv where hv: "header_at p v = Some hv" "headers p v = Some hv" "v \<noteq> 0"
        using key_chain_at [of p us v vs'] k Cons by auto
      have vn: "v \<noteq> new" "v \<noteq> u" using new(1) Cons d snoc by auto
      have "keyed_headers (headers p) us vs new = (headers p)(u \<mapsto> h\<lparr>key_next := new\<rparr>, v \<mapsto> hv\<lparr>key_prev := new\<rparr>,
          new \<mapsto> hn\<lparr>key_next := v, key_prev := u\<rparr>)"
        using h hv un vn new(3) snoc Cons by (auto simp: keyed_headers_def split: option.splits)
      then show ?thesis
        using Cons snoc h hv un vn new(2,3) by (auto simp: insert_key_def set_header_def header_at_def fun_upd_twist)
    qed
  qed
qed

text \<open>The chain splits at the key: smaller or equal keys before, larger behind.\<close>

lemma split_at_key:
  assumes "key_ok p ks"
  shows "\<exists>us vs. ks = us @ vs \<and> (\<forall>b \<in> set us. key_at p b \<le> key) \<and> (\<forall>b \<in> set vs. key < key_at p b)"
proof -
  let ?P = "\<lambda>b. key_at p b \<le> key"
  have srt: "sorted (map (key_at p) ks)" using assms by (simp add: key_ok_def)
  have "\<forall>b \<in> set (dropWhile ?P ks). key < key_at p b"
    using srt
  proof (induction ks)
    case (Cons k ks)
    then show ?case by (cases "?P k") (auto intro: less_le_trans simp: not_le)
  qed simp
  moreover have "\<forall>b \<in> set (takeWhile ?P ks). key_at p b \<le> key" by (auto dest: set_takeWhileD)
  ultimately show ?thesis by (intro exI [of _ "takeWhile ?P ks"] exI [of _ "dropWhile ?P ks"]) simp
qed

lemma insert_key_ok:
  assumes m: "mem_ok p bs" and k: "key_ok p (us @ vs)" and sub: "set (us @ vs) \<subseteq> set bs"
    and new: "new \<in> set bs" "new \<notin> set (us @ vs)" "headers p new = Some hn" "key_links hn = (0, 0)" "blk_key hn = key"
    and le: "\<forall>b \<in> set us. key_at p b \<le> key" and gt: "\<forall>b \<in> set vs. key < key_at p b"
  shows "\<exists>p'. insert_key new (last (0 # us)) p = Some p' \<and> mem_ok p' bs \<and> key_ok p' (us @ new # vs) \<and> pool_sem p' = pool_sem p \<and>
    (\<forall>b \<in> set bs. key_at p' b = key_at p b \<and> blk_size (headers p') b = blk_size (headers p) b \<and>
       (b \<notin> set (us @ new # vs) \<longrightarrow> key_links (the (headers p' b)) = key_links (the (headers p b))))"
proof -
  let ?H = "headers p"
  define H' where "H' = keyed_headers ?H us vs new"
  let ?p' = "p\<lparr>headers := H', keys_head := (if us = [] then new else keys_head p), keys_tail := (if vs = [] then new else keys_tail p)\<rparr>"
  have n0: "new \<noteq> 0" using mem_ok_header [OF m new(1)] by blast
  have res: "insert_key new (last (0 # us)) p = Some ?p'"
    unfolding H'_def by (rule insert_key_result [OF k new(2) n0 new(3,4)])
  have all: "\<exists>h'. H' b = Some h' \<and> blk_key h' = blk_key h \<and> datasize h' = datasize h \<and> mem_links h' = mem_links h" if "?H b = Some h" for b h
    using that by (auto simp: H'_def keyed_headers_def mem_links_def)
  have some: "\<exists>h. ?H b = Some h" if "b \<in> set bs" for b using mem_ok_header [OF m that] by blast
  have same: "key_at ?p' b = key_at p b" "blk_size H' b = blk_size ?H b" if b: "b \<in> set bs" for b
  proof -
    obtain h where "?H b = Some h" using some [OF b] by blast
    then show "key_at ?p' b = key_at p b" "blk_size H' b = blk_size ?H b" using all [of b h] by (auto simp: blk_size_def)
  qed
  have "chained key_links H' 0 (us @ new # vs) 0"
  proof (rule chained_insert [where H = ?H and nh = "hn\<lparr>key_prev := last (0 # us), key_next := hd (vs @ [0])\<rparr>"])
    show "chained key_links ?H 0 (us @ vs) 0" "distinct (us @ vs)" using k by (simp_all add: key_ok_def)
    show "new \<noteq> 0" by (rule n0)
    show "H' new = Some (hn\<lparr>key_prev := last (0 # us), key_next := hd (vs @ [0])\<rparr>)" using new(3) by (simp add: H'_def keyed_headers_def)
    show "key_links (hn\<lparr>key_prev := last (0 # us), key_next := hd (vs @ [0])\<rparr>) = (last (0 # us), hd (vs @ [0]))"
      by (simp add: key_links_def)
  next
    fix b h assume b: "b \<in> set (us @ vs)" "?H b = Some h"
    then have "b \<noteq> new" using new(2) by auto
    then show "\<exists>h'. H' b = Some h' \<and> key_links h' =
        (if vs \<noteq> [] \<and> b = hd vs then new else fst (key_links h), if us \<noteq> [] \<and> b = last us then new else snd (key_links h))"
      using b(2) by (simp add: H'_def keyed_headers_def key_links_def)
  qed
  moreover have "sorted (map (key_at ?p') (us @ new # vs))"
  proof -
    have e: "map (key_at ?p') (us @ new # vs) = map (key_at p) us @ key # map (key_at p) vs"
      using same(1) sub new by auto
    show ?thesis
      unfolding e using k le gt by (fastforce simp: key_ok_def sorted_append)
  qed
  moreover have "distinct (us @ new # vs)" using k new(2) by (auto simp: key_ok_def)
  moreover have "keys_head ?p' = hd ((us @ new # vs) @ [0])" "keys_tail ?p' = last (0 # us @ new # vs)"
    using k by (auto simp: key_ok_def)
  ultimately have "key_ok ?p' (us @ new # vs)" by (simp add: key_ok_def)
  moreover have "mem_ok ?p' bs"
  proof -
    have "chained mem_links H' 0 bs (mem_end p)"
      by (rule chained_cong [of _ ?H]) (use m all in \<open>fastforce simp: mem_ok_def\<close>)+
    moreover have "spaced H' (mem_start p) bs (mem_end p)"
      using m same(2) spaced_cong [of bs H' ?H] by (simp add: mem_ok_def)
    ultimately show ?thesis using m by (simp add: mem_ok_def)
  qed
  moreover have "key_links (the (H' b)) = key_links (the (?H b))" if b: "b \<in> set bs" "b \<notin> set (us @ new # vs)" for b
  proof -
    obtain h where h: "?H b = Some h" using some [OF b(1)] by blast
    have "b \<noteq> new" "vs \<noteq> [] \<longrightarrow> b \<noteq> hd vs" "us \<noteq> [] \<longrightarrow> b \<noteq> last us" using b(2) by auto
    then show ?thesis using h by (auto simp: H'_def keyed_headers_def key_links_def)
  qed
  ultimately show ?thesis using res same by (intro exI [of _ ?p']) simp
qed

section \<open>malloc_key\<close>

lemma pool_sem_irrelevant [simp]:
  "mem_ok (p\<lparr>pool_sem := v\<rparr>) bs = mem_ok p bs" "key_ok (p\<lparr>pool_sem := v\<rparr>) ks = key_ok p ks"
  "pool_ok (p\<lparr>pool_sem := v\<rparr>) bs ks = pool_ok p bs ks"
  by (simp_all add: mem_ok_def key_ok_def pool_ok_def)

lemma set_key_ok:
  assumes ok: "pool_ok p bs ks" and new: "new \<in> set bs" "new \<notin> set ks" "headers p new = Some h"
  shows "mem_ok (p\<lparr>headers := (headers p)(new \<mapsto> h\<lparr>blk_key := key\<rparr>)\<rparr>) bs"
    "key_ok (p\<lparr>headers := (headers p)(new \<mapsto> h\<lparr>blk_key := key\<rparr>)\<rparr>) ks"
proof -
  let ?H = "(headers p)(new \<mapsto> h\<lparr>blk_key := key\<rparr>)"
  have m: "mem_ok p bs" and k: "key_ok p ks" using ok by (simp_all add: pool_ok_def)
  have "chained mem_links ?H 0 bs (mem_end p)"
    by (rule chained_cong [of _ "headers p"]) (use m new in \<open>auto simp: mem_ok_def mem_links_def\<close>)
  moreover have "spaced ?H (mem_start p) bs (mem_end p)"
    using m new(3) spaced_cong [of bs ?H "headers p"] by (simp add: mem_ok_def blk_size_def)
  ultimately show "mem_ok (p\<lparr>headers := ?H\<rparr>) bs" using m by (simp add: mem_ok_def)
  have "chained key_links ?H 0 ks 0"
    by (rule chained_cong [of _ "headers p"]) (use k new in \<open>auto simp: key_ok_def key_links_def\<close>)
  moreover have "sorted (map (key_at (p\<lparr>headers := ?H\<rparr>)) ks)"
  proof -
    have e: "map (key_at (p\<lparr>headers := ?H\<rparr>)) ks = map (key_at p) ks" using new(2) by auto
    show ?thesis unfolding e using k by (simp only: key_ok_def)
  qed
  ultimately show "key_ok (p\<lparr>headers := ?H\<rparr>) ks" using k by (simp add: key_ok_def)
qed

lemma getlast_place:
  assumes "key_ok p (us @ vs)" and "key \<noteq> 0"
    and "\<forall>b \<in> set us. key_at p b \<le> key" and "\<forall>b \<in> set vs. key < key_at p b"
  shows "getlast key False p = Some (last (0 # us))"
proof -
  have "last_from p key (last (0 # us @ vs)) = Some (last (0 # us))"
    by (rule last_from_place [of p us vs "[]"]) (use assms in auto)
  moreover have "keys_tail p = last (0 # us @ vs)" using assms(1) by (simp add: key_ok_def)
  ultimately show ?thesis using assms(2) by (simp add: getlast_def matched_def)
qed

lemma malloc_key_block:
  assumes ok: "pool_ok p bs ks" and r: "malloc_key sz key p = Some (Block new, p')" and key: "key \<noteq> 0"
  shows "\<exists>xs ys us vs. bs = xs @ ys \<and> ks = us @ vs \<and> pool_ok p' (xs @ new # ys) (us @ new # vs) \<and>
    (\<forall>b \<in> set us. key_at p b \<le> key) \<and> (\<forall>b \<in> set vs. key < key_at p b) \<and> new \<notin> set bs \<and>
    (\<forall>b \<in> set bs. key_at p' b = key_at p b \<and> blk_size (headers p') b = blk_size (headers p) b) \<and>
    key_at p' new = key \<and> blk_size (headers p') new = sz \<and>
    pool_sem p' = (if pool_sem p = 1 then 2 else pool_sem p)"
proof -
  obtain p1 where p1: "shm_malloc sz p = Some (Block new, p1)"
    using r by (auto simp: malloc_key_def split: bind_splits alloc_result.splits if_splits)
  obtain xs ys h where b: "bs = xs @ ys" "pool_ok p1 (xs @ new # ys) ks" "kept p p1 bs" "new \<notin> set bs"
    "headers p1 new = Some h" "datasize h = sz" "pool_sem p1 = pool_sem p"
    using shm_malloc_block [OF ok p1] by blast
  let ?bs = "xs @ new # ys"
  have nk: "new \<notin> set ks" using ok b(4) by (auto simp: pool_ok_def)
  have n0: "new \<noteq> 0" using mem_ok_header [of p1 ?bs new] b(2) by (auto simp: pool_ok_def)
  have links: "key_links h = (0, 0)" using b(2,5) nk by (auto simp: pool_ok_def)
  define p2 where "p2 = p1\<lparr>headers := (headers p1)(new \<mapsto> h\<lparr>blk_key := key\<rparr>)\<rparr>"
  have m2: "mem_ok p2 ?bs" and k2: "key_ok p2 ks"
    using set_key_ok [OF b(2) _ nk b(5), of key] by (simp_all add: p2_def)
  have set: "set_header new (blk_key_update (\<lambda>_. key)) p1 = Some p2"
    using b(5) n0 by (simp add: set_header_def header_at_def p2_def)
  have sem: "0 < pool_sem p1" using r p1 by (auto simp: malloc_key_def wait_value_def split: if_splits bind_splits)
  obtain us vs where uv: "ks = us @ vs" "\<forall>b \<in> set us. key_at p2 b \<le> key" "\<forall>b \<in> set vs. key < key_at p2 b"
    using split_at_key [OF k2] by blast
  have cur: "getlast key False p2 = Some (last (0 # us))" by (rule getlast_place) (use k2 uv key in auto)
  have sub: "set (us @ vs) \<subseteq> set ?bs" using b(2) uv(1) by (simp add: pool_ok_def)
  obtain p3 where p3: "insert_key new (last (0 # us)) p2 = Some p3" "mem_ok p3 ?bs" "key_ok p3 (us @ new # vs)" "pool_sem p3 = pool_sem p2"
    and same: "\<forall>b \<in> set ?bs. key_at p3 b = key_at p2 b \<and> blk_size (headers p3) b = blk_size (headers p2) b \<and>
       (b \<notin> set (us @ new # vs) \<longrightarrow> key_links (the (headers p3 b)) = key_links (the (headers p2 b)))"
    using insert_key_ok [OF m2 _ sub, of new "h\<lparr>blk_key := key\<rparr>" key] k2 uv nk links
    by (fastforce simp: p2_def key_links_def)
  have p': "p' = p3\<lparr>pool_sem := (if pool_sem p = 1 then 2 else pool_sem p)\<rparr>"
  proof (cases "pool_sem p = 1")
    case True
    then show ?thesis using r p1 set key cur p3(1) b(7)
      by (simp add: malloc_key_def wait_value_def iter_lock_def iter_unlock_def eval_nat_numeral)
  next
    case False
    then have "1 < pool_sem p" "Suc (Suc (pool_sem p - Suc 0 - 1)) = pool_sem p" using sem b(7) by auto
    then show ?thesis using False r p1 set key cur p3(1) b(7)
      by (simp add: malloc_key_def wait_value_def iter_lock_def iter_unlock_def)
  qed
  have old: "key_at p2 b = key_at p b" "blk_size (headers p2) b = blk_size (headers p) b" "key_links (the (headers p2 b)) = key_links (the (headers p1 b))"
    if c: "b \<in> set bs" for b
  proof -
    have "b \<noteq> new" using c b(4) by auto
    moreover obtain h h' where "headers p b = Some h" "headers p1 b = Some h'" "blk_key h' = blk_key h" "datasize h' = datasize h"
      using b(3) c unfolding kept_def by blast
    ultimately show "key_at p2 b = key_at p b" "blk_size (headers p2) b = blk_size (headers p) b" "key_links (the (headers p2 b)) = key_links (the (headers p1 b))"
      by (simp_all add: p2_def blk_size_def)
  qed
  have newkey: "key_at p2 new = key" "blk_size (headers p2) new = sz" using b(6) by (simp_all add: p2_def blk_size_def)
  have "pool_ok p3 ?bs (us @ new # vs)"
    unfolding pool_ok_def
  proof (intro conjI ballI)
    show "mem_ok p3 ?bs" "key_ok p3 (us @ new # vs)" "set (us @ new # vs) \<subseteq> set ?bs" using p3 sub by auto
    fix c assume c: "c \<in> set ?bs"
    have c3: "key_at p3 c = key_at p2 c" "c \<notin> set (us @ new # vs) \<longrightarrow> key_links (the (headers p3 c)) = key_links (the (headers p2 c))"
      using same c by blast+
    show "(key_at p3 c \<noteq> 0) = (c \<in> set (us @ new # vs))" "c \<notin> set (us @ new # vs) \<longrightarrow> key_links (the (headers p3 c)) = (0, 0)"
    proof -
      have "(key_at p3 c \<noteq> 0) = (c \<in> set (us @ new # vs)) \<and> (c \<notin> set (us @ new # vs) \<longrightarrow> key_links (the (headers p3 c)) = (0, 0))"
      proof (cases "c = new")
        case True
        then show ?thesis using c3(1) newkey(1) key by simp
      next
        case False
        then have cb: "c \<in> set bs" using c b(1) by auto
        have "(key_at p c \<noteq> 0) = (c \<in> set ks)" using ok cb unfolding pool_ok_def by blast
        moreover have "c \<notin> set ks \<longrightarrow> key_links (the (headers p1 c)) = (0, 0)" using b(2) c unfolding pool_ok_def by blast
        ultimately show ?thesis using c3 old [OF cb] uv(1) False by auto
      qed
      then show "(key_at p3 c \<noteq> 0) = (c \<in> set (us @ new # vs))" "c \<notin> set (us @ new # vs) \<longrightarrow> key_links (the (headers p3 c)) = (0, 0)"
        by blast+
    qed
  qed
  moreover have "\<forall>b \<in> set us. key_at p b \<le> key" "\<forall>b \<in> set vs. key < key_at p b"
  proof -
    have "set us \<subseteq> set bs" "set vs \<subseteq> set bs" using ok uv(1) by (auto simp: pool_ok_def)
    then show "\<forall>b \<in> set us. key_at p b \<le> key" "\<forall>b \<in> set vs. key < key_at p b"
      using uv(2,3) old(1) by (metis subsetD)+
  qed
  moreover have "key_at p3 b = key_at p b \<and> blk_size (headers p3) b = blk_size (headers p) b" if "b \<in> set bs" for b
    using same old [OF that] that b(1) by auto
  moreover have "key_at p3 new = key" "blk_size (headers p3) new = sz" using same newkey by auto
  ultimately show ?thesis using b(1,4) uv(1) p' by (intro exI [of _ xs] exI [of _ ys] exI [of _ us] exI [of _ vs]) simp
qed

lemma keyed_block_found:
  assumes ok: "pool_ok p bs ks" and r: "malloc_key sz key p = Some (Block new, p')" and key: "key \<noteq> 0"
    and fresh: "\<forall>b \<in> set ks. key_at p b \<noteq> key"
  shows "getfirst key True p' = Some new"
proof -
  obtain xs ys us vs where d: "bs = xs @ ys" "ks = us @ vs" "pool_ok p' (xs @ new # ys) (us @ new # vs)"
    "\<forall>b \<in> set us. key_at p b \<le> key" "\<forall>b \<in> set bs. key_at p' b = key_at p b" "key_at p' new = key"
    using malloc_key_block [OF ok r key] by blast
  have k: "key_ok p' (us @ new # vs)" and "set ks \<subseteq> set bs" using d(3) ok by (simp_all add: pool_ok_def)
  then have "\<forall>b \<in> set us. key_at p' b < key" using d(2,4,5) fresh by (fastforce simp: less_le)
  then have "first_from p' key (hd ((us @ new # vs) @ [0])) = Some (hd ((new # vs) @ [0]))"
    by (intro first_from_place [of p' "[]"]) (use k d(6) in auto)
  moreover have "keys_head p' = hd ((us @ new # vs) @ [0])" using k by (simp add: key_ok_def)
  moreover obtain h where "header_at p' new = Some h" "headers p' new = Some h" "new \<noteq> 0" using key_chain_at [OF k] by blast
  ultimately show ?thesis using key d(6) by (simp add: getfirst_def matched_def)
qed

lemma keyed_block_last:
  assumes ok: "pool_ok p bs ks" and r: "malloc_key sz key p = Some (Block new, p')" and key: "key \<noteq> 0"
  shows "getlast key True p' = Some new"
proof -
  obtain xs ys us vs where d: "bs = xs @ ys" "ks = us @ vs" "pool_ok p' (xs @ new # ys) (us @ new # vs)"
    "\<forall>b \<in> set vs. key < key_at p b" "\<forall>b \<in> set bs. key_at p' b = key_at p b" "key_at p' new = key"
    using malloc_key_block [OF ok r key] by blast
  have k: "key_ok p' ((us @ [new]) @ vs @ [])" and "set ks \<subseteq> set bs" using d(3) ok by (simp_all add: pool_ok_def)
  then have "\<forall>b \<in> set vs. key < key_at p' b" using d(2,4,5) by fastforce
  then have "last_from p' key (last (0 # (us @ [new]) @ vs)) = Some (last (0 # us @ [new]))"
    by (intro last_from_place [OF k]) (use d(6) in auto)
  moreover have "keys_tail p' = last (0 # (us @ [new]) @ vs)" using k by (simp add: key_ok_def)
  moreover obtain h where "header_at p' new = Some h" "headers p' new = Some h" "new \<noteq> 0"
    using key_chain_at [of p' us new vs] k by auto
  ultimately show ?thesis using key d(6) by (simp add: getlast_def matched_def)
qed

text \<open>
  The iterator inside \<open>malloc_key\<close> does not get the semaphore its caller holds, and releases it all
  the same: a pool whose semaphore is 1 is left with 2, so the next two lockers both get in.
\<close>

lemma malloc_key_raises_semaphore:
  assumes "pool_ok p bs ks" and "malloc_key sz key p = Some (Block new, p')" and "key \<noteq> 0" and "pool_sem p = 1"
  shows "pool_sem p' = 2"
  using malloc_key_block [OF assms(1-3)] assms(4) by auto

text \<open>
  C32. In a pool in order (which ends below \<open>2 ^ 31\<close>), a block allocated with a key not in use before is the one a search by that key finds, from the
  front of the key chain and from its end, whatever blocks were keyed before it; both chains stay well
  formed, with the new block in each.
\<close>

theorem keyed_block_is_found:
  assumes "pool_ok p bs ks" and "malloc_key sz key p = Some (Block new, p')" and "key \<noteq> 0"
    and "\<forall>b \<in> set ks. blk_key (the (headers p b)) \<noteq> key"
  shows "getfirst key True p' = Some new \<and> getlast key True p' = Some new \<and>
    (\<exists>bs' ks'. pool_ok p' bs' ks' \<and> set bs' = insert new (set bs) \<and> set ks' = insert new (set ks))"
proof -
  obtain xs ys us vs where "bs = xs @ ys" "ks = us @ vs" "pool_ok p' (xs @ new # ys) (us @ new # vs)"
    using malloc_key_block [OF assms(1-3)] by blast
  then show ?thesis
    using keyed_block_found [OF assms] keyed_block_last [OF assms(1-3)]
    by (intro conjI exI [of _ "xs @ new # ys"] exI [of _ "us @ new # vs"]) auto
qed

lemma two_blocks_malloc_key: "map_option fst (malloc_key 10 5 two_blocks) = Some (Block 192)"
  by (simp add: malloc_key_def malloc_eval getlast_def matched_def insert_key_def last_from.simps)

theorem keyed_block_is_found_witness:
  "\<exists>p'. malloc_key 10 5 two_blocks = Some (Block 192, p') \<and> getfirst 5 True p' = Some 192"
proof -
  obtain p' where p': "malloc_key 10 5 two_blocks = Some (Block 192, p')" using two_blocks_malloc_key by auto
  then show ?thesis using keyed_block_is_found [OF two_blocks_ok(1) p'] by simp
qed

end
