(* ===== verification/Alloc_Spec.thy ===== *)
theory Alloc_Spec
  imports Prelude
begin

text \<open>
  The contract of an allocator, which both the shared-memory allocator and the memory pools keep: what an
  allocation returns was not in use and is in use from then on; and what a release gives back.
\<close>

section \<open>Several allocations\<close>

fun allocs :: "('n \<Rightarrow> 's \<Rightarrow> ('a set \<times> 's) option) \<Rightarrow> 'n list \<Rightarrow> 's \<Rightarrow> ('a set list \<times> 's) option" where
  "allocs alloc [] s = Some ([], s)"
| "allocs alloc (n # ns) s =
     do { (A, s1) \<leftarrow> alloc n s; (As, s2) \<leftarrow> allocs alloc ns s1; Some (A # As, s2) }"

text \<open>A request or a release.\<close>

datatype ('n, 'h) alloc_op = Request 'n | Release 'h

fun alloc_do :: "('n \<Rightarrow> 's \<Rightarrow> ('a set \<times> 's) option) \<Rightarrow> ('h \<Rightarrow> 's \<Rightarrow> 's option) \<Rightarrow> ('n, 'h) alloc_op \<Rightarrow> 's \<Rightarrow> 's option" where
  "alloc_do alloc release (Request n) s = map_option snd (alloc n s)"
| "alloc_do alloc release (Release h) s = release h s"

text \<open>No release of the sequence gives back a byte of \<open>A\<close>.\<close>

fun spares :: "('n \<Rightarrow> 's \<Rightarrow> ('a set \<times> 's) option) \<Rightarrow> ('h \<Rightarrow> 's \<Rightarrow> 's option) \<Rightarrow> ('h \<Rightarrow> 's \<Rightarrow> 'a set) \<Rightarrow> 'a set \<Rightarrow> ('n, 'h) alloc_op list \<Rightarrow> 's \<Rightarrow> bool" where
  "spares alloc release region A [] s = True"
| "spares alloc release region A (x # xs) s =
     ((case x of Request n \<Rightarrow> True | Release h \<Rightarrow> region h s \<inter> A = {}) \<and>
      (case alloc_do alloc release x s of None \<Rightarrow> True | Some s1 \<Rightarrow> spares alloc release region A xs s1))"

section \<open>The contracts\<close>

locale allocator =
  fixes inv :: "'s \<Rightarrow> bool"
    and live :: "'s \<Rightarrow> 'a set"
    and alloc :: "'n \<Rightarrow> 's \<Rightarrow> ('a set \<times> 's) option"
  assumes alloc_inv: "inv s \<Longrightarrow> alloc n s = Some (A, s') \<Longrightarrow> inv s'"
    and alloc_fresh: "inv s \<Longrightarrow> alloc n s = Some (A, s') \<Longrightarrow> A \<inter> live s = {}"
    and alloc_live: "inv s \<Longrightarrow> alloc n s = Some (A, s') \<Longrightarrow> live s \<union> A \<subseteq> live s'"
begin

lemma allocs_live:
  "allocs alloc ns s = Some (As, s') \<Longrightarrow> inv s \<Longrightarrow>
   inv s' \<and> live s \<subseteq> live s' \<and> (\<forall>A \<in> set As. A \<inter> live s = {} \<and> A \<subseteq> live s')"
proof (induction ns arbitrary: s As)
  case (Cons n ns)
  obtain A s1 where a: "alloc n s = Some (A, s1)" using Cons.prems(1) by (auto split: bind_splits)
  obtain Bs where b: "allocs alloc ns s1 = Some (Bs, s')" "As = A # Bs" using Cons.prems(1) a by (auto split: bind_splits)
  note IH = Cons.IH [OF b(1) alloc_inv [OF Cons.prems(2) a]]
  have l: "live s \<subseteq> live s1" "A \<subseteq> live s1" "A \<inter> live s = {}"
    using alloc_live [OF Cons.prems(2) a] alloc_fresh [OF Cons.prems(2) a] by auto
  have "B \<inter> live s = {} \<and> B \<subseteq> live s'" if "B \<in> set Bs" for B using IH l(1) that by blast
  then show ?case using IH l b(2) by auto
qed simp

lemma allocs_disjoint:
  "allocs alloc ns s = Some (As, s') \<Longrightarrow> inv s \<Longrightarrow> i < j \<Longrightarrow> j < length As \<Longrightarrow> As ! i \<inter> As ! j = {}"
proof (induction ns arbitrary: s As i j)
  case (Cons n ns)
  obtain A s1 where a: "alloc n s = Some (A, s1)" using Cons.prems(1) by (auto split: bind_splits)
  obtain Bs where b: "allocs alloc ns s1 = Some (Bs, s')" "As = A # Bs" using Cons.prems(1) a by (auto split: bind_splits)
  note s1 = alloc_inv [OF Cons.prems(2) a]
  obtain k where k: "j = Suc k" "k < length Bs" using Cons.prems(3,4) b(2) by (cases j) auto
  show ?case
  proof (cases i)
    case 0
    have "Bs ! k \<inter> live s1 = {}" using allocs_live [OF b(1) s1] k(2) by auto
    then show ?thesis using 0 k b(2) alloc_live [OF Cons.prems(2) a] by auto
  next
    case (Suc l)
    then show ?thesis using Cons.IH [OF b(1) s1, of l k] Cons.prems(3) k b(2) by simp
  qed
qed simp

end

locale freeing_allocator = allocator inv live alloc
  for inv :: "'s \<Rightarrow> bool" and live :: "'s \<Rightarrow> 'a set" and alloc :: "'n \<Rightarrow> 's \<Rightarrow> ('a set \<times> 's) option" +
  fixes release :: "'h \<Rightarrow> 's \<Rightarrow> 's option"
    and region :: "'h \<Rightarrow> 's \<Rightarrow> 'a set"
  assumes release_inv: "inv s \<Longrightarrow> release h s = Some s' \<Longrightarrow> inv s'"
    and release_live: "inv s \<Longrightarrow> release h s = Some s' \<Longrightarrow> live s' = live s - region h s"
begin

text \<open>What is in use stays in use until it is released, and is not handed out again.\<close>

lemma stays_live:
  "fold_option (alloc_do alloc release) xs s = Some s' \<Longrightarrow> inv s \<Longrightarrow> A \<subseteq> live s \<Longrightarrow> spares alloc release region A xs s \<Longrightarrow>
   inv s' \<and> A \<subseteq> live s'"
proof (induction xs arbitrary: s)
  case (Cons x xs)
  obtain s1 where s1: "alloc_do alloc release x s = Some s1" "fold_option (alloc_do alloc release) xs s1 = Some s'"
    using Cons.prems(1) by (auto split: option.splits)
  have sp: "spares alloc release region A xs s1" using Cons.prems(4) s1(1) by simp
  have "inv s1 \<and> A \<subseteq> live s1"
  proof (cases x)
    case (Request n)
    then obtain B where "alloc n s = Some (B, s1)" using s1(1) by auto
    then show ?thesis using alloc_inv alloc_live Cons.prems(2,3) by blast
  next
    case (Release h)
    then have "release h s = Some s1" "region h s \<inter> A = {}" using s1(1) Cons.prems(4) by auto
    then show ?thesis using release_inv release_live Cons.prems(2,3) by blast
  qed
  then show ?case using Cons.IH [OF s1(2)] sp by blast
qed simp

lemma not_handed_out_again:
  assumes "fold_option (alloc_do alloc release) xs s = Some s1" and "inv s" and "A \<subseteq> live s" and "spares alloc release region A xs s"
    and "alloc n s1 = Some (B, s2)"
  shows "A \<inter> B = {}"
  using stays_live [OF assms(1-4)] alloc_fresh [OF _ assms(5)] by blast

end

end
