(* ===== verification/Shm_Spec.thy ===== *)
theory Shm_Spec
  imports Shm_Keys Alloc_Spec
begin

text \<open>The shared-memory allocator keeps the contract of an allocator that frees.\<close>

section \<open>The bytes in use\<close>

lemma chain_unique:
  "chained sel H p bs e \<Longrightarrow> chained sel H p cs e \<Longrightarrow> hd (bs @ [e]) = hd (cs @ [e]) \<Longrightarrow> e \<notin> set bs \<Longrightarrow> e \<notin> set cs \<Longrightarrow> bs = cs"
proof (induction bs arbitrary: p cs)
  case Nil
  then show ?case by (cases cs) auto
next
  case (Cons b bs)
  then obtain cs' where c: "cs = b # cs'" by (cases cs) auto
  have "hd (bs @ [e]) = hd (cs' @ [e])" using Cons.prems(1,2) c by auto
  then show ?case using Cons.IH [of b cs'] Cons.prems c by auto
qed

lemma pool_blocks_unique:
  assumes "pool_ok p bs ks" and "pool_ok p cs ls"
  shows "bs = cs"
proof -
  have e: "mem_end p \<notin> set bs" if "pool_ok p bs ks" for bs ks
    using that spaced_ge [of "headers p" "mem_start p" bs "mem_end p" "mem_end p"] by (auto simp: pool_ok_def mem_ok_def)
  show ?thesis
    using chain_unique [of mem_links "headers p" 0 bs "mem_end p" cs] assms e [OF assms(1)] e [OF assms(2)]
    by (simp add: pool_ok_def mem_ok_def)
qed

definition block_bytes :: "pool \<Rightarrow> nat \<Rightarrow> nat set" where
  "block_bytes p b = {b ..< b + 48 + blk_size (headers p) b}"

definition shm_ok :: "pool \<Rightarrow> bool" where
  "shm_ok p \<longleftrightarrow> (\<exists>bs ks. pool_ok p bs ks) \<and> 0 < pool_sem p"

definition shm_live :: "pool \<Rightarrow> nat set" where
  "shm_live p = {x. \<exists>bs ks b. pool_ok p bs ks \<and> b \<in> set bs \<and> x \<in> block_bytes p b}"

lemma shm_live_eq: "pool_ok p bs ks \<Longrightarrow> shm_live p = (\<Union>b \<in> set bs. block_bytes p b)"
  using pool_blocks_unique by (fastforce simp: shm_live_def)

text \<open>A request for some bytes with its area, header and data; the release of a block in use.\<close>

definition shm_request :: "nat \<Rightarrow> pool \<Rightarrow> (nat set \<times> pool) option" where
  "shm_request sz p =
     (case shm_malloc sz p of Some (Block b, p') \<Rightarrow> Some ({b ..< b + 48 + sz}, p') | _ \<Rightarrow> None)"

definition shm_region :: "nat \<Rightarrow> pool \<Rightarrow> nat set" where
  "shm_region b p = block_bytes p b"

definition shm_release :: "nat \<Rightarrow> pool \<Rightarrow> pool option" where
  "shm_release b p = (if b \<in> shm_live p \<and> (\<exists>bs ks. pool_ok p bs ks \<and> b \<in> set bs) then shm_free b p else None)"

lemma shm_request_laws:
  assumes "shm_ok p" and "shm_request sz p = Some (A, p')"
  shows "shm_ok p'" "A \<inter> shm_live p = {}" "shm_live p \<union> A \<subseteq> shm_live p'"
proof -
  obtain bs ks where ok: "pool_ok p bs ks" and sem: "0 < pool_sem p" using assms(1) by (auto simp: shm_ok_def)
  obtain new where n: "shm_malloc sz p = Some (Block new, p')" "A = {new ..< new + 48 + sz}"
    using assms(2) by (auto simp: shm_request_def split: option.splits alloc_result.splits prod.splits)
  obtain xs ys h where r: "bs = xs @ ys" "pool_ok p' (xs @ new # ys) ks" "kept p p' bs" "new \<notin> set bs"
    "headers p' new = Some h" "datasize h = sz" "pool_sem p' = pool_sem p"
    using shm_malloc_block [OF ok n(1)] by blast
  show "shm_ok p'" using r(2,7) sem by (auto simp: shm_ok_def)
  have l: "shm_live p = (\<Union>b \<in> set bs. block_bytes p b)" "shm_live p' = (\<Union>b \<in> set (xs @ new # ys). block_bytes p' b)"
    by (rule shm_live_eq [OF ok], rule shm_live_eq [OF r(2)])
  have same: "block_bytes p' b = block_bytes p b" if "b \<in> set bs" for b
    using kept_size [OF r(3) that] by (simp add: block_bytes_def)
  have new: "block_bytes p' new = A" using r(5,6) n(2) by (simp add: block_bytes_def blk_size_def)
  have sp: "spaced (headers p') (mem_start p') (xs @ new # ys) (mem_end p')" using r(2) by (simp add: pool_ok_def mem_ok_def)
  have "block_bytes p' b \<inter> block_bytes p' new = {}" if b: "b \<in> set bs" for b
  proof -
    have "b \<noteq> new" using b r(4) by auto
    then have "b + 48 + blk_size (headers p') b \<le> new \<or> new + 48 + blk_size (headers p') new \<le> b"
      using spaced_disjoint [OF sp, of b new] b r(1) by auto
    then show ?thesis by (auto simp: block_bytes_def)
  qed
  then show "A \<inter> shm_live p = {}" unfolding l(1) using same new by blast
  show "shm_live p \<union> A \<subseteq> shm_live p'" unfolding l using same new r(1) by auto
qed

lemma shm_release_laws:
  assumes "shm_ok p" and "shm_release b p = Some p'"
  shows "shm_ok p'" "shm_live p' = shm_live p - shm_region b p"
proof -
  obtain bs ks where ok: "pool_ok p bs ks" and b: "b \<in> set bs" and f: "shm_free b p = Some p'"
    using assms(2) by (auto simp: shm_release_def split: if_splits)
  have sem: "0 < pool_sem p" using assms(1) by (simp add: shm_ok_def)
  have r: "pool_ok p' (remove1 b bs) (remove1 b ks)" "pool_sem p' = pool_sem p"
    "\<forall>c \<in> set bs - {b}. blk_size (headers p') c = blk_size (headers p) c"
    using shm_free_ok [OF ok b sem] f by auto
  show "shm_ok p'" using r(1,2) sem by (auto simp: shm_ok_def)
  have d: "distinct bs" using ok by (auto simp: pool_ok_def dest: mem_ok_distinct)
  have sp: "spaced (headers p) (mem_start p) bs (mem_end p)" using ok by (simp add: pool_ok_def mem_ok_def)
  have "block_bytes p' c = block_bytes p c" "block_bytes p c \<inter> block_bytes p b = {}" if c: "c \<in> set bs - {b}" for c
  proof -
    show "block_bytes p' c = block_bytes p c" using r(3) c by (simp add: block_bytes_def)
    have "c + 48 + blk_size (headers p) c \<le> b \<or> b + 48 + blk_size (headers p) b \<le> c"
      using spaced_disjoint [OF sp, of c b] c b by auto
    then show "block_bytes p c \<inter> block_bytes p b = {}" by (auto simp: block_bytes_def)
  qed
  then show "shm_live p' = shm_live p - shm_region b p"
    unfolding shm_live_eq [OF ok] shm_live_eq [OF r(1)] shm_region_def using d b by auto
qed

text \<open>The bounds of the pool never change, and the blocks lie between them.\<close>

definition shm_within :: "nat \<Rightarrow> nat \<Rightarrow> pool \<Rightarrow> bool" where
  "shm_within lo hi p \<longleftrightarrow> shm_ok p \<and> mem_start p = lo \<and> mem_end p = hi"

lemma set_header_bounds: "set_header a f p = Some p' \<Longrightarrow> mem_start p' = mem_start p \<and> mem_end p' = mem_end p"
  by (auto simp: set_header_def split: option.splits)

lemma shm_free_bounds: "shm_free b p = Some p' \<Longrightarrow> mem_start p' = mem_start p \<and> mem_end p' = mem_end p"
  by (auto simp: shm_free_def unlink_keys_def unlink_mem_def dest!: set_header_bounds split: bind_splits if_splits)

lemma shm_request_bounds:
  assumes "shm_ok p" and "shm_request sz p = Some (A, p')"
  shows "mem_start p' = mem_start p \<and> mem_end p' = mem_end p"
proof -
  obtain bs ks where ok: "pool_ok p bs ks" using assms(1) by (auto simp: shm_ok_def)
  obtain new where "shm_malloc sz p = Some (Block new, p')"
    using assms(2) by (auto simp: shm_request_def split: option.splits alloc_result.splits prod.splits)
  then show ?thesis using shm_malloc_block [OF ok, of sz new p'] by (auto simp: kept_def)
qed

lemma shm_live_within: "shm_within lo hi p \<Longrightarrow> shm_live p \<subseteq> {lo ..< hi}"
proof -
  assume w: "shm_within lo hi p"
  then obtain bs ks where ok: "pool_ok p bs ks" by (auto simp: shm_within_def shm_ok_def)
  then have sp: "spaced (headers p) (mem_start p) bs (mem_end p)" by (simp add: pool_ok_def mem_ok_def)
  have "block_bytes p b \<subseteq> {lo ..< hi}" if "b \<in> set bs" for b
    using spaced_ge [OF sp that] w by (auto simp: block_bytes_def shm_within_def)
  then show ?thesis unfolding shm_live_eq [OF ok] by blast
qed

interpretation sh: freeing_allocator "shm_within lo hi" shm_live shm_request shm_release shm_region
  for lo hi
proof
  fix p sz A p'
  assume p: "shm_within lo hi p" and r: "shm_request sz p = Some (A, p')"
  then have ok: "shm_ok p" by (simp add: shm_within_def)
  show "shm_within lo hi p'" using shm_request_laws(1) [OF ok r] shm_request_bounds [OF ok r] p by (simp add: shm_within_def)
  show "A \<inter> shm_live p = {}" "shm_live p \<union> A \<subseteq> shm_live p'" by (rule shm_request_laws [OF ok r])+
next
  fix p b p'
  assume p: "shm_within lo hi p" and r: "shm_release b p = Some p'"
  then have ok: "shm_ok p" by (simp add: shm_within_def)
  have "shm_free b p = Some p'" using r by (simp add: shm_release_def split: if_splits)
  then show "shm_within lo hi p'" using shm_release_laws(1) [OF ok r] shm_free_bounds p by (simp add: shm_within_def)
  show "shm_live p' = shm_live p - shm_region b p" by (rule shm_release_laws(2) [OF ok r])
qed

section \<open>Properties\<close>

text \<open>
  C9. A block is nobody else's until it is freed. Whatever is allocated without a key and freed after
  it, a later block of the pool shares no byte, of header or data, with an earlier one that has not been freed,
  and both lie between the bounds \<open>mem_start\<close> and \<open>mem_end\<close> the pool was created with. Premise: the pool
  is in order (\<open>shm_ok\<close>), which includes that \<open>mem_end\<close> is below \<open>2 ^ 31\<close>; with the default size in
  \<open>main.c\<close> it is not. (\<open>pool_reset\<close> sets \<open>mem_end\<close> behind the segment by the pool's own header, so the last
  block may end behind the segment: \<open>pool_end_overruns\<close>.)
\<close>

theorem shm_blocks_stay_apart:
  assumes "shm_ok p" and "shm_request sz p = Some (A, p1)" and "fold_option (alloc_do shm_request shm_release) xs p1 = Some p2"
    and "spares shm_request shm_release shm_region A xs p1" and "shm_request sz' p2 = Some (B, p3)"
  shows "A \<inter> B = {} \<and> A \<subseteq> {mem_start p ..< mem_end p} \<and> B \<subseteq> {mem_start p ..< mem_end p}"
proof -
  have w: "shm_within (mem_start p) (mem_end p) p" using assms(1) by (simp add: shm_within_def)
  note w1 = sh.alloc_inv [OF w assms(2)]
  have A: "A \<subseteq> shm_live p1" using sh.alloc_live [OF w assms(2)] by simp
  have w2: "shm_within (mem_start p) (mem_end p) p2" using sh.stays_live [OF assms(3) w1 A assms(4)] by simp
  note w3 = sh.alloc_inv [OF w2 assms(5)]
  show ?thesis
    using sh.not_handed_out_again [OF assms(3) w1 A assms(4,5)] A shm_live_within [OF w1]
      sh.alloc_live [OF w2 assms(5)] shm_live_within [OF w3] by auto
qed

theorem shm_blocks_stay_apart_witness:
  "\<exists>p1 p2 p3. shm_request 100 two_blocks = Some ({192 ..< 340}, p1) \<and> shm_request 8 p1 = Some ({340 ..< 396}, p2) \<and>
     shm_request 16 p2 = Some ({396 ..< 460}, p3) \<and> {192 ..< 340 :: nat} \<inter> {396 ..< 460} = {} \<and>
     {192 ..< 340} \<subseteq> {mem_start two_blocks ..< mem_end two_blocks} \<and> {396 ..< 460} \<subseteq> {mem_start two_blocks ..< mem_end two_blocks}"
proof -
  have ok: "shm_ok two_blocks" using two_blocks_ok by (auto simp: shm_ok_def)
  obtain p1 p2 p3 where r: "shm_request 100 two_blocks = Some ({192 ..< 340}, p1)" "shm_request 8 p1 = Some ({340 ..< 396}, p2)"
    "shm_request 16 p2 = Some ({396 ..< 460}, p3)"
    by (simp add: shm_request_def malloc_eval malloc_walk.simps)
  have "{192 ..< 340 :: nat} \<inter> {396 ..< 460} = {} \<and>
     {192 ..< 340} \<subseteq> {mem_start two_blocks ..< mem_end two_blocks} \<and> {396 ..< 460} \<subseteq> {mem_start two_blocks ..< mem_end two_blocks}"
    by (rule shm_blocks_stay_apart [OF ok r(1) _ _ r(3), of "[Request 8]"]) (simp_all add: r(2))
  then show ?thesis using r by blast
qed

end
