(* ===== verification/Ini_File.thy ===== *)
theory Ini_File
  imports G_String
begin

text \<open>
  \<open>iniprocess.c\<close>: the configuration file. A file is the list of its characters, read with
  \<open>fgets(_buf, 256, _fd)\<close> into the lines \<^term>\<open>fgets_lines 256 content\<close>; a line holds
  \<open>KEY = VALUE\<close> as its words 1 and 3. The writer is modelled as it is, with the lines it drops.
  (Section names are short literals in the program: the test of the closing bracket is modelled
  inside the 128-byte word buffer.)
\<close>

section \<open>Reading\<close>

text \<open>\<open>_section[0]=='[' && *(_section+strlen(__section)+1)==']'\<close>\<close>

definition ini_header :: "cstring \<Rightarrow> cstring \<Rightarrow> bool" where
  "ini_header sec buf =
     (let w = get_ward buf 1 128
      in w \<noteq> [] \<and> hd w = CHR ''['' \<and> length sec + 1 < length w \<and> w ! (length sec + 1) = CHR '']'')"

definition ini_match :: "cstring \<Rightarrow> cstring \<Rightarrow> bool" where
  "ini_match sec buf = strneq (tl (get_ward buf 1 128)) sec (length sec)"

text \<open>The key loop; \<open>skip\<close> is the comment test only \<open>read_ini_int\<close> has.\<close>

fun read_keys :: "bool \<Rightarrow> cstring \<Rightarrow> cstring list \<Rightarrow> cstring option" where
  "read_keys skip key [] = None"
| "read_keys skip key (buf # lines) =
     (if skip \<and> buf \<noteq> [] \<and> (hd buf = CHR ''#'' \<or> hd buf = LF) then read_keys skip key lines
      else
        let k = get_ward buf 1 128 in
        if k \<noteq> [] \<and> hd k = CHR ''['' then None
        else if k \<noteq> key then read_keys skip key lines
        else Some (get_ward buf 3 128))"

fun read_sections :: "bool \<Rightarrow> cstring \<Rightarrow> cstring \<Rightarrow> cstring list \<Rightarrow> cstring option" where
  "read_sections skip sec key [] = None"
| "read_sections skip sec key (buf # lines) =
     (if ini_header sec buf \<and> ini_match sec buf then read_keys skip key lines
      else read_sections skip sec key lines)"

definition read_ini_string :: "cstring option \<Rightarrow> cstring \<Rightarrow> cstring \<Rightarrow> cstring \<Rightarrow> cstring" where
  "read_ini_string file sec key dflt =
     (case file of
        None \<Rightarrow> dflt
      | Some content \<Rightarrow>
          (case read_sections False sec key (fgets_lines 256 content) of None \<Rightarrow> dflt | Some v \<Rightarrow> v))"

definition read_ini_int :: "cstring option \<Rightarrow> cstring \<Rightarrow> cstring \<Rightarrow> int \<Rightarrow> int" where
  "read_ini_int file sec key dflt =
     (case file of
        None \<Rightarrow> dflt
      | Some content \<Rightarrow>
          (case read_sections True sec key (fgets_lines 256 content) of None \<Rightarrow> dflt | Some v \<Rightarrow> atoi v))"

section \<open>Writing\<close>

definition key_line :: "cstring \<Rightarrow> cstring \<Rightarrow> cstring" where
  "key_line key val = key @ '' = '' @ val @ [LF]"

text \<open>
  The inner loop over the lines of the section: the chunks written, the buffer and the flag
  \<open>_if_add\<close> when it stops. A line that is not the key is copied and the buffer cleared; at the
  end of the file the buffer keeps what it had.
\<close>

fun write_keys :: "cstring \<Rightarrow> cstring \<Rightarrow> cstring \<Rightarrow> bool \<Rightarrow> cstring list \<Rightarrow> cstring list \<times> cstring \<times> bool" where
  "write_keys key val buf add [] = ([], buf, add)"
| "write_keys key val buf add (b # lines) =
     (let k = get_ward b 1 128 in
      if k \<noteq> [] \<and> hd k = CHR ''['' then ([], b, add)
      else if k \<noteq> key then
        (case write_keys key val [] add lines of (out, buf', add') \<Rightarrow> (b # out, buf', add'))
      else
        (case write_keys key val [] True lines of (out, buf', add') \<Rightarrow> (key_line key val # out, buf', add')))"

text \<open>
  The outer loop. Once the key has been written it ends after one more \<open>fgets\<close>: nothing
  behind the section is copied.
\<close>

fun write_sections :: "cstring \<Rightarrow> cstring \<Rightarrow> cstring \<Rightarrow> cstring list \<Rightarrow> cstring list \<times> bool" where
  "write_sections sec key val [] = ([], False)"
| "write_sections sec key val (b # lines) =
     (if ini_header sec b \<and> ini_match sec b then
        (case write_keys key val b False lines of (out, buf, add) \<Rightarrow>
           (b # out @ (if add then [] else [key_line key val, buf]), True))
      else (case write_sections sec key val lines of (out, add) \<Rightarrow> (b # out, add)))"

definition write_ini_chunks :: "cstring \<Rightarrow> cstring \<Rightarrow> cstring \<Rightarrow> cstring \<Rightarrow> cstring list" where
  "write_ini_chunks content sec key val =
     (case write_sections sec key val (fgets_lines 256 content) of (out, add) \<Rightarrow>
        out @ (if add then [] else [CHR ''['' # sec @ [CHR '']'', LF], key_line key val]))"

text \<open>
  \<open>write_ini_string\<close> on a file that may not exist; \<^const>\<open>None\<close> when the name does not fit the
  128-byte buffer. (Opening both files is taken to succeed.)
\<close>

definition write_ini_string ::
  "cstring \<Rightarrow> cstring option \<Rightarrow> cstring \<Rightarrow> cstring \<Rightarrow> cstring \<Rightarrow> cstring option" where
  "write_ini_string name file sec key val =
     (if 128 \<le> length name + 4 then None
      else Some (concat (write_ini_chunks (case file of None \<Rightarrow> [] | Some c \<Rightarrow> c) sec key val)))"

definition write_ini_int ::
  "cstring \<Rightarrow> cstring option \<Rightarrow> cstring \<Rightarrow> cstring \<Rightarrow> int \<Rightarrow> cstring option" where
  "write_ini_int name file sec key val = write_ini_string name file sec key (show_int val)"

section \<open>Lines\<close>

text \<open>A text file: every line is short and ends with a newline.\<close>

definition text_line :: "cstring \<Rightarrow> bool" where
  "text_line c = (c \<noteq> [] \<and> last c = LF \<and> LF \<notin> set (butlast c) \<and> length c < 256 \<and> NUL \<notin> set c)"

lemma fgets_lines_chunks:
  assumes "\<forall>c \<in> set cs. text_line c"
  shows "fgets_lines 256 (concat cs) = cs"
proof -
  let ?ls = "map butlast cs"
  have cs: "map (\<lambda>l. l @ [LF]) ?ls = cs"
    using assms by (auto simp: text_line_def comp_def intro!: map_idI) (metis append_butlast_last_id)
  have "fgets_lines 256 (concat (map (\<lambda>l. l @ [LF]) ?ls)) = map (\<lambda>l. l @ [LF]) ?ls"
    by (rule fgets_lines_concat) (use assms in \<open>force simp: text_line_def\<close>)
  then show ?thesis by (simp only: cs)
qed

text \<open>What a key, a value and a section name must be to be told apart by the reader.\<close>

definition ini_word :: "cstring \<Rightarrow> bool" where
  "ini_word w = (w \<noteq> [] \<and> (\<forall>c \<in> set w. \<not> ward_sep c \<and> c \<noteq> NUL) \<and> length w < 100)"

definition ini_key :: "cstring \<Rightarrow> bool" where
  "ini_key k = (ini_word k \<and> hd k \<noteq> CHR ''['' \<and> hd k \<noteq> CHR ''#'')"

definition ini_section :: "cstring \<Rightarrow> bool" where
  "ini_section s = ((\<forall>c \<in> set s. \<not> ward_sep c \<and> c \<noteq> NUL) \<and> length s < 100)"

lemma ward_sep_consts [simp]: "ward_sep SPC" "ward_sep LF" "\<not> ward_sep (CHR ''='')" "\<not> ward_sep (CHR ''['')" "\<not> ward_sep (CHR '']'')"
  by (simp_all add: ward_sep_def)

lemma words_key_line:
  assumes "ini_word k" and "ini_word v"
  shows "words (key_line k v) = [k, ''='', v]"
proof -
  have k: "words (k @ SPC # r) = k # words r" for r
    by (rule words_word) (use assms(1) in \<open>auto simp: ini_word_def\<close>)
  have e: "words (''='' @ SPC # r) = ''='' # words r" for r
    using words_word [of "''=''" SPC r] by (simp add: ward_sep_def)
  have v: "words (v @ LF # []) = v # words []"
    by (rule words_word) (use assms(2) in \<open>auto simp: ini_word_def\<close>)
  have "key_line k v = k @ SPC # (''='' @ SPC # (v @ LF # []))" by (simp add: key_line_def)
  then show ?thesis by (simp only: k e v words.simps(1))
qed

lemma NUL_key_line: "ini_word k \<Longrightarrow> ini_word v \<Longrightarrow> NUL \<notin> set (key_line k v)"
  by (auto simp: key_line_def ini_word_def)

lemma ward_key_line [simp]:
  assumes "ini_word k" and "ini_word v"
  shows "get_ward (key_line k v) (Suc 0) 128 = k" "get_ward (key_line k v) 3 128 = v"
  using assms get_ward_words [OF NUL_key_line [OF assms], of 1 128] get_ward_words [OF NUL_key_line [OF assms], of 3 128]
  by (simp_all add: words_key_line) (simp_all add: ini_word_def)

lemma text_line_key_line: "ini_word k \<Longrightarrow> ini_word v \<Longrightarrow> text_line (key_line k v)"
  by (auto simp: text_line_def key_line_def ini_word_def ward_sep_def butlast_append)

lemma header_line:
  assumes "ini_section sec"
  shows "ini_header sec (CHR ''['' # sec @ [CHR '']'', LF])" "ini_match sec (CHR ''['' # sec @ [CHR '']'', LF])"
    "text_line (CHR ''['' # sec @ [CHR '']'', LF])"
proof -
  let ?w = "CHR ''['' # sec @ [CHR '']'']"
  have nosep: "\<not> ward_sep x" if "x \<in> set ?w" for x
  proof -
    from that have "x = CHR ''['' \<or> x \<in> set sec \<or> x = CHR '']''" by (simp add: disj_ac)
    then show ?thesis using assms by (elim disjE) (simp_all add: ini_section_def)
  qed
  have w: "words (?w @ LF # []) = ?w # words []"
    by (rule words_word [OF _ nosep]) simp_all
  have n: "NUL \<notin> set (?w @ LF # [])" using assms by (auto simp: ini_section_def)
  have "length ?w \<le> 128" using assms by (simp add: ini_section_def)
  then have "get_ward (?w @ LF # []) 1 128 = ?w"
    unfolding get_ward_words [OF n zero_less_one] w by simp
  then show "ini_header sec (CHR ''['' # sec @ [CHR '']'', LF])" "ini_match sec (CHR ''['' # sec @ [CHR '']'', LF])"
    by (auto simp: ini_header_def ini_match_def strneq_def nth_append Let_def)
  show "text_line (CHR ''['' # sec @ [CHR '']'', LF])"
    using assms by (auto simp: text_line_def ini_section_def ward_sep_def butlast_append)
qed

section \<open>Reading back what was written\<close>

lemma write_keys_add: "write_keys key val buf True lines = (out, buf', add') \<Longrightarrow> add'"
  by (induction lines arbitrary: buf out) (auto simp: Let_def split: if_splits prod.splits)

lemma write_keys_text:
  assumes "write_keys key val buf add lines = (out, buf', add')" and "ini_word key" and "ini_word val"
    and "\<forall>c \<in> set lines. text_line c" and "buf = [] \<or> text_line buf"
  shows "(\<forall>c \<in> set out. text_line c) \<and> (buf' = [] \<or> text_line buf')"
  using assms
proof (induction lines arbitrary: buf add out)
  case (Cons b lines)
  then show ?case
    by (fastforce simp: Let_def text_line_key_line split: if_splits prod.splits)
qed auto

text \<open>A line that begins with \<open>#\<close> or is empty is not the line of a key.\<close>

lemma ward_first:
  assumes "text_line b" and "hd b = CHR ''#'' \<or> hd b = LF"
  shows "get_ward b 1 128 = [] \<or> hd (get_ward b 1 128) = CHR ''#''"
proof -
  have n: "NUL \<notin> set b" "b \<noteq> []" using assms by (auto simp: text_line_def)
  show ?thesis
  proof (cases "hd b = LF")
    case True
    obtain r where b: "b = LF # r" using True n(2) by (cases b) auto
    have "r = []"
    proof (rule ccontr)
      assume "r \<noteq> []"
      then have "LF \<in> set (butlast b)" by (simp add: b)
      with assms(1) show False by (simp add: text_line_def)
    qed
    then have "words b = []" by (simp add: b)
    then show ?thesis using n by (simp add: get_ward_words)
  next
    case False
    then obtain r where b: "b = CHR ''#'' # r" using assms(2) n(2) by (cases b) auto
    then have "\<exists>w ws. words b = (CHR ''#'' # w) # ws" by (simp add: words.simps(2) ward_sep_def)
    then show ?thesis using n by (auto simp: get_ward_words)
  qed
qed

lemma read_keys_skip:
  assumes "text_line b" and "ini_key key"
    and "get_ward b 1 128 = [] \<or> hd (get_ward b 1 128) \<noteq> CHR ''[''" and "get_ward b 1 128 \<noteq> key"
  shows "read_keys skip key (b # lines) = read_keys skip key lines"
  using assms by (auto simp: Let_def)

lemma read_keys_hit:
  assumes "ini_key key" and "ini_word val"
  shows "read_keys skip key (key_line key val # lines) = Some val"
proof -
  have k: "ini_word key" "key \<noteq> []" "hd key \<noteq> CHR ''[''" "hd key \<noteq> CHR ''#''" "hd key \<noteq> LF"
    using assms(1) by (auto simp: ini_key_def ini_word_def ward_sep_def)
  then have "hd (key_line key val) = hd key" by (simp add: key_line_def)
  with k assms(2) show ?thesis by (simp add: Let_def)
qed

lemma write_keys_read:
  assumes "write_keys key val buf False lines = (out, buf', add')" and "ini_key key" and "ini_word val"
    and "\<forall>c \<in> set lines. text_line c"
  shows "read_keys skip key (out @ (if add' then [] else [key_line key val]) @ rest) = Some val"
  using assms
proof (induction lines arbitrary: buf out)
  case Nil
  then show ?case using read_keys_hit by auto
next
  case (Cons b lines)
  let ?k = "get_ward b 1 128"
  consider "?k \<noteq> [] \<and> hd ?k = CHR ''[''" | "?k = [] \<or> hd ?k \<noteq> CHR ''[''" "?k \<noteq> key" | "?k = key"
    by blast
  then show ?case
  proof cases
    case 1
    then show ?thesis using Cons.prems read_keys_hit by (auto simp: Let_def)
  next
    case 2
    obtain o2 where o2: "write_keys key val [] False lines = (o2, buf', add')" "out = b # o2"
      using Cons.prems(1) 2 by (auto simp: Let_def split: prod.splits if_splits)
    then show ?thesis
      using Cons.IH [OF o2(1) Cons.prems(2,3)] Cons.prems(4) read_keys_skip [OF _ Cons.prems(2) 2]
      by simp
  next
    case 3
    obtain o2 where o2: "write_keys key val [] True lines = (o2, buf', add')" "out = key_line key val # o2"
      using Cons.prems(1,2) 3 by (auto simp: Let_def ini_key_def split: prod.splits if_splits)
    then show ?thesis using read_keys_hit [OF Cons.prems(2,3)] by simp
  qed
qed

lemma write_sections_read:
  assumes "write_sections sec key val lines = (out, add)" and "ini_key key" and "ini_word val" and "ini_section sec"
    and "\<forall>c \<in> set lines. text_line c"
  shows "(\<forall>c \<in> set out. c = [] \<or> text_line c) \<and>
    read_sections skip sec key (filter (\<lambda>c. c \<noteq> [])
      (out @ (if add then [] else [CHR ''['' # sec @ [CHR '']'', LF], key_line key val]))) = Some val"
  using assms
proof (induction lines arbitrary: out)
  case Nil
  then show ?case
    using read_keys_hit [OF Nil.prems(2,3)] header_line [OF Nil.prems(4)] by (auto simp: key_line_def)
next
  case (Cons b lines)
  have b: "text_line b" "b \<noteq> []" using Cons.prems(5) by (auto simp: text_line_def)
  have kl: "key_line key val \<noteq> []" by (simp add: key_line_def)
  show ?case
  proof (cases "ini_header sec b \<and> ini_match sec b")
    case True
    obtain o2 buf a where o2: "write_keys key val b False lines = (o2, buf, a)"
      by (cases "write_keys key val b False lines") auto
    have out: "out = b # o2 @ (if a then [] else [key_line key val, buf])" "add"
      using Cons.prems(1) True o2 by auto
    have kw: "ini_word key" using Cons.prems(2) by (simp add: ini_key_def)
    have t: "\<forall>c \<in> set o2. text_line c" "buf = [] \<or> text_line buf"
      using write_keys_text [OF o2 kw Cons.prems(3)] Cons.prems(5) b by auto
    then have f: "filter (\<lambda>c. c \<noteq> []) o2 = o2" by (auto simp: text_line_def filter_id_conv)
    have "read_keys skip key (o2 @ (if a then [] else [key_line key val]) @ (if a \<or> buf = [] then [] else [buf])) = Some val"
      by (rule write_keys_read [OF o2 Cons.prems(2,3)]) (use Cons.prems(5) in simp)
    then have "read_sections skip sec key (filter (\<lambda>c. c \<noteq> []) out) = Some val"
      using True b kl by (cases a; cases "buf = []") (simp_all add: out f)
    then show ?thesis
      using t b out text_line_key_line [OF kw Cons.prems(3)] by auto
  next
    case False
    obtain o2 where o2: "write_sections sec key val lines = (o2, add)" "out = b # o2"
      using Cons.prems(1) False by (auto split: prod.splits)
    then show ?thesis using Cons.IH [OF o2(1) Cons.prems(2-4)] Cons.prems(5) False b by auto
  qed
qed

lemma concat_filter_ne: "concat (filter (\<lambda>c. c \<noteq> []) cs) = concat cs"
  by (induction cs) auto

lemma write_read_sections:
  assumes "ini_key key" and "ini_word val" and "ini_section sec" and "\<forall>c \<in> set (fgets_lines 256 content). text_line c"
  shows "read_sections skip sec key (fgets_lines 256 (concat (write_ini_chunks content sec key val))) = Some val"
proof -
  obtain out add where w: "write_sections sec key val (fgets_lines 256 content) = (out, add)"
    by (cases "write_sections sec key val (fgets_lines 256 content)") auto
  let ?cs = "out @ (if add then [] else [CHR ''['' # sec @ [CHR '']'', LF], key_line key val])"
  have r: "\<forall>c \<in> set out. c = [] \<or> text_line c" "read_sections skip sec key (filter (\<lambda>c. c \<noteq> []) ?cs) = Some val"
    using write_sections_read [OF w assms] by auto
  have "\<forall>c \<in> set (filter (\<lambda>c. c \<noteq> []) ?cs). text_line c"
    using r(1) header_line(3) [OF assms(3)] text_line_key_line [of key val] assms(1,2) by (auto simp: ini_key_def)
  then have "fgets_lines 256 (concat ?cs) = filter (\<lambda>c. c \<noteq> []) ?cs"
    using fgets_lines_chunks concat_filter_ne by metis
  then show ?thesis using r(2) by (simp add: write_ini_chunks_def w)
qed

text \<open>
  C30. The configuration file gives back what was written. On a file of short newline-terminated
  lines, or on no file at all, a key written with \<open>write_ini_string\<close> is read back by
  \<open>read_ini_string\<close> with its value, and by \<open>read_ini_int\<close> with the value's number, wherever the
  section and the key were, and whether they existed.
\<close>

theorem ini_write_read:
  assumes "ini_key key" and "ini_word val" and "ini_section sec" and "length name < 124"
    and "\<forall>content. file = Some content \<longrightarrow> (\<forall>c \<in> set (fgets_lines 256 content). text_line c)"
  shows "\<exists>content'. write_ini_string name file sec key val = Some content' \<and>
    read_ini_string (Some content') sec key dflt = val \<and> read_ini_int (Some content') sec key n = atoi val"
proof -
  have "\<forall>c \<in> set (fgets_lines 256 (case file of None \<Rightarrow> [] | Some c \<Rightarrow> c)). text_line c"
    using assms(5) by (auto split: option.splits)
  then show ?thesis
    using write_read_sections [OF assms(1-3)] assms(4)
    by (simp add: write_ini_string_def read_ini_string_def read_ini_int_def)
qed

theorem ini_write_read_witness:
  "\<exists>content'. write_ini_string ''Task.ini'' None ''TaskList'' ''SCHEDULE_P_ID'' ''4711'' = Some content' \<and>
    read_ini_string (Some content') ''TaskList'' ''SCHEDULE_P_ID'' ''0'' = ''4711'' \<and>
    read_ini_int (Some content') ''TaskList'' ''SCHEDULE_P_ID'' 0 = atoi ''4711''"
  by (rule ini_write_read) (simp_all add: ini_key_def ini_word_def ini_section_def ward_sep_def)

section \<open>What the writer keeps and loses\<close>

text \<open>The other keys of the written section keep their values.\<close>

lemma write_keys_other:
  assumes "write_keys key val buf add lines = (out, buf', add')" and "ini_key key" and "ini_word val"
    and "ini_key key2" and "key2 \<noteq> key" and "\<forall>c \<in> set lines. text_line c" and "read_keys skip key2 lines = Some v2"
  shows "read_keys skip key2 (out @ rest) = Some v2"
  using assms
proof (induction lines arbitrary: buf add out)
  case (Cons b lines)
  let ?k = "get_ward b (Suc 0) 128"
  have hk: "?k = [] \<or> hd ?k \<noteq> CHR ''[''"
  proof (cases "skip \<and> (hd b = CHR ''#'' \<or> hd b = LF)")
    case True
    then show ?thesis using ward_first [of b] Cons.prems(6) by auto
  next
    case False
    then show ?thesis using Cons.prems(6,7) by (auto simp: Let_def text_line_def split: if_splits)
  qed
  show ?case
  proof (cases "?k = key")
    case True
    obtain o2 where o2: "write_keys key val [] True lines = (o2, buf', add')" "out = key_line key val # o2"
      using Cons.prems(1,2) True hk by (auto simp: Let_def ini_key_def split: prod.splits if_splits)
    have kl: "read_keys skip key2 (key_line key val # o2 @ rest) = read_keys skip key2 (o2 @ rest)"
    proof (rule read_keys_skip)
      show "text_line (key_line key val)" "ini_key key2"
        using Cons.prems(2-4) by (auto simp: ini_key_def intro: text_line_key_line)
      show "get_ward (key_line key val) 1 128 = [] \<or> hd (get_ward (key_line key val) 1 128) \<noteq> CHR ''[''"
        "get_ward (key_line key val) 1 128 \<noteq> key2"
        using Cons.prems(2,3,5) by (auto simp: ini_key_def)
    qed
    have "read_keys skip key2 lines = Some v2"
      using Cons.prems(5,7) True hk by (auto simp: Let_def split: if_splits)
    then show ?thesis
      using Cons.IH [OF o2(1) Cons.prems(2-5)] Cons.prems(6) kl o2(2) by simp
  next
    case False
    obtain o2 where o2: "write_keys key val [] add lines = (o2, buf', add')" "out = b # o2"
      using Cons.prems(1) False hk by (auto simp: Let_def split: prod.splits if_splits)
    then show ?thesis
      using Cons.IH [OF o2(1) Cons.prems(2-5)] Cons.prems(6,7) by (auto simp: Let_def split: if_splits)
  qed
qed simp

text \<open>
  Nothing behind the section is copied: the lines after the next section header are lost, and
  when the key existed so is the header itself.
\<close>

lemma write_sections_other:
  assumes "write_sections sec key val lines = (out, add)" and "ini_key key" and "ini_word val"
    and "ini_key key2" and "key2 \<noteq> key" and "\<forall>c \<in> set lines. text_line c" and "read_sections skip sec key2 lines = Some v2"
  shows "read_sections skip sec key2 (filter (\<lambda>c. c \<noteq> []) (out @ rest)) = Some v2"
  using assms
proof (induction lines arbitrary: out)
  case (Cons b lines)
  have b: "b \<noteq> []" using Cons.prems(6) by (simp add: text_line_def)
  show ?case
  proof (cases "ini_header sec b \<and> ini_match sec b")
    case True
    obtain o2 buf a where o2: "write_keys key val b False lines = (o2, buf, a)"
      by (cases "write_keys key val b False lines") auto
    have "\<forall>c \<in> set o2. text_line c"
      using write_keys_text [OF o2 _ Cons.prems(3)] Cons.prems(2,6) by (auto simp: ini_key_def)
    then have f: "filter (\<lambda>c. c \<noteq> []) o2 = o2" by (auto simp: text_line_def filter_id_conv)
    have k: "read_keys skip key2 (o2 @ r) = Some v2" for r
      by (rule write_keys_other [OF o2 Cons.prems(2-5)]) (use Cons.prems(6,7) True in simp_all)
    have "out = b # o2 @ (if a then [] else [key_line key val, buf])" using Cons.prems(1) True o2 by auto
    then show ?thesis using True b k by (simp add: f)
  next
    case False
    obtain o2 where o2: "write_sections sec key val lines = (o2, add)" "out = b # o2"
      using Cons.prems(1) False by (auto split: prod.splits)
    have "read_sections skip sec key2 lines = Some v2" using Cons.prems(7) False by auto
    then show ?thesis using Cons.IH [OF o2(1) Cons.prems(2-5)] Cons.prems(6) False b o2(2) by auto
  qed
qed simp

text \<open>A key keeps its value while another key of its section is written, and the file stays a text file.\<close>

lemma write_other_sections:
  assumes "ini_key key" and "ini_word val" and "ini_section sec" and "\<forall>c \<in> set (fgets_lines 256 content). text_line c"
  shows "\<forall>c \<in> set (fgets_lines 256 (concat (write_ini_chunks content sec key val))). text_line c"
    and "ini_key key2 \<Longrightarrow> key2 \<noteq> key \<Longrightarrow> read_sections skip sec key2 (fgets_lines 256 content) = Some v2 \<Longrightarrow>
      read_sections skip sec key2 (fgets_lines 256 (concat (write_ini_chunks content sec key val))) = Some v2"
proof -
  obtain out add where w: "write_sections sec key val (fgets_lines 256 content) = (out, add)"
    by (cases "write_sections sec key val (fgets_lines 256 content)") auto
  let ?cs = "out @ (if add then [] else [CHR ''['' # sec @ [CHR '']'', LF], key_line key val])"
  have "\<forall>c \<in> set out. c = [] \<or> text_line c" using write_sections_read [OF w assms] by auto
  then have t: "\<forall>c \<in> set (filter (\<lambda>c. c \<noteq> []) ?cs). text_line c"
    using header_line(3) [OF assms(3)] text_line_key_line [of key val] assms(1,2) by (auto simp: ini_key_def)
  then have f: "fgets_lines 256 (concat ?cs) = filter (\<lambda>c. c \<noteq> []) ?cs"
    using fgets_lines_chunks concat_filter_ne by metis
  show "\<forall>c \<in> set (fgets_lines 256 (concat (write_ini_chunks content sec key val))). text_line c"
    using t f by (simp add: write_ini_chunks_def w)
  show "read_sections skip sec key2 (fgets_lines 256 (concat (write_ini_chunks content sec key val))) = Some v2"
    if "ini_key key2" "key2 \<noteq> key" "read_sections skip sec key2 (fgets_lines 256 content) = Some v2"
    using write_sections_other [OF w assms(1,2) that(1,2) assms(4) that(3)] f by (simp add: write_ini_chunks_def w)
qed

lemma write_keys_stops:
  "get_ward h 1 128 \<noteq> [] \<Longrightarrow> hd (get_ward h 1 128) = CHR ''['' \<Longrightarrow>
   write_keys key val buf add (ls @ h # rest) = write_keys key val buf add (ls @ [h])"
  by (induction ls arbitrary: buf add) (auto simp: Let_def)

text \<open>
  \<open>write_ini_string\<close> loses the rest of the file. When the section being written is followed
  by another one, the new file is the same whatever followed that section's header: all later
  sections are gone.
\<close>

theorem ini_write_drops_sections:
  assumes "\<forall>c \<in> set (before @ hdr # ls @ h # rest). text_line c"
    and "ini_header sec hdr" and "ini_match sec hdr"
    and "\<forall>b \<in> set before. \<not> (ini_header sec b \<and> ini_match sec b)"
    and "get_ward h 1 128 \<noteq> []" and "hd (get_ward h 1 128) = CHR ''[''"
  shows "write_ini_string name (Some (concat (before @ hdr # ls @ h # rest))) sec key val =
    write_ini_string name (Some (concat (before @ hdr # ls @ [h]))) sec key val"
proof -
  have w: "write_sections sec key val (before @ hdr # ls @ h # rest) =
      write_sections sec key val (before @ hdr # ls @ [h])"
    using assms(4) write_keys_stops [OF assms(5,6), of key val hdr False ls rest] assms(2,3)
    by (induction before) auto
  have "fgets_lines 256 (concat (before @ hdr # ls @ h # rest)) = before @ hdr # ls @ h # rest"
    by (rule fgets_lines_chunks) (rule assms(1))
  moreover have "fgets_lines 256 (concat (before @ hdr # ls @ [h])) = before @ hdr # ls @ [h]"
    by (rule fgets_lines_chunks) (use assms(1) in auto)
  ultimately show ?thesis by (simp only: write_ini_string_def write_ini_chunks_def option.case w)
qed

lemma demo_section_line:
  "ini_section s \<Longrightarrow> get_ward (CHR ''['' # s @ [CHR '']'', LF]) 1 128 \<noteq> [] \<and>
   hd (get_ward (CHR ''['' # s @ [CHR '']'', LF]) 1 128) = CHR ''[''"
  using header_line(1) [of s] by (simp add: ini_header_def Let_def)

theorem ini_write_drops_sections_witness:
  "write_ini_string ''Task.ini'' (Some (''[A]'' @ [LF] @ ''k = 1'' @ [LF] @ ''[B]'' @ [LF] @ ''x = 2'' @ [LF])) ''A'' ''k'' ''5'' =
   write_ini_string ''Task.ini'' (Some (''[A]'' @ [LF] @ ''k = 1'' @ [LF] @ ''[B]'' @ [LF])) ''A'' ''k'' ''5''"
proof -
  have s: "ini_section ''A''" "ini_section ''B''" by (simp_all add: ini_section_def ward_sep_def)
  have t: "text_line (''k = 1'' @ [LF])" "text_line (''x = 2'' @ [LF])" by (simp_all add: text_line_def)
  show ?thesis
    using ini_write_drops_sections [of "[]" "''[A]'' @ [LF]" "[''k = 1'' @ [LF]]" "''[B]'' @ [LF]" "[''x = 2'' @ [LF]]" "''A''" "''Task.ini''" "''k''" "''5''"]
      header_line [OF s(1)] header_line(3) [OF s(2)] demo_section_line [OF s(2)] t
    by simp
qed

text \<open>A section header that ends the file is written twice when its key is new.\<close>

lemma ini_header_doubled:
  assumes "ini_section sec" and "hdr = CHR ''['' # sec @ [CHR '']'', LF]"
  shows "write_ini_chunks hdr sec key val = [hdr, key_line key val, hdr]"
proof -
  have "fgets_lines 256 (concat [hdr]) = [hdr]"
    by (rule fgets_lines_chunks) (use header_line(3) [OF assms(1)] assms(2) in simp)
  then show ?thesis
    using header_line(1,2) [OF assms(1)] assms(2) by (simp add: write_ini_chunks_def)
qed

end
