(* ===== verification/Calendar.thy ===== *)
theory Calendar
  imports C_Strings
begin

text \<open>
  The part of the C library's calendar the program uses: \<open>localtime\<close> and \<open>mktime\<close> on
  \<open>struct tm\<close>, in a time zone with a constant offset to UTC (\<open>tz\<close> seconds; no daylight saving
  time), from 1970 on. The month \<open>tm_mon\<close> counts from 0, the year \<open>tm_year\<close> from 1900. \<open>mktime\<close>
  normalises a month and a day of the month outside their range, as the program relies on.
\<close>

record tm =
  tm_sec :: int
  tm_min :: int
  tm_hour :: int
  tm_mday :: int
  tm_mon :: int
  tm_year :: int

section \<open>Dates\<close>

definition leap :: "nat \<Rightarrow> bool" where
  "leap y = (4 dvd y \<and> (\<not> 100 dvd y \<or> 400 dvd y))"

definition year_days :: "nat \<Rightarrow> nat" where
  "year_days y = (if leap y then 366 else 365)"

definition month_days :: "nat \<Rightarrow> nat \<Rightarrow> nat" where
  "month_days y m = (if m = 1 then (if leap y then 29 else 28)
     else if m = 3 \<or> m = 5 \<or> m = 8 \<or> m = 10 then 30 else 31)"

text \<open>Days from 1970-01-01 to the first of January of a year, and in it to the first of a month.\<close>

fun days_to_year :: "nat \<Rightarrow> nat" where
  "days_to_year y = (if y \<le> 1970 then 0 else days_to_year (y - 1) + year_days (y - 1))"

declare days_to_year.simps [simp del]

primrec days_to_month :: "nat \<Rightarrow> nat \<Rightarrow> nat" where
  "days_to_month y 0 = 0"
| "days_to_month y (Suc m) = days_to_month y m + month_days y m"

lemma year_days_pos [simp]: "0 < year_days y"
  by (simp add: year_days_def)

lemma month_days_pos [simp]: "0 < month_days y m"
  by (simp add: month_days_def)

function year_loop :: "nat \<Rightarrow> nat \<Rightarrow> nat \<times> nat" where
  "year_loop y n = (if n < year_days y then (y, n) else year_loop (Suc y) (n - year_days y))"
  by pat_completeness auto
termination
proof (relation "measure snd")
  fix y n
  assume "\<not> n < year_days y"
  then show "((Suc y, n - year_days y), y, n) \<in> measure snd"
    using year_days_pos [of y] by (simp del: year_days_pos)
qed simp

function month_loop :: "nat \<Rightarrow> nat \<Rightarrow> nat \<Rightarrow> nat \<times> nat" where
  "month_loop y m n = (if n < month_days y m then (m, n) else month_loop y (Suc m) (n - month_days y m))"
  by pat_completeness auto
termination
proof (relation "measure (\<lambda>(y, m, n). n)")
  fix y m n
  assume "\<not> n < month_days y m"
  then show "((y, Suc m, n - month_days y m), y, m, n) \<in> measure (\<lambda>(y, m, n). n)"
    using month_days_pos [of y m] by (simp del: month_days_pos)
qed simp

declare year_loop.simps [simp del] month_loop.simps [simp del]

lemma days_to_year_Suc: "1970 \<le> y \<Longrightarrow> days_to_year (Suc y) = days_to_year y + year_days y"
  by (subst days_to_year.simps) simp

lemma days_to_month_12: "days_to_month y 12 = year_days y"
  by (simp add: eval_nat_numeral month_days_def year_days_def)

lemma year_loop_result:
  "1970 \<le> y \<Longrightarrow> year_loop y n = (y', r) \<Longrightarrow> y \<le> y' \<and> r < year_days y' \<and> days_to_year y + n = days_to_year y' + r"
proof (induction y n rule: year_loop.induct)
  case (1 y n)
  show ?case
  proof (cases "n < year_days y")
    case True
    with 1(3) show ?thesis by (auto simp: year_loop.simps [of y n])
  next
    case False
    then have "year_loop (Suc y) (n - year_days y) = (y', r)" using 1(3) by (simp add: year_loop.simps [of y n])
    with 1(1) [OF False] 1(2) False show ?thesis by (auto simp: days_to_year_Suc)
  qed
qed

lemma month_loop_result:
  "month_loop y m n = (m', r) \<Longrightarrow> m \<le> m' \<and> r < month_days y m' \<and> days_to_month y m + n = days_to_month y m' + r"
proof (induction y m n rule: month_loop.induct)
  case (1 y m n)
  show ?case
  proof (cases "n < month_days y m")
    case True
    with 1(2) show ?thesis by (auto simp: month_loop.simps [of y m n])
  next
    case False
    then have "month_loop y (Suc m) (n - month_days y m) = (m', r)" using 1(2) by (simp add: month_loop.simps [of y m n])
    with 1(1) [OF False] False show ?thesis by auto
  qed
qed

lemma days_to_month_mono: "m \<le> m' \<Longrightarrow> days_to_month y m \<le> days_to_month y m'"
  by (induction m') (auto simp: le_Suc_eq)

lemma days_to_year_mono: "1970 \<le> y \<Longrightarrow> y \<le> y' \<Longrightarrow> days_to_year y \<le> days_to_year y'"
proof (induction y')
  case (Suc y')
  show ?case
  proof (cases "y = Suc y'")
    case False
    with Suc.prems have "days_to_year y \<le> days_to_year y'" by (intro Suc.IH) auto
    then show ?thesis using Suc.prems False days_to_year_Suc [of y'] by simp
  qed simp
qed simp

section \<open>localtime and mktime\<close>

definition days_from_civil :: "nat \<Rightarrow> nat \<Rightarrow> int \<Rightarrow> int" where
  "days_from_civil y m d = int (days_to_year y + days_to_month y m) + d - 1"

definition civil_from_days :: "nat \<Rightarrow> nat \<times> nat \<times> nat" where
  "civil_from_days n =
     (case year_loop 1970 n of (y, r) \<Rightarrow> case month_loop y 0 r of (m, d) \<Rightarrow> (y, m, Suc d))"

definition localtime :: "int \<Rightarrow> time_t \<Rightarrow> tm" where
  "localtime tz t =
     (case civil_from_days (nat ((t + tz) div 86400)) of (y, m, d) \<Rightarrow>
        let s = (t + tz) mod 86400 in
        \<lparr>tm_sec = s mod 60, tm_min = s div 60 mod 60, tm_hour = s div 3600,
         tm_mday = int d, tm_mon = int m, tm_year = int y - 1900\<rparr>)"

definition mktime :: "int \<Rightarrow> tm \<Rightarrow> time_t" where
  "mktime tz st =
     (let y = tm_year st + 1900 + tm_mon st div 12; m = tm_mon st mod 12
      in days_from_civil (nat y) (nat m) (tm_mday st) * 86400
         + tm_hour st * 3600 + tm_min st * 60 + tm_sec st - tz)"

lemma days_to_year_1970 [simp]: "days_to_year 1970 = 0"
  by (simp add: days_to_year.simps)

lemma civil_from_days_result:
  assumes "civil_from_days n = (y, m, d)"
  shows "1970 \<le> y" "m < 12" "1 \<le> d" "d \<le> month_days y m" "days_from_civil y m (int d) = int n"
proof -
  obtain r where r: "year_loop 1970 n = (y, r)" "month_loop y 0 r = (m, d - 1)" "1 \<le> d"
    using assms by (auto simp: civil_from_days_def split: prod.splits)
  have y: "1970 \<le> y" "r < year_days y" "n = days_to_year y + r"
    using year_loop_result [OF _ r(1)] by auto
  have m: "d - 1 < month_days y m" "r = days_to_month y m + (d - 1)"
    using month_loop_result [OF r(2)] by auto
  show "1970 \<le> y" "1 \<le> d" "d \<le> month_days y m" using y(1) r(3) m(1) by auto
  show "m < 12"
  proof (rule ccontr)
    assume "\<not> m < 12"
    then have "days_to_month y 12 \<le> days_to_month y m" by (intro days_to_month_mono) simp
    with m(2) y(2) show False by (simp add: days_to_month_12)
  qed
  show "days_from_civil y m (int d) = int n"
    using y(3) m(2) r(3) by (simp add: days_from_civil_def)
qed

lemma civil_unique_le:
  assumes "1970 \<le> y" "m < 12" "1 \<le> d" "d \<le> month_days y m"
    and "1970 \<le> y'" "m' < 12" "1 \<le> d'" "d' \<le> month_days y' m'"
    and "days_from_civil y m (int d) = days_from_civil y' m' (int d')"
  shows "y \<le> y' \<and> (y = y' \<longrightarrow> m \<le> m')"
proof -
  have lt: "days_to_month y m + month_days y m \<le> year_days y" if "m < 12" for y m
    using days_to_month_mono [of "Suc m" 12 y] that by (simp add: days_to_month_12)
  have e: "days_to_year y + days_to_month y m + d = days_to_year y' + days_to_month y' m' + d'"
    using assms(9) by (simp add: days_from_civil_def)
  have "y \<le> y'"
  proof (rule ccontr)
    assume "\<not> y \<le> y'"
    then have "days_to_year (Suc y') \<le> days_to_year y" using assms(5) by (intro days_to_year_mono) auto
    then show False using e lt [OF assms(6), of y'] assms(3,5,8) by (simp add: days_to_year_Suc)
  qed
  moreover have "m \<le> m'" if "y = y'"
  proof (rule ccontr)
    assume "\<not> m \<le> m'"
    then have "days_to_month y (Suc m') \<le> days_to_month y m" by (intro days_to_month_mono) simp
    then show False using e assms(3,8) that by simp
  qed
  ultimately show ?thesis by blast
qed

lemma civil_from_days_unique:
  assumes "1970 \<le> y" "m < 12" "1 \<le> d" "d \<le> month_days y m" "days_from_civil y m (int d) = int n"
  shows "civil_from_days n = (y, m, d)"
proof -
  obtain y' m' d' where c: "civil_from_days n = (y', m', d')" by (metis prod_cases3)
  note r = civil_from_days_result [OF c]
  have "days_from_civil y m (int d) = days_from_civil y' m' (int d')" using assms(5) r(5) by simp
  then have "y = y' \<and> m = m'"
    using civil_unique_le [OF assms(1-4) r(1-4)] civil_unique_le [OF r(1-4) assms(1-4)] by auto
  moreover from this have "d = d'"
    using \<open>days_from_civil y m (int d) = days_from_civil y' m' (int d')\<close> by (simp add: days_from_civil_def)
  ultimately show ?thesis using c by simp
qed

lemma clock_split: "0 \<le> s \<Longrightarrow> s < 86400 \<Longrightarrow> s div 3600 * 3600 + s div 60 mod 60 * 60 + s mod 60 = s" for s :: int
proof -
  have "s div 60 div 60 = s div 3600" using zdiv_zmult2_eq [of 60 s 60] by simp
  then have "s div 60 = s div 3600 * 60 + s div 60 mod 60" using div_mult_mod_eq [of "s div 60" 60] by simp
  moreover have "s div 60 * 60 + s mod 60 = s" by (rule div_mult_mod_eq)
  ultimately show ?thesis by linarith
qed

text \<open>\<open>mktime\<close> inverts \<open>localtime\<close>, and a changed day of the month moves the time by whole days.\<close>

lemma mktime_localtime_mday:
  assumes "0 \<le> t + tz"
  shows "mktime tz (localtime tz t\<lparr>tm_mday := tm_mday (localtime tz t) + k\<rparr>) = t + k * 86400"
proof -
  let ?n = "(t + tz) div 86400" and ?s = "(t + tz) mod 86400"
  obtain y m d where c: "civil_from_days (nat ?n) = (y, m, d)" by (metis prod_cases3)
  note r = civil_from_days_result [OF c]
  have n: "days_from_civil y m (int d + k) = ?n + k"
    using r(5) pos_imp_zdiv_nonneg_iff [of 86400 "t + tz"] assms by (simp add: days_from_civil_def)
  have "0 \<le> ?s" "?s < 86400" by simp_all
  then have "?s div 3600 * 3600 + ?s div 60 mod 60 * 60 + ?s mod 60 = ?s" by (rule clock_split)
  moreover have "?n * 86400 + ?s = t + tz" by (rule div_mult_mod_eq)
  moreover have "mktime tz (localtime tz t\<lparr>tm_mday := tm_mday (localtime tz t) + k\<rparr>) =
      days_from_civil y m (int d + k) * 86400 + ?s div 3600 * 3600 + ?s div 60 mod 60 * 60 + ?s mod 60 - tz"
    using r(2) by (simp add: mktime_def localtime_def c Let_def)
  ultimately show ?thesis unfolding n by (simp only: distrib_right)
qed

lemma mktime_localtime: "0 \<le> t + tz \<Longrightarrow> mktime tz (localtime tz t) = t"
  using mktime_localtime_mday [of t tz 0] by simp

lemma localtime_mktime_date:
  assumes "mktime tz st = t" and "0 \<le> tm_sec st + tm_min st * 60 + tm_hour st * 3600"
    "tm_sec st + tm_min st * 60 + tm_hour st * 3600 < 86400"
    and "0 \<le> tm_mon st" "tm_mon st < 12" and "1970 \<le> y" "1 \<le> d" "d \<le> month_days y m"
    and "m < 12" and "days_from_civil (nat (tm_year st + 1900)) (nat (tm_mon st)) (tm_mday st) = days_from_civil y m (int d)"
  shows "tm_year (localtime tz t) = int y - 1900 \<and> tm_mon (localtime tz t) = int m \<and> tm_mday (localtime tz t) = int d"
proof -
  let ?s = "tm_sec st + tm_min st * 60 + tm_hour st * 3600"
  let ?D = "days_from_civil y m (int d)"
  have "t + tz = ?D * 86400 + ?s"
    using assms(1,4,5,10) by (simp add: mktime_def Let_def)
  then have "(t + tz) div 86400 = ?D" using assms(2,3) by simp
  moreover have "0 \<le> ?D" using assms(7) by (simp add: days_from_civil_def)
  then have "days_from_civil y m (int d) = int (nat ?D)" by simp
  then have "civil_from_days (nat ?D) = (y, m, d)"
    by (rule civil_from_days_unique [OF assms(6,9,7,8)])
  ultimately show ?thesis by (simp add: localtime_def Let_def)
qed

end
