(* ===== verification/Task_Item.thy ===== *)
theory Task_Item
  imports Task_Data Ini_File Calendar File_Process
begin

text \<open>
  \<open>taskitem.c\<close> without the transferred-file table: the server address of a task, the extra
  copies of a file, the task list from the configuration files, and the directory listings of a
  server and of a local directory. \<^const>\<open>None\<close> is a write or read outside an array.
\<close>

section \<open>get_ftp_info\<close>

text \<open>A value stored in a \<open>short\<close>.\<close>

definition to_short :: "int \<Rightarrow> int" where
  "to_short i = sint (word_of_int i :: 16 word)"

definition field_or :: "cstring list \<Rightarrow> nat \<Rightarrow> cstring" where
  "field_or fs i = (if i < length fs then fs ! i else [])"

text \<open>
  The inner option is the pointer returned. The test of the port compares the array with a null
  pointer and is never true.
\<close>

definition get_ftp_info :: "cstring \<Rightarrow> FTP_SERVER_INFO option option" where
  "get_ftp_info host =
     (let fs = sscanf_sets 4 (CHR '':'') host;
          user = field_or fs 0; pass = field_or fs 1; ip = field_or fs 2; port = field_or fs 3
      in if \<exists>f \<in> set fs. 32 \<le> length f then None
         else if length user = 0 \<or> length pass = 0 \<or> length ip = 0 then Some None
         else if 20 \<le> length user \<or> 20 \<le> length pass then None
         else Some (Some \<lparr>srv_ip = ip, srv_port = to_short (atoi port), srv_user = user, srv_pass = pass\<rparr>))"

lemma to_short_small: "0 \<le> i \<Longrightarrow> i < 32768 \<Longrightarrow> to_short i = i"
  by (simp add: to_short_def signed_of_int signed_take_bit_int_eq_self)

lemma sscanf_four:
  assumes "u \<noteq> []" "p \<noteq> []" "h \<noteq> []" "n \<noteq> []" "c \<notin> set (u @ p @ h @ n)"
  shows "sscanf_sets 4 c (u @ c # p @ c # h @ c # n) = [u, p, h, n]"
proof -
  have "sscanf_sets (Suc (Suc (Suc (Suc 0)))) c (u @ c # p @ c # h @ c # n) =
      u # sscanf_sets (Suc (Suc (Suc 0))) c (p @ c # h @ c # n)"
    by (rule sscanf_sets_step) (use assms in auto)
  also have "sscanf_sets (Suc (Suc (Suc 0))) c (p @ c # h @ c # n) = p # sscanf_sets (Suc (Suc 0)) c (h @ c # n)"
    by (rule sscanf_sets_step) (use assms in auto)
  also have "sscanf_sets (Suc (Suc 0)) c (h @ c # n) = h # sscanf_sets (Suc 0) c n"
    by (rule sscanf_sets_step) (use assms in auto)
  also have "sscanf_sets (Suc 0) c n = [n]"
    by (rule sscanf_sets_last) (use assms in auto)
  finally show ?thesis by (simp add: numeral_eq_Suc)
qed

text \<open>
  The server address is parsed as it is documented: \<open>user:pass:ip:port\<close>, for fields that are
  not empty, hold no colon and fit their arrays, gives a server record with these fields.
\<close>

theorem get_ftp_info_parses:
  assumes "u \<noteq> []" and "p \<noteq> []" and "h \<noteq> []" and "CHR '':'' \<notin> set (u @ p @ h)"
    and "length u < 20" and "length p < 20" and "length h < 32" and "0 \<le> n" and "n < 32768"
  shows "get_ftp_info (u @ CHR '':'' # p @ CHR '':'' # h @ CHR '':'' # show_int n) =
    Some (Some \<lparr>srv_ip = h, srv_port = n, srv_user = u, srv_pass = p\<rparr>)"
proof -
  have "CHR '':'' \<notin> set (show_int n)" using show_int_chars [of "CHR '':''" n] by auto
  then have s: "sscanf_sets 4 (CHR '':'') (u @ CHR '':'' # p @ CHR '':'' # h @ CHR '':'' # show_int n) = [u, p, h, show_int n]"
    using assms(4) by (intro sscanf_four assms(1-3)) auto
  have "length (show_int n) \<le> 5" by (rule show_int_length) (use assms(8,9) in auto)
  then show ?thesis
    using assms by (simp add: get_ftp_info_def s field_or_def Let_def to_short_small)
qed

theorem get_ftp_info_parses_witness:
  "get_ftp_info (''joe'' @ CHR '':'' # ''pw'' @ CHR '':'' # ''10.0.0.1'' @ CHR '':'' # show_int 21) =
    Some (Some \<lparr>srv_ip = ''10.0.0.1'', srv_port = 21, srv_user = ''joe'', srv_pass = ''pw''\<rparr>)"
  by (rule get_ftp_info_parses) simp_all

text \<open>A missing port is accepted and becomes 0.\<close>

lemma get_ftp_info_no_port:
  "get_ftp_info ''joe:pw:10.0.0.1'' = Some (Some \<lparr>srv_ip = ''10.0.0.1'', srv_port = 0, srv_user = ''joe'', srv_pass = ''pw''\<rparr>)"
  by (simp add: get_ftp_info_def numeral_eq_Suc Let_def field_or_def atoi_def to_short_def)

section \<open>cp_item_to_dir\<close>

definition NAME_MAX :: nat where "NAME_MAX = 255"

datatype copy_action = CopyReal cstring cstring | CopySymlink cstring cstring | CopyHardlink cstring cstring | CopyNothing

definition cp_item_to_dir :: "cstring \<Rightarrow> cstring \<Rightarrow> cstring \<Rightarrow> int \<Rightarrow> copy_action option" where
  "cp_item_to_dir format file path copy_flg =
     (if format = ''NULL'' then Some CopyNothing
      else
        let fs = sscanf_sets 3 (CHR '':'') format in
        if 32 \<le> length (field_or fs 0) \<or> NAME_MAX < length (field_or fs 1) \<or> 32 \<le> length (field_or fs 2) then None
        else if length fs \<noteq> 3 then Some CopyNothing
        else
          let prev = fs ! 0; dir = fs ! 1; fin = fs ! 2;
              dest = dir @ ''/'' @ (if prev \<noteq> ''NO'' then prev else []) @ file @ (if fin \<noteq> ''NO'' then fin else [])
          in if NAME_MAX < length dest then None
             else Some (if copy_flg = 1 then CopyReal path dest
                        else if copy_flg = 2 then CopySymlink path dest
                        else if copy_flg = 3 then CopyHardlink path dest
                        else CopyNothing))"

lemma cp_item_to_dir_dest:
  assumes "p \<noteq> []" "d \<noteq> []" "e \<noteq> []" "CHR '':'' \<notin> set (p @ d @ e)" "length p < 32" "length e < 32"
    and "length d + 1 + length p + length f + length e \<le> NAME_MAX" and "p @ CHR '':'' # d @ CHR '':'' # e \<noteq> ''NULL''"
  shows "cp_item_to_dir (p @ CHR '':'' # d @ CHR '':'' # e) f path 1 =
    Some (CopyReal path (d @ ''/'' @ (if p = ''NO'' then [] else p) @ f @ (if e = ''NO'' then [] else e)))"
proof -
  have "sscanf_sets (Suc (Suc (Suc 0))) (CHR '':'') (p @ CHR '':'' # d @ CHR '':'' # e) =
      p # sscanf_sets (Suc (Suc 0)) (CHR '':'') (d @ CHR '':'' # e)"
    by (rule sscanf_sets_step) (use assms in auto)
  also have "sscanf_sets (Suc (Suc 0)) (CHR '':'') (d @ CHR '':'' # e) = d # sscanf_sets (Suc 0) (CHR '':'') e"
    by (rule sscanf_sets_step) (use assms in auto)
  also have "sscanf_sets (Suc 0) (CHR '':'') e = [e]"
    by (rule sscanf_sets_last) (use assms in auto)
  finally have "sscanf_sets 3 (CHR '':'') (p @ CHR '':'' # d @ CHR '':'' # e) = [p, d, e]"
    by (simp add: numeral_eq_Suc)
  with assms show ?thesis
    by (simp add: cp_item_to_dir_def Let_def field_or_def nth_Cons')
qed

section \<open>MakeTime\<close>

text \<open>The month names of the listing; the Chinese ones are the GBK bytes of the source file.\<close>

definition szEnglishMon :: "cstring list" where
  "szEnglishMon = [''Jan'', ''Feb'', ''Mar'', ''Apr'', ''May'', ''Jun'', ''Jul'', ''Aug'', ''Sep'', ''Oct'', ''Nov'', ''Dec'']"

definition szChinaMon :: "cstring list" where
  "szChinaMon = map (\<lambda>i. show_nat (Suc i) @ [CHR 0xD4, CHR 0xC2]) [0..<12]"

fun find_month :: "cstring \<Rightarrow> (cstring \<times> cstring) list \<Rightarrow> nat \<Rightarrow> nat option" where
  "find_month mon [] i = None"
| "find_month mon ((ch, en) # names) i =
     (if strneq mon ch (length ch) \<or> strneq mon en (length en) then Some i else find_month mon names (Suc i))"

definition MakeTime :: "int \<Rightarrow> time_t \<Rightarrow> cstring \<Rightarrow> cstring \<Rightarrow> cstring \<Rightarrow> time_t option" where
  "MakeTime tz now time_year mon mday =
     (let m = localtime tz now in
      case (case strchr time_year (CHR '':'') of
              Some (h, r) \<Rightarrow>
                if 4 \<le> length h then None
                else Some (m\<lparr>tm_hour := atoi h, tm_min := atoi (take 2 r), tm_sec := 0\<rparr>)
            | None \<Rightarrow> Some (m\<lparr>tm_year := atoi time_year - 1900, tm_hour := 0, tm_min := 0, tm_sec := 0\<rparr>)) of
        None \<Rightarrow> None
      | Some m1 \<Rightarrow>
          let m2 = (case find_month mon (zip szChinaMon szEnglishMon) 0 of
                      Some i \<Rightarrow> m1\<lparr>tm_mon := int i\<rparr>
                    | None \<Rightarrow> if IsNumber mon then m1\<lparr>tm_mon := atoi mon\<rparr> else m1)
          in Some (mktime tz (m2\<lparr>tm_mday := atoi mday\<rparr>)))"

lemma find_month_English:
  assumes "i < 12"
  shows "find_month (szEnglishMon ! i) (zip szChinaMon szEnglishMon) 0 = Some i"
proof -
  have d: "show_nat (Suc k) @ [CHR 0xD4, CHR 0xC2] \<noteq> take (length (show_nat (Suc k) @ [CHR 0xD4, CHR 0xC2])) e"
    if "e \<in> set szEnglishMon" for e k
  proof
    assume a: "show_nat (Suc k) @ [CHR 0xD4, CHR 0xC2] = take (length (show_nat (Suc k) @ [CHR 0xD4, CHR 0xC2])) e"
    have "hd (show_nat (Suc k) @ [CHR 0xD4, CHR 0xC2]) = hd (show_nat (Suc k))" by simp
    then have "is_digit (hd (take (length (show_nat (Suc k) @ [CHR 0xD4, CHR 0xC2])) e))"
      using hd_show_nat_digit [of "Suc k"] a by metis
    then have "is_digit (hd e)" by (simp add: hd_take)
    with that show False by (auto simp: szEnglishMon_def is_digit_def)
  qed
  have e: "szEnglishMon ! i \<in> set szEnglishMon"
    using assms by (intro nth_mem) (simp add: szEnglishMon_def)
  have nc: "\<not> strneq (szEnglishMon ! i) (show_nat (Suc k) @ [CHR 0xD4, CHR 0xC2]) (length (show_nat (Suc k) @ [CHR 0xD4, CHR 0xC2]))" for k
    using d [OF e, of k] unfolding strneq_def by (metis order_refl take_all)
  have ne: "strneq (szEnglishMon ! i) (szEnglishMon ! j) (length (szEnglishMon ! j)) = (i = j)" if "j < 12" for j
  proof -
    have l: "length szEnglishMon = 12" "distinct szEnglishMon" "\<forall>e \<in> set szEnglishMon. length e = 3"
      by (simp_all add: szEnglishMon_def)
    then have "length (szEnglishMon ! i) = 3" "length (szEnglishMon ! j) = 3"
      using assms that by (metis nth_mem)+
    then show ?thesis using l(1,2) assms that by (simp add: strneq_def nth_eq_iff_index_eq)
  qed
  have len: "length szChinaMon = 12" "length szEnglishMon = 12" by (simp_all add: szChinaMon_def szEnglishMon_def)
  have gen: "find_month (szEnglishMon ! i) (zip (drop k szChinaMon) (drop k szEnglishMon)) k = Some i" if "k \<le> i" for k
    using that
  proof (induction "i - k" arbitrary: k)
    case 0
    then have "k = i" by simp
    have "drop i szChinaMon = szChinaMon ! i # drop (Suc i) szChinaMon" "drop i szEnglishMon = szEnglishMon ! i # drop (Suc i) szEnglishMon"
      using assms len by (simp_all add: Cons_nth_drop_Suc)
    then show ?case using ne [OF assms] by (simp add: \<open>k = i\<close>)
  next
    case (Suc n)
    then have k: "k < i" "k < 12" using assms by auto
    have dr: "drop k szChinaMon = szChinaMon ! k # drop (Suc k) szChinaMon" "drop k szEnglishMon = szEnglishMon ! k # drop (Suc k) szEnglishMon"
      using k len by (simp_all add: Cons_nth_drop_Suc)
    have "szChinaMon ! k = show_nat (Suc k) @ [CHR 0xD4, CHR 0xC2]" using k by (simp add: szChinaMon_def)
    then show ?case using Suc.hyps(1) [of "Suc k"] Suc.hyps(2) k nc [of k] ne [OF k(2)]
      by (simp add: dr)
  qed
  show ?thesis using gen [of 0] by simp
qed

text \<open>
  A listing line with a year: the time is midnight of that date.
\<close>

lemma MakeTime_year:
  assumes "i < 12" and "1970 \<le> y" and "1 \<le> d" and "d \<le> month_days y i"
  shows "\<exists>t. MakeTime tz now (show_nat y) (szEnglishMon ! i) (show_nat d) = Some t \<and>
    tm_year (localtime tz t) = int y - 1900 \<and> tm_mon (localtime tz t) = int i \<and> tm_mday (localtime tz t) = int d"
proof -
  have nc: "CHR '':'' \<notin> set (show_nat y)" using show_nat_digits [of y] by auto
  have a: "atoi (show_nat n) = int n" for n using atoi_show_int [of "int n"] by (simp add: show_int_def)
  let ?st = "localtime tz now\<lparr>tm_year := int y - 1900, tm_hour := 0, tm_min := 0, tm_sec := 0, tm_mon := int i, tm_mday := int d\<rparr>"
  have m: "MakeTime tz now (show_nat y) (szEnglishMon ! i) (show_nat d) = Some (mktime tz ?st)"
    using nc by (simp add: MakeTime_def find_month_English [OF assms(1)] a Let_def)
  have "tm_year (localtime tz (mktime tz ?st)) = int y - 1900 \<and> tm_mon (localtime tz (mktime tz ?st)) = int i \<and>
      tm_mday (localtime tz (mktime tz ?st)) = int d"
    by (rule localtime_mktime_date [OF refl]) (use assms in auto)
  with m show ?thesis by auto
qed

text \<open>A month given as a number is not shifted to the count from zero: September becomes October.\<close>

lemma MakeTime_numeric_month:
  "MakeTime 0 now ''2007'' ''9'' ''19'' = Some (mktime 0 ((localtime 0 now)\<lparr>tm_year := 107, tm_hour := 0,
     tm_min := 0, tm_sec := 0, tm_mon := 9, tm_mday := 19\<rparr>))"
proof -
  have n: "find_month ''9'' (zip szChinaMon szEnglishMon) 0 = None"
    by (simp add: szChinaMon_def szEnglishMon_def upt_rec strneq_def show_nat.simps)
  have a: "atoi ''2007'' = 2007" "atoi ''9'' = 9" "atoi ''19'' = 19"
    by (simp_all add: atoi_def is_space_def is_digit_def digit_val_def)
  have "IsNumber ''9''" by (simp add: IsNumber_def is_digit_def)
  then show ?thesis by (simp add: MakeTime_def n a strchr_def)
qed

section \<open>Directory listings\<close>

text \<open>
  A CR left at the end of the name is cut off. A name of one character with a CR makes the code
  read the byte before the array.
\<close>

definition cut_file_name :: "cstring \<Rightarrow> cstring option" where
  "cut_file_name f =
     (if length f \<le> 1 then Some f
      else
        let f1 = (if last f = LF \<or> last f = CR then butlast f else f) in
        if length f1 < 2 then None
        else Some (if f1 ! (length f1 - 2) = CR then take (length f1 - 2) f1 else f1))"

text \<open>One line of the listing: skipped unless it has nine words.\<close>

definition parse_list_line :: "int \<Rightarrow> time_t \<Rightarrow> cstring \<Rightarrow> FTP_FILE_INFO option option" where
  "parse_list_line tz now buf =
     (if get_string_wards_count buf \<noteq> 9 then Some None
      else
        let tmp = get_ward buf 5 32; szMon = get_ward buf 6 16; szDay = get_ward buf 7 16;
            szTime_year = get_ward buf 8 16
        in if 32 \<le> length tmp \<or> 16 \<le> length szMon \<or> 16 \<le> length szDay \<or> 16 \<le> length szTime_year then None
           else (case (if IsNumber szMon \<and> length szMon = 4 then MakeTime tz now szMon szDay szTime_year
                       else MakeTime tz now szTime_year szMon szDay) of
                   None \<Rightarrow> None
                 | Some t \<Rightarrow>
                     (case cut_file_name (get_ward buf 9 256) of
                        None \<Rightarrow> None
                      | Some f \<Rightarrow>
                          Some (Some \<lparr>fi_dir = (if hd buf = CHR ''d'' then 1 else 0), fi_access = get_ward buf 1 32,
                            fi_size = atoi tmp, tModifyTime = t, fi_file = f\<rparr>))))"

fun parse_list :: "int \<Rightarrow> time_t \<Rightarrow> cstring list \<Rightarrow> FTP_FILE_INFO list option" where
  "parse_list tz now [] = Some []"
| "parse_list tz now (buf # lines) =
     (case parse_list_line tz now buf of
        None \<Rightarrow> None
      | Some r \<Rightarrow>
          (case parse_list tz now lines of
             None \<Rightarrow> None
           | Some l \<Rightarrow> Some (case r of None \<Rightarrow> l | Some f \<Rightarrow> f # l)))"

text \<open>
  \<open>get_ftp_file_list\<close> and \<open>get_sftp_file_list\<close> on the temporary file the server's listing was
  saved to; without the file the list is empty.
\<close>

definition get_ftp_file_list :: "int \<Rightarrow> time_t \<Rightarrow> cstring option \<Rightarrow> FTP_FILE_INFO list option" where
  "get_ftp_file_list tz now tmp_file =
     (case tmp_file of None \<Rightarrow> Some [] | Some content \<Rightarrow> parse_list tz now (fgets_lines 256 content))"

text \<open>The local directory: the names \<open>readdir\<close> returns and what \<open>stat64\<close> says of their paths.\<close>

fun get_local_file_list :: "(cstring \<Rightarrow> file_stat) \<Rightarrow> cstring \<Rightarrow> cstring list \<Rightarrow> FTP_FILE_INFO list option" where
  "get_local_file_list stat64 local [] = Some []"
| "get_local_file_list stat64 local (d_name # names) =
     (if d_name = ''.'' \<or> d_name = ''..'' then get_local_file_list stat64 local names
      else if local = [] then None
      else
        let path = (if last local = CHR ''/'' then local @ d_name else local @ ''/'' @ d_name) in
        if 256 \<le> length path then None
        else (case get_local_file_list stat64 local names of
                None \<Rightarrow> None
              | Some l \<Rightarrow>
                  Some (\<lparr>fi_dir = (if if_isdir (stat64 path) \<noteq> 0 then 1 else 0), fi_access = [],
                    fi_size = get_file_size (stat64 path), tModifyTime = get_file_last_modify (stat64 path),
                    fi_file = get_file_name d_name 256\<rparr> # l)))"

text \<open>A line made of nine words.\<close>

definition list_line :: "cstring list \<Rightarrow> cstring" where
  "list_line ws = concat (map (\<lambda>w. w @ [SPC]) (butlast ws)) @ last ws @ [LF]"

lemma words_list_line:
  assumes "ws \<noteq> []" and "\<forall>w \<in> set ws. w \<noteq> [] \<and> (\<forall>c \<in> set w. \<not> ward_sep c)"
  shows "words (list_line ws) = ws"
  using assms
proof (induction ws)
  case (Cons w ws)
  show ?case
  proof (cases "ws = []")
    case True
    have "words (w @ LF # []) = w # words []"
      by (rule words_word) (use Cons.prems in auto)
    with True show ?thesis by (simp add: list_line_def)
  next
    case False
    have "words (w @ SPC # list_line ws) = w # words (list_line ws)"
      by (rule words_word) (use Cons.prems in auto)
    moreover have "list_line (w # ws) = w @ SPC # list_line ws" using False by (simp add: list_line_def)
    ultimately show ?thesis using Cons False by simp
  qed
qed simp

lemma list_line_NUL:
  assumes "ws \<noteq> []" and "\<forall>w \<in> set ws. NUL \<notin> set w"
  shows "NUL \<notin> set (list_line ws)"
proof -
  have "NUL \<notin> set w" if "w \<in> set (butlast ws)" for w using assms(2) in_set_butlastD [OF that] by blast
  then show ?thesis using assms(1,2) by (simp add: list_line_def)
qed

lemma szEnglishMon_words:
  "w \<in> set szEnglishMon \<Longrightarrow> w \<noteq> [] \<and> (\<forall>c \<in> set w. \<not> ward_sep c \<and> c \<noteq> NUL)"
  "w \<in> set szEnglishMon \<Longrightarrow> length w = 3"
proof -
  have "\<forall>w \<in> set szEnglishMon. w \<noteq> [] \<and> (\<forall>c \<in> set w. \<not> ward_sep c \<and> c \<noteq> NUL) \<and> length w = 3"
    by (simp add: szEnglishMon_def ward_sep_def)
  then show "w \<in> set szEnglishMon \<Longrightarrow> w \<noteq> [] \<and> (\<forall>c \<in> set w. \<not> ward_sep c \<and> c \<noteq> NUL)"
    "w \<in> set szEnglishMon \<Longrightarrow> length w = 3" by blast+
qed

lemma cut_file_name_plain:
  assumes "2 \<le> length f" and "\<forall>c \<in> set f. c \<noteq> LF \<and> c \<noteq> CR" and "e = [] \<or> e = [CR]"
  shows "cut_file_name (f @ e) = Some f"
proof -
  have "last f \<noteq> LF" "last f \<noteq> CR" "f ! (length f - 2) \<noteq> CR" "f \<noteq> []"
    using assms(1,2) nth_mem [of "length f - 2" f] last_in_set [of f] by fastforce+
  with assms(1,3) show ?thesis by (auto simp: cut_file_name_def Let_def numeral_2_eq_2)
qed

lemma parse_line_fields:
  assumes "\<forall>w \<in> {perm, w2, w3, w4}. w \<noteq> [] \<and> (\<forall>c \<in> set w. \<not> ward_sep c \<and> c \<noteq> NUL)"
    and "i < 12" and "1970 \<le> y" and "y < 10000" and "1 \<le> d" and "d \<le> month_days y i"
    and "2 \<le> length f" and "length f < 255" and "\<forall>c \<in> set f. \<not> ward_sep c \<and> c \<noteq> NUL \<and> c \<noteq> CR"
    and "0 \<le> sz" and "sz < 10 ^ 20" and "e = [] \<or> e = [CR]"
  shows "\<exists>t. parse_list_line tz now
      (list_line [perm, w2, w3, w4, show_int sz, szEnglishMon ! i, show_nat d, show_nat y, f @ e]) =
    Some (Some \<lparr>fi_dir = (if hd perm = CHR ''d'' then 1 else 0), fi_access = take 32 perm, fi_size = sz,
      tModifyTime = t, fi_file = f\<rparr>) \<and>
    tm_year (localtime tz t) = int y - 1900 \<and> tm_mon (localtime tz t) = int i \<and> tm_mday (localtime tz t) = int d"
proof -
  let ?ws = "[perm, w2, w3, w4, show_int sz, szEnglishMon ! i, show_nat d, show_nat y, f @ e]"
  let ?l = "list_line ?ws"
  have dig: "\<not> ward_sep c \<and> c \<noteq> NUL" if "is_digit c \<or> c = CHR ''-''" for c
    using that by (auto simp: ward_sep_def)
  have mon: "szEnglishMon ! i \<in> set szEnglishMon" using assms(2) by (intro nth_mem) (simp add: szEnglishMon_def)
  then have mon': "szEnglishMon ! i \<noteq> [] \<and> (\<forall>c \<in> set (szEnglishMon ! i). \<not> ward_sep c \<and> c \<noteq> NUL)"
    "length (szEnglishMon ! i) = 3"
    using szEnglishMon_words [OF mon] by simp_all
  have nn: "w \<noteq> [] \<and> (\<forall>c \<in> set w. \<not> ward_sep c \<and> c \<noteq> NUL)" if "w \<in> set ?ws" for w
  proof -
    have "show_nat n \<noteq> [] \<and> (\<forall>c \<in> set (show_nat n). \<not> ward_sep c \<and> c \<noteq> NUL)" for n
      using show_nat_digits [of n] dig by auto
    moreover have "show_int sz \<noteq> [] \<and> (\<forall>c \<in> set (show_int sz). \<not> ward_sep c \<and> c \<noteq> NUL)"
      using show_int_chars [of _ sz] dig by auto
    moreover have "f @ e \<noteq> []" using assms(7) by (cases f) simp_all
    moreover have "\<forall>c \<in> set (f @ e). \<not> ward_sep c \<and> c \<noteq> NUL"
    proof
      fix c
      assume "c \<in> set (f @ e)"
      then have "c \<in> set f \<or> c = CR" using assms(12) by (elim disjE) (simp_all add: disj_commute)
      then show "\<not> ward_sep c \<and> c \<noteq> NUL"
      proof
        assume "c = CR"
        then show ?thesis by (simp add: ward_sep_def)
      qed (use assms(9) in blast)
    qed
    moreover define ok where "ok u = (u \<noteq> [] \<and> (\<forall>c \<in> set u. \<not> ward_sep c \<and> c \<noteq> NUL))" for u :: cstring
    ultimately have "ok (show_nat d)" "ok (show_nat y)" "ok (show_int sz)" "ok (f @ e)" "ok (szEnglishMon ! i)"
      using mon'(1) by (simp_all add: ok_def del: set_append append_is_Nil_conv)
    moreover have "ok perm" "ok w2" "ok w3" "ok w4" using assms(1) by (simp_all add: ok_def)
    ultimately have "\<forall>w \<in> set ?ws. ok w" by (simp del: append_is_Nil_conv)
    with that show ?thesis unfolding ok_def by blast
  qed
  have w: "words ?l = ?ws" by (rule words_list_line) (use nn in blast)+
  have "NUL \<notin> set ?l" by (rule list_line_NUL) (use nn in blast)+
  note g = get_ward_words [OF this]
  have len: "length (show_nat y) \<le> 4" "length (show_nat d) \<le> 2" "length (show_int sz) \<le> 20"
    using assms(4,6,10,11) show_nat_length [of y 4] show_nat_length [of d 2] show_int_length [of sz 20]
    by (auto simp: month_days_def split: if_splits)
  obtain t where t: "MakeTime tz now (show_nat y) (szEnglishMon ! i) (show_nat d) = Some t"
    "tm_year (localtime tz t) = int y - 1900 \<and> tm_mon (localtime tz t) = int i \<and> tm_mday (localtime tz t) = int d"
    using MakeTime_year [OF assms(2,3,5,6)] by blast
  have cut: "cut_file_name (f @ e) = Some f"
    by (rule cut_file_name_plain) (use assms(7,9,12) in \<open>auto simp: ward_sep_def\<close>)
  have hd: "hd ?l = hd perm" using assms(1) by (simp add: list_line_def)
  have wc: "get_string_wards_count ?l = 9" by (simp add: wards_count_words w)
  have lf: "take 256 f @ take (256 - length f) e = f @ e" using assms(8,12) by auto
  have g1: "get_ward ?l (Suc 0) 32 = take 32 perm" using g [of "Suc 0" 32] by (simp add: w)
  have "parse_list_line tz now ?l = Some (Some \<lparr>fi_dir = (if hd perm = CHR ''d'' then 1 else 0),
      fi_access = take 32 perm, fi_size = sz, tModifyTime = t, fi_file = f\<rparr>)"
    using len mon'(2) t(1) cut by (simp add: parse_list_line_def wc g1 g w hd Let_def lf)
  with t(2) show ?thesis by blast
qed

text \<open>
  A listing line is read field by field. For nine blank-free words that fit their fields, the
  entry has the type of the first letter, the size, and the file name of the line (with a CR
  before the newline cut off), dated \<open>Mon day year\<close>.
\<close>

theorem parse_list_line_fields:
  assumes "\<forall>w \<in> {perm, w2, w3, w4}. w \<noteq> [] \<and> (\<forall>c \<in> set w. \<not> ward_sep c \<and> c \<noteq> NUL)"
    and "i < 12" and "1970 \<le> y" and "y < 10000" and "1 \<le> d" and "d \<le> month_days y i"
    and "2 \<le> length f" and "length f < 255" and "\<forall>c \<in> set f. \<not> ward_sep c \<and> c \<noteq> NUL \<and> c \<noteq> CR"
    and "0 \<le> sz" and "sz < 10 ^ 20" and "e = [] \<or> e = [CR]"
  shows "\<exists>t. parse_list_line tz now
      (list_line [perm, w2, w3, w4, show_int sz, szEnglishMon ! i, show_nat d, show_nat y, f @ e]) =
    Some (Some \<lparr>fi_dir = (if hd perm = CHR ''d'' then 1 else 0), fi_access = take 32 perm, fi_size = sz,
      tModifyTime = t, fi_file = f\<rparr>) \<and>
    tm_year (localtime tz t) = int y - 1900 \<and> tm_mon (localtime tz t) = int i \<and> tm_mday (localtime tz t) = int d"
  by (rule parse_line_fields [OF assms])

theorem parse_list_line_fields_witness:
  "\<exists>t. parse_list_line 28800 0
      (list_line [''-rw-r--r--'', ''1'', ''o'', ''g'', show_int 3, szEnglishMon ! 8, show_nat 19, show_nat 2007, ''a.txt'' @ [CR]]) =
    Some (Some \<lparr>fi_dir = 0, fi_access = ''-rw-r--r--'', fi_size = 3, tModifyTime = t, fi_file = ''a.txt''\<rparr>) \<and>
    tm_year (localtime 28800 t) = 107 \<and> tm_mon (localtime 28800 t) = 8 \<and> tm_mday (localtime 28800 t) = 19"
  using parse_list_line_fields [of "''-rw-r--r--''" "''1''" "''o''" "''g''" 8 2007 19 "''a.txt''" 3 "[CR]" 28800 0]
  by (simp add: ward_sep_def month_days_def)

text \<open>A name with a blank makes ten words: such a file is never listed.\<close>

lemma blank_names_skipped: "length (words buf) \<noteq> 9 \<Longrightarrow> parse_list_line tz now buf = Some None"
  by (simp add: parse_list_line_def wards_count_words)

section \<open>create_task_item_list_by_ini\<close>

text \<open>\<open>strcpy\<close> of a value into a field of \<open>n\<close> bytes.\<close>

definition fits :: "nat \<Rightarrow> cstring \<Rightarrow> bool" where
  "fits n s = (length s < n)"

text \<open>One section \<open>[FtpParm n]\<close> of a task file; a task without an id is skipped.\<close>

definition ini_task :: "cstring option \<Rightarrow> cstring \<Rightarrow> TASK_ITEM option option" where
  "ini_task file sec =
     (let rs = (\<lambda>k d. read_ini_string file sec k d); ri = (\<lambda>k d. read_ini_int file sec k d);
          i = ri ''ID'' 0;
          month = rs ''MONTH'' ''*''; mday = rs ''DAY'' ''*''; hour = rs ''HOUR'' ''*''; mnt = rs ''MIN'' ''*'';
          cp1 = rs ''CP_DIR_1'' ''NULL''; cp2 = rs ''CP_DIR_2'' ''NULL''; cp3 = rs ''CP_DIR_3'' ''NULL'';
          cp4 = rs ''CP_DIR_4'' ''NULL''; mask = rs ''SON_DIR_MASK'' ''NULL''
      in if i = 0 then Some None
         else if \<not> (fits 16 month \<and> fits 16 mday \<and> fits 16 hour \<and> fits 16 mnt \<and>
                 fits 256 (rs ''FTP_HOST'' ''NULL'') \<and> fits 256 (rs ''FTP_PATH'' ''NULL'') \<and>
                 fits 256 (rs ''LOCAL_PATH'' ''NULL'') \<and> fits 128 (rs ''FILE'' ''NULL'') \<and>
                 fits 128 (rs ''SH_FILE'' ''NULL'') \<and> fits 32 mask \<and>
                 fits 128 cp1 \<and> fits 128 cp2 \<and> fits 128 cp3 \<and> fits 128 cp4) then None
         else Some (Some \<lparr>sch_item = \<lparr>sch_id = i, sch_month = month, sch_day = mday, sch_hour = hour, sch_min = mnt\<rparr>,
           ftp_host = rs ''FTP_HOST'' ''NULL'', ftp_path = rs ''FTP_PATH'' ''NULL'',
           local_path = rs ''LOCAL_PATH'' ''NULL'', task_file = rs ''FILE'' ''NULL'',
           direction = ri ''DIRECTION'' 0, del_src = ri ''DEL_SRC'' 0, generate_db_cdr = 0,
           file_ctime_escape = ri ''FILE_MODIFY_TIME_ESCAPE'' (365 * 24 * 3600), use_tmp = ri ''USE_TMP'' 1,
           copy_flag = 0, sh_file = rs ''SH_FILE'' ''NULL'', son_dir_mask = mask,
           cp_dir_1 = cp1, cp_dir_2 = cp2, cp_dir_3 = cp3, cp_dir_4 = cp4, ftp_flag = 0\<rparr>))"

fun ini_tasks :: "cstring option \<Rightarrow> nat list \<Rightarrow> TASK_ITEM list option" where
  "ini_tasks file [] = Some []"
| "ini_tasks file (n # ns) =
     (case ini_task file (''FtpParm'' @ show_nat n) of
        None \<Rightarrow> None
      | Some r \<Rightarrow>
          (case ini_tasks file ns of
             None \<Rightarrow> None
           | Some l \<Rightarrow> Some (case r of None \<Rightarrow> l | Some t \<Rightarrow> t # l)))"

text \<open>The outer loop over the task files \<open>ID1\<close>, \<open>ID2\<close>, ... of the main file.\<close>

fun ini_files :: "(cstring \<Rightarrow> cstring option) \<Rightarrow> cstring option \<Rightarrow> nat list \<Rightarrow> TASK_ITEM list option" where
  "ini_files fs main [] = Some []"
| "ini_files fs main (i # is) =
     (let file = read_ini_string main ''TaskList'' (''ID'' @ show_nat i) ''NULL'' in
      if file = ''NULL'' then ini_files fs main is
      else (case ini_tasks (fs file) [1..<Suc (nat (read_ini_int (fs file) ''ParmList'' ''ListNum'' 0))] of
              None \<Rightarrow> None
            | Some ts \<Rightarrow> map_option (\<lambda>l. ts @ l) (ini_files fs main is)))"

text \<open>
  The new tasks are linked behind \<open>_task_list\<close>, the head of the list, not behind its last
  element.
\<close>

definition link_tasks :: "TASK_ITEM list \<Rightarrow> TASK_ITEM list \<Rightarrow> TASK_ITEM list" where
  "link_tasks task_list new =
     (case task_list of [] \<Rightarrow> new | t # ts \<Rightarrow> if new = [] then task_list else t # new)"

definition create_task_item_list_by_ini ::
  "(cstring \<Rightarrow> cstring option) \<Rightarrow> cstring \<Rightarrow> TASK_ITEM list \<Rightarrow> TASK_ITEM list option" where
  "create_task_item_list_by_ini fs file task_list =
     map_option (link_tasks task_list)
       (ini_files fs (fs file) [1..<Suc (nat (read_ini_int (fs file) ''TaskList'' ''TaskNum'' 0))])"

lemma ini_task_id: "ini_task file sec = Some (Some t) \<Longrightarrow> sch_id (sch_item t) \<noteq> 0"
  by (auto simp: ini_task_def Let_def split: if_splits)

lemma ini_tasks_ids: "ini_tasks file ns = Some ts \<Longrightarrow> t \<in> set ts \<Longrightarrow> sch_id (sch_item t) \<noteq> 0"
  by (induction ns arbitrary: ts) (auto dest: ini_task_id split: option.splits)

text \<open>Loading a second time drops every task behind the first.\<close>

lemma reload_drops_tasks: "new \<noteq> [] \<Longrightarrow> link_tasks (t # ts) new = t # new"
  by (simp add: link_tasks_def)

text \<open>A list of minutes such as \<open>0,10,20,30,40,50\<close> does not fit the 16 bytes of its field.\<close>

lemma minute_list_overflows: "\<not> fits 16 ''0,10,20,30,40,50''"
  by (simp add: fits_def)

end
