(* ===== verification/Trans_Path.thy ===== *)
theory Trans_Path
  imports G_String Calendar
begin

text \<open>
  \<open>trans_path_str\<close> of \<open>taskitem.c\<close>: the date marks of a path or file name template are replaced
  by today's, yesterday's and last month's date. \<open>tz\<close> is the offset of the time zone; the
  clock is read once.
\<close>

section \<open>The code\<close>

text \<open>\<open>%02d\<close> and \<open>%04d\<close>\<close>

definition pad_int :: "nat \<Rightarrow> int \<Rightarrow> cstring" where
  "pad_int n i =
     (if i < 0 then CHR ''-'' # replicate (n - length (show_int i)) (CHR ''0'') @ tl (show_int i)
      else replicate (n - length (show_int i)) (CHR ''0'') @ show_int i)"

definition date_s :: "tm \<Rightarrow> cstring" where
  "date_s st = pad_int 2 (tm_year st + 1900 - 2000) @ pad_int 2 (tm_mon st + 1) @ pad_int 2 (tm_mday st)"

definition date_l :: "tm \<Rightarrow> cstring" where
  "date_l st = pad_int 4 (tm_year st + 1900) @ pad_int 2 (tm_mon st + 1) @ pad_int 2 (tm_mday st)"

definition month_s :: "tm \<Rightarrow> cstring" where
  "month_s st = pad_int 2 (tm_year st + 1900 - 2000) @ pad_int 2 (tm_mon st + 1)"

definition month_l :: "tm \<Rightarrow> cstring" where
  "month_l st = pad_int 4 (tm_year st + 1900) @ pad_int 2 (tm_mon st + 1)"

text \<open>\<open>tm_mday--\<close> and \<open>tm_mon--\<close>, normalised by \<open>mktime\<close>.\<close>

definition prev_day_st :: "int \<Rightarrow> time_t \<Rightarrow> tm" where
  "prev_day_st tz now =
     (let cur = localtime tz now in localtime tz (mktime tz (cur\<lparr>tm_mday := tm_mday cur - 1\<rparr>)))"

definition prev_month_st :: "int \<Rightarrow> time_t \<Rightarrow> tm" where
  "prev_month_st tz now =
     (let cur = localtime tz now in localtime tz (mktime tz (cur\<lparr>tm_mon := tm_mon cur - 1\<rparr>)))"

definition trans_marks :: "int \<Rightarrow> time_t \<Rightarrow> (cstring \<times> cstring) list" where
  "trans_marks tz now =
     (let cur = localtime tz now; pd = prev_day_st tz now; pm = prev_month_st tz now in
      [(''[_CUR_DATE_L]'', date_l cur), (''[_CUR_DATE_S]'', date_s cur),
       (''[_PREV_DATE_L]'', date_l pd), (''[_PREV_DATE_S]'', date_s pd),
       (''[_PREV_DATE_MONTH_S]'', month_s pd), (''[_PREV_DATE_MONTH_L]'', month_l pd),
       (''[_CUR_MONTH_L]'', month_l cur), (''[_CUR_MONTH_S]'', month_s cur),
       (''[_PREV_MONTH_L]'', month_l pm), (''[_PREV_MONTH_S]'', month_s pm)])"

text \<open>
  One replacement: the text is copied into the cleared buffer \<open>_tmp_str\<close> of \<open>__size\<close> bytes.
\<close>

definition trans_step :: "nat \<Rightarrow> cstring \<times> cstring \<Rightarrow> cstring \<Rightarrow> cstring option" where
  "trans_step sz = (\<lambda>(mark, date) s.
     (let tmp = take (sz - 1) s
      in string_replace (tmp @ replicate (sz - length tmp) NUL) mark date sz))"

definition trans_path_str :: "int \<Rightarrow> time_t \<Rightarrow> cstring \<Rightarrow> nat \<Rightarrow> cstring option" where
  "trans_path_str tz now src sz = fold_option (trans_step sz) (trans_marks tz now) src"

section \<open>Templates\<close>

text \<open>Between two opening brackets there is a closing one.\<close>

fun brackets_ok :: "bool \<Rightarrow> cstring \<Rightarrow> bool" where
  "brackets_ok inside [] = True"
| "brackets_ok inside (c # s) =
     (if c = CHR ''['' then \<not> inside \<and> brackets_ok True s
      else if c = CHR '']'' then brackets_ok False s
      else brackets_ok inside s)"

definition is_mark :: "cstring \<Rightarrow> bool" where
  "is_mark m = (\<exists>n. m = CHR ''['' # n @ [CHR '']''] \<and> CHR ''['' \<notin> set n \<and> CHR '']'' \<notin> set n \<and> NUL \<notin> set n)"

lemma is_markI: "\<forall>c \<in> set n. c \<noteq> CHR ''['' \<and> c \<noteq> CHR '']'' \<and> c \<noteq> NUL \<Longrightarrow> is_mark (CHR ''['' # n @ [CHR '']''])"
  by (auto simp: is_mark_def)

lemma brackets_restart:
  "brackets_ok True s \<Longrightarrow> CHR ''['' \<notin> set n \<Longrightarrow> CHR '']'' \<notin> set n \<Longrightarrow> no_restart (CHR ''['') (n @ [CHR '']'']) s"
proof (induction n arbitrary: s)
  case Nil
  then show ?case by (cases s) auto
next
  case (Cons a n)
  show ?case
  proof (cases s)
    case (Cons d s')
    with Cons.prems Cons.IH [of s'] show ?thesis by (auto split: if_splits)
  qed simp
qed

lemma brackets_no_false_start: "is_mark m \<Longrightarrow> brackets_ok b s \<Longrightarrow> no_false_start m s"
proof (induction s arbitrary: b)
  case (Cons c s)
  then obtain n where n: "m = CHR ''['' # n @ [CHR '']'']" "CHR ''['' \<notin> set n" "CHR '']'' \<notin> set n"
    by (auto simp: is_mark_def)
  from Cons.prems(2) have "brackets_ok (c = CHR ''['' \<or> (b \<and> c \<noteq> CHR '']'')) s" by (auto split: if_splits)
  then have "no_false_start m s" by (rule Cons.IH [OF Cons.prems(1)])
  moreover have "no_restart (CHR ''['') (n @ [CHR '']'']) s" if "c = CHR ''[''"
    using that Cons.prems(2) n brackets_restart by simp
  ultimately show ?case using n(1) by simp
qed simp

definition plain :: "cstring \<Rightarrow> bool" where
  "plain s = (\<forall>c \<in> set s. c \<noteq> CHR ''['' \<and> c \<noteq> CHR '']'' \<and> c \<noteq> NUL)"

lemma brackets_plain [simp]: "plain r \<Longrightarrow> brackets_ok b (r @ s) = brackets_ok b s"
  by (induction r) (auto simp: plain_def)

lemma brackets_mark:
  "CHR ''['' \<notin> set n \<Longrightarrow> CHR '']'' \<notin> set n \<Longrightarrow>
   brackets_ok b (CHR ''['' # n @ CHR '']'' # s) \<longleftrightarrow> \<not> b \<and> brackets_ok False s"
proof -
  assume n: "CHR ''['' \<notin> set n" "CHR '']'' \<notin> set n"
  then have "brackets_ok True (n @ CHR '']'' # s) = brackets_ok False s" by (induction n) auto
  then show ?thesis by simp
qed

lemma brackets_replace_all:
  "is_mark m \<Longrightarrow> plain r \<Longrightarrow> brackets_ok b s \<Longrightarrow> brackets_ok b (replace_all m r s)"
proof (induction m r s arbitrary: b rule: replace_all.induct)
  case (1 m r s)
  then obtain n where n: "m = CHR ''['' # n @ [CHR '']'']" "CHR ''['' \<notin> set n" "CHR '']'' \<notin> set n"
    by (auto simp: is_mark_def)
  have m: "m \<noteq> []" using n(1) by simp
  show ?case
  proof (cases "s = []")
    case False
    show ?thesis
    proof (cases "take (length m) s = m")
      case True
      let ?d = "drop (length m) s"
      have s: "s = m @ ?d" using True by (metis append_take_drop_id)
      then have "s = CHR ''['' # n @ CHR '']'' # ?d" using n(1) by simp
      then have "\<not> b" "brackets_ok False ?d" using brackets_mark [OF n(2,3)] "1.prems"(3) by metis+
      then have "brackets_ok b (replace_all m r ?d)"
        using "1.IH"(1) "1.prems"(1,2) False True m by simp
      then show ?thesis using "1.prems"(2) False True m by (subst replace_all.simps) simp
    next
      case miss: False
      obtain c s' where s: "s = c # s'" using False by (cases s) auto
      have "brackets_ok b' (replace_all m r s')" if "brackets_ok b' s'" for b'
        using "1.IH"(2) [of b'] "1.prems"(1,2) miss m that s by simp
      then show ?thesis
        using "1.prems"(3) m miss by (subst replace_all.simps) (auto simp: s split: if_splits)
    qed
  qed simp
qed

section \<open>The dates\<close>

lemma prev_day_eq:
  assumes "0 \<le> now + tz"
  shows "prev_day_st tz now = localtime tz (now - 86400)"
  using mktime_localtime_mday [OF assms, of "-1"] by (simp add: prev_day_st_def Let_def)

definition month_before :: "nat \<times> nat \<Rightarrow> nat \<times> nat" where
  "month_before = (\<lambda>(y, m). if m = 0 then (y - 1, 11) else (y, m - 1))"

lemma days_month_before:
  assumes "month_before (y, m) = (py, pm)" and "1970 < y \<or> 0 < m" and "1970 \<le> y"
  shows "days_from_civil y m d = days_from_civil py pm (d + int (month_days py pm))"
proof (cases "m = 0")
  case True
  then have p: "py = y - 1" "pm = 11" "y = Suc (y - 1)" using assms by (auto simp: month_before_def)
  have "days_to_year (Suc (y - 1)) = days_to_year (y - 1) + year_days (y - 1)"
    by (rule days_to_year_Suc) (use assms True in auto)
  moreover have "year_days (y - 1) = days_to_month (y - 1) 11 + month_days (y - 1) 11"
    using days_to_month_12 [of "y - 1"] by (simp add: eval_nat_numeral)
  ultimately show ?thesis using p True by (simp add: days_from_civil_def)
next
  case False
  then obtain m' where "m = Suc m'" by (cases m) auto
  then show ?thesis using assms by (auto simp: days_from_civil_def month_before_def)
qed

lemma localtime_civil:
  assumes "civil_from_days (nat ((t + tz) div 86400)) = (y, m, d)"
  shows "tm_year (localtime tz t) = int y - 1900" "tm_mon (localtime tz t) = int m" "tm_mday (localtime tz t) = int d"
  using assms by (simp_all add: localtime_def Let_def)

text \<open>\<open>mktime\<close> with the month before moves the time back by the length of that month.\<close>

lemma mktime_month_before:
  assumes c: "civil_from_days (nat ((now + tz) div 86400)) = (y, m, d)"
    and "0 \<le> now + tz" and m: "month_before (y, m) = (py, pm)" and y: "1970 < y \<or> 0 < m"
  shows "mktime tz (localtime tz now\<lparr>tm_mon := tm_mon (localtime tz now) - 1\<rparr>) = now - int (month_days py pm) * 86400"
proof -
  let ?L = "localtime tz now"
  note r = civil_from_days_result [OF c]
  have k: "days_from_civil y m (int d) = days_from_civil py pm (int d) + int (month_days py pm)"
    using days_month_before [OF m y r(1), of "int d"] by (simp add: days_from_civil_def)
  have "mktime tz ?L = days_from_civil y m (int d) * 86400 + tm_hour ?L * 3600 + tm_min ?L * 60 + tm_sec ?L - tz"
    using localtime_civil [OF c] r(2) by (simp add: mktime_def Let_def)
  then have now: "now = days_from_civil y m (int d) * 86400 + tm_hour ?L * 3600 + tm_min ?L * 60 + tm_sec ?L - tz"
    using mktime_localtime [OF assms(2)] by simp
  have e: "nat (tm_year ?L + 1900 + (tm_mon ?L - 1) div 12) = py \<and> nat ((tm_mon ?L - 1) mod 12) = pm"
  proof (cases "m = 0")
    case True
    then have "py = y - 1" "pm = 11" using m by (auto simp: month_before_def)
    then show ?thesis using True r(1) y localtime_civil [OF c] by (simp add: nat_diff_distrib)
  next
    case False
    then have "py = y" "pm = m - 1" using m by (auto simp: month_before_def)
    then show ?thesis using False r(2) localtime_civil [OF c] by (simp add: nat_diff_distrib)
  qed
  have "mktime tz (?L\<lparr>tm_mon := tm_mon ?L - 1\<rparr>) =
      days_from_civil py pm (int d) * 86400 + tm_hour ?L * 3600 + tm_min ?L * 60 + tm_sec ?L - tz"
    using e localtime_civil(3) [OF c] by (simp add: mktime_def Let_def)
  moreover have "days_from_civil y m (int d) * 86400 =
      days_from_civil py pm (int d) * 86400 + int (month_days py pm) * 86400"
    by (simp add: k)
  ultimately show ?thesis using now by linarith
qed

lemma prev_month_date:
  assumes c: "civil_from_days (nat ((now + tz) div 86400)) = (y, m, d)"
    and t: "31 * 86400 \<le> now + tz" and mb: "month_before (y, m) = (py, pm)"
  shows "civil_from_days (nat ((now - int (month_days py pm) * 86400 + tz) div 86400)) =
    (if d \<le> month_days py pm then (py, pm, d) else (y, m, d - month_days py pm))"
    and "prev_month_st tz now = localtime tz (now - int (month_days py pm) * 86400)"
proof -
  note r = civil_from_days_result [OF c]
  let ?k = "month_days py pm"
  have k: "?k \<le> 31" "28 \<le> ?k" by (auto simp: month_days_def)
  have n: "31 \<le> (now + tz) div 86400" using t by simp
  have y: "1970 < y \<or> 0 < m"
  proof (rule ccontr)
    assume "\<not> (1970 < y \<or> 0 < m)"
    then have "y = 1970" "m = 0" using r(1) by auto
    then have "(now + tz) div 86400 = int d - 1" "d \<le> 31"
      using r(4,5) n by (auto simp: days_from_civil_def month_days_def split: if_splits)
    with n show False by simp
  qed
  have e: "now - int ?k * 86400 + tz = now + tz + (- int ?k) * 86400" by simp
  have q: "(now - int ?k * 86400 + tz) div 86400 = (now + tz) div 86400 - int ?k"
    unfolding e by simp
  have D: "int (nat ((now - int ?k * 86400 + tz) div 86400)) = days_from_civil py pm (int d)"
    using r(5) q n k(1) days_month_before [OF mb y r(1), of "int d"] by (simp add: days_from_civil_def)
  have py: "1970 \<le> py" "pm < 12" using mb r(1,2) y by (auto simp: month_before_def split: if_splits)
  show "civil_from_days (nat ((now - int ?k * 86400 + tz) div 86400)) =
    (if d \<le> ?k then (py, pm, d) else (y, m, d - ?k))"
  proof (cases "d \<le> ?k")
    case True
    then show ?thesis using civil_from_days_unique [OF py r(3) True D [symmetric]] by simp
  next
    case False
    have "days_from_civil y m (int (d - ?k)) = days_from_civil py pm (int d)"
      using days_month_before [OF mb y r(1), of "int (d - ?k)"] False by (simp add: of_nat_diff)
    then have "days_from_civil y m (int (d - ?k)) = int (nat ((now - int ?k * 86400 + tz) div 86400))"
      using D by simp
    moreover have "1 \<le> d - ?k" "d - ?k \<le> month_days y m" using False r(4) by auto
    ultimately show ?thesis using civil_from_days_unique [OF r(1,2)] False by simp
  qed
  have "0 \<le> now + tz" using t by simp
  then show "prev_month_st tz now = localtime tz (now - int ?k * 86400)"
    using mktime_month_before [OF c _ mb y] by (simp add: prev_month_st_def Let_def)
qed

text \<open>
  The mark for last month. \<open>[_PREV_MONTH_L]\<close> and \<open>[_PREV_MONTH_S]\<close> name the month before
  the current one exactly when that month has a day with today's number; on the other days (the
  31st after a 30-day month, the 29th to 31st of March) they name the current month.
\<close>

theorem prev_month_right_iff:
  assumes "civil_from_days (nat ((now + tz) div 86400)) = (y, m, d)" and "2678400 \<le> now + tz"
    and "month_before (y, m) = (py, pm)"
  shows "(tm_year (prev_month_st tz now), tm_mon (prev_month_st tz now)) =
    (if d \<le> month_days py pm then (int py - 1900, int pm) else (int y - 1900, int m))"
proof -
  have t: "31 * 86400 \<le> now + tz" using assms(2) by simp
  show ?thesis
    using prev_month_date(1) [OF assms(1) t assms(3)] localtime_civil
    unfolding prev_month_date(2) [OF assms(1) t assms(3)] by (auto split: if_splits)
qed

text \<open>30 March 2005: the month before has no such day.\<close>

lemma days_2005: "days_to_year 2005 = 12784"
  by (simp add: days_to_year.simps year_days_def leap_def)

lemma civil_2005_03_30: "civil_from_days 12872 = (2005, 2, 30)"
  by (rule civil_from_days_unique) (simp_all add: days_from_civil_def days_2005 month_days_def leap_def numeral_2_eq_2)

theorem prev_month_right_iff_witness:
  "(tm_year (prev_month_st 0 1112140800), tm_mon (prev_month_st 0 1112140800)) = (105, 2)"
  using prev_month_right_iff [of 1112140800 0 2005 2 30 2005 1] civil_2005_03_30
  by (simp add: month_before_def month_days_def leap_def)

section \<open>The replacement\<close>

lemma pad_int_length: "0 \<le> i \<Longrightarrow> i < 10 ^ k \<Longrightarrow> n \<le> k \<Longrightarrow> 0 < k \<Longrightarrow> length (pad_int n i) \<le> k"
  using show_int_length [of i k] by (auto simp: pad_int_def)

lemma pad_int_plain [simp]: "plain (pad_int n i)"
proof -
  have "c \<noteq> CHR ''['' \<and> c \<noteq> CHR '']'' \<and> c \<noteq> NUL" if "c \<in> set (show_int i)" for c
    using show_int_chars [OF that] by (auto simp: is_digit_def)
  moreover have "set (tl (show_int i)) \<subseteq> set (show_int i)" by (metis list.set_sel(2) show_int_ne subsetI)
  ultimately show ?thesis by (fastforce simp: plain_def pad_int_def)
qed

lemma plain_append [simp]: "plain (a @ b) \<longleftrightarrow> plain a \<and> plain b"
  by (auto simp: plain_def)

lemma date_plain [simp]: "plain (date_s st)" "plain (date_l st)" "plain (month_s st)" "plain (month_l st)"
  by (simp_all add: date_s_def date_l_def month_s_def month_l_def)

text \<open>A calendar date of the years 2000 to 9999.\<close>

definition tm_ok :: "tm \<Rightarrow> bool" where
  "tm_ok st = (100 \<le> tm_year st \<and> tm_year st < 8100 \<and> 0 \<le> tm_mon st \<and> tm_mon st < 12 \<and>
     1 \<le> tm_mday st \<and> tm_mday st \<le> 31)"

lemma date_length:
  assumes "tm_ok st"
  shows "length (date_s st) \<le> 8" "length (date_l st) \<le> 8" "length (month_s st) \<le> 8" "length (month_l st) \<le> 8"
proof -
  have "length (pad_int 2 (tm_year st + 1900 - 2000)) \<le> 4" "length (pad_int 4 (tm_year st + 1900)) \<le> 4"
    "length (pad_int 2 (tm_mon st + 1)) \<le> 2" "length (pad_int 2 (tm_mday st)) \<le> 2"
    using assms by (auto simp: tm_ok_def intro!: pad_int_length)
  then show "length (date_s st) \<le> 8" "length (date_l st) \<le> 8" "length (month_s st) \<le> 8" "length (month_l st) \<le> 8"
    by (simp_all add: date_s_def date_l_def month_s_def month_l_def)
qed

lemma replace_all_shorter: "length r \<le> length m \<Longrightarrow> length (replace_all m r s) \<le> length s"
proof (induction m r s rule: replace_all.induct)
  case (1 m r s)
  show ?case
  proof (cases "m = [] \<or> s = []")
    case True
    then show ?thesis by (subst replace_all.simps) auto
  next
    case ne: False
    show ?thesis
    proof (cases "take (length m) s = m")
      case True
      then have "length m \<le> length s" by (metis length_take min.cobounded1)
      moreover have "length (replace_all m r (drop (length m) s)) \<le> length (drop (length m) s)"
        using "1.IH"(1) "1.prems" ne True by simp
      ultimately show ?thesis using ne True "1.prems" by (subst replace_all.simps) auto
    next
      case False
      then have "length (replace_all m r (tl s)) \<le> length (tl s)" using "1.IH"(2) "1.prems" ne by simp
      then show ?thesis using ne False by (subst replace_all.simps) (cases s, auto)
    qed
  qed
qed

text \<open>One step does what the reference does, and keeps what the next step needs.\<close>

lemma trans_step_correct:
  assumes "is_mark m" and "plain r" and "length r \<le> length m" and "NUL \<notin> set s" and "brackets_ok False s"
    and "length s + 2 \<le> sz"
  shows "trans_step sz (m, r) s = Some (replace_all m r s)"
    and "NUL \<notin> set (replace_all m r s)" and "brackets_ok False (replace_all m r s)"
    and "length (replace_all m r s) + 2 \<le> sz"
proof -
  have m: "m \<noteq> []" "hd m \<notin> set (tl m)" "NUL \<notin> set m" using assms(1) by (auto simp: is_mark_def)
  have r: "NUL \<notin> set r" using assms(2) by (auto simp: plain_def)
  have l: "length (replace_all m r s) \<le> length s" by (rule replace_all_shorter [OF assms(3)])
  define k where "k = sz - length s - 2"
  have "sz - length s = Suc (Suc k)" using assms(6) by (simp add: k_def)
  moreover have "take (sz - 1) s = s" using assms(6) by simp
  ultimately have "trans_step sz (m, r) s = string_replace (s @ NUL # NUL # replicate k NUL) m r sz"
    by (simp add: trans_step_def Let_def)
  also have "\<dots> = Some (replace_all m r s)"
    by (rule string_replace_all [OF m assms(4) r brackets_no_false_start [OF assms(1,5)]]) (use l assms(6) in simp)
  finally show "trans_step sz (m, r) s = Some (replace_all m r s)" .
  show "NUL \<notin> set (replace_all m r s)" by (rule replace_all_no_NUL [OF r assms(4)])
  show "brackets_ok False (replace_all m r s)" by (rule brackets_replace_all [OF assms(1,2,5)])
  show "length (replace_all m r s) + 2 \<le> sz" using l assms(6) by simp
qed

lemma trans_steps_correct:
  assumes "\<And>m r. (m, r) \<in> set marks \<Longrightarrow> is_mark m \<and> plain r \<and> length r \<le> length m"
    and "NUL \<notin> set s" and "brackets_ok False s" and "length s + 2 \<le> sz"
  shows "fold_option (trans_step sz) marks s = Some (fold (\<lambda>(m, r) s. replace_all m r s) marks s)"
  using assms
proof (induction marks arbitrary: s)
  case (Cons mr marks)
  obtain m r where mr: "mr = (m, r)" by (cases mr)
  then have a: "is_mark m" "plain r" "length r \<le> length m" using Cons.prems(1) by auto
  note st = trans_step_correct [OF a Cons.prems(2-4)]
  have "fold_option (trans_step sz) marks (replace_all m r s) =
      Some (fold (\<lambda>(m, r) s. replace_all m r s) marks (replace_all m r s))"
    by (rule Cons.IH) (use Cons.prems(1) st in auto)
  then show ?case using st(1) by (simp add: mr)
qed simp

lemma trans_marks_ok:
  assumes "tm_ok (localtime tz now)" and "tm_ok (prev_day_st tz now)" and "tm_ok (prev_month_st tz now)"
    and "(m, r) \<in> set (trans_marks tz now)"
  shows "is_mark m \<and> plain r \<and> length r \<le> length m"
proof -
  have "is_mark m \<and> plain r \<and> 8 < length m \<and> length r \<le> 8"
    using assms(4) date_length [OF assms(1)] date_length [OF assms(2)] date_length [OF assms(3)]
    by (auto simp: trans_marks_def Let_def is_mark_def)
  then show ?thesis by simp
qed

text \<open>
  \<open>trans_path_str\<close> replaces every date mark. For a template in which no opening bracket
  follows another without a closing one between, and which leaves two bytes of the buffer free,
  the result is the template with all occurrences of the ten marks replaced one mark after
  another, and the mark for yesterday is the date of \<open>now - 86400\<close>.
\<close>

theorem trans_path_str_correct:
  assumes "NUL \<notin> set src" and "brackets_ok False src" and "length src + 2 \<le> sz" and "0 \<le> now + tz"
    and "tm_ok (localtime tz now)" and "tm_ok (prev_day_st tz now)" and "tm_ok (prev_month_st tz now)"
  shows "trans_path_str tz now src sz =
      Some (fold (\<lambda>(m, r) s. replace_all m r s) (trans_marks tz now) src) \<and>
    (''[_PREV_DATE_L]'', date_l (localtime tz (now - 86400))) \<in> set (trans_marks tz now)"
proof
  show "trans_path_str tz now src sz = Some (fold (\<lambda>(m, r) s. replace_all m r s) (trans_marks tz now) src)"
    unfolding trans_path_str_def
    by (rule trans_steps_correct [OF trans_marks_ok [OF assms(5-7)] assms(1-3)])
  show "(''[_PREV_DATE_L]'', date_l (localtime tz (now - 86400))) \<in> set (trans_marks tz now)"
    by (simp add: trans_marks_def Let_def prev_day_eq [OF assms(4)])
qed

lemma civil_2005_more: "civil_from_days 12871 = (2005, 2, 29)" "civil_from_days 12844 = (2005, 2, 2)"
  by (rule civil_from_days_unique;
      simp add: days_from_civil_def days_2005 month_days_def leap_def numeral_2_eq_2)+

lemma demo_tm_ok:
  "tm_ok (localtime 0 1112140800)" "tm_ok (prev_day_st 0 1112140800)" "tm_ok (prev_month_st 0 1112140800)"
proof -
  show "tm_ok (localtime 0 1112140800)"
    by (simp add: tm_ok_def localtime_def civil_2005_03_30)
  show "tm_ok (prev_day_st 0 1112140800)"
    by (simp add: prev_day_eq) (simp add: tm_ok_def localtime_def civil_2005_more)
  have "prev_month_st 0 1112140800 = localtime 0 (1112140800 - int (month_days 2005 1) * 86400)"
    by (rule prev_month_date(2) [of _ _ 2005 2 30]) (simp_all add: civil_2005_03_30 month_before_def)
  then show "tm_ok (prev_month_st 0 1112140800)"
    by (simp add: month_days_def leap_def) (simp add: tm_ok_def localtime_def civil_2005_more)
qed

theorem trans_path_str_correct_witness:
  "trans_path_str 0 1112140800 ''/d/[_CUR_MONTH_S]/x'' 256 =
    Some (fold (\<lambda>(m, r) s. replace_all m r s) (trans_marks 0 1112140800) ''/d/[_CUR_MONTH_S]/x'')"
  using trans_path_str_correct [of "''/d/[_CUR_MONTH_S]/x''" 256 1112140800 0] demo_tm_ok by simp

end
