(* ===== verification/Ftped_Map.thy ===== *)
theory Ftped_Map
  imports Task_Data
begin

text \<open>
  The shared-memory map of transferred files (\<open>g_pMapFileInfo\<close> in \<open>taskitem.c\<close>): a map from
  \<open>unsigned long\<close> keys to \<open>TFileInfo\<close>, used as an open-addressing hash table. A file of task
  \<open>i\<close> with name \<open>f\<close> is stored under \<open>hash(i f)\<close> or, when that slot is taken, under the first
  free key behind it; the slot at the hash value counts how far its chain goes. The loops of
  \<open>shm_insert_file\<close> and \<open>read_ftped_file\<close> are here, with what they promise: the table is a set
  of (task, name, size) triples. The operations around them are in \<open>Ftped_Files\<close>.
\<close>

type_synonym file_map = "ulong \<rightharpoonup> TFileInfo"

section \<open>The loops\<close>

definition empty_info :: TFileInfo where
  "empty_info = \<lparr>FileName = [], nFileSize = 0, nConflictCount = 0, ftptime = 0, nftpid = 0\<rparr>"

text \<open>\<open>(*g_pMapFileInfo)[k].nConflictCount = c\<close>; \<open>operator[]\<close> creates a missing entry.\<close>

definition set_conflict :: "file_map \<Rightarrow> ulong \<Rightarrow> nat \<Rightarrow> file_map" where
  "set_conflict m k c =
     m(k \<mapsto> (case m k of None \<Rightarrow> empty_info | Some e \<Rightarrow> e)\<lparr>nConflictCount := c\<rparr>)"

text \<open>
  The \<open>while(1)\<close> of \<open>shm_insert_file\<close>. It may not end, so it is a partial function.
\<close>

partial_function (option) insert_probe ::
  "file_map \<Rightarrow> int \<Rightarrow> cstring \<Rightarrow> int \<Rightarrow> ulong \<Rightarrow> TFileInfo \<Rightarrow> nat \<Rightarrow> file_map option" where
  "insert_probe m sid szSchFile sz nKey info c =
     (case m (nKey + of_nat c) of
        None \<Rightarrow>
          let m' = m(nKey + of_nat c \<mapsto> info)
          in Some (if 1 \<le> c then set_conflict m' nKey c else m')
      | Some e \<Rightarrow>
          if nftpid e = sid \<and> sz = nFileSize e \<and> FileName e = szSchFile then Some m
          else insert_probe m sid szSchFile sz nKey info (Suc c))"

definition file_info :: "int \<Rightarrow> cstring \<Rightarrow> int \<Rightarrow> time_t \<Rightarrow> TFileInfo" where
  "file_info sid szSchFile sz t =
     \<lparr>FileName = take 47 szSchFile, nFileSize = sz, nConflictCount = 0, ftptime = t, nftpid = sid\<rparr>"

definition map_insert :: "file_map \<Rightarrow> int \<Rightarrow> cstring \<Rightarrow> int \<Rightarrow> time_t \<Rightarrow> file_map option" where
  "map_insert m sid szSchFile sz t =
     insert_probe m sid szSchFile sz (hash szSchFile) (file_info sid szSchFile sz t) 0"

text \<open>The loop of \<open>read_ftped_file\<close> over the chain, and the lookup before it.\<close>

definition entry_matches :: "TFileInfo option \<Rightarrow> int \<Rightarrow> cstring \<Rightarrow> int \<Rightarrow> bool" where
  "entry_matches it sid szFileName sz =
     (case it of
        None \<Rightarrow> False
      | Some e \<Rightarrow> strneq (FileName e) szFileName 47 \<and> nFileSize e = sz \<and> nftpid e = sid)"

function read_loop :: "file_map \<Rightarrow> int \<Rightarrow> cstring \<Rightarrow> int \<Rightarrow> ulong \<Rightarrow> nat \<Rightarrow> nat \<Rightarrow> bool" where
  "read_loop m sid szFileName sz nKey n i =
     (if n < i then False
      else if entry_matches (m (nKey + of_nat i)) sid szFileName sz then True
      else read_loop m sid szFileName sz nKey n (Suc i))"
  by pat_completeness auto
termination by (relation "measure (\<lambda>(m, sid, s, sz, k, n, i). Suc n - i)") auto

declare read_loop.simps [simp del]

definition map_lookup :: "file_map \<Rightarrow> int \<Rightarrow> cstring \<Rightarrow> int \<Rightarrow> bool" where
  "map_lookup m sid szFileName sz =
     (case m (hash szFileName) of
        None \<Rightarrow> False
      | Some e \<Rightarrow> read_loop m sid szFileName sz (hash szFileName) (nConflictCount e) 0)"

text \<open>\<open>g_pMapFileInfo->insert(make_pair(sch_item_id, FileInfo))\<close> marks a task as loaded.\<close>

definition map_mark :: "file_map \<Rightarrow> int \<Rightarrow> file_map" where
  "map_mark m sid =
     (case m (word_of_int sid) of None \<Rightarrow> m(word_of_int sid \<mapsto> empty_info) | Some e \<Rightarrow> m)"

section \<open>Termination\<close>

lemma read_loop_iff:
  "read_loop m sid s sz k n i \<longleftrightarrow> (\<exists>j. i \<le> j \<and> j \<le> n \<and> entry_matches (m (k + of_nat j)) sid s sz)"
proof (induction m sid s sz k n i rule: read_loop.induct)
  case (1 m sid s sz k n i)
  show ?case
  proof (cases "n < i")
    case False
    have "(\<exists>j. i \<le> j \<and> j \<le> n \<and> entry_matches (m (k + of_nat j)) sid s sz) \<longleftrightarrow>
        entry_matches (m (k + of_nat i)) sid s sz \<or>
        (\<exists>j. Suc i \<le> j \<and> j \<le> n \<and> entry_matches (m (k + of_nat j)) sid s sz)"
      using False by (metis Suc_leD Suc_leI le_neq_implies_less not_le order_refl)
    with 1 False show ?thesis by (subst read_loop.simps) auto
  qed (subst read_loop.simps, auto)
qed

lemma map_lookup_iff:
  "map_lookup m sid s sz \<longleftrightarrow>
   (\<exists>e j. m (hash s) = Some e \<and> j \<le> nConflictCount e \<and> entry_matches (m (hash s + of_nat j)) sid s sz)"
  by (auto simp: map_lookup_def read_loop_iff split: option.splits)

text \<open>
  What the insertion does when it returns: it stopped after \<open>c\<close> occupied slots, at a free one
  or at an entry it takes for the file's own.
\<close>

definition probe_stops :: "file_map \<Rightarrow> int \<Rightarrow> cstring \<Rightarrow> int \<Rightarrow> ulong \<Rightarrow> nat \<Rightarrow> bool" where
  "probe_stops m sid s sz k c =
     (case m (k + of_nat c) of
        None \<Rightarrow> True
      | Some e \<Rightarrow> nftpid e = sid \<and> sz = nFileSize e \<and> FileName e = s)"

definition probe_result :: "file_map \<Rightarrow> ulong \<Rightarrow> TFileInfo \<Rightarrow> nat \<Rightarrow> file_map" where
  "probe_result m k info c =
     (case m (k + of_nat c) of
        None \<Rightarrow>
          if 1 \<le> c then set_conflict (m(k + of_nat c \<mapsto> info)) k c else m(k + of_nat c \<mapsto> info)
      | Some e \<Rightarrow> m)"

lemma insert_probe_step:
  "insert_probe m sid s sz k info c =
   (if probe_stops m sid s sz k c then Some (probe_result m k info c)
    else insert_probe m sid s sz k info (Suc c))"
  by (subst insert_probe.simps)
    (auto simp: probe_stops_def probe_result_def Let_def split: option.splits)

lemma insert_probe_stop:
  "probe_stops m sid s sz k (c0 + d) \<Longrightarrow> (\<And>i. i < d \<Longrightarrow> \<not> probe_stops m sid s sz k (c0 + i)) \<Longrightarrow>
   insert_probe m sid s sz k info c0 = Some (probe_result m k info (c0 + d))"
proof (induction d arbitrary: c0)
  case 0
  then show ?case by (subst insert_probe_step) simp
next
  case (Suc d)
  have "\<not> probe_stops m sid s sz k c0" using Suc.prems(2) [of 0] by simp
  then have "insert_probe m sid s sz k info c0 = insert_probe m sid s sz k info (Suc c0)"
    by (subst insert_probe_step) simp
  also have "\<dots> = Some (probe_result m k info (Suc c0 + d))"
  proof (rule Suc.IH)
    show "probe_stops m sid s sz k (Suc c0 + d)" using Suc.prems(1) by simp
    show "\<not> probe_stops m sid s sz k (Suc c0 + i)" if "i < d" for i
      using Suc.prems(2) [of "Suc i"] that by simp
  qed
  finally show ?case by simp
qed

definition probe_end :: "file_map \<Rightarrow> int \<Rightarrow> cstring \<Rightarrow> int \<Rightarrow> ulong \<Rightarrow> TFileInfo \<Rightarrow> nat \<Rightarrow> file_map \<Rightarrow> bool" where
  "probe_end m sid s sz k info c0 m' =
     (\<exists>c \<ge> c0. probe_stops m sid s sz k c \<and> (\<forall>i. c0 \<le> i \<and> i < c \<longrightarrow> \<not> probe_stops m sid s sz k i) \<and>
        m' = probe_result m k info c)"

lemma probe_end_here:
  "probe_stops m sid s sz k c0 \<Longrightarrow> probe_end m sid s sz k info c0 (probe_result m k info c0)"
  unfolding probe_end_def by (intro exI [of _ c0]) auto

lemma probe_end_next:
  assumes "\<not> probe_stops m sid s sz k c0" and "probe_end m sid s sz k info (Suc c0) m'"
  shows "probe_end m sid s sz k info c0 m'"
proof -
  from assms(2) obtain c where c: "Suc c0 \<le> c" "probe_stops m sid s sz k c"
    "\<forall>i. Suc c0 \<le> i \<and> i < c \<longrightarrow> \<not> probe_stops m sid s sz k i" "m' = probe_result m k info c"
    unfolding probe_end_def by blast
  then have "\<forall>i. c0 \<le> i \<and> i < c \<longrightarrow> \<not> probe_stops m sid s sz k i"
    using assms(1) by (metis Suc_leI le_neq_implies_less)
  with c show ?thesis unfolding probe_end_def by (intro exI [of _ c]) auto
qed

lemma insert_probe_SomeD:
  assumes "insert_probe m sid s sz k info c0 = Some m'"
  shows "probe_end m sid s sz k info c0 m'"
proof (rule insert_probe.raw_induct [where P = probe_end, OF _ assms])
  fix rec :: "file_map \<Rightarrow> int \<Rightarrow> cstring \<Rightarrow> int \<Rightarrow> ulong \<Rightarrow> TFileInfo \<Rightarrow> nat \<Rightarrow> file_map option"
    and m sid s sz k info c m'
  assume IH: "\<And>m sid s sz k info c m'. rec m sid s sz k info c = Some m' \<Longrightarrow> probe_end m sid s sz k info c m'"
  assume eq: "(case m (k + of_nat c) of
        None \<Rightarrow>
          let m' = m(k + of_nat c \<mapsto> info)
          in Some (if 1 \<le> c then set_conflict m' k c else m')
      | Some e \<Rightarrow>
          if nftpid e = sid \<and> sz = nFileSize e \<and> FileName e = s then Some m
          else rec m sid s sz k info (Suc c)) = Some m'"
  show "probe_end m sid s sz k info c m'"
  proof (cases "probe_stops m sid s sz k c")
    case True
    then have "m' = probe_result m k info c"
      using eq by (auto simp: probe_stops_def probe_result_def Let_def split: option.splits)
    with probe_end_here [OF True] show ?thesis by simp
  next
    case False
    then have "rec m sid s sz k info (Suc c) = Some m'"
      using eq by (auto simp: probe_stops_def split: option.splits if_splits)
    then have "probe_end m sid s sz k info (Suc c) m'" by (rule IH)
    with False show ?thesis by (rule probe_end_next)
  qed
qed

lemma free_slot_reached:
  fixes k :: "ulong"
  assumes "m f = None"
  shows "\<exists>c. m (k + of_nat c) = None"
proof -
  have "k + of_nat (unat (f - k)) = f" by simp
  with assms show ?thesis by metis
qed

lemma map_insert_cases:
  assumes "map_insert m sid s sz t = Some m'"
  obtains c where "\<And>i. i < c \<Longrightarrow> m (hash s + of_nat i) \<noteq> None"
    and "probe_stops m sid s sz (hash s) c"
    and "m' = probe_result m (hash s) (file_info sid s sz t) c"
proof -
  from assms obtain c where "probe_stops m sid s sz (hash s) c"
    "\<forall>i<c. \<not> probe_stops m sid s sz (hash s) i"
    "m' = probe_result m (hash s) (file_info sid s sz t) c"
    using insert_probe_SomeD [OF assms [unfolded map_insert_def]] unfolding probe_end_def by auto
  then show thesis
    by (intro that [of c]) (auto simp: probe_stops_def split: option.splits)
qed

section \<open>The invariant\<close>

text \<open>
  Stored names fit their 48-byte field; the slots a chain counts are occupied; an entry whose
  name was not truncated is reached from the slot of its hash within that slot's count.
\<close>

definition names_inv :: "file_map \<Rightarrow> bool" where
  "names_inv m = (\<forall>k e. m k = Some e \<longrightarrow> length (FileName e) \<le> 47)"

definition chain_inv :: "file_map \<Rightarrow> bool" where
  "chain_inv m = (\<forall>k e i. m k = Some e \<longrightarrow> i \<le> nConflictCount e \<longrightarrow> m (k + of_nat i) \<noteq> None)"

definition own_inv :: "file_map \<Rightarrow> bool" where
  "own_inv m =
     (\<forall>k e. m k = Some e \<longrightarrow> FileName e \<noteq> [] \<longrightarrow> length (FileName e) < 47 \<longrightarrow>
        (\<exists>h c. m (hash (FileName e)) = Some h \<and> k = hash (FileName e) + of_nat c \<and> c \<le> nConflictCount h))"

definition map_inv :: "file_map \<Rightarrow> bool" where
  "map_inv m = (names_inv m \<and> chain_inv m \<and> own_inv m)"

lemma map_inv_empty: "map_inv Map.empty"
  by (simp add: map_inv_def names_inv_def chain_inv_def own_inv_def)

lemma probe_result_full: "m (k + of_nat c) = Some e \<Longrightarrow> probe_result m k info c = m"
  by (simp add: probe_result_def)

lemma probe_result_new:
  assumes "m (k + of_nat c) = None" and "\<And>i. i < c \<Longrightarrow> m (k + of_nat i) \<noteq> None"
    and "nConflictCount info = 0"
  obtains e where "c = 0 \<Longrightarrow> e = info" and "0 < c \<Longrightarrow> m k = Some e"
    and "probe_result m k info c = m(k + of_nat c \<mapsto> info, k \<mapsto> e\<lparr>nConflictCount := c\<rparr>)"
proof (cases c)
  case 0
  have "info\<lparr>nConflictCount := 0\<rparr> = info" using assms(3) by simp
  with 0 assms(1) show thesis by (intro that [of info]) (auto simp: probe_result_def)
next
  case (Suc d)
  obtain e where e: "m k = Some e" using assms(2) [of 0] Suc by auto
  with assms(1) have "k \<noteq> k + of_nat c" by (metis option.distinct(1))
  with Suc e assms(1) show thesis
    by (intro that [of e]) (auto simp: probe_result_def set_conflict_def)
qed

text \<open>
  The rest of the section is about one insertion at a free slot: \<open>free_ins m m' k p c info\<close>
  says that \<open>m'\<close> is \<open>m\<close> with \<open>info\<close> at the free slot \<open>p = k + c\<close> and the count \<open>c\<close> at \<open>k\<close>.
\<close>

definition free_ins :: "file_map \<Rightarrow> file_map \<Rightarrow> ulong \<Rightarrow> nat \<Rightarrow> TFileInfo \<Rightarrow> TFileInfo \<Rightarrow> bool" where
  "free_ins m m' k c info e =
     (m (k + of_nat c) = None \<and> (\<forall>i<c. m (k + of_nat i) \<noteq> None) \<and> nConflictCount info = 0 \<and>
      (c = 0 \<longrightarrow> e = info) \<and> (0 < c \<longrightarrow> m k = Some e) \<and>
      m' = m(k + of_nat c \<mapsto> info, k \<mapsto> e\<lparr>nConflictCount := c\<rparr>))"

lemma free_ins_old_count:
  assumes "free_ins m m' k c info e" and "chain_inv m" and "m k = Some h"
  shows "nConflictCount h < c"
proof (rule ccontr)
  assume "\<not> nConflictCount h < c"
  with assms(2,3) have "m (k + of_nat c) \<noteq> None" unfolding chain_inv_def by auto
  with assms(1) show False by (simp add: free_ins_def)
qed

lemma free_ins_slot:
  assumes "free_ins m m' k c info e" and "m' x = Some y"
  shows "(x = k + of_nat c \<and> (\<exists>n. y = info\<lparr>nConflictCount := n\<rparr>)) \<or>
    (\<exists>y0 n. m x = Some y0 \<and> y = y0\<lparr>nConflictCount := n\<rparr>)"
proof -
  consider "x = k" | "x \<noteq> k" "x = k + of_nat c" | "x \<noteq> k" "x \<noteq> k + of_nat c" by blast
  then show ?thesis
  proof cases
    case 1
    then have y: "y = e\<lparr>nConflictCount := c\<rparr>" using assms by (simp add: free_ins_def)
    show ?thesis
    proof (cases "c = 0")
      case True
      with 1 y assms(1) show ?thesis by (auto simp: free_ins_def)
    next
      case False
      with 1 y assms(1) have "m x = Some e" by (simp add: free_ins_def)
      with y show ?thesis by blast
    qed
  next
    case 2
    with assms have "y = info" by (simp add: free_ins_def)
    then have "y = info\<lparr>nConflictCount := nConflictCount info\<rparr>" by simp
    with 2 show ?thesis by blast
  next
    case 3
    with assms have "m x = Some y" by (simp add: free_ins_def)
    moreover have "y = y\<lparr>nConflictCount := nConflictCount y\<rparr>" by simp
    ultimately show ?thesis by blast
  qed
qed

lemma free_ins_dom: "free_ins m m' k c info e \<Longrightarrow> m x \<noteq> None \<Longrightarrow> m' x \<noteq> None"
  by (auto simp: free_ins_def)

lemma free_ins_new: "free_ins m m' k c info e \<Longrightarrow> \<exists>n. m' (k + of_nat c) = Some (info\<lparr>nConflictCount := n\<rparr>)"
  by (cases "c = 0") (auto simp: free_ins_def intro: exI [of _ 0])

lemma free_ins_keeps:
  "free_ins m m' k c info e \<Longrightarrow> m x = Some y \<Longrightarrow> \<exists>n. m' x = Some (y\<lparr>nConflictCount := n\<rparr>)"
proof -
  assume f: "free_ins m m' k c info e" and y: "m x = Some y"
  then have "x \<noteq> k + of_nat c" by (auto simp: free_ins_def)
  then have "m' x = Some y" if "x \<noteq> k" using that f y by (simp add: free_ins_def)
  moreover have "m' x = Some (y\<lparr>nConflictCount := c\<rparr>)" if "x = k"
  proof -
    have "0 < c" using that \<open>x \<noteq> k + of_nat c\<close> by (cases c) auto
    then have "e = y" using f y that by (simp add: free_ins_def)
    then show ?thesis using f that by (simp add: free_ins_def)
  qed
  moreover have "y = y\<lparr>nConflictCount := nConflictCount y\<rparr>" by simp
  ultimately show ?thesis by metis
qed

text \<open>A chain is never shortened.\<close>

lemma free_ins_head:
  assumes "free_ins m m' k c info e" and "chain_inv m" and "m x = Some h"
  shows "\<exists>h'. m' x = Some h' \<and> nConflictCount h \<le> nConflictCount h'"
proof (cases "x = k")
  case True
  then have "nConflictCount h < c" using free_ins_old_count assms by blast
  moreover have "m' x = Some (e\<lparr>nConflictCount := c\<rparr>)" using assms(1) True by (simp add: free_ins_def)
  ultimately show ?thesis by simp
next
  case False
  moreover have "x \<noteq> k + of_nat c" using assms(1,3) by (auto simp: free_ins_def)
  ultimately show ?thesis using assms(1,3) by (simp add: free_ins_def)
qed

lemma free_ins_names: "free_ins m m' k c info e \<Longrightarrow> length (FileName info) \<le> 47 \<Longrightarrow> names_inv m \<Longrightarrow> names_inv m'"
  unfolding names_inv_def using free_ins_slot [of m m' k c info e] by fastforce

lemma free_ins_chain:
  assumes f: "free_ins m m' k c info e" and inv: "chain_inv m"
  shows "chain_inv m'"
  unfolding chain_inv_def
proof (intro allI impI)
  fix x y i
  assume y: "m' x = Some y" and i: "i \<le> nConflictCount y"
  consider "x = k" | "x \<noteq> k" "x = k + of_nat c" | "x \<noteq> k" "x \<noteq> k + of_nat c" by blast
  then show "m' (x + of_nat i) \<noteq> None"
  proof cases
    case 1
    then have "i \<le> c" using f y i by (auto simp: free_ins_def)
    then show ?thesis
      using f free_ins_new [OF f] free_ins_dom [OF f] 1 by (cases "i = c") (auto simp: free_ins_def)
  next
    case 2
    then have "i = 0" using f y i by (auto simp: free_ins_def)
    with y show ?thesis by simp
  next
    case 3
    then have "m x = Some y" using f y by (simp add: free_ins_def)
    with inv i have "m (x + of_nat i) \<noteq> None" unfolding chain_inv_def by blast
    then show ?thesis by (rule free_ins_dom [OF f])
  qed
qed

lemma free_ins_own:
  assumes f: "free_ins m m' k c info e" and inv: "chain_inv m" "own_inv m"
    and info: "length (FileName info) < 47 \<Longrightarrow> hash (FileName info) = k"
  shows "own_inv m'"
  unfolding own_inv_def
proof (intro allI impI)
  fix x y
  assume y: "m' x = Some y" and n: "FileName y \<noteq> []" "length (FileName y) < 47"
  let ?h = "hash (FileName y)"
  show "\<exists>h d. m' ?h = Some h \<and> x = ?h + of_nat d \<and> d \<le> nConflictCount h"
    using free_ins_slot [OF f y]
  proof
    assume "x = k + of_nat c \<and> (\<exists>n. y = info\<lparr>nConflictCount := n\<rparr>)"
    moreover from this have "?h = k" using n info by auto
    ultimately show ?thesis using f by (auto simp: free_ins_def)
  next
    assume "\<exists>y0 n. m x = Some y0 \<and> y = y0\<lparr>nConflictCount := n\<rparr>"
    then obtain y0 l where y0: "m x = Some y0" "y = y0\<lparr>nConflictCount := l\<rparr>" by blast
    then obtain h d where "m ?h = Some h" "x = ?h + of_nat d" "d \<le> nConflictCount h"
      using inv(2) n unfolding own_inv_def by fastforce
    moreover from this(1) obtain h' where "m' ?h = Some h'" "nConflictCount h \<le> nConflictCount h'"
      using free_ins_head [OF f inv(1)] by blast
    ultimately have "m' ?h = Some h' \<and> x = ?h + of_nat d \<and> d \<le> nConflictCount h'" by simp
    then show ?thesis by blast
  qed
qed

section \<open>The table is a set\<close>

lemma map_insert_split:
  assumes "map_insert m sid s sz t = Some m'"
  obtains (stored) c e where "m' = m" and "\<And>i. i < c \<Longrightarrow> m (hash s + of_nat i) \<noteq> None"
      and "m (hash s + of_nat c) = Some e" and "nftpid e = sid" and "nFileSize e = sz" and "FileName e = s"
    | (new) c e where "free_ins m m' (hash s) c (file_info sid s sz t) e"
proof -
  obtain c where c: "\<And>i. i < c \<Longrightarrow> m (hash s + of_nat i) \<noteq> None" "probe_stops m sid s sz (hash s) c"
    "m' = probe_result m (hash s) (file_info sid s sz t) c"
    using map_insert_cases [OF assms] by blast
  show thesis
  proof (cases "m (hash s + of_nat c)")
    case None
    obtain e where "c = 0 \<Longrightarrow> e = file_info sid s sz t" "0 < c \<Longrightarrow> m (hash s) = Some e"
      "m' = m(hash s + of_nat c \<mapsto> file_info sid s sz t, hash s \<mapsto> e\<lparr>nConflictCount := c\<rparr>)"
      using probe_result_new [of m "hash s" c "file_info sid s sz t"] None c(1,3)
      by (auto simp: file_info_def)
    with None c(1) show thesis
      by (intro new [of c e]) (auto simp: free_ins_def file_info_def)
  next
    case (Some e)
    with c show thesis by (intro stored [of c e]) (auto simp: probe_stops_def probe_result_full)
  qed
qed

lemma map_insert_inv:
  assumes "map_inv m" and "map_insert m sid s sz t = Some m'"
  shows "map_inv m'"
  using assms(2)
proof (cases rule: map_insert_split)
  case (new c e)
  have "names_inv m'" using free_ins_names [OF new] assms(1) by (simp add: map_inv_def file_info_def)
  moreover have "chain_inv m'" using free_ins_chain [OF new] assms(1) by (simp add: map_inv_def)
  moreover have "own_inv m'"
    using free_ins_own [OF new] assms(1) by (simp add: map_inv_def file_info_def min_def split: if_splits)
  ultimately show ?thesis by (simp add: map_inv_def)
qed (use assms(1) in simp)

lemma entry_matches_count [simp]:
  "entry_matches (Some (e\<lparr>nConflictCount := n\<rparr>)) sid s sz = entry_matches (Some e) sid s sz"
  by (simp add: entry_matches_def)

lemma entry_matches_info [simp]: "entry_matches (Some (file_info sid s sz t)) sid s sz"
  by (simp add: entry_matches_def file_info_def strneq_def)

lemma map_insert_keeps:
  assumes inv: "map_inv m" and l: "map_lookup m sid2 s2 sz2" and "map_insert m sid s sz t = Some m'"
  shows "map_lookup m' sid2 s2 sz2"
  using assms(3)
proof (cases rule: map_insert_split)
  case (new c e)
  obtain h j where h: "m (hash s2) = Some h" "j \<le> nConflictCount h"
    "entry_matches (m (hash s2 + of_nat j)) sid2 s2 sz2"
    using l by (auto simp: map_lookup_iff)
  obtain h' where "m' (hash s2) = Some h'" "nConflictCount h \<le> nConflictCount h'"
    using free_ins_head [OF new _ h(1)] inv by (auto simp: map_inv_def)
  moreover obtain y where y: "m (hash s2 + of_nat j) = Some y"
    using h(3) by (auto simp: entry_matches_def split: option.splits)
  moreover have "entry_matches (m' (hash s2 + of_nat j)) sid2 s2 sz2"
    using free_ins_keeps [OF new y] h(3) y by auto
  moreover have "j \<le> nConflictCount h'" using h(2) calculation(2) by simp
  ultimately show ?thesis by (auto simp: map_lookup_iff)
qed (use l in simp)

lemma map_insert_self:
  assumes inv: "map_inv m" and "map_insert m sid s sz t = Some m'" and "s \<noteq> []" and "length s \<noteq> 47"
  shows "map_lookup m' sid s sz"
  using assms(2)
proof (cases rule: map_insert_split)
  case (stored c e)
  have "length s < 47" using inv stored(3,6) assms(4) by (fastforce simp: map_inv_def names_inv_def)
  then obtain h d where "m (hash s) = Some h" "hash s + of_nat c = hash s + of_nat d" "d \<le> nConflictCount h"
    using inv stored(3,6) assms(3) unfolding map_inv_def own_inv_def by metis
  moreover have "entry_matches (Some e) sid s sz" using stored(4-6) by (simp add: entry_matches_def strneq_def)
  ultimately show ?thesis using stored(1,3) unfolding map_lookup_iff by metis
next
  case (new c e)
  then have "m' (hash s) = Some (e\<lparr>nConflictCount := c\<rparr>)" by (simp add: free_ins_def)
  moreover have "entry_matches (m' (hash s + of_nat c)) sid s sz" using free_ins_new [OF new] by auto
  ultimately show ?thesis unfolding map_lookup_iff by fastforce
qed

lemma short_take: "length s < 47 \<Longrightarrow> take 47 u = s \<Longrightarrow> u = s"
  by (metis length_take min_less_iff_conj nat_less_le not_less take_all)

lemma map_insert_only:
  assumes inv: "map_inv m" and "map_insert m sid s sz t = Some m'"
    and s2: "s2 \<noteq> []" "length s2 < 47" and l: "map_lookup m' sid2 s2 sz2"
  shows "map_lookup m sid2 s2 sz2 \<or> (sid2, s2, sz2) = (sid, s, sz)"
  using assms(2)
proof (cases rule: map_insert_split)
  case (new c e)
  obtain j y where y: "m' (hash s2 + of_nat j) = Some y" "entry_matches (Some y) sid2 s2 sz2"
    using l by (auto simp: map_lookup_iff entry_matches_def split: option.splits)
  then have n: "take 47 (FileName y) = s2" "nftpid y = sid2" "nFileSize y = sz2"
    using s2(2) by (auto simp: entry_matches_def strneq_def)
  from free_ins_slot [OF new y(1)] show ?thesis
  proof
    assume "hash s2 + of_nat j = hash s + of_nat c \<and> (\<exists>n. y = (file_info sid s sz t)\<lparr>nConflictCount := n\<rparr>)"
    with n short_take [OF s2(2), of s] show ?thesis by (auto simp: file_info_def)
  next
    assume "\<exists>y0 n. m (hash s2 + of_nat j) = Some y0 \<and> y = y0\<lparr>nConflictCount := n\<rparr>"
    then obtain y0 where y0: "m (hash s2 + of_nat j) = Some y0" "FileName y0 = FileName y"
      "entry_matches (Some y0) sid2 s2 sz2"
      using y(2) by auto
    then have "FileName y0 = s2" using short_take [OF s2(2) n(1)] by simp
    then obtain h d where "m (hash s2) = Some h" "hash s2 + of_nat j = hash s2 + of_nat d" "d \<le> nConflictCount h"
      using inv y0(1) s2 unfolding map_inv_def own_inv_def by metis
    then show ?thesis using y0 unfolding map_lookup_iff by metis
  qed
qed (use l in simp)

section \<open>The marker of a loaded task\<close>

lemma map_mark_inv:
  assumes "map_inv m"
  shows "map_inv (map_mark m sid)"
proof (cases "m (word_of_int sid)")
  case None
  have m': "map_mark m sid = m(word_of_int sid \<mapsto> empty_info)" using None by (simp add: map_mark_def)
  have "chain_inv (map_mark m sid)"
    using assms unfolding map_inv_def chain_inv_def m' by (simp add: empty_info_def)
  moreover have "own_inv (map_mark m sid)"
    unfolding own_inv_def
  proof (intro allI impI)
    fix k e
    assume e: "map_mark m sid k = Some e" "FileName e \<noteq> []" "length (FileName e) < 47"
    then have "k \<noteq> word_of_int sid" by (auto simp: m' empty_info_def)
    then have "m k = Some e" using e(1) by (simp add: m')
    then obtain h c where h: "m (hash (FileName e)) = Some h" "k = hash (FileName e) + of_nat c"
      "c \<le> nConflictCount h"
      using assms e(2,3) unfolding map_inv_def own_inv_def by blast
    then have "hash (FileName e) \<noteq> word_of_int sid" using None by (metis option.distinct(1))
    then have "map_mark m sid (hash (FileName e)) = Some h" using h(1) by (simp add: m')
    with h(2,3) show "\<exists>h c. map_mark m sid (hash (FileName e)) = Some h \<and>
        k = hash (FileName e) + of_nat c \<and> c \<le> nConflictCount h" by blast
  qed
  moreover have "names_inv (map_mark m sid)"
    using assms None unfolding map_inv_def names_inv_def
    by (auto simp: map_mark_def empty_info_def)
  ultimately show ?thesis by (simp add: map_inv_def)
qed (use assms in \<open>simp add: map_mark_def\<close>)

lemma entry_matches_empty [simp]: "s \<noteq> [] \<Longrightarrow> \<not> entry_matches (Some empty_info) sid s sz"
  by (cases s) (auto simp: entry_matches_def empty_info_def strneq_def)

lemma entry_matches_None [simp]: "\<not> entry_matches None sid s sz"
  by (simp add: entry_matches_def)

lemma map_mark_lookup:
  assumes "s \<noteq> []"
  shows "map_lookup (map_mark m i) sid s sz = map_lookup m sid s sz"
proof (cases "m (word_of_int i)")
  case None
  have e: "entry_matches (map_mark m i x) sid s sz = entry_matches (m x) sid s sz" for x
    using None assms by (simp add: map_mark_def)
  show ?thesis
  proof (cases "hash s = word_of_int i")
    case True
    then have "\<not> map_lookup m sid s sz" using None by (simp add: map_lookup_iff)
    moreover have "\<not> map_lookup (map_mark m i) sid s sz"
      using None True assms unfolding map_lookup_iff e by (simp add: map_mark_def empty_info_def)
    ultimately show ?thesis by simp
  next
    case False
    with None show ?thesis unfolding map_lookup_iff e by (simp add: map_mark_def)
  qed
qed (simp add: map_mark_def)

section \<open>Termination\<close>

lemma map_insert_total:
  assumes "m f = None"
  shows "\<exists>m'. map_insert m sid s sz t = Some m'"
proof -
  let ?P = "probe_stops m sid s sz (hash s)"
  obtain c where "m (hash s + of_nat c) = None" using free_slot_reached [of m f "hash s"] assms by blast
  then have "?P c" by (simp add: probe_stops_def)
  then have "?P (0 + (LEAST c. ?P c))" by (simp add: LeastI)
  moreover have "\<not> ?P (0 + i)" if "i < (LEAST c. ?P c)" for i
    using not_less_Least that by auto
  ultimately have "map_insert m sid s sz t = Some (probe_result m (hash s) (file_info sid s sz t) (0 + (LEAST c. ?P c)))"
    unfolding map_insert_def by (rule insert_probe_stop)
  then show ?thesis by blast
qed

text \<open>One insertion takes at most one slot.\<close>

lemma map_insert_dom:
  assumes "map_insert m sid s sz t = Some m'"
  shows "card (dom m') \<le> Suc (card (dom m))"
  using assms
proof (cases rule: map_insert_split)
  case (new c e)
  then have "dom m' \<subseteq> insert (hash s + of_nat c) (dom m)"
    by (cases c) (auto simp: free_ins_def)
  then have "card (dom m') \<le> card (insert (hash s + of_nat c) (dom m))"
    by (rule card_mono [rotated]) (rule finite)
  also have "\<dots> \<le> Suc (card (dom m))" by (simp add: card_insert_if)
  finally show ?thesis .
qed simp

lemma map_not_full:
  fixes m :: file_map
  assumes "card (dom m) < 2 ^ 32"
  shows "\<exists>f. m f = None"
proof (rule ccontr)
  assume "\<nexists>f. m f = None"
  then have "dom m = UNIV" by auto
  moreover have "card (UNIV :: ulong set) = 2 ^ 32" by (simp add: card_word)
  ultimately show False using assms by simp
qed

lemma map_insert_returns:
  assumes "card (dom m) < 2 ^ 32"
  shows "\<exists>m'. map_insert m sid s sz t = Some m' \<and> card (dom m') \<le> Suc (card (dom m))"
proof -
  obtain f where "m f = None" using map_not_full [OF assms] by blast
  then obtain m' where "map_insert m sid s sz t = Some m'" using map_insert_total by blast
  with map_insert_dom [OF this] show ?thesis by blast
qed

section \<open>The interface\<close>

text \<open>
  What the file and task code relies on: a set of keys with insertion. \<open>exact\<close> keys are told
  apart from every other key; \<open>storable\<close> keys are found again once inserted.
\<close>

locale file_set =
  fixes invar :: "'m \<Rightarrow> bool"
    and look :: "'m \<Rightarrow> 'k \<Rightarrow> bool"
    and ins :: "'t \<times> 'k \<Rightarrow> 'm \<Rightarrow> 'm option"
    and exact :: "'k \<Rightarrow> bool"
    and storable :: "'k \<Rightarrow> bool"
  assumes ins_invar: "invar m \<Longrightarrow> ins (t, k) m = Some m' \<Longrightarrow> invar m'"
    and ins_keeps: "invar m \<Longrightarrow> look m k' \<Longrightarrow> ins (t, k) m = Some m' \<Longrightarrow> look m' k'"
    and ins_self: "invar m \<Longrightarrow> storable k \<Longrightarrow> ins (t, k) m = Some m' \<Longrightarrow> look m' k"
    and ins_only: "invar m \<Longrightarrow> exact k' \<Longrightarrow> ins (t, k) m = Some m' \<Longrightarrow> look m' k' \<Longrightarrow> look m k' \<or> k' = k"
    and exact_storable: "exact k \<Longrightarrow> storable k"
begin

lemma ins_all_invar: "invar m \<Longrightarrow> fold_option ins tks m = Some m' \<Longrightarrow> invar m'"
  by (erule fold_option_invariant) (auto intro: ins_invar)

lemma ins_all_keeps: "invar m \<Longrightarrow> look m k \<Longrightarrow> fold_option ins tks m = Some m' \<Longrightarrow> look m' k"
proof (induction tks arbitrary: m)
  case (Cons tk tks)
  then obtain m1 where "ins tk m = Some m1" "fold_option ins tks m1 = Some m'"
    by (auto split: option.splits)
  with Cons show ?case by (metis ins_invar ins_keeps surj_pair)
qed simp

lemma ins_all_in:
  "invar m \<Longrightarrow> storable k \<Longrightarrow> k \<in> snd ` set tks \<Longrightarrow> fold_option ins tks m = Some m' \<Longrightarrow> look m' k"
proof (induction tks arbitrary: m)
  case (Cons tk tks)
  obtain t k1 where tk: "tk = (t, k1)" by (cases tk)
  from Cons.prems obtain m1 where m1: "ins (t, k1) m = Some m1" "fold_option ins tks m1 = Some m'"
    by (auto simp: tk split: option.splits)
  have inv: "invar m1" using Cons.prems(1) m1(1) by (rule ins_invar)
  show ?case
  proof (cases "k = k1")
    case True
    then have "look m1 k" using ins_self [OF Cons.prems(1)] Cons.prems(2) m1(1) by simp
    then show ?thesis using ins_all_keeps [OF inv _ m1(2)] by simp
  next
    case False
    then show ?thesis using Cons.IH [OF inv Cons.prems(2) _ m1(2)] Cons.prems(3) tk by auto
  qed
qed simp

lemma ins_all_only:
  "invar m \<Longrightarrow> exact k \<Longrightarrow> fold_option ins tks m = Some m' \<Longrightarrow> look m' k \<Longrightarrow> look m k \<or> k \<in> snd ` set tks"
proof (induction tks arbitrary: m)
  case (Cons tk tks)
  obtain t k1 where tk: "tk = (t, k1)" by (cases tk)
  from Cons.prems obtain m1 where m1: "ins (t, k1) m = Some m1" "fold_option ins tks m1 = Some m'"
    by (auto simp: tk split: option.splits)
  have "invar m1" using Cons.prems(1) m1(1) by (rule ins_invar)
  with Cons.IH [OF this Cons.prems(2) m1(2)] Cons.prems m1(1) tk show ?case
    using ins_only [OF Cons.prems(1,2) m1(1)] by auto
qed simp

lemma ins_all_exact:
  "invar m \<Longrightarrow> exact k \<Longrightarrow> fold_option ins tks m = Some m' \<Longrightarrow>
   look m' k \<longleftrightarrow> look m k \<or> k \<in> snd ` set tks"
  using ins_all_only ins_all_in ins_all_keeps exact_storable by blast

end

text \<open>The table is such a set, for the strings \<open>task id ++ name\<close> the code uses as keys.\<close>

type_synonym file_key = "int \<times> cstring \<times> int"

definition key_look :: "file_map \<Rightarrow> file_key \<Rightarrow> bool" where
  "key_look m = (\<lambda>(sid, s, sz). map_lookup m sid s sz)"

definition key_ins :: "time_t \<times> file_key \<Rightarrow> file_map \<Rightarrow> file_map option" where
  "key_ins = (\<lambda>(t, sid, s, sz) m. map_insert m sid s sz t)"

definition key_exact :: "file_key \<Rightarrow> bool" where
  "key_exact = (\<lambda>(sid, s, sz). s \<noteq> [] \<and> length s < 47)"

definition key_storable :: "file_key \<Rightarrow> bool" where
  "key_storable = (\<lambda>(sid, s, sz). s \<noteq> [] \<and> length s \<noteq> 47)"

interpretation fm: file_set map_inv key_look key_ins key_exact key_storable
proof (unfold_locales, goal_cases)
  case (1 m t k m')
  then show ?case by (cases k) (auto simp: key_ins_def intro: map_insert_inv)
next
  case (2 m k' t k m')
  then show ?case by (cases k) (auto simp: key_ins_def key_look_def intro: map_insert_keeps)
next
  case (3 m k t m')
  then show ?case by (cases k) (auto simp: key_ins_def key_look_def key_storable_def intro: map_insert_self)
next
  case (4 m k' t k m')
  obtain i s z i' s' z' where k: "k = (i, s, z)" "k' = (i', s', z')" by (cases k; cases k') auto
  show ?case
    using map_insert_only [OF 4(1), of i s z t m' s' i' z'] 4(2-4)
    by (simp add: k key_ins_def key_look_def key_exact_def)
next
  case (5 k)
  then show ?case by (auto simp: key_exact_def key_storable_def)
qed

section \<open>Properties\<close>

text \<open>
  C8. The shared-memory table behaves as a set of transferred files. After any sequence of
  insertions that return, a file whose key string is shorter than 47 characters is found
  exactly when it was found before or is one of the inserted (task, name, size) triples,
  whatever the hash collisions were.
\<close>

theorem file_table_is_set:
  assumes "map_inv m" and "s \<noteq> []" and "length s < 47"
    and "fold_option key_ins tks m = Some m'"
  shows "map_lookup m' sid s sz \<longleftrightarrow> map_lookup m sid s sz \<or> (sid, s, sz) \<in> snd ` set tks"
  using fm.ins_all_exact [OF assms(1) _ assms(4), of "(sid, s, sz)"] assms(2,3)
  by (simp add: key_exact_def key_look_def)

lemma map_insert_empty:
  "map_insert Map.empty sid s sz t = Some [hash s \<mapsto> file_info sid s sz t]"
  unfolding map_insert_def by (subst insert_probe.simps) simp

theorem file_table_is_set_witness:
  "\<exists>m'. fold_option key_ins [(100, 7, ''7a.txt'', 10)] Map.empty = Some m' \<and>
     map_lookup m' 7 ''7a.txt'' 10 \<and> \<not> map_lookup m' 7 ''7a.txt'' 11"
proof -
  obtain m' where m': "fold_option key_ins [(100, 7, ''7a.txt'', 10)] Map.empty = Some m'"
    by (simp add: key_ins_def map_insert_empty)
  have "\<not> map_lookup Map.empty 7 ''7a.txt'' 11" by (simp add: map_lookup_def)
  with file_table_is_set [OF map_inv_empty _ _ m', of "''7a.txt''" 7 10]
    file_table_is_set [OF map_inv_empty _ _ m', of "''7a.txt''" 7 11] m'
  show ?thesis by auto
qed

text \<open>
  C17. No file is forgotten: a file of any name length that the table finds is still found after
  any further insertions and task markers.
\<close>

theorem file_table_never_forgets:
  assumes "map_inv m" and "map_lookup m sid s sz" and "s \<noteq> []"
    and "fold_option (\<lambda>op m. case op of Inl tk \<Rightarrow> key_ins tk m | Inr i \<Rightarrow> Some (map_mark m i)) ops m = Some m'"
  shows "map_lookup m' sid s sz"
proof -
  have "map_inv m' \<and> map_lookup m' sid s sz"
  proof (rule fold_option_invariant [OF assms(4), where I = "\<lambda>m. map_inv m \<and> map_lookup m sid s sz"])
    fix op m m'
    assume "map_inv m \<and> map_lookup m sid s sz"
      and "(case op of Inl tk \<Rightarrow> key_ins tk m | Inr i \<Rightarrow> Some (map_mark m i)) = Some m'"
    then show "map_inv m' \<and> map_lookup m' sid s sz"
      using fm.ins_invar [of m] fm.ins_keeps [of m "(sid, s, sz)"] map_mark_inv [of m] map_mark_lookup [OF assms(3)]
      by (cases op) (auto simp: key_look_def)
  qed (use assms in simp)
  then show ?thesis by simp
qed

theorem file_table_never_forgets_witness:
  "map_lookup (map_mark [hash ''7a'' \<mapsto> file_info 7 ''7a'' 10 100] 9) 7 ''7a'' 10"
proof -
  let ?m = "[hash ''7a'' \<mapsto> file_info 7 ''7a'' 10 100]"
  have "map_inv ?m" using map_insert_inv [OF map_inv_empty map_insert_empty] .
  moreover have "map_lookup ?m 7 ''7a'' 10"
    by (simp add: map_lookup_iff file_info_def entry_matches_def strneq_def)
  ultimately show ?thesis
    using file_table_never_forgets [of ?m 7 "''7a''" 10 "[Inr 9]"] by simp
qed

text \<open>
  C27. The probing loop of the insertion returns whenever the table has a free slot, which it has
  while it holds fewer than \<open>2 ^ 32\<close> entries.
\<close>

theorem insert_probe_terminates:
  assumes "card (dom m) < 2 ^ 32"
  shows "\<exists>m'. map_insert m sid s sz t = Some m' \<and> card (dom m') \<le> Suc (card (dom m))"
  by (rule map_insert_returns) (rule assms)

theorem insert_probe_terminates_witness:
  "\<exists>m'. map_insert Map.empty 7 ''7a'' 10 100 = Some m' \<and> card (dom m') \<le> 1"
  using insert_probe_terminates [of Map.empty 7 "''7a''" 10 100] by simp

text \<open>
  A key string longer than the stored field is never recognised by the insertion, which compares
  the whole string with the stored prefix: every insertion of it takes another slot.
\<close>

theorem long_name_takes_slot:
  assumes "map_inv m" and "47 < length s" and "map_insert m sid s sz t = Some m'"
  shows "card (dom m') = Suc (card (dom m))"
  using assms(3)
proof (cases rule: map_insert_split)
  case (stored c e)
  then have "length s \<le> 47" using assms(1) by (auto simp: map_inv_def names_inv_def)
  with assms(2) show ?thesis by simp
next
  case (new c e)
  then have "dom m' = insert (hash s + of_nat c) (dom m)"
    by (cases c) (auto simp: free_ins_def)
  moreover have "hash s + of_nat c \<notin> dom m" using new by (auto simp: free_ins_def)
  ultimately show ?thesis by simp
qed

end
