(* ===== verification/Ftped_Files.thy ===== *)
theory Ftped_Files
  imports Ftped_Map
begin

text \<open>
  The operations of \<open>taskitem.c\<close> on transferred files: \<open>shm_insert_file\<close>,
  \<open>load_file_hash_value\<close>, \<open>ftpid_hash_file_loaded\<close>, \<open>read_ftped_file\<close>, \<open>write_ftped_file\<close>. They
  work on the shared table of \<open>Ftped_Map\<close>, on the history file of the task
  (\<open>log/TASK_ID_n_HAVE_GET_LIST\<close>, \<open>..._PUT_LIST\<close>), on the task list and the clock. The outcome
  of each \<open>TryLock\<close> on the file semaphore is an input: \<open>w_tries\<close> lists the coming outcomes,
  all further ones succeed. \<^const>\<open>None\<close> is an overflow of a 256-byte buffer, or an insertion
  into a full table that does not end.
\<close>

record shm_world =
  w_now :: time_t
  w_tasks :: "TASK_ITEM list"
  w_exec :: cstring
  w_map :: file_map
  w_files :: "cstring \<rightharpoonup> cstring"
  w_append_ok :: "cstring \<Rightarrow> bool"
  w_tries :: "bool list"

section \<open>The operations\<close>

definition try_lock :: "shm_world \<Rightarrow> bool \<times> shm_world" where
  "try_lock w = (case w_tries w of [] \<Rightarrow> (True, w) | b # bs \<Rightarrow> (b, w\<lparr>w_tries := bs\<rparr>))"

text \<open>
  The caller's buffer \<open>file\<close> comes back with its trailing blanks removed: \<open>trim\<close> cuts it in
  place.
\<close>

definition shm_insert_file ::
  "int \<Rightarrow> cstring \<Rightarrow> int \<Rightarrow> time_t \<Rightarrow> shm_world \<Rightarrow> (int \<times> cstring \<times> shm_world) option" where
  "shm_insert_file sch_item_id file sz ft w =
     (if file \<noteq> [] \<and> hd file = LF then Some (-1, file, w)
      else
        let file' = rtrim file; szSchFile = show_int sch_item_id @ ltrim file' in
        if 256 \<le> length szSchFile then None
        else (case try_lock w of (locked, w1) \<Rightarrow>
          if \<not> locked then Some (-1, file', w1)
          else (case get_task_item_by_id (w_tasks w1) sch_item_id of
                  None \<Rightarrow> Some (-1, file', w1)
                | Some piterm \<Rightarrow>
                    if w_now w1 - ft > file_ctime_escape piterm then Some (-1, file', w1)
                    else (case map_insert (w_map w1) sch_item_id szSchFile sz ft of
                            None \<Rightarrow> None
                          | Some m \<Rightarrow> Some (0, file', w1\<lparr>w_map := m\<rparr>)))))"

definition list_path :: "int \<Rightarrow> int \<Rightarrow> shm_world \<Rightarrow> cstring" where
  "list_path sch_item_id dir w =
     w_exec w @ ''/log/TASK_ID_'' @ show_int sch_item_id @
     (if dir = FTP_GET then ''_HAVE_GET_LIST'' else ''_HAVE_PUT_LIST'')"

text \<open>One turn of the loop of \<open>load_file_hash_value\<close>: a line \<open>name = size,time\<close>.\<close>

definition load_line :: "int \<Rightarrow> cstring \<Rightarrow> shm_world \<Rightarrow> shm_world option" where
  "load_line sch_item_id buf w =
     (if buf = [] \<or> hd buf = LF \<or> hd buf = CHR ''['' then Some w
      else (case strchr buf (CHR ''='') of
              None \<Rightarrow> Some w
            | Some (name, pstr) \<Rightarrow>
                let nSize = atoi pstr;
                    nFtpTime = (case strchr pstr (CHR '','') of None \<Rightarrow> w_now w | Some (_, r) \<Rightarrow> atoi r)
                in (case shm_insert_file sch_item_id name nSize nFtpTime w of
                      None \<Rightarrow> None
                    | Some (_, _, w') \<Rightarrow> Some w')))"

definition load_file_hash_value :: "int \<Rightarrow> int \<Rightarrow> shm_world \<Rightarrow> (int \<times> shm_world) option" where
  "load_file_hash_value sch_item_id dir w =
     (if 256 \<le> length (list_path sch_item_id dir w) then None
      else (case w_files w (list_path sch_item_id dir w) of
              None \<Rightarrow> Some (-1, w)
            | Some content \<Rightarrow>
                (case fold_option (load_line sch_item_id) (fgets_lines 1024 content) w of
                   None \<Rightarrow> None
                 | Some w' \<Rightarrow> Some (0, w'))))"

definition ftpid_hash_file_loaded :: "int \<Rightarrow> shm_world \<Rightarrow> bool \<times> shm_world" where
  "ftpid_hash_file_loaded sch_item_id w =
     (case try_lock w of (locked, w1) \<Rightarrow>
        if \<not> locked then (False, w1)
        else (w_map w1 (word_of_int sch_item_id) \<noteq> None, w1))"

text \<open>
  \<open>read_ftped_file\<close> in two steps: first the history of the task is loaded, once; then the
  table is searched. The result is 1 for a file already transferred, 0 for another, negative
  on an error.
\<close>

definition read_ftped_load :: "int \<Rightarrow> int \<Rightarrow> shm_world \<Rightarrow> (bool \<times> shm_world) option" where
  "read_ftped_load sch_item_id dir w =
     (case ftpid_hash_file_loaded sch_item_id w of (loaded, w1) \<Rightarrow>
        if loaded then Some (True, w1)
        else (case load_file_hash_value sch_item_id dir w1 of
                None \<Rightarrow> None
              | Some (r, w2) \<Rightarrow>
                  if r \<noteq> 0 then Some (True, w2)
                  else (case try_lock w2 of (locked, w3) \<Rightarrow>
                          if \<not> locked then Some (False, w3)
                          else Some (True, w3\<lparr>w_map := map_mark (w_map w3) sch_item_id\<rparr>))))"

definition read_ftped_file ::
  "int \<Rightarrow> cstring \<Rightarrow> int \<Rightarrow> int \<Rightarrow> shm_world \<Rightarrow> (int \<times> shm_world) option" where
  "read_ftped_file sch_item_id file nFileSiz dir w =
     (if file \<noteq> [] \<and> hd file = LF then Some (-1, w)
      else (case read_ftped_load sch_item_id dir w of
              None \<Rightarrow> None
            | Some (ok, w1) \<Rightarrow>
                if \<not> ok then Some (-2, w1)
                else if 256 \<le> length (show_int sch_item_id @ file) then None
                else (case try_lock w1 of (locked, w2) \<Rightarrow>
                        if \<not> locked then Some (-2, w2)
                        else Some (if map_lookup (w_map w2) sch_item_id (show_int sch_item_id @ file) nFileSiz
                                   then 1 else 0, w2))))"

definition history_line :: "cstring \<Rightarrow> int \<Rightarrow> time_t \<Rightarrow> cstring" where
  "history_line file sz t = file @ '' = '' @ show_int sz @ '','' @ show_int t @ [LF]"

definition write_ftped_file ::
  "int \<Rightarrow> cstring \<Rightarrow> int \<Rightarrow> int \<Rightarrow> shm_world \<Rightarrow> (int \<times> cstring \<times> shm_world) option" where
  "write_ftped_file sch_item_id file nFileSiz dir w =
     (case shm_insert_file sch_item_id file nFileSiz (w_now w) w of
        None \<Rightarrow> None
      | Some (_, file', w1) \<Rightarrow>
          let path = list_path sch_item_id dir w1 in
          if 256 \<le> length path then None
          else if \<not> w_append_ok w1 path then Some (-1, file', w1)
          else Some (0, file',
            w1\<lparr>w_files := (w_files w1)(path \<mapsto>
                 (case w_files w1 path of None \<Rightarrow> [] | Some c \<Rightarrow> c) @ history_line file' nFileSiz (w_now w))\<rparr>))"

section \<open>Lines of the history file\<close>

text \<open>A name the history file can carry: no blank at its ends, no newline, no \<open>=\<close>, no \<open>[\<close> first.\<close>

definition plain_name :: "cstring \<Rightarrow> bool" where
  "plain_name f = (f \<noteq> [] \<and> \<not> is_blank (hd f) \<and> \<not> is_blank (last f) \<and> LF \<notin> set f \<and>
     CHR ''='' \<notin> set f \<and> hd f \<noteq> CHR ''['')"

definition record_ok :: "int \<Rightarrow> cstring \<times> int \<times> time_t \<Rightarrow> bool" where
  "record_ok sid = (\<lambda>(f, sz, t). plain_name f \<and> length (show_int sid @ f) < 256 \<and>
     length (history_line f sz t) < 1024)"

lemma plain_name_trim:
  "plain_name f \<Longrightarrow> rtrim f = f" "plain_name f \<Longrightarrow> ltrim f = f" "plain_name f \<Longrightarrow> rtrim (f @ [SPC]) = f"
  by (simp_all add: plain_name_def rtrim_id ltrim_id is_blank_def rtrim_append_blank)

lemma load_line_record:
  assumes "record_ok sid (f, sz, t)"
  shows "load_line sid (history_line f sz t) w =
    (case shm_insert_file sid (f @ [SPC]) sz t w of None \<Rightarrow> None | Some (_, _, w') \<Rightarrow> Some w')"
proof -
  have f: "f \<noteq> []" "hd f \<noteq> LF" "hd f \<noteq> CHR ''[''" "CHR ''='' \<notin> set (f @ [SPC])"
    using assms by (auto simp: record_ok_def plain_name_def is_blank_def)
  have l: "history_line f sz t = (f @ [SPC]) @ CHR ''='' # (SPC # show_int sz @ CHR '','' # show_int t @ [LF])"
    by (simp add: history_line_def)
  have eq: "strchr (history_line f sz t) (CHR ''='') =
      Some (f @ [SPC], SPC # show_int sz @ CHR '','' # show_int t @ [LF])"
    unfolding l by (rule strchr_append) (rule f(4))
  have "CHR '','' \<notin> set (show_int sz)" using show_int_chars [of "CHR '',''" sz] by auto
  then have comma: "strchr ((SPC # show_int sz) @ CHR '','' # show_int t @ [LF]) (CHR '','') =
      Some (SPC # show_int sz, show_int t @ [LF])"
    by (intro strchr_append) simp
  have a: "atoi (show_int sz @ CHR '','' # show_int t @ [LF]) = sz"
    by (simp add: atoi_show_int_rest)
  have t: "atoi (show_int t @ [LF]) = t" by (simp add: atoi_show_int_rest)
  have h: "hd (history_line f sz t) = hd f" "history_line f sz t \<noteq> []"
    using f(1) by (simp_all add: history_line_def)
  show ?thesis
    using comma by (simp add: load_line_def h f eq a t)
qed

lemma history_line_lines:
  assumes "\<And>r. r \<in> set recs \<Longrightarrow> record_ok sid r"
  shows "fgets_lines 1024 (concat (map (\<lambda>(f, sz, t). history_line f sz t) recs)) =
    map (\<lambda>(f, sz, t). history_line f sz t) recs"
proof -
  let ?b = "\<lambda>(f, sz, t). f @ '' = '' @ show_int sz @ '','' @ show_int t"
  have b: "(\<lambda>(f, sz, t). history_line f sz t) = (\<lambda>r. ?b r @ [LF])"
    by (auto simp: history_line_def fun_eq_iff)
  have "LF \<notin> set (?b r) \<and> Suc (length (?b r)) < 1024" if "r \<in> set recs" for r
  proof -
    obtain f sz t where r: "r = (f, sz, t)" by (cases r) auto
    have "LF \<notin> set (show_int i)" for i using show_int_chars [of LF i] by auto
    with assms [OF that] show ?thesis by (auto simp: r record_ok_def plain_name_def history_line_def)
  qed
  then have "fgets_lines 1024 (concat (map (\<lambda>l. l @ [LF]) (map ?b recs))) = map (\<lambda>l. l @ [LF]) (map ?b recs)"
    by (intro fgets_lines_concat) auto
  then show ?thesis by (simp add: b comp_def)
qed

section \<open>Loading the history\<close>

text \<open>
  The part of a world that decides: no failing lock ahead, a known task, a short path.
  \<open>recs\<close> are the lines of its history file.
\<close>

definition history :: "int \<Rightarrow> int \<Rightarrow> shm_world \<Rightarrow> (cstring \<times> int \<times> time_t) list \<Rightarrow> bool" where
  "history sid dir w recs =
     ((case w_files w (list_path sid dir w) of
         None \<Rightarrow> recs = []
       | Some content \<Rightarrow> content = concat (map (\<lambda>(f, sz, t). history_line f sz t) recs)) \<and>
      (\<forall>r \<in> set recs. record_ok sid r))"

definition quiet :: "int \<Rightarrow> int \<Rightarrow> TASK_ITEM \<Rightarrow> shm_world \<Rightarrow> bool" where
  "quiet sid dir it w =
     (w_tries w = [] \<and> get_task_item_by_id (w_tasks w) sid = Some it \<and> length (list_path sid dir w) < 256)"

text \<open>The records that are young enough, as insertions into the table.\<close>

definition fresh_keys :: "int \<Rightarrow> time_t \<Rightarrow> (cstring \<times> int \<times> time_t) list \<Rightarrow> (time_t \<times> file_key) list" where
  "fresh_keys sid age_limit recs =
     map (\<lambda>(f, sz, t). (t, sid, show_int sid @ f, sz)) (filter (\<lambda>(f, sz, t). age_limit \<le> t) recs)"

lemma try_lock_quiet [frame_simps]: "w_tries w = [] \<Longrightarrow> try_lock w = (True, w)"
  by (simp add: try_lock_def)

lemma quiet_map [simp]: "quiet sid dir it (w\<lparr>w_map := m\<rparr>) = quiet sid dir it w"
  by (simp add: quiet_def list_path_def)

lemma list_path_map [simp]: "list_path sid dir (w\<lparr>w_map := m\<rparr>) = list_path sid dir w"
  by (simp add: list_path_def)

lemma history_map [simp]: "history sid dir (w\<lparr>w_map := m\<rparr>) recs = history sid dir w recs"
  by (simp add: history_def)

lemma shm_insert_record:
  assumes "quiet sid dir it w" and "plain_name f" and "length (show_int sid @ f) < 256" and "b \<in> {f, f @ [SPC]}"
  shows "shm_insert_file sid b sz t w =
    (if w_now w - t > file_ctime_escape it then Some (-1, f, w)
     else (case map_insert (w_map w) sid (show_int sid @ f) sz t of
             None \<Rightarrow> None
           | Some m \<Rightarrow> Some (0, f, w\<lparr>w_map := m\<rparr>)))"
proof -
  have "rtrim b = f" "b \<noteq> []" "hd b \<noteq> LF"
    using plain_name_trim [OF assms(2)] assms(2,4) by (auto simp: plain_name_def is_blank_def)
  with assms(1,3) show ?thesis
    using plain_name_trim(2) [OF assms(2)]
    by (simp add: shm_insert_file_def Let_def quiet_def frame_simps)
qed

lemma load_lines_records:
  assumes "quiet sid dir it w" and "\<forall>r \<in> set recs. record_ok sid r"
  shows "fold_option (load_line sid) (map (\<lambda>(f, sz, t). history_line f sz t) recs) w =
    map_option (\<lambda>m. w\<lparr>w_map := m\<rparr>)
      (fold_option key_ins (fresh_keys sid (w_now w - file_ctime_escape it) recs) (w_map w))"
  using assms
proof (induction recs arbitrary: w)
  case Nil
  then show ?case by (simp add: fresh_keys_def)
next
  case (Cons r recs)
  obtain f sz t where r: "r = (f, sz, t)" by (cases r) auto
  then have ok: "record_ok sid (f, sz, t)" using Cons.prems by simp
  have ins: "shm_insert_file sid (f @ [SPC]) sz t w =
    (if w_now w - t > file_ctime_escape it then Some (-1, f, w)
     else (case map_insert (w_map w) sid (show_int sid @ f) sz t of
             None \<Rightarrow> None
           | Some m \<Rightarrow> Some (0, f, w\<lparr>w_map := m\<rparr>)))"
    using ok by (intro shm_insert_record [OF Cons.prems(1)]) (auto simp: record_ok_def)
  show ?case
  proof (cases "w_now w - t > file_ctime_escape it")
    case True
    then show ?thesis
      using Cons.IH [OF Cons.prems(1)] Cons.prems(2) ins
      by (simp add: r load_line_record [OF ok] fresh_keys_def)
  next
    case False
    then have "fresh_keys sid (w_now w - file_ctime_escape it) (r # recs) =
      (t, sid, show_int sid @ f, sz) # fresh_keys sid (w_now w - file_ctime_escape it) recs"
      by (simp add: fresh_keys_def r)
    with False show ?thesis
      using Cons.IH [of "w\<lparr>w_map := m\<rparr>" for m] Cons.prems ins
      by (auto simp: r load_line_record [OF ok] key_ins_def split: option.splits)
  qed
qed

lemma load_file_history:
  assumes "quiet sid dir it w" and "history sid dir w recs"
  shows "load_file_hash_value sid dir w =
    map_option (\<lambda>m. (if w_files w (list_path sid dir w) = None then -1 else 0, w\<lparr>w_map := m\<rparr>))
      (fold_option key_ins (fresh_keys sid (w_now w - file_ctime_escape it) recs) (w_map w))"
proof (cases "w_files w (list_path sid dir w)")
  case None
  with assms show ?thesis by (simp add: load_file_hash_value_def history_def quiet_def fresh_keys_def)
next
  case (Some content)
  have l: "fgets_lines 1024 (concat (map (\<lambda>(f, sz, t). history_line f sz t) recs)) =
      map (\<lambda>(f, sz, t). history_line f sz t) recs"
    by (rule history_line_lines) (use assms(2) in \<open>auto simp: history_def\<close>)
  show ?thesis
    using assms Some load_lines_records [OF assms(1), of recs]
    by (simp add: load_file_hash_value_def history_def l quiet_def option.map_comp comp_def split: option.splits)
qed

text \<open>Enough room in the table makes a sequence of insertions return.\<close>

lemma insert_all_total:
  "card (dom m) + length tks \<le> 2 ^ 32 \<Longrightarrow>
   \<exists>m'. fold_option key_ins tks m = Some m' \<and> card (dom m') \<le> card (dom m) + length tks"
proof (induction tks arbitrary: m)
  case (Cons tk tks)
  obtain t sid s sz where tk: "tk = (t, sid, s, sz)" by (cases tk) auto
  obtain f where "m f = None" using map_not_full [of m] Cons.prems by auto
  then obtain m1 where m1: "map_insert m sid s sz t = Some m1" using map_insert_total by blast
  then have c: "card (dom m1) \<le> Suc (card (dom m))" by (rule map_insert_dom)
  then obtain m' where "fold_option key_ins tks m1 = Some m'" "card (dom m') \<le> card (dom m1) + length tks"
    using Cons.IH [of m1] Cons.prems by auto
  with m1 c show ?case by (auto simp: tk key_ins_def)
qed simp

section \<open>Reading\<close>

text \<open>The table after the first step of \<open>read_ftped_file\<close>.\<close>

definition loaded_from :: "int \<Rightarrow> time_t \<Rightarrow> (cstring \<times> int \<times> time_t) list \<Rightarrow> file_map \<Rightarrow> file_map \<Rightarrow> bool" where
  "loaded_from sid age_limit recs m m' =
     (map_inv m' \<and>
      (\<forall>k. fst (snd k) \<noteq> [] \<longrightarrow> key_look m k \<longrightarrow> key_look m' k) \<and>
      (m (word_of_int sid) = None \<longrightarrow>
        (\<forall>k. key_storable k \<longrightarrow> k \<in> snd ` set (fresh_keys sid age_limit recs) \<longrightarrow> key_look m' k) \<and>
        (\<forall>k. key_exact k \<longrightarrow> key_look m' k \<longrightarrow> key_look m k \<or> k \<in> snd ` set (fresh_keys sid age_limit recs))))"

lemma loaded_from_inserts:
  assumes "map_inv m" and "fold_option key_ins (fresh_keys sid age_limit recs) m = Some m1"
    and "m' = m1 \<or> m' = map_mark m1 sid"
  shows "loaded_from sid age_limit recs m m'"
proof -
  have l: "key_look m' k = key_look m1 k" if "fst (snd k) \<noteq> []" for k
    using assms(3) that map_mark_lookup [of "fst (snd k)" m1 sid] by (cases k) (auto simp: key_look_def)
  have "map_inv m'"
    using fm.ins_all_invar [OF assms(1,2)] map_mark_inv assms(3) by auto
  moreover have "fst (snd k) \<noteq> [] \<longrightarrow> key_look m k \<longrightarrow> key_look m' k" for k
    using fm.ins_all_keeps [OF assms(1) _ assms(2)] l by blast
  moreover have "key_storable k \<longrightarrow> k \<in> snd ` set (fresh_keys sid age_limit recs) \<longrightarrow> key_look m' k" for k
  proof (intro impI)
    assume k: "key_storable k" "k \<in> snd ` set (fresh_keys sid age_limit recs)"
    then have "fst (snd k) \<noteq> []" by (auto simp: key_storable_def)
    then show "key_look m' k" using fm.ins_all_in [OF assms(1) k assms(2)] l by blast
  qed
  moreover have "key_exact k \<longrightarrow> key_look m' k \<longrightarrow> key_look m k \<or> k \<in> snd ` set (fresh_keys sid age_limit recs)" for k
  proof (intro impI)
    assume k: "key_exact k" "key_look m' k"
    then have "fst (snd k) \<noteq> []" by (auto simp: key_exact_def)
    then show "key_look m k \<or> k \<in> snd ` set (fresh_keys sid age_limit recs)"
      using fm.ins_all_only [OF assms(1) k(1) assms(2)] l k(2) by blast
  qed
  ultimately show ?thesis unfolding loaded_from_def by blast
qed

text \<open>The slots the table may still need for the records of a history file not yet loaded.\<close>

definition slots :: "int \<Rightarrow> (cstring \<times> int \<times> time_t) list \<Rightarrow> file_map \<Rightarrow> nat" where
  "slots sid recs m = card (dom m) + (if m (word_of_int sid) = None then Suc (length recs) else 0)"

lemma map_mark_dom: "card (dom (map_mark m sid)) \<le> Suc (card (dom m))" "map_mark m sid (word_of_int sid) \<noteq> None"
  by (auto simp: map_mark_def card_insert_if split: option.splits)

lemma read_load_quiet:
  assumes q: "quiet sid dir it w" and h: "history sid dir w recs" and inv: "map_inv (w_map w)"
    and room: "card (dom (w_map w)) + length recs \<le> 2 ^ 32"
  shows "\<exists>m'. read_ftped_load sid dir w = Some (True, w\<lparr>w_map := m'\<rparr>) \<and>
    loaded_from sid (w_now w - file_ctime_escape it) recs (w_map w) m' \<and> slots sid recs m' \<le> slots sid recs (w_map w)"
proof -
  have t: "try_lock w = (True, w)" using q by (simp add: quiet_def frame_simps)
  show ?thesis
  proof (cases "w_map w (word_of_int sid)")
    case (Some e)
    then have "read_ftped_load sid dir w = Some (True, w\<lparr>w_map := w_map w\<rparr>)"
      by (simp add: read_ftped_load_def ftpid_hash_file_loaded_def t)
    moreover have "loaded_from sid (w_now w - file_ctime_escape it) recs (w_map w) (w_map w)"
      using inv Some by (simp add: loaded_from_def)
    ultimately show ?thesis by (intro exI [of _ "w_map w"]) simp
  next
    case None
    let ?tks = "fresh_keys sid (w_now w - file_ctime_escape it) recs"
    have "length ?tks \<le> length recs" by (simp add: fresh_keys_def)
    then obtain m1 where m1: "fold_option key_ins ?tks (w_map w) = Some m1"
      and c1: "card (dom m1) \<le> card (dom (w_map w)) + length recs"
      using insert_all_total [of "w_map w" ?tks] room by fastforce
    have t1: "try_lock (w\<lparr>w_map := m1\<rparr>) = (True, w\<lparr>w_map := m1\<rparr>)"
      using q by (simp add: quiet_def frame_simps)
    show ?thesis
    proof (cases "w_files w (list_path sid dir w)")
      case no_file: None
      then have "recs = []" using h by (simp add: history_def)
      then have "m1 = w_map w" using m1 by (simp add: fresh_keys_def)
      moreover have "read_ftped_load sid dir w = Some (True, w\<lparr>w_map := m1\<rparr>)"
        using None m1 load_file_history [OF q h] no_file
        by (simp add: read_ftped_load_def ftpid_hash_file_loaded_def t)
      ultimately show ?thesis using loaded_from_inserts [OF inv m1, of m1] by (intro exI [of _ m1]) simp
    next
      case (Some content)
      have "read_ftped_load sid dir w = Some (True, w\<lparr>w_map := map_mark m1 sid\<rparr>)"
        using None m1 load_file_history [OF q h] Some
        by (simp add: read_ftped_load_def ftpid_hash_file_loaded_def t t1)
      moreover have "slots sid recs (map_mark m1 sid) \<le> slots sid recs (w_map w)"
        using map_mark_dom [of m1 sid] c1 None by (auto simp: slots_def)
      ultimately show ?thesis using loaded_from_inserts [OF inv m1, of "map_mark m1 sid"] by blast
    qed
  qed
qed

lemma read_ftped_quiet:
  assumes q: "quiet sid dir it w" and h: "history sid dir w recs" and inv: "map_inv (w_map w)"
    and room: "card (dom (w_map w)) + length recs \<le> 2 ^ 32"
    and f: "hd f \<noteq> LF" "length (show_int sid @ f) < 256"
  shows "\<exists>m'. loaded_from sid (w_now w - file_ctime_escape it) recs (w_map w) m' \<and>
    slots sid recs m' \<le> slots sid recs (w_map w) \<and>
    read_ftped_file sid f sz dir w =
      Some (if key_look m' (sid, show_int sid @ f, sz) then 1 else 0, w\<lparr>w_map := m'\<rparr>)"
proof -
  obtain m' where m': "read_ftped_load sid dir w = Some (True, w\<lparr>w_map := m'\<rparr>)"
    "loaded_from sid (w_now w - file_ctime_escape it) recs (w_map w) m'" "slots sid recs m' \<le> slots sid recs (w_map w)"
    using read_load_quiet [OF q h inv room] by blast
  have "try_lock (w\<lparr>w_map := m'\<rparr>) = (True, w\<lparr>w_map := m'\<rparr>)"
    using q by (simp add: quiet_def frame_simps)
  with m' f show ?thesis by (intro exI [of _ m']) (simp add: read_ftped_file_def key_look_def)
qed

text \<open>
  C7. After a restart, with an empty table, the history file gives the set of transferred files
  back: \<open>read_ftped_file\<close> answers 1 for exactly the names and sizes of the records that are not
  older than the task's age limit, and 0 for every other file. (Key strings shorter than 47
  characters, no lock failure, a history file of well-formed lines, fewer than \<open>2 ^ 32\<close>.)
\<close>

theorem restart_recovers_history:
  assumes "quiet sid dir it w" and "history sid dir w recs" and "w_map w = Map.empty"
    and "length recs \<le> 2 ^ 32" and "hd f \<noteq> LF" and "length (show_int sid @ f) < 47"
  shows "\<exists>w'. read_ftped_file sid f sz dir w =
    Some (if \<exists>t. (f, sz, t) \<in> set recs \<and> w_now w - file_ctime_escape it \<le> t then 1 else 0, w')"
proof -
  let ?k = "(sid, show_int sid @ f, sz)"
  let ?tks = "fresh_keys sid (w_now w - file_ctime_escape it) recs"
  obtain m' where m': "loaded_from sid (w_now w - file_ctime_escape it) recs (w_map w) m'"
    "read_ftped_file sid f sz dir w = Some (if key_look m' ?k then 1 else 0, w\<lparr>w_map := m'\<rparr>)"
    using read_ftped_quiet [OF assms(1,2), of f sz] assms(3-6) map_inv_empty by auto
  have "key_exact ?k" "key_storable ?k" using assms(6) by (auto simp: key_exact_def key_storable_def)
  then have "key_look m' ?k \<longleftrightarrow> ?k \<in> snd ` set ?tks"
    using m'(1) assms(3) by (auto simp: loaded_from_def key_look_def map_lookup_def)
  also have "\<dots> \<longleftrightarrow> (\<exists>t. (f, sz, t) \<in> set recs \<and> w_now w - file_ctime_escape it \<le> t)"
    by (force simp: fresh_keys_def)
  finally show ?thesis using m'(2) by auto
qed

lemma history_write:
  assumes "history sid dir w recs" and "record_ok sid (f, sz, w_now w)"
    and "w' = w\<lparr>w_map := m, w_files := (w_files w)(list_path sid dir w \<mapsto>
        (case w_files w (list_path sid dir w) of None \<Rightarrow> [] | Some c \<Rightarrow> c) @ history_line f sz (w_now w))\<rparr>"
  shows "history sid dir w' (recs @ [(f, sz, w_now w)])"
proof -
  have "list_path sid dir w' = list_path sid dir w" by (simp add: assms(3) list_path_def)
  with assms show ?thesis by (auto simp: history_def split: option.splits)
qed

text \<open>
  C6. Writing then reading. \<open>write_ftped_file\<close> returns 0, the history file has gained exactly the
  file's record, the table invariant holds again, and \<open>read_ftped_file\<close> then reports the same file with the
  same size as transferred. Premises: no attempt to take the lock fails and the task is known
  (\<open>quiet\<close>); the history file holds records in the form the program writes; the name has no blank at
  its ends, no line feed, no \<open>=\<close> and no \<open>[\<close> at its start, and with the task's id in front fewer than 256
  characters and not 47, where the table cuts it off (\<open>record_ok\<close>); the history file can be appended to;
  and the table has two slots free beside those for the history. Otherwise a file can be forgotten.
\<close>

theorem write_then_read:
  assumes "quiet sid dir it w" and "history sid dir w recs" and "map_inv (w_map w)"
    and "card (dom (w_map w)) + length recs + 2 \<le> 2 ^ 32"
    and "record_ok sid (f, sz, w_now w)" and "length (show_int sid @ f) \<noteq> 47"
    and "0 \<le> file_ctime_escape it" and "w_append_ok w (list_path sid dir w)"
  shows "\<exists>w1 w2. write_ftped_file sid f sz dir w = Some (0, f, w1) \<and>
    history sid dir w1 (recs @ [(f, sz, w_now w)]) \<and> map_inv (w_map w1) \<and>
    read_ftped_file sid f sz dir w1 = Some (1, w2)"
proof -
  have f: "plain_name f" "length (show_int sid @ f) < 256" "hd f \<noteq> LF"
    using assms(5) by (auto simp: record_ok_def plain_name_def is_blank_def)
  let ?k = "(sid, show_int sid @ f, sz)"
  obtain m where m: "map_insert (w_map w) sid (show_int sid @ f) sz (w_now w) = Some m"
    "card (dom m) \<le> Suc (card (dom (w_map w)))"
    using map_insert_returns [of "w_map w" sid "show_int sid @ f" sz "w_now w"] assms(4) by auto
  have inv: "map_inv m" by (rule map_insert_inv [OF assms(3) m(1)])
  have k: "key_look m ?k" using map_insert_self [OF assms(3) m(1)] assms(6) by (simp add: key_look_def)
  define w1 where "w1 = w\<lparr>w_map := m, w_files := (w_files w)(list_path sid dir w \<mapsto>
        (case w_files w (list_path sid dir w) of None \<Rightarrow> [] | Some c \<Rightarrow> c) @ history_line f sz (w_now w))\<rparr>"
  have h1: "history sid dir w1 (recs @ [(f, sz, w_now w)])"
    by (rule history_write [OF assms(2,5)]) (simp add: w1_def)
  have q1: "quiet sid dir it w1" using assms(1) by (simp add: w1_def quiet_def list_path_def)
  have "shm_insert_file sid f sz (w_now w) w = Some (0, f, w\<lparr>w_map := m\<rparr>)"
    using shm_insert_record [OF assms(1) f(1,2), of f] m(1) assms(7) by simp
  then have wr: "write_ftped_file sid f sz dir w = Some (0, f, w1)"
    using assms(1,8) by (simp add: write_ftped_file_def w1_def quiet_def Let_def)
  have "card (dom (w_map w1)) + length (recs @ [(f, sz, w_now w)]) \<le> 2 ^ 32"
    using m(2) assms(4) by (simp add: w1_def)
  moreover have "map_inv (w_map w1)" using inv by (simp add: w1_def)
  ultimately obtain m' where m': "loaded_from sid (w_now w1 - file_ctime_escape it) (recs @ [(f, sz, w_now w)]) (w_map w1) m'"
    "read_ftped_file sid f sz dir w1 = Some (if key_look m' ?k then 1 else 0, w1\<lparr>w_map := m'\<rparr>)"
    using read_ftped_quiet [OF q1 h1 _ _ f(3,2)] by blast
  have "key_look (w_map w1) ?k" using k by (simp add: w1_def)
  then have "key_look m' ?k" using m'(1) by (auto simp: loaded_from_def)
  with m'(2) wr h1 inv show ?thesis by (auto simp: w1_def)
qed

text \<open>A world for the witnesses: task 7, one year of age limit, in directory \<open>/x\<close>.\<close>

definition demo_task :: TASK_ITEM where
  "demo_task = \<lparr>sch_item = \<lparr>sch_id = 7, sch_month = ''*'', sch_day = ''*'', sch_hour = ''*'', sch_min = ''*''\<rparr>,
     ftp_host = ''u:p:h:21'', ftp_path = ''/r'', local_path = ''/l'', task_file = ''.*'', direction = 0,
     del_src = 0, generate_db_cdr = 0, file_ctime_escape = 31536000, use_tmp = 1, copy_flag = 0,
     sh_file = ''NO'', son_dir_mask = ''NULL'', cp_dir_1 = ''NULL'', cp_dir_2 = ''NULL'',
     cp_dir_3 = ''NULL'', cp_dir_4 = ''NULL'', ftp_flag = 0\<rparr>"

definition demo_world :: "(cstring \<rightharpoonup> cstring) \<Rightarrow> shm_world" where
  "demo_world files = \<lparr>w_now = 1000, w_tasks = [demo_task], w_exec = ''/x'', w_map = Map.empty,
     w_files = files, w_append_ok = (\<lambda>_. True), w_tries = []\<rparr>"

lemma demo_show: "show_int 7 = ''7''" "show_int 10 = ''10''" "show_int 1000 = ''1000''" "show_int 900 = ''900''"
  by (simp_all add: show_int_def show_nat.simps digit_char_def char_of_def bit_0)

lemma demo_path: "list_path 7 FTP_GET (demo_world fs) = ''/x/log/TASK_ID_7_HAVE_GET_LIST''"
  by (simp add: list_path_def demo_world_def demo_show)

lemma demo_quiet: "quiet 7 FTP_GET demo_task (demo_world fs)"
  by (simp add: quiet_def demo_path) (simp add: demo_world_def demo_task_def)

lemma demo_record: "record_ok 7 (''a'', 10, 900)" "record_ok 7 (''a'', 10, 1000)"
  by (simp_all add: record_ok_def plain_name_def history_line_def demo_show is_blank_def)

lemma demo_history:
  "history 7 FTP_GET (demo_world [''/x/log/TASK_ID_7_HAVE_GET_LIST'' \<mapsto> ''a = 10,900'' @ [LF]]) [(''a'', 10, 900)]"
  using demo_record by (simp add: history_def demo_path) (simp add: demo_world_def history_line_def demo_show)

theorem restart_recovers_history_witness:
  "\<exists>w'. read_ftped_file 7 ''a'' 10 FTP_GET
     (demo_world [''/x/log/TASK_ID_7_HAVE_GET_LIST'' \<mapsto> ''a = 10,900'' @ [LF]]) = Some (1, w')"
  using restart_recovers_history [OF demo_quiet demo_history, of "''a''" 10]
  by (simp add: demo_show) (simp add: demo_world_def demo_task_def)

theorem write_then_read_witness:
  "\<exists>w1 w2. write_ftped_file 7 ''a'' 10 FTP_GET (demo_world Map.empty) = Some (0, ''a'', w1) \<and>
     read_ftped_file 7 ''a'' 10 FTP_GET w1 = Some (1, w2)"
proof -
  have "history 7 FTP_GET (demo_world Map.empty) []" by (simp add: history_def demo_world_def)
  moreover have "map_inv (w_map (demo_world Map.empty))" by (simp add: demo_world_def map_inv_empty)
  ultimately show ?thesis
    using write_then_read [OF demo_quiet, of Map.empty "[]" "''a''" 10] demo_record(2)
    by (fastforce simp: demo_world_def demo_task_def demo_show)
qed

text \<open>
  A task is taken for loaded when any file's hash equals its id: then its history file is never
  read, and after a restart its transferred files look new.
\<close>

lemma foreign_hash_marks_loaded:
  assumes "w_tries w = []" and "hash s = word_of_int sid" and "map_insert (w_map w) sid' s sz t = Some m"
  shows "ftpid_hash_file_loaded sid (w\<lparr>w_map := m\<rparr>) = (True, w\<lparr>w_map := m\<rparr>)"
proof -
  from assms(3) have "m (hash s) \<noteq> None"
  proof (cases rule: map_insert_split)
    case (stored c e)
    then show ?thesis using stored(2) [of 0] by (cases c) auto
  next
    case (new c e)
    then show ?thesis by (simp add: free_ins_def)
  qed
  with assms(1,2) show ?thesis
    by (simp add: ftpid_hash_file_loaded_def try_lock_quiet)
qed

end
