(* ===== verification/Transfer_Log.thy ===== *)
theory Transfer_Log
  imports Ftped_Files
begin

text \<open>
  The contract between the transferred-file store and the transfer tasks. A task asks \<open>ask\<close>
  before it transfers a file and calls \<open>note_done\<close> after. \<open>ok n\<close> is the store's invariant with room
  for \<open>n\<close> more files; \<open>seen\<close> are the files it will report. The client lemma is about any
  sequence of turns in which a task asks, and transfers only what the store does not know: no
  file is transferred twice.
\<close>

datatype 'f turn = Skip | Asked 'f | Transferred 'f

text \<open>
  One turn of a task: it may skip the file, or ask and find it done, or ask, transfer and
  record it. \<open>turn storable ask note_done tick t s w w'\<close> is such a turn at time \<open>t\<close> from store \<open>w\<close>
  to store \<open>w'\<close>.
\<close>

definition turn ::
  "('f \<Rightarrow> bool) \<Rightarrow> ('f \<Rightarrow> 'w \<Rightarrow> (int \<times> 'w) option) \<Rightarrow> ('f \<Rightarrow> 'w \<Rightarrow> 'w option) \<Rightarrow> ('t \<Rightarrow> 'w \<Rightarrow> 'w) \<Rightarrow>
   't \<Rightarrow> 'f turn \<Rightarrow> 'w \<Rightarrow> 'w \<Rightarrow> bool" where
  "turn storable ask note_done tick t s w w' =
     (case s of
        Skip \<Rightarrow> w' = tick t w
      | Asked f \<Rightarrow> storable f \<and> (\<exists>r. ask f (tick t w) = Some (r, w'))
      | Transferred f \<Rightarrow> storable f \<and> (\<exists>w1. ask f (tick t w) = Some (0, w1) \<and> note_done f w1 = Some w'))"

fun turns ::
  "('f \<Rightarrow> bool) \<Rightarrow> ('f \<Rightarrow> 'w \<Rightarrow> (int \<times> 'w) option) \<Rightarrow> ('f \<Rightarrow> 'w \<Rightarrow> 'w option) \<Rightarrow> ('t \<Rightarrow> 'w \<Rightarrow> 'w) \<Rightarrow>
   ('t \<times> 'f turn) list \<Rightarrow> 'w \<Rightarrow> 'w \<Rightarrow> bool" where
  "turns storable ask note_done tick [] w w' = (w' = w)"
| "turns storable ask note_done tick ((t, s) # ss) w w' =
     (\<exists>w1. turn storable ask note_done tick t s w w1 \<and> turns storable ask note_done tick ss w1 w')"

definition sent :: "('t \<times> 'f turn) list \<Rightarrow> 'f list" where
  "sent ss = concat (map (\<lambda>(t, s). case s of Transferred f \<Rightarrow> [f] | _ \<Rightarrow> []) ss)"

lemma sent_Nil [simp]: "sent [] = []"
  by (simp add: sent_def)

lemma sent_Cons: "sent ((t, s) # ss) = (case s of Transferred f \<Rightarrow> [f] | _ \<Rightarrow> []) @ sent ss"
  by (simp add: sent_def)

lemma turns_storable: "turns storable ask note_done tick ss w w' \<Longrightarrow> f \<in> set (sent ss) \<Longrightarrow> storable f"
proof (induction storable ask note_done tick ss w w' rule: turns.induct)
  case (2 storable ask note_done tick t s ss w w')
  then obtain w1 where w1: "turn storable ask note_done tick t s w w1" "turns storable ask note_done tick ss w1 w'" by auto
  show ?case
  proof (cases "f \<in> set (sent ss)")
    case False
    then have "s = Transferred f" using "2.prems"(2) by (auto simp: sent_Cons split: turn.splits)
    then show ?thesis using w1(1) by (simp add: turn_def)
  qed (use "2.IH" w1(2) in blast)
qed simp

locale transfer_log =
  fixes ok :: "nat \<Rightarrow> 'w \<Rightarrow> bool"
    and seen :: "'w \<Rightarrow> 'f \<Rightarrow> bool"
    and storable :: "'f \<Rightarrow> bool"
    and ask :: "'f \<Rightarrow> 'w \<Rightarrow> (int \<times> 'w) option"
    and note_done :: "'f \<Rightarrow> 'w \<Rightarrow> 'w option"
    and tick :: "'t \<Rightarrow> 'w \<Rightarrow> 'w"
    and good_tick :: "'t \<Rightarrow> bool"
  assumes ask_total: "ok n w \<Longrightarrow> storable f \<Longrightarrow> \<exists>r w'. ask f w = Some (r, w')"
    and ask_ok: "ok n w \<Longrightarrow> storable f \<Longrightarrow> ask f w = Some (r, w') \<Longrightarrow> ok n w'"
    and ask_seen: "ok n w \<Longrightarrow> storable f \<Longrightarrow> ask f w = Some (r, w') \<Longrightarrow> seen w f \<Longrightarrow> r = 1"
    and ask_keeps: "ok n w \<Longrightarrow> storable f \<Longrightarrow> ask f w = Some (r, w') \<Longrightarrow> storable g \<Longrightarrow> seen w g \<Longrightarrow> seen w' g"
    and note_total: "ok (Suc n) w \<Longrightarrow> storable f \<Longrightarrow> \<exists>w'. note_done f w = Some w'"
    and note_ok: "ok (Suc n) w \<Longrightarrow> storable f \<Longrightarrow> note_done f w = Some w' \<Longrightarrow> ok n w'"
    and note_seen: "ok (Suc n) w \<Longrightarrow> storable f \<Longrightarrow> note_done f w = Some w' \<Longrightarrow> seen w' f"
    and note_keeps: "ok (Suc n) w \<Longrightarrow> storable f \<Longrightarrow> note_done f w = Some w' \<Longrightarrow> storable g \<Longrightarrow> seen w g \<Longrightarrow> seen w' g"
    and tick_ok: "ok n w \<Longrightarrow> good_tick t \<Longrightarrow> ok n (tick t w)"
    and tick_seen: "ok n w \<Longrightarrow> good_tick t \<Longrightarrow> seen (tick t w) f = seen w f"
    and ok_less: "ok (Suc n) w \<Longrightarrow> ok n w"
begin

lemma turn_ok:
  assumes "ok (Suc n) w" and "good_tick t" and "turn storable ask note_done tick t s w w'"
  shows "ok n w'" and "\<And>g. storable g \<Longrightarrow> seen w g \<Longrightarrow> seen w' g"
    and "\<And>f. s = Transferred f \<Longrightarrow> seen w' f \<and> \<not> seen w f \<and> storable f"
proof -
  have k: "ok (Suc n) (tick t w)" by (rule tick_ok [OF assms(1,2)])
  have s: "seen (tick t w) g = seen w g" for g by (rule tick_seen [OF assms(1,2)])
  have "ok n w' \<and> (\<forall>g. storable g \<longrightarrow> seen w g \<longrightarrow> seen w' g) \<and>
      (\<forall>f. s = Transferred f \<longrightarrow> seen w' f \<and> \<not> seen w f \<and> storable f)"
  proof (cases s)
    case Skip
    then show ?thesis using assms(3) k s ok_less by (simp add: turn_def)
  next
    case (Asked f)
    then obtain r where r: "storable f" "ask f (tick t w) = Some (r, w')" using assms(3) by (auto simp: turn_def)
    then show ?thesis using ask_ok [OF k r] ok_less ask_keeps [OF k r] s Asked by blast
  next
    case (Transferred f)
    then obtain w1 where w1: "storable f" "ask f (tick t w) = Some (0, w1)" "note_done f w1 = Some w'"
      using assms(3) by (auto simp: turn_def)
    have k1: "ok (Suc n) w1" by (rule ask_ok [OF k w1(1,2)])
    have "\<not> seen w f" using ask_seen [OF k w1(1,2)] s by auto
    then show ?thesis
      using note_ok [OF k1 w1(1,3)] note_seen [OF k1 w1(1,3)] note_keeps [OF k1 w1(1,3)] ask_keeps [OF k w1(1,2)] s Transferred w1(1)
      by auto
  qed
  then show "ok n w'" "\<And>g. storable g \<Longrightarrow> seen w g \<Longrightarrow> seen w' g"
    "\<And>f. s = Transferred f \<Longrightarrow> seen w' f \<and> \<not> seen w f \<and> storable f" by blast+
qed

lemma turns_once:
  "turns storable ask note_done tick ss w w' \<Longrightarrow> ok (length ss + n) w \<Longrightarrow> \<forall>(t, s) \<in> set ss. good_tick t \<Longrightarrow>
   ok n w' \<and> distinct (sent ss) \<and> (\<forall>f \<in> set (sent ss). \<not> seen w f \<and> seen w' f) \<and>
   (\<forall>g. storable g \<longrightarrow> seen w g \<longrightarrow> seen w' g)"
proof (induction ss arbitrary: w)
  case Nil
  then show ?case by simp
next
  case (Cons ts ss)
  obtain t s where ts: "ts = (t, s)" by (cases ts)
  obtain w1 where w1: "turn storable ask note_done tick t s w w1" "turns storable ask note_done tick ss w1 w'" using Cons.prems(1) ts by auto
  have k: "ok (Suc (length ss + n)) w" "good_tick t" using Cons.prems(2,3) ts by simp_all
  note st = turn_ok [OF k w1(1)]
  have IH: "ok n w'" "distinct (sent ss)" "\<forall>f \<in> set (sent ss). \<not> seen w1 f \<and> seen w' f"
    "\<forall>g. storable g \<longrightarrow> seen w1 g \<longrightarrow> seen w' g"
    using Cons.IH [OF w1(2) st(1)] Cons.prems(3) by auto
  have sub: "storable f" if "f \<in> set (sent ss)" for f using turns_storable [OF w1(2) that] .
  show ?case
  proof (cases s)
    case (Transferred f)
    then have sent: "sent (ts # ss) = f # sent ss" by (simp add: sent_def ts)
    have f: "seen w1 f" "\<not> seen w f" "storable f" using st(3) [OF Transferred] by auto
    then have "f \<notin> set (sent ss)" using IH(3) by blast
    moreover have "\<not> seen w g" if "g \<in> set (sent ss)" for g using IH(3) st(2) sub [OF that] that by blast
    ultimately show ?thesis using IH f st(2) by (auto simp: sent)
  next
    case Skip
    then have "sent (ts # ss) = sent ss" by (simp add: sent_def ts)
    then show ?thesis using IH st(2) sub by auto
  next
    case (Asked f)
    then have "sent (ts # ss) = sent ss" by (simp add: sent_def ts)
    then show ?thesis using IH st(2) sub by auto
  qed
qed

end

section \<open>The store of taskitem.c keeps the contract\<close>

definition log_ok :: "int \<Rightarrow> int \<Rightarrow> TASK_ITEM \<Rightarrow> nat \<Rightarrow> shm_world \<Rightarrow> bool" where
  "log_ok sid dir it n w =
     (quiet sid dir it w \<and> map_inv (w_map w) \<and> 0 \<le> file_ctime_escape it \<and>
      w_append_ok w (list_path sid dir w) \<and> length (show_int (w_now w)) \<le> 20 \<and>
      (\<exists>recs. history sid dir w recs \<and> slots sid recs (w_map w) + 2 * n \<le> 2 ^ 32))"

definition log_seen :: "int \<Rightarrow> shm_world \<Rightarrow> cstring \<times> int \<Rightarrow> bool" where
  "log_seen sid w = (\<lambda>(f, sz). map_lookup (w_map w) sid (show_int sid @ f) sz)"

definition log_storable :: "int \<Rightarrow> cstring \<times> int \<Rightarrow> bool" where
  "log_storable sid = (\<lambda>(f, sz). plain_name f \<and> length (show_int sid @ f) < 256 \<and>
     length (show_int sid @ f) \<noteq> 47 \<and> length (show_int sz) \<le> 20)"

definition log_rd :: "int \<Rightarrow> int \<Rightarrow> cstring \<times> int \<Rightarrow> shm_world \<Rightarrow> (int \<times> shm_world) option" where
  "log_rd sid dir = (\<lambda>(f, sz) w. read_ftped_file sid f sz dir w)"

definition log_wr :: "int \<Rightarrow> int \<Rightarrow> cstring \<times> int \<Rightarrow> shm_world \<Rightarrow> shm_world option" where
  "log_wr sid dir = (\<lambda>(f, sz) w. map_option (\<lambda>(r, f', w'). w') (write_ftped_file sid f sz dir w))"

definition log_tick :: "time_t \<Rightarrow> shm_world \<Rightarrow> shm_world" where
  "log_tick t w = w\<lparr>w_now := t\<rparr>"

lemma log_read:
  assumes "log_ok sid dir it n w" and "log_storable sid (f, sz)"
  shows "\<exists>r m'. read_ftped_file sid f sz dir w = Some (r, w\<lparr>w_map := m'\<rparr>) \<and> log_ok sid dir it n (w\<lparr>w_map := m'\<rparr>) \<and>
    (log_seen sid w (f, sz) \<longrightarrow> r = 1) \<and> (\<forall>g. fst g \<noteq> [] \<longrightarrow> log_seen sid w g \<longrightarrow> log_seen sid (w\<lparr>w_map := m'\<rparr>) g)"
proof -
  obtain recs where h: "history sid dir w recs" "slots sid recs (w_map w) + 2 * n \<le> 2 ^ 32"
    and q: "quiet sid dir it w" "map_inv (w_map w)"
    using assms(1) by (auto simp: log_ok_def)
  have f: "hd f \<noteq> LF" "length (show_int sid @ f) < 256" "f \<noteq> []"
    using assms(2) by (auto simp: log_storable_def plain_name_def is_blank_def)
  have "\<exists>m'. loaded_from sid (w_now w - file_ctime_escape it) recs (w_map w) m' \<and>
    slots sid recs m' \<le> slots sid recs (w_map w) \<and>
    read_ftped_file sid f sz dir w = Some (if key_look m' (sid, show_int sid @ f, sz) then 1 else 0, w\<lparr>w_map := m'\<rparr>)"
  proof (cases "w_map w (word_of_int sid) = None")
    case True
    then have "card (dom (w_map w)) + length recs \<le> 2 ^ 32" using h(2) by (simp add: slots_def)
    then show ?thesis by (rule read_ftped_quiet [OF q(1) h(1) q(2) _ f(1,2)])
  next
    case False
    then have l: "read_ftped_load sid dir w = Some (True, w)"
      using q(1) by (simp add: read_ftped_load_def ftpid_hash_file_loaded_def quiet_def frame_simps)
    have t: "try_lock w = (True, w)" using q(1) by (simp add: quiet_def frame_simps)
    have "read_ftped_file sid f sz dir w = Some (if key_look (w_map w) (sid, show_int sid @ f, sz) then 1 else 0, w\<lparr>w_map := w_map w\<rparr>)"
      using l t f by (simp add: read_ftped_file_def key_look_def)
    moreover have "loaded_from sid (w_now w - file_ctime_escape it) recs (w_map w) (w_map w)"
      using False q(2) by (auto simp: loaded_from_def)
    ultimately show ?thesis by blast
  qed
  then obtain m' where m': "loaded_from sid (w_now w - file_ctime_escape it) recs (w_map w) m'"
    "slots sid recs m' \<le> slots sid recs (w_map w)"
    "read_ftped_file sid f sz dir w = Some (if key_look m' (sid, show_int sid @ f, sz) then 1 else 0, w\<lparr>w_map := m'\<rparr>)"
    by blast
  have keep: "log_seen sid (w\<lparr>w_map := m'\<rparr>) g" if "log_seen sid w g" for g
    using m'(1) that show_int_ne [of sid]
    by (cases g) (auto simp: loaded_from_def log_seen_def key_look_def)
  have "log_ok sid dir it n (w\<lparr>w_map := m'\<rparr>)"
    using assms(1) h m'(1,2) by (auto simp: log_ok_def loaded_from_def intro!: exI [of _ recs])
  moreover have "log_seen sid w (f, sz) \<Longrightarrow> key_look m' (sid, show_int sid @ f, sz)"
    using keep [of "(f, sz)"] by (simp add: log_seen_def key_look_def)
  ultimately show ?thesis using m'(3) keep by auto
qed

lemma log_write:
  assumes "log_ok sid dir it (Suc n) w" and "log_storable sid (f, sz)"
  shows "\<exists>w'. write_ftped_file sid f sz dir w = Some (0, f, w') \<and> log_ok sid dir it n w' \<and>
    log_seen sid w' (f, sz) \<and> (\<forall>g. log_seen sid w g \<longrightarrow> log_seen sid w' g)"
proof -
  obtain recs where h: "history sid dir w recs" "slots sid recs (w_map w) + 2 * Suc n \<le> 2 ^ 32"
    and q: "quiet sid dir it w" "map_inv (w_map w)" "0 \<le> file_ctime_escape it"
      "w_append_ok w (list_path sid dir w)" "length (show_int (w_now w)) \<le> 20"
    using assms(1) by (auto simp: log_ok_def)
  have f: "plain_name f" "length (show_int sid @ f) < 256" "length (show_int sid @ f) \<noteq> 47" "length (show_int sz) \<le> 20"
    using assms(2) by (auto simp: log_storable_def)
  have rec: "record_ok sid (f, sz, w_now w)"
    using f q(5) by (auto simp: record_ok_def history_line_def)
  obtain m where m: "map_insert (w_map w) sid (show_int sid @ f) sz (w_now w) = Some m"
    "card (dom m) \<le> Suc (card (dom (w_map w)))"
    using map_insert_returns [of "w_map w" sid "show_int sid @ f" sz "w_now w"] h(2) by (auto simp: slots_def)
  have dom: "w_map w x \<noteq> None \<Longrightarrow> m x \<noteq> None" for x
    using m(1) by (cases rule: map_insert_split) (auto dest: free_ins_dom)
  define w' where "w' = w\<lparr>w_map := m, w_files := (w_files w)(list_path sid dir w \<mapsto>
        (case w_files w (list_path sid dir w) of None \<Rightarrow> [] | Some c \<Rightarrow> c) @ history_line f sz (w_now w))\<rparr>"
  have "shm_insert_file sid f sz (w_now w) w = Some (0, f, w\<lparr>w_map := m\<rparr>)"
    using shm_insert_record [OF q(1) f(1,2), of f] m(1) q(3) by simp
  then have wr: "write_ftped_file sid f sz dir w = Some (0, f, w')"
    using q(1,4) by (simp add: write_ftped_file_def w'_def quiet_def Let_def)
  have hist: "history sid dir w' (recs @ [(f, sz, w_now w)])"
    by (rule history_write [OF h(1) rec]) (simp add: w'_def)
  have "slots sid (recs @ [(f, sz, w_now w)]) m \<le> slots sid recs (w_map w) + 2"
    using m(2) dom [of "word_of_int sid"] by (auto simp: slots_def)
  then have "log_ok sid dir it n w'"
    using q map_insert_inv [OF q(2) m(1)] hist h(2)
    by (auto simp: log_ok_def w'_def quiet_def list_path_def intro!: exI [of _ "recs @ [(f, sz, w_now w)]"])
  moreover have "log_seen sid w' (f, sz)"
    using map_insert_self [OF q(2) m(1) _ f(3)] by (simp add: log_seen_def w'_def)
  moreover have "log_seen sid w g \<longrightarrow> log_seen sid w' g" for g
    using map_insert_keeps [OF q(2) _ m(1)] by (cases g) (auto simp: log_seen_def w'_def)
  ultimately show ?thesis using wr by blast
qed

lemma log_ok_less: "log_ok sid dir it (Suc n) w \<Longrightarrow> log_ok sid dir it n w"
  by (auto simp: log_ok_def)

lemma log_tick_ok: "log_ok sid dir it n w \<Longrightarrow> length (show_int t) \<le> 20 \<Longrightarrow> log_ok sid dir it n (log_tick t w)"
  by (auto simp: log_ok_def log_tick_def quiet_def history_def list_path_def)

interpretation tl: transfer_log "log_ok sid dir it" "log_seen sid" "log_storable sid" "log_rd sid dir" "log_wr sid dir"
  log_tick "\<lambda>t. length (show_int t) \<le> 20"
  for sid dir it
proof (unfold_locales, goal_cases)
  case (1 n w f)
  then show ?case using log_read [of sid dir it n w "fst f" "snd f"] by (cases f) (auto simp: log_rd_def)
next
  case (2 n w f r w')
  then show ?case using log_read [of sid dir it n w "fst f" "snd f"] by (cases f) (auto simp: log_rd_def)
next
  case (3 n w f r w')
  then show ?case using log_read [of sid dir it n w "fst f" "snd f"] by (cases f) (auto simp: log_rd_def)
next
  case (4 n w f r w' g)
  then show ?case using log_read [of sid dir it n w "fst f" "snd f"]
    by (cases f; cases g) (auto simp: log_rd_def log_storable_def plain_name_def)
next
  case (5 n w f)
  then show ?case using log_write [of sid dir it n w "fst f" "snd f"] by (cases f) (auto simp: log_wr_def)
next
  case (6 n w f w')
  then show ?case using log_write [of sid dir it n w "fst f" "snd f"] by (cases f) (auto simp: log_wr_def)
next
  case (7 n w f w')
  then show ?case using log_write [of sid dir it n w "fst f" "snd f"] by (cases f) (auto simp: log_wr_def)
next
  case (8 n w f w' g)
  then show ?case using log_write [of sid dir it n w "fst f" "snd f"] by (cases f; cases g) (auto simp: log_wr_def)
next
  case (9 n w t)
  then show ?case by (rule log_tick_ok)
next
  case (10 n w t f)
  then show ?case by (simp add: log_seen_def log_tick_def)
next
  case (11 n w)
  then show ?case by (rule log_ok_less)
qed

end
