(* ===== verification/Task_Loop.thy ===== *)
theory Task_Loop
  imports Task_Item Trans_Path Transfer_Log
begin

text \<open>
  What the four transfer tasks of \<open>taskmanager.c\<close> share. The answers of the server, of the file
  system, of the regular-expression library and of the clock (read once per file) are the
  environment \<open>task_env\<close>; what a task does to the outside is its list of events; the store of
  transferred files is the \<open>shm_world\<close> it passes on. Log lines are left out. \<^const>\<open>None\<close> is an
  overflow of a buffer.
\<close>

section \<open>Environment and events\<close>

text \<open>
  The listings are the contents of the temporary files the server's answers were saved to; the
  second scan of a directory has its own answers (\<open>te_stat2\<close>, \<open>te_names2\<close>, \<open>te_listing2\<close>). The
  names and the listings depend on the directory that is asked for.
  \<open>te_fs\<close>, \<open>te_mkdir_fs\<close> and \<open>te_move\<close> are the local file system while the \<open>i\<close>-th file is handled.
\<close>

record task_env =
  te_tz :: int
  te_pid :: int
  te_start :: time_t
  te_clock :: "nat \<Rightarrow> time_t"
  te_reg :: "cstring \<Rightarrow> cstring \<Rightarrow> bool"
  te_send :: "cstring \<Rightarrow> cstring \<Rightarrow> bool"
  te_recv :: "cstring \<Rightarrow> cstring \<Rightarrow> bool"
  te_file :: "cstring \<Rightarrow> cstring option"
  te_stat :: "cstring \<Rightarrow> file_stat"
  te_stat2 :: "cstring \<Rightarrow> file_stat"
  te_names :: "cstring \<Rightarrow> cstring list"
  te_names2 :: "cstring \<Rightarrow> cstring list"
  te_listing :: "cstring \<Rightarrow> cstring option"
  te_listing2 :: "cstring \<Rightarrow> cstring option"
  te_conn :: bool
  te_login :: bool
  te_cd :: bool
  te_mkdir :: bool
  te_cd2 :: bool
  te_lcd :: bool
  te_fs :: "nat \<Rightarrow> cstring \<Rightarrow> file_stat"
  te_mkdir_fs :: "nat \<Rightarrow> cstring \<Rightarrow> bool"
  te_move :: "nat \<Rightarrow> cstring \<Rightarrow> cstring \<Rightarrow> bool"
  te_system :: bool

text \<open>
  A transfer, \<open>EvPut\<close> or \<open>EvGet\<close>, has its two paths, the entry of the scan it is for, and whether
  it succeeded.
\<close>

datatype task_event =
    EvConn FTP_SERVER_INFO | EvLogin | EvCd cstring | EvMkdir cstring | EvLcd cstring
  | EvPut cstring cstring FTP_FILE_INFO bool | EvRename cstring cstring | EvGet cstring cstring FTP_FILE_INFO bool | EvDelRemote cstring
  | EvRemove cstring | EvMove cstring cstring | EvMkdirLocal cstring | EvCopy copy_action
  | EvRow cstring int int cstring | EvSql cstring
  | EvQuit | EvSystem cstring

text \<open>\<open>sprintf\<close> into a buffer of \<open>n\<close> bytes.\<close>

definition sprintf_buf :: "nat \<Rightarrow> cstring \<Rightarrow> cstring option" where
  "sprintf_buf n s = (if length s < n then Some s else None)"

text \<open>\<open>strftime(..., "%Y-%m-%d %H:%M:%S", ...)\<close>\<close>

definition format_time :: "int \<Rightarrow> time_t \<Rightarrow> cstring" where
  "format_time tz t =
     (let m = localtime tz t in
      pad_int 4 (tm_year m + 1900) @ ''-'' @ pad_int 2 (tm_mon m + 1) @ ''-'' @ pad_int 2 (tm_mday m) @ '' '' @
      pad_int 2 (tm_hour m) @ '':'' @ pad_int 2 (tm_min m) @ '':'' @ pad_int 2 (tm_sec m))"

text \<open>The row for the database, put into the 256 bytes of \<open>msg._cmd_buf\<close>.\<close>

definition sql_text :: "int \<Rightarrow> int \<Rightarrow> cstring \<Rightarrow> int \<Rightarrow> int \<Rightarrow> cstring \<Rightarrow> cstring" where
  "sql_text pid sid file sz rows mtime =
     ''insert into tb_log_filecollection (Program_id,FtpParm_id,File_name,File_size,File_rows,File_modify_time,Handle_time) values ('' @
     show_int pid @ '','' @ show_int sid @ '','' @ [CHR 0x27] @ file @ [CHR 0x27] @ '','' @ show_int sz @ '','' @ show_int rows @
     '',to_date('' @ [CHR 0x27] @ mtime @ [CHR 0x27] @ '','' @ [CHR 0x27] @ ''yyyy-mm-dd hh24:mi:ss'' @ [CHR 0x27] @ ''),sysdate)''"

definition sql_event :: "bool \<Rightarrow> int \<Rightarrow> int \<Rightarrow> cstring \<Rightarrow> int \<Rightarrow> int \<Rightarrow> cstring \<Rightarrow> task_event list option" where
  "sql_event cdr pid sid file sz rows mtime =
     (if cdr then map_option (\<lambda>q. [EvSql q]) (sprintf_buf 256 (sql_text pid sid file sz rows mtime)) else Some [])"

section \<open>The loop over the second scan\<close>

text \<open>
  The loop calls \<open>step i f\<close> for the \<open>i\<close>-th file, after the clock has been read; the result is
  whether no transfer failed, the events, and the store.
\<close>

type_synonym task_result = "(bool \<times> task_event list \<times> shm_world) option"

fun task_loop ::
  "task_env \<Rightarrow> (nat \<Rightarrow> FTP_FILE_INFO \<Rightarrow> shm_world \<Rightarrow> task_result) \<Rightarrow> nat \<Rightarrow> FTP_FILE_INFO list \<Rightarrow> shm_world \<Rightarrow> task_result" where
  "task_loop env step i [] w = Some (True, [], w)"
| "task_loop env step i (f # fs) w =
     do {
       (ok, evs, w1) \<leftarrow> step i f (log_tick (te_clock env i) w);
       (ok', evs', w2) \<leftarrow> task_loop env step (Suc i) fs w1;
       Some (ok \<and> ok', evs @ evs', w2)
     }"

text \<open>Quitting, and the script.\<close>

definition task_finish :: "task_env \<Rightarrow> TASK_ITEM \<Rightarrow> bool \<Rightarrow> int \<times> task_event list" where
  "task_finish env it ok =
     (if sh_file it \<noteq> ''NO''
      then (if ok \<and> te_system env then 1 else 0, [EvQuit, EvSystem (sh_file it)])
      else (if ok then 1 else 0, [EvQuit]))"

lemma task_loop_ConsE:
  assumes "task_loop env step i (f # fs) w = Some (ok, evs, w')"
  obtains ok1 evs1 w1 ok2 evs2
    where "step i f (log_tick (te_clock env i) w) = Some (ok1, evs1, w1)"
      and "task_loop env step (Suc i) fs w1 = Some (ok2, evs2, w')" and "evs = evs1 @ evs2"
proof (cases "step i f (log_tick (te_clock env i) w)")
  case None
  with assms show thesis by simp
next
  case 1: (Some p)
  obtain ok1 evs1 w1 where p: "p = (ok1, evs1, w1)" by (cases p)
  show thesis
  proof (cases "task_loop env step (Suc i) fs w1")
    case None
    with assms 1 p show thesis by simp
  next
    case (Some q)
    obtain ok2 evs2 w2 where q: "q = (ok2, evs2, w2)" by (cases q)
    with assms 1 p Some show thesis by (intro that) auto
  qed
qed

lemma task_loop_event:
  assumes "task_loop env step i fs w = Some (ok, evs, w')" and "e \<in> set evs"
  shows "\<exists>j w1 ok1 evs1 w2. j < length fs \<and> e \<in> set evs1 \<and>
    step (i + j) (fs ! j) (log_tick (te_clock env (i + j)) w1) = Some (ok1, evs1, w2)"
  using assms
proof (induction fs arbitrary: i w ok evs)
  case (Cons f fs)
  obtain ok1 evs1 w1 ok2 evs2 where s: "step i f (log_tick (te_clock env i) w) = Some (ok1, evs1, w1)"
    "task_loop env step (Suc i) fs w1 = Some (ok2, evs2, w')" "evs = evs1 @ evs2"
    using Cons.prems(1) by (rule task_loop_ConsE)
  show ?case
  proof (cases "e \<in> set evs1")
    case True
    then show ?thesis using s(1) by (intro exI [of _ 0]) auto
  next
    case False
    then have "e \<in> set evs2" using Cons.prems(2) s(3) by simp
    then obtain j w1 ok1 evs1 w2 where "j < length fs" "e \<in> set evs1"
      "step (Suc i + j) (fs ! j) (log_tick (te_clock env (Suc i + j)) w1) = Some (ok1, evs1, w2)"
      using Cons.IH [OF s(2)] by blast
    then show ?thesis by (intro exI [of _ "Suc j"]) auto
  qed
qed simp

section \<open>A task's turns on the store\<close>

text \<open>The files the transfers moved, by the name \<open>ren\<close> gives them and their size.\<close>

definition moved :: "(cstring \<Rightarrow> cstring) \<Rightarrow> task_event list \<Rightarrow> (cstring \<times> int) list" where
  "moved ren evs = concat (map (\<lambda>e. case e of
       EvPut l r f ok \<Rightarrow> if ok then [(ren (fi_file f), fi_size f)] else []
     | EvGet l r f ok \<Rightarrow> if ok then [(ren (fi_file f), fi_size f)] else []
     | _ \<Rightarrow> []) evs)"

lemma moved_append [simp]: "moved ren (a @ b) = moved ren a @ moved ren b"
  by (simp add: moved_def)

lemma moved_simps [simp]:
  "moved ren [] = []"
  "moved ren (e # es) = (case e of
       EvPut l r f ok \<Rightarrow> if ok then (ren (fi_file f), fi_size f) # moved ren es else moved ren es
     | EvGet l r f ok \<Rightarrow> if ok then (ren (fi_file f), fi_size f) # moved ren es else moved ren es
     | _ \<Rightarrow> moved ren es)"
  by (simp_all add: moved_def split: task_event.splits)

text \<open>The transfers among the events.\<close>

fun is_transfer :: "task_event \<Rightarrow> bool" where
  "is_transfer (EvPut l r f ok) = True"
| "is_transfer (EvGet l r f ok) = True"
| "is_transfer _ = False"

definition transfers :: "task_event list \<Rightarrow> task_event list" where
  "transfers evs = filter is_transfer evs"

lemma transfers_simps [simp]:
  "transfers [] = []"
  "transfers (e # es) = (if is_transfer e then e # transfers es else transfers es)"
  "transfers (a @ b) = transfers a @ transfers b"
  by (simp_all add: transfers_def)

lemma moved_transfers: "moved ren (transfers evs) = moved ren evs"
  by (induction evs) (auto split: task_event.splits)

lemma transfers_moved: "transfers evs = transfers evs' \<Longrightarrow> moved ren evs = moved ren evs'"
  by (metis moved_transfers)

lemma transfers_none: "transfers evs = [] \<Longrightarrow> moved ren evs = []"
  using moved_transfers [of ren evs] by simp

lemma transfers_member: "e \<in> set (transfers evs) \<longleftrightarrow> e \<in> set evs \<and> is_transfer e"
  by (auto simp: transfers_def)

lemma transfers_eq_member: "transfers evs = transfers evs' \<Longrightarrow> is_transfer e \<Longrightarrow> e \<in> set evs \<longleftrightarrow> e \<in> set evs'"
  using transfers_member by metis

lemma transfers_sql [simp]: "sql_event cdr pid sid f sz rows t = Some evs \<Longrightarrow> transfers evs = []"
  by (auto simp: sql_event_def split: if_splits)

lemma transfers_finish: "task_finish env it ok = (ret, evs) \<Longrightarrow> transfers evs = []"
  by (auto simp: task_finish_def split: if_splits)

abbreviation task_turn where
  "task_turn sid dir \<equiv> turn (log_storable sid) (log_rd sid dir) (log_wr sid dir) log_tick"

abbreviation task_turns where
  "task_turns sid dir \<equiv> turns (log_storable sid) (log_rd sid dir) (log_wr sid dir) log_tick"

text \<open>
  A step that asks the store, moves only what the store did not know, and then enters it, is a turn.
\<close>

definition step_turns :: "(cstring \<Rightarrow> cstring) \<Rightarrow> int \<Rightarrow> int \<Rightarrow> (nat \<Rightarrow> FTP_FILE_INFO \<Rightarrow> shm_world \<Rightarrow> task_result) \<Rightarrow> FTP_FILE_INFO list \<Rightarrow> bool" where
  "step_turns ren sid dir step fs =
     (\<forall>i f t w ok evs w'. f \<in> set fs \<longrightarrow> step i f (log_tick t w) = Some (ok, evs, w') \<longrightarrow>
        (\<exists>s. task_turn sid dir t s w w' \<and> moved ren evs = sent [(t, s)]))"

lemma skip_turn: "\<exists>s. task_turn sid dir t s w (log_tick t w) \<and> [] = sent [(t, s)]"
  by (rule exI [of _ Skip]) (simp add: turn_def sent_Cons)

lemma ask_turn:
  assumes "log_storable sid k" and "log_rd sid dir k (log_tick t w) = Some (r, w1)"
    and "w' = w1 \<and> rec = [] \<or> r = 0 \<and> log_wr sid dir k w1 = Some w' \<and> rec = [k]"
  shows "\<exists>s. task_turn sid dir t s w w' \<and> rec = sent [(t, s)]"
  using assms(3)
proof
  assume "w' = w1 \<and> rec = []"
  then show ?thesis using assms(1,2) by (intro exI [of _ "Asked k"]) (auto simp: turn_def sent_Cons)
next
  assume "r = 0 \<and> log_wr sid dir k w1 = Some w' \<and> rec = [k]"
  then show ?thesis using assms(1,2) by (intro exI [of _ "Transferred k"]) (auto simp: turn_def sent_Cons)
qed

lemma task_loop_turns:
  assumes "task_loop env step i fs w = Some (ok, evs, w')" and "step_turns ren sid dir step fs"
  shows "\<exists>ss. task_turns sid dir ss w w' \<and> moved ren evs = sent ss \<and> length ss = length fs \<and>
    map fst ss = map (te_clock env) [i..<i + length fs]"
  using assms
proof (induction fs arbitrary: i w ok evs)
  case Nil
  then show ?case by (intro exI [of _ "[]"]) auto
next
  case (Cons f fs)
  obtain ok1 evs1 w1 ok2 evs2 where s: "step i f (log_tick (te_clock env i) w) = Some (ok1, evs1, w1)"
    "task_loop env step (Suc i) fs w1 = Some (ok2, evs2, w')" "evs = evs1 @ evs2"
    using Cons.prems(1) by (rule task_loop_ConsE)
  obtain u where u: "task_turn sid dir (te_clock env i) u w w1" "moved ren evs1 = sent [(te_clock env i, u)]"
    using Cons.prems(2) s(1) unfolding step_turns_def by (metis list.set_intros(1))
  have "step_turns ren sid dir step fs" using Cons.prems(2) unfolding step_turns_def by (meson list.set_intros(2))
  then obtain ss where ss: "task_turns sid dir ss w1 w'" "moved ren evs2 = sent ss" "length ss = length fs"
    "map fst ss = map (te_clock env) [Suc i..<Suc i + length fs]"
    using Cons.IH [OF s(2)] by auto
  have "i < i + length (f # fs)" by simp
  then have "[i..<i + length (f # fs)] = i # [Suc i..<i + length (f # fs)]" by (rule upt_conv_Cons)
  moreover have "i + length (f # fs) = Suc i + length fs" by simp
  ultimately have up: "[i..<i + length (f # fs)] = i # [Suc i..<Suc i + length fs]" by (simp only:)
  show ?case
    by (rule exI [of _ "(te_clock env i, u) # ss"]) (use u ss s(3) up in \<open>auto simp: sent_Cons simp del: upt_Suc\<close>)
qed

lemma log_ok_more: "log_ok sid dir it (k + n) w \<Longrightarrow> log_ok sid dir it n w"
  by (induction k) (auto dest: log_ok_less)

text \<open>
  What a run of a task does to the store: with room for \<open>m\<close> files more than \<open>n\<close>, it leaves room
  for \<open>n\<close>, the files it moves are different and new, and all that was seen still is.
\<close>

definition once :: "(cstring \<Rightarrow> cstring) \<Rightarrow> int \<Rightarrow> int \<Rightarrow> TASK_ITEM \<Rightarrow> nat \<Rightarrow> shm_world \<Rightarrow> task_event list \<Rightarrow> shm_world \<Rightarrow> bool" where
  "once ren sid dir it m w evs w' =
     (\<forall>n. log_ok sid dir it (m + n) w \<longrightarrow>
        log_ok sid dir it n w' \<and> distinct (moved ren evs) \<and>
        (\<forall>k \<in> set (moved ren evs). \<not> log_seen sid w k \<and> log_seen sid w' k \<and> log_storable sid k) \<and>
        (\<forall>k. log_storable sid k \<longrightarrow> log_seen sid w k \<longrightarrow> log_seen sid w' k))"

lemma once_stopped: "transfers evs = [] \<Longrightarrow> once ren sid dir it m w evs w"
  by (auto simp: once_def dest: log_ok_more transfers_none [of _ ren])

lemma once_loop:
  assumes "task_loop env step 0 fs w = Some (ok, evs', w')" and "step_turns ren sid dir step fs"
    and "\<forall>i. length (show_int (te_clock env i)) \<le> 20" and "length fs \<le> m" and tr: "transfers evs = transfers evs'"
  shows "once ren sid dir it m w evs w'"
  unfolding once_def
proof (intro allI impI)
  fix n
  assume ok: "log_ok sid dir it (m + n) w"
  obtain ss where ss: "task_turns sid dir ss w w'" "moved ren evs' = sent ss" "length ss = length fs"
    "map fst ss = map (te_clock env) [0..<0 + length fs]"
    using task_loop_turns [OF assms(1,2)] by blast
  have ticks: "\<forall>(t, s) \<in> set ss. length (show_int t) \<le> 20"
  proof (clarify)
    fix t s
    assume "(t, s) \<in> set ss"
    then have "t \<in> set (map fst ss)" by force
    then show "length (show_int t) \<le> 20" using assms(3) unfolding ss(4) by auto
  qed
  have "m + n = (m - length ss) + (length ss + n)" using assms(4) ss(3) by simp
  then have "log_ok sid dir it (length ss + n) w" using ok log_ok_more by metis
  from tl.turns_once [OF ss(1) this ticks] have "log_ok sid dir it n w' \<and> distinct (sent ss) \<and>
    (\<forall>f \<in> set (sent ss). \<not> log_seen sid w f \<and> log_seen sid w' f) \<and>
    (\<forall>g. log_storable sid g \<longrightarrow> log_seen sid w g \<longrightarrow> log_seen sid w' g)" .
  moreover have "log_storable sid k" if "k \<in> set (sent ss)" for k using turns_storable [OF ss(1) that] .
  ultimately show "log_ok sid dir it n w' \<and> distinct (moved ren evs) \<and>
    (\<forall>k \<in> set (moved ren evs). \<not> log_seen sid w k \<and> log_seen sid w' k \<and> log_storable sid k) \<and>
    (\<forall>k. log_storable sid k \<longrightarrow> log_seen sid w k \<longrightarrow> log_seen sid w' k)"
    using ss(2) transfers_moved [OF tr, of ren] by auto
qed

lemma once_twice:
  assumes "once ren sid dir it m1 w evs1 w1" and "once ren sid dir it m2 w1 evs2 w2" and "log_ok sid dir it (m1 + m2) w"
  shows "distinct (moved ren evs1 @ moved ren evs2) \<and> (\<forall>k \<in> set (moved ren evs1 @ moved ren evs2). \<not> log_seen sid w k)"
proof -
  have 1: "log_ok sid dir it m2 w1 \<and> distinct (moved ren evs1) \<and>
        (\<forall>k \<in> set (moved ren evs1). \<not> log_seen sid w k \<and> log_seen sid w1 k \<and> log_storable sid k) \<and>
        (\<forall>k. log_storable sid k \<longrightarrow> log_seen sid w k \<longrightarrow> log_seen sid w1 k)"
    using assms(1,3) unfolding once_def by blast
  then have "log_ok sid dir it (m2 + 0) w1" by simp
  then have "distinct (moved ren evs2) \<and>
        (\<forall>k \<in> set (moved ren evs2). \<not> log_seen sid w1 k \<and> log_storable sid k)"
    using assms(2) unfolding once_def by blast
  then show ?thesis using 1 by auto
qed

section \<open>The clock of the store\<close>

lemma try_lock_now: "try_lock w = (b, w') \<Longrightarrow> w_now w' = w_now w"
  by (auto simp: try_lock_def split: list.splits)

lemma shm_insert_now: "shm_insert_file sid f sz t w = Some (r, f', w') \<Longrightarrow> w_now w' = w_now w"
  by (auto simp: shm_insert_file_def Let_def dest!: try_lock_now split: if_splits option.splits prod.splits)

lemma load_line_now: "load_line sid b w = Some w' \<Longrightarrow> w_now w' = w_now w"
  by (auto simp: load_line_def Let_def dest!: shm_insert_now split: if_splits option.splits prod.splits)

lemma load_file_now: "load_file_hash_value sid dir w = Some (r, w') \<Longrightarrow> w_now w' = w_now w"
proof -
  assume a: "load_file_hash_value sid dir w = Some (r, w')"
  have "w_now w'' = w_now w" if "fold_option (load_line sid) ls w = Some w''" for ls w''
    using that by (rule fold_option_invariant) (auto dest: load_line_now)
  with a show ?thesis by (auto simp: load_file_hash_value_def split: if_splits option.splits)
qed

lemma read_ftped_now: "read_ftped_file sid f sz dir w = Some (r, w') \<Longrightarrow> w_now w' = w_now w"
  by (auto simp: read_ftped_file_def read_ftped_load_def ftpid_hash_file_loaded_def
      dest!: try_lock_now load_file_now split: if_splits option.splits prod.splits)

lemma local_list_sizes:
  "get_local_file_list st local names = Some l \<Longrightarrow>
   (\<forall>f \<in> set l. \<exists>p. fi_size f = get_file_size (st p)) \<and> length l \<le> length names"
  by (induction names arbitrary: l) (force simp: Let_def split: if_splits option.splits)+

end
