(* ===== verification/Put_Task.thy ===== *)
theory Put_Task
  imports Task_Loop
begin

text \<open>
  \<open>ftp_put_task\<close> and \<open>sftp_put_task\<close> of \<open>taskmanager.c\<close>: the files of a local directory are sent to
  the server. The two functions differ in how they connect and in the paths they use; that
  difference is the record \<open>transport\<close> and the connecting function, the rest is modelled once.
\<close>

section \<open>Paths of the two transports\<close>

text \<open>Source and target of the transfer (the target in 128 bytes), and the final name.\<close>

record transport =
  tp_put :: "TASK_ITEM \<Rightarrow> FTP_FILE_INFO \<Rightarrow> (cstring \<times> cstring) option"
  tp_target :: "TASK_ITEM \<Rightarrow> FTP_FILE_INFO \<Rightarrow> cstring option"

definition tmp_name :: "TASK_ITEM \<Rightarrow> FTP_FILE_INFO \<Rightarrow> cstring" where
  "tmp_name it f = (if use_tmp it = 1 then ''tmp_'' @ fi_file f else fi_file f)"

definition ftp_transport :: transport where
  "ftp_transport =
     \<lparr>tp_put = (\<lambda>it f. do { remote \<leftarrow> sprintf_buf 128 (tmp_name it f); Some (fi_file f, remote) }),
      tp_target = (\<lambda>it f. Some (fi_file f))\<rparr>"

definition sftp_transport :: "cstring \<Rightarrow> cstring \<Rightarrow> transport" where
  "sftp_transport local ftp_dir =
     \<lparr>tp_put = (\<lambda>it f. do {
        remote \<leftarrow> sprintf_buf 128 (ftp_dir @ ''/'' @ tmp_name it f);
        from \<leftarrow> sprintf_buf 256 (local @ ''/'' @ fi_file f);
        Some (from, remote) }),
      tp_target = (\<lambda>it f. sprintf_buf 256 (ftp_dir @ ''/'' @ fi_file f))\<rparr>"

section \<open>One file\<close>

text \<open>The tests a file must pass before the store is asked, in the order of the code.\<close>

definition put_wanted :: "task_env \<Rightarrow> cstring \<Rightarrow> FTP_FILE_INFO list \<Rightarrow> FTP_FILE_INFO list \<Rightarrow> time_t \<Rightarrow> FTP_FILE_INFO \<Rightarrow> bool" where
  "put_wanted env name_pat first ftp_list now f =
     (if fi_dir f \<noteq> 0 then False
      else if \<not> if_in_list_exist first f then False
      else if if_in_list_exist ftp_list f then False
      else if now - tModifyTime f \<le> 60 then False
      else te_reg env name_pat (fi_file f))"

text \<open>What follows a transfer that succeeded.\<close>

definition put_sent ::
  "task_env \<Rightarrow> transport \<Rightarrow> TASK_ITEM \<Rightarrow> cstring \<Rightarrow> cstring \<Rightarrow> FTP_FILE_INFO \<Rightarrow> shm_world \<Rightarrow> (task_event list \<times> shm_world) option" where
  "put_sent env tp it local remote f w =
     do {
       moves \<leftarrow> (if use_tmp it = 1 then map_option (\<lambda>t. [EvRename remote t]) (tp_target tp it f) else Some []);
       dir \<leftarrow> sprintf_buf 256 (local @ ''/'' @ fi_file f);
       (r, file', w') \<leftarrow> write_ftped_file (sch_id (sch_item it)) (fi_file f) (fi_size f) FTP_PUT w;
       let rows = GetFileRows (te_file env dir);
       let mtime = format_time (te_tz env) (tModifyTime f);
       sql \<leftarrow> sql_event (generate_db_cdr it \<noteq> 0) (te_pid env) (sch_id (sch_item it)) file' (fi_size f) rows mtime;
       Some (moves @ (if del_src it = 1 then [EvRemove dir] else []) @
         [EvRow file' (fi_size f) rows mtime] @ sql, w')
     }"

text \<open>What happens to a file the store does not know.\<close>

definition put_file :: "task_env \<Rightarrow> transport \<Rightarrow> TASK_ITEM \<Rightarrow> cstring \<Rightarrow> FTP_FILE_INFO \<Rightarrow> shm_world \<Rightarrow> task_result" where
  "put_file env tp it local f w =
     (if w_now w - tModifyTime f \<ge> file_ctime_escape it then
        (if del_src it = 1
         then do { dir \<leftarrow> sprintf_buf 256 (local @ ''/'' @ fi_file f); Some (True, [EvRemove dir], w) }
         else Some (True, [], w))
      else if del_src it = 2 then
        do { dir \<leftarrow> sprintf_buf 256 (local @ ''/'' @ fi_file f); Some (True, [EvRemove dir], w) }
      else
        do {
          (from, remote) \<leftarrow> tp_put tp it f;
          if \<not> te_send env from remote then Some (False, [EvPut from remote f False], w)
          else do {
            (evs, w') \<leftarrow> put_sent env tp it local remote f w;
            Some (True, EvPut from remote f True # evs, w')
          }
        })"

definition put_step ::
  "task_env \<Rightarrow> transport \<Rightarrow> TASK_ITEM \<Rightarrow> cstring \<Rightarrow> cstring \<Rightarrow> FTP_FILE_INFO list \<Rightarrow> FTP_FILE_INFO list \<Rightarrow>
   nat \<Rightarrow> FTP_FILE_INFO \<Rightarrow> shm_world \<Rightarrow> task_result" where
  "put_step env tp it local name_pat first ftp_list i f w =
     (if \<not> put_wanted env name_pat first ftp_list (w_now w) f then Some (True, [], w)
      else do {
        (r, w1) \<leftarrow> read_ftped_file (sch_id (sch_item it)) (fi_file f) (fi_size f) FTP_PUT w;
        if r \<noteq> 0 then Some (True, [], w1) else put_file env tp it local f w1
      })"

section \<open>The tasks\<close>

text \<open>
  Connecting: the events up to the first failure, and whether it got through. After a failing
  \<open>cd\<close> the directory is made, and \<open>cd\<close> is tried again in either case.
\<close>

definition put_connect :: "task_env \<Rightarrow> FTP_SERVER_INFO \<Rightarrow> cstring \<Rightarrow> cstring \<Rightarrow> task_event list \<times> bool" where
  "put_connect env srv ftp_dir local =
     (if \<not> te_conn env then ([EvConn srv], False)
      else if \<not> te_login env then ([EvConn srv, EvLogin], False)
      else if \<not> te_cd env \<and> \<not> te_mkdir env then ([EvConn srv, EvLogin, EvCd ftp_dir, EvMkdir ftp_dir], False)
      else
        let evs = [EvConn srv, EvLogin, EvCd ftp_dir] @ (if te_cd env then [] else [EvMkdir ftp_dir]) @ [EvCd ftp_dir] in
        if \<not> te_cd2 env then (evs, False)
        else (evs @ [EvLcd local], te_lcd env))"

text \<open>The SSH session; \<open>te_cd\<close> is the answer of \<open>sftp.exists\<close>.\<close>

definition sftp_put_connect :: "task_env \<Rightarrow> FTP_SERVER_INFO \<Rightarrow> cstring \<Rightarrow> cstring \<Rightarrow> task_event list \<times> bool" where
  "sftp_put_connect env srv ftp_dir local =
     (if \<not> te_conn env then ([EvConn srv], False)
      else if te_cd env then ([EvConn srv], True)
      else ([EvConn srv, EvMkdir ftp_dir], te_mkdir env))"

definition put_session ::
  "task_env \<Rightarrow> (FTP_SERVER_INFO \<Rightarrow> cstring \<Rightarrow> cstring \<Rightarrow> task_event list \<times> bool) \<Rightarrow> (cstring \<Rightarrow> cstring \<Rightarrow> transport) \<Rightarrow>
   TASK_ITEM \<Rightarrow> shm_world \<Rightarrow> (int \<times> task_event list \<times> shm_world) option" where
  "put_session env connect tp it w =
     do {
       local \<leftarrow> trans_path_str (te_tz env) (te_start env) (local_path it) 256;
       ftp_dir \<leftarrow> trans_path_str (te_tz env) (te_start env) (ftp_path it) 256;
       name_pat \<leftarrow> trans_path_str (te_tz env) (te_start env) (task_file it) 128;
       if if_isdir (te_stat env local) \<noteq> 1 then Some (0, [], w)
       else do {
         first \<leftarrow> get_local_file_list (te_stat env) local (te_names env local);
         if first = [] then Some (1, [], w)
         else do {
           info \<leftarrow> get_ftp_info (ftp_host it);
           (case info of
              None \<Rightarrow> Some (0, [], w)
            | Some srv \<Rightarrow>
                (case connect srv ftp_dir local of (evs, through) \<Rightarrow>
                   if \<not> through then Some (0, evs, w)
                   else do {
                     second \<leftarrow> get_local_file_list (te_stat2 env) local (te_names2 env local);
                     ftp_list \<leftarrow> get_ftp_file_list (te_tz env) (te_start env) (te_listing env ftp_dir);
                     (ok, evs', w') \<leftarrow> task_loop env (put_step env (tp local ftp_dir) it local name_pat first ftp_list) 0 second w;
                     (let (ret, evs'') = task_finish env it ok in Some (ret, evs @ evs' @ evs'', w'))
                   }))
         }
       }
     }"

definition ftp_put_task :: "task_env \<Rightarrow> TASK_ITEM \<Rightarrow> shm_world \<Rightarrow> (int \<times> task_event list \<times> shm_world) option" where
  "ftp_put_task env = put_session env (put_connect env) (\<lambda>local ftp_dir. ftp_transport)"

definition sftp_put_task :: "task_env \<Rightarrow> TASK_ITEM \<Rightarrow> shm_world \<Rightarrow> (int \<times> task_event list \<times> shm_world) option" where
  "sftp_put_task env = put_session env (sftp_put_connect env) sftp_transport"

section \<open>What is sent\<close>

lemma put_sent_transfers: "put_sent env tp it local remote f w = Some (evs, w') \<Longrightarrow> transfers evs = []"
  by (auto simp: put_sent_def Let_def split: bind_splits if_splits)

lemma put_file_sends:
  assumes "put_file env tp it local f w = Some (ok, evs, w')" and "e \<in> set (transfers evs)"
  shows "\<exists>l r. e = EvPut l r f (te_send env l r) \<and> tp_put tp it f = Some (l, r) \<and>
    w_now w - tModifyTime f < file_ctime_escape it \<and> del_src it \<noteq> 2"
  using assms by (auto simp: put_file_def put_sent_transfers split: if_splits bind_splits)

text \<open>
  The conditions under which a file is sent: not a directory, unchanged since the first scan, not
  on the server with the same size, older than a minute and younger than the task's limit, and
  of a matching name, in a task that transfers.
\<close>

definition may_send :: "task_env \<Rightarrow> TASK_ITEM \<Rightarrow> cstring \<Rightarrow> FTP_FILE_INFO list \<Rightarrow> FTP_FILE_INFO list \<Rightarrow> time_t \<Rightarrow> FTP_FILE_INFO \<Rightarrow> bool" where
  "may_send env it name_pat first ftp_list now f =
     (fi_dir f = 0 \<and> (fi_size f, fi_file f) \<in> (\<lambda>x. (fi_size x, fi_file x)) ` set first \<and>
      (fi_size f, fi_file f) \<notin> (\<lambda>x. (fi_size x, fi_file x)) ` set ftp_list \<and>
      60 < now - tModifyTime f \<and> now - tModifyTime f < file_ctime_escape it \<and>
      te_reg env name_pat (fi_file f) \<and> del_src it \<noteq> 2)"

lemma put_step_sends:
  assumes "put_step env tp it local name_pat first ftp_list i f w = Some (ok, evs, w')" and "e \<in> set (transfers evs)"
  shows "\<exists>l r. e = EvPut l r f (te_send env l r) \<and> tp_put tp it f = Some (l, r) \<and> may_send env it name_pat first ftp_list (w_now w) f"
proof -
  have wanted: "put_wanted env name_pat first ftp_list (w_now w) f"
    using assms by (auto simp: put_step_def split: if_splits)
  obtain w1 where w1: "read_ftped_file (sch_id (sch_item it)) (fi_file f) (fi_size f) FTP_PUT w = Some (0, w1)"
    "put_file env tp it local f w1 = Some (ok, evs, w')"
    using assms wanted by (auto simp: put_step_def split: if_splits bind_splits)
  show ?thesis
    using put_file_sends [OF w1(2) assms(2)] read_ftped_now [OF w1(1)] wanted
    by (auto simp: may_send_def put_wanted_def if_in_list_exist_iff split: if_splits)
qed

section \<open>Turns on the store\<close>

lemma put_sent_turn:
  assumes "put_sent env tp it local remote f w = Some (evs, w')"
  shows "log_wr (sch_id (sch_item it)) FTP_PUT (fi_file f, fi_size f) w = Some w'"
  using assms by (auto simp: put_sent_def Let_def log_wr_def split: bind_splits if_splits)

lemma put_file_turn:
  assumes "put_file env tp it local f w = Some (ok, evs, w')"
  shows "(w' = w \<and> moved id evs = []) \<or>
    (log_wr (sch_id (sch_item it)) FTP_PUT (fi_file f, fi_size f) w = Some w' \<and> moved id evs = [(fi_file f, fi_size f)])"
  using assms put_sent_turn transfers_none [OF put_sent_transfers]
  by (auto simp: put_file_def split: if_splits bind_splits)

lemma put_steps_turns:
  assumes "\<And>f. f \<in> set fs \<Longrightarrow> te_reg env name_pat (fi_file f) \<Longrightarrow> log_storable (sch_id (sch_item it)) (fi_file f, fi_size f)"
  shows "step_turns id (sch_id (sch_item it)) FTP_PUT (put_step env tp it local name_pat first ftp_list) fs"
  unfolding step_turns_def
proof (intro allI impI)
  fix i f t w ok evs w'
  assume f: "f \<in> set fs" and step: "put_step env tp it local name_pat first ftp_list i f (log_tick t w) = Some (ok, evs, w')"
  let ?sid = "sch_id (sch_item it)"
  show "\<exists>s. task_turn ?sid FTP_PUT t s w w' \<and> moved id evs = sent [(t, s)]"
  proof (cases "put_wanted env name_pat first ftp_list (w_now (log_tick t w)) f")
    case False
    then show ?thesis using step skip_turn by (auto simp: put_step_def)
  next
    case True
    have st: "log_storable ?sid (fi_file f, fi_size f)" using True assms [OF f] by (auto simp: put_wanted_def split: if_splits)
    obtain r w1 where r: "log_rd ?sid FTP_PUT (fi_file f, fi_size f) (log_tick t w) = Some (r, w1)"
      and rest: "if r \<noteq> 0 then evs = [] \<and> w' = w1 else put_file env tp it local f w1 = Some (ok, evs, w')"
      using step True by (auto simp: put_step_def log_rd_def split: bind_splits if_splits)
    show ?thesis
      by (rule ask_turn [OF st r]) (use rest put_file_turn [of env tp it local f w1 ok evs w'] in \<open>auto split: if_splits\<close>)
  qed
qed

section \<open>The whole task\<close>

text \<open>A connecting function transfers nothing.\<close>

definition connects_only :: "(FTP_SERVER_INFO \<Rightarrow> cstring \<Rightarrow> cstring \<Rightarrow> task_event list \<times> bool) \<Rightarrow> bool" where
  "connects_only connect = (\<forall>srv d local. transfers (fst (connect srv d local)) = [])"

lemma put_connects: "connects_only (put_connect env)" "connects_only (sftp_put_connect env)"
  by (auto simp: connects_only_def put_connect_def sftp_put_connect_def Let_def)

text \<open>An FTP session that got through has changed to the two directories.\<close>

lemma put_connect_dirs: "put_connect env srv d local = (evs, True) \<Longrightarrow> EvCd d \<in> set evs \<and> EvLcd local \<in> set evs"
  by (auto simp: put_connect_def Let_def split: if_splits)

text \<open>A run either stops before its loop, leaving the store alone, or is its loop.\<close>

lemma put_session_cases:
  assumes "put_session env connect tp it w = Some (ret, evs, w')" and con: "connects_only connect"
  obtains (stopped) "w' = w" "transfers evs = []"
    | (ran) srv cevs local ftp_dir name_pat first second ftp_list ok evs' where
      "trans_path_str (te_tz env) (te_start env) (local_path it) 256 = Some local"
      "trans_path_str (te_tz env) (te_start env) (ftp_path it) 256 = Some ftp_dir"
      "trans_path_str (te_tz env) (te_start env) (task_file it) 128 = Some name_pat"
      "get_local_file_list (te_stat env) local (te_names env local) = Some first"
      "get_local_file_list (te_stat2 env) local (te_names2 env local) = Some second"
      "get_ftp_file_list (te_tz env) (te_start env) (te_listing env ftp_dir) = Some ftp_list"
      "task_loop env (put_step env (tp local ftp_dir) it local name_pat first ftp_list) 0 second w = Some (ok, evs', w')"
      "transfers evs = transfers evs'" "connect srv ftp_dir local = (cevs, True)" "set cevs \<subseteq> set evs"
proof -
  obtain local ftp_dir name_pat where t: "trans_path_str (te_tz env) (te_start env) (local_path it) 256 = Some local"
    "trans_path_str (te_tz env) (te_start env) (ftp_path it) 256 = Some ftp_dir"
    "trans_path_str (te_tz env) (te_start env) (task_file it) 128 = Some name_pat"
    using assms(1) by (auto simp: put_session_def split: bind_splits)
  show thesis
  proof (cases "if_isdir (te_stat env local) = 1")
    case False
    with assms t show thesis by (intro stopped) (auto simp: put_session_def)
  next
    case isdir: True
    obtain first where f: "get_local_file_list (te_stat env) local (te_names env local) = Some first"
      using assms(1) t isdir by (auto simp: put_session_def split: bind_splits)
    show thesis
    proof (cases "first = []")
      case True
      with assms t f isdir show thesis by (intro stopped) (auto simp: put_session_def)
    next
      case ne: False
      obtain info where i: "get_ftp_info (ftp_host it) = Some info"
        using assms(1) t isdir f ne by (auto simp: put_session_def split: bind_splits)
      show thesis
      proof (cases info)
        case None
        with assms t f i isdir ne show thesis by (intro stopped) (auto simp: put_session_def)
      next
        case (Some srv)
        obtain cevs through where c: "connect srv ftp_dir local = (cevs, through)" by (cases "connect srv ftp_dir local")
        have cevs: "transfers cevs = []"
          using con c unfolding connects_only_def by (metis fst_conv)
        show thesis
        proof (cases through)
          case False
          with assms t f i isdir ne Some c cevs show thesis by (intro stopped) (auto simp: put_session_def)
        next
          case through: True
          note run = assms(1) t isdir f ne i Some c through
          obtain second where s2: "get_local_file_list (te_stat2 env) local (te_names2 env local) = Some second"
            using run by (auto simp: put_session_def split: bind_splits)
          obtain ftp_list where fl: "get_ftp_file_list (te_tz env) (te_start env) (te_listing env ftp_dir) = Some ftp_list"
            using run s2 by (auto simp: put_session_def split: bind_splits)
          obtain ok evs' w2 where l: "task_loop env (put_step env (tp local ftp_dir) it local name_pat first ftp_list) 0 second w = Some (ok, evs', w2)"
            using run s2 fl by (auto simp: put_session_def split: bind_splits)
          obtain ret' fevs where fin: "task_finish env it ok = (ret', fevs)" by (cases "task_finish env it ok")
          have "evs = cevs @ evs' @ fevs" "w2 = w'" using run s2 fl l fin by (auto simp: put_session_def)
          then show thesis using cevs transfers_finish [OF fin] t f s2 fl l c through by (intro ran) auto
        qed
      qed
    qed
  qed
qed

lemma put_session_sends:
  assumes "put_session env connect tp it w = Some (ret, evs, w')" and "connects_only connect"
    and "e \<in> set evs" and "is_transfer e"
  shows "\<exists>srv cevs local ftp_dir name_pat first second ftp_list j l r.
    trans_path_str (te_tz env) (te_start env) (local_path it) 256 = Some local \<and>
    trans_path_str (te_tz env) (te_start env) (ftp_path it) 256 = Some ftp_dir \<and>
    trans_path_str (te_tz env) (te_start env) (task_file it) 128 = Some name_pat \<and>
    get_local_file_list (te_stat env) local (te_names env local) = Some first \<and>
    get_local_file_list (te_stat2 env) local (te_names2 env local) = Some second \<and>
    get_ftp_file_list (te_tz env) (te_start env) (te_listing env ftp_dir) = Some ftp_list \<and>
    j < length second \<and> e = EvPut l r (second ! j) (te_send env l r) \<and> tp_put (tp local ftp_dir) it (second ! j) = Some (l, r) \<and>
    may_send env it name_pat first ftp_list (te_clock env j) (second ! j) \<and>
    connect srv ftp_dir local = (cevs, True) \<and> set cevs \<subseteq> set evs"
  using assms(1,2)
proof (cases rule: put_session_cases)
  case stopped
  with assms(3,4) show ?thesis using transfers_member [of e evs] by simp
next
  case (ran srv cevs local ftp_dir name_pat first second ftp_list ok evs')
  then have "e \<in> set evs'" using assms(3,4) transfers_eq_member by blast
  from task_loop_event [OF ran(7) this] obtain j w1 ok1 evs1 w2 where j: "j < length second" and e: "e \<in> set evs1"
    and step: "put_step env (tp local ftp_dir) it local name_pat first ftp_list j (second ! j) (log_tick (te_clock env j) w1) = Some (ok1, evs1, w2)"
    by auto
  have "e \<in> set (transfers evs1)" using e assms(4) by (simp add: transfers_member)
  from put_step_sends [OF step this] obtain l r where "e = EvPut l r (second ! j) (te_send env l r)"
    "tp_put (tp local ftp_dir) it (second ! j) = Some (l, r)" "may_send env it name_pat first ftp_list (te_clock env j) (second ! j)"
    by (auto simp: log_tick_def)
  then show ?thesis using ran(1-6,9,10) j by blast
qed

text \<open>The files of the second scan.\<close>

definition scanned :: "task_env \<Rightarrow> TASK_ITEM \<Rightarrow> nat" where
  "scanned env it =
     (case trans_path_str (te_tz env) (te_start env) (local_path it) 256 of
        None \<Rightarrow> 0
      | Some local \<Rightarrow> length (te_names2 env local))"

text \<open>The names the pattern matches, and the sizes, are ones the store can keep apart.\<close>

definition names_storable :: "task_env \<Rightarrow> int \<Rightarrow> bool" where
  "names_storable env sid =
     ((\<forall>pat name. te_reg env pat name \<longrightarrow> plain_name name \<and> length (show_int sid @ name) < 256 \<and>
        length (show_int sid @ name) \<noteq> 47) \<and>
      (\<forall>p. length (show_int (get_file_size (te_stat2 env p))) \<le> 20) \<and>
      (\<forall>i. length (show_int (te_clock env i)) \<le> 20))"

lemma put_session_once:
  assumes "put_session env connect tp it w = Some (ret, evs, w')" and "connects_only connect"
    and names: "names_storable env (sch_id (sch_item it))"
  shows "once id (sch_id (sch_item it)) FTP_PUT it (scanned env it) w evs w'"
  using assms(1,2)
proof (cases rule: put_session_cases)
  case stopped
  then show ?thesis using once_stopped by simp
next
  case (ran srv cevs local ftp_dir name_pat first second ftp_list b evs')
  let ?sid = "sch_id (sch_item it)"
  note sz = local_list_sizes [OF ran(5)]
  have st: "log_storable ?sid (fi_file f, fi_size f)" if f: "f \<in> set second" "te_reg env name_pat (fi_file f)" for f
  proof -
    obtain p where "fi_size f = get_file_size (te_stat2 env p)" using sz f(1) by blast
    then have "length (show_int (fi_size f)) \<le> 20" using names by (simp add: names_storable_def)
    moreover have "plain_name (fi_file f)" "length (show_int ?sid @ fi_file f) < 256" "length (show_int ?sid @ fi_file f) \<noteq> 47"
      using names f(2) unfolding names_storable_def by blast+
    ultimately show ?thesis by (simp add: log_storable_def)
  qed
  have "step_turns id ?sid FTP_PUT (put_step env (tp local ftp_dir) it local name_pat first ftp_list) second"
    by (rule put_steps_turns [OF st])
  moreover have "\<forall>i. length (show_int (te_clock env i)) \<le> 20" using names by (simp add: names_storable_def)
  moreover have "scanned env it = length (te_names2 env local)" by (simp add: scanned_def ran(1))
  ultimately show ?thesis using once_loop [OF ran(7)] sz ran(8) by auto
qed

lemma put_task_once:
  assumes "names_storable env (sch_id (sch_item it))"
  shows "ftp_put_task env it w = Some (ret, evs, w') \<Longrightarrow> once id (sch_id (sch_item it)) FTP_PUT it (scanned env it) w evs w'"
    and "sftp_put_task env it w = Some (ret, evs, w') \<Longrightarrow> once id (sch_id (sch_item it)) FTP_PUT it (scanned env it) w evs w'"
  using put_session_once [OF _ put_connects(1) assms] put_session_once [OF _ put_connects(2) assms]
  by (auto simp: ftp_put_task_def sftp_put_task_def)

section \<open>A run\<close>

lemma brackets_free: "CHR ''['' \<notin> set s \<Longrightarrow> CHR '']'' \<notin> set s \<Longrightarrow> brackets_ok b s"
  by (induction b s rule: brackets_ok.induct) auto

lemma trans_path_plain:
  assumes "plain s" and "length s + 2 \<le> n"
  shows "trans_path_str 0 1112140800 s n = Some s"
proof -
  note ok = trans_marks_ok [OF demo_tm_ok]
  have b: "CHR ''['' \<notin> set s" "NUL \<notin> set s" "brackets_ok False s"
    using assms(1) by (auto simp: plain_def intro!: brackets_free)
  have "fold (\<lambda>(m, r) s. replace_all m r s) marks s = s" if "set marks \<subseteq> set (trans_marks 0 1112140800)" for marks
    using that
  proof (induction marks)
    case (Cons mr marks)
    obtain m r where mr: "mr = (m, r)" by (cases mr)
    then have "is_mark m" using ok [of m r] Cons.prems by auto
    then have "replace_all m r (s @ []) = s @ replace_all m r []"
      using b(1) by (intro replace_all_skip) (auto simp: is_mark_def)
    then show ?case using Cons by (simp add: mr)
  qed simp
  then show ?thesis
    using trans_steps_correct [of "trans_marks 0 1112140800" s n] ok b assms(2)
    by (simp add: trans_path_str_def)
qed

definition demo_put_env :: task_env where
  "demo_put_env = \<lparr>te_tz = 0, te_pid = 1, te_start = 1112140800, te_clock = (\<lambda>_. 1000),
     te_reg = (\<lambda>pat name. name = ''a''), te_send = (\<lambda>_ _. True), te_recv = (\<lambda>_ _. True), te_file = (\<lambda>_. None),
     te_stat = (\<lambda>p. if p = ''/l'' then Some (True, 0, 0) else Some (False, 10, 900)),
     te_stat2 = (\<lambda>p. if p = ''/l'' then Some (True, 0, 0) else Some (False, 10, 900)),
     te_names = (\<lambda>_. [''a'']), te_names2 = (\<lambda>_. [''a'']), te_listing = (\<lambda>_. None), te_listing2 = (\<lambda>_. None),
     te_conn = True, te_login = True, te_cd = True, te_mkdir = True, te_cd2 = True, te_lcd = True,
     te_fs = (\<lambda>_ _. None), te_mkdir_fs = (\<lambda>_ _. True), te_move = (\<lambda>_ _ _. True), te_system = True\<rparr>"

definition demo_put_task :: TASK_ITEM where
  "demo_put_task = demo_task\<lparr>ftp_host := ''joe:pw:10.0.0.1'', direction := 1, task_file := ''a''\<rparr>"

definition demo_put_world :: shm_world where
  "demo_put_world = (demo_world Map.empty)\<lparr>w_tasks := [demo_put_task]\<rparr>"

lemmas demo_put_defs = demo_put_env_def demo_put_task_def demo_task_def

lemma demo_put_names: "names_storable demo_put_env 7"
proof -
  have "length (show_int (get_file_size (te_stat2 demo_put_env p))) \<le> 20" for p
    by (simp add: demo_put_env_def get_file_size_def if_isdir_def demo_show show_int_def show_nat.simps)
  moreover have "length (show_int (te_clock demo_put_env i)) \<le> 20" for i
    by (simp add: demo_put_env_def demo_show)
  moreover have "plain_name ''a'' \<and> length (show_int 7 @ ''a'') < 256 \<and> length (show_int 7 @ ''a'') \<noteq> 47"
    using demo_record(1) by (simp add: record_ok_def demo_show)
  ultimately show ?thesis by (auto simp: names_storable_def) (auto simp: demo_put_env_def)
qed

lemma demo_put_path: "list_path 7 FTP_PUT demo_put_world = ''/x/log/TASK_ID_7_HAVE_PUT_LIST''"
  by (simp add: list_path_def demo_put_world_def demo_world_def demo_show FTP_PUT_def FTP_GET_def)

lemma demo_put_ok: "n \<le> 1000 \<Longrightarrow> log_ok 7 FTP_PUT demo_put_task n demo_put_world"
  by (auto simp: log_ok_def quiet_def demo_put_path history_def)
    (auto simp: demo_put_world_def demo_world_def demo_put_defs demo_show map_inv_empty slots_def)

text \<open>Up to the loop, the run does what the environment says.\<close>

definition demo_entry :: FTP_FILE_INFO where
  "demo_entry = \<lparr>fi_dir = 0, fi_access = [], fi_size = 10, tModifyTime = 900, fi_file = ''a''\<rparr>"

lemma demo_scan:
  "get_local_file_list (te_stat demo_put_env) ''/l'' [''a''] = Some [demo_entry]"
  "get_local_file_list (te_stat2 demo_put_env) ''/l'' [''a''] = Some [demo_entry]"
  by (simp_all add: demo_put_env_def if_isdir_def get_file_size_def get_file_last_modify_def demo_entry_def get_file_name_def)

lemma demo_put_path_trans:
  "trans_path_str (te_tz demo_put_env) (te_start demo_put_env) (local_path demo_put_task) 256 = Some ''/l''"
  "trans_path_str (te_tz demo_put_env) (te_start demo_put_env) (ftp_path demo_put_task) 256 = Some ''/r''"
  "trans_path_str (te_tz demo_put_env) (te_start demo_put_env) (task_file demo_put_task) 128 = Some ''a''"
  by (simp_all add: demo_put_defs trans_path_plain plain_def)

lemma demo_put_run:
  "ftp_put_task demo_put_env demo_put_task w =
     (case task_loop demo_put_env (put_step demo_put_env ftp_transport demo_put_task ''/l'' ''a'' [demo_entry] []) 0 [demo_entry] w of
        None \<Rightarrow> None
      | Some (ok, evs, w') \<Rightarrow>
          Some (if ok then 1 else 0,
            [EvConn \<lparr>srv_ip = ''10.0.0.1'', srv_port = 0, srv_user = ''joe'', srv_pass = ''pw''\<rparr>, EvLogin, EvCd ''/r'', EvCd ''/r'', EvLcd ''/l''] @
              evs @ [EvQuit], w'))"
proof -
  note t = demo_put_path_trans
  have i: "get_ftp_info (ftp_host demo_put_task) = Some (Some \<lparr>srv_ip = ''10.0.0.1'', srv_port = 0, srv_user = ''joe'', srv_pass = ''pw''\<rparr>)"
    by (simp add: demo_put_defs get_ftp_info_no_port)
  have e: "te_names demo_put_env d = [''a'']" "te_names2 demo_put_env d = [''a'']" "te_listing demo_put_env d = None"
    "if_isdir (te_stat demo_put_env ''/l'') = 1" "sh_file demo_put_task = ''NO''" for d
    by (simp_all add: demo_put_defs if_isdir_def)
  have c: "put_connect demo_put_env srv ''/r'' ''/l'' = ([EvConn srv, EvLogin, EvCd ''/r'', EvCd ''/r'', EvLcd ''/l''], True)" for srv
    by (simp add: put_connect_def demo_put_env_def)
  show ?thesis
    using demo_scan
    by (simp add: ftp_put_task_def put_session_def t i e c get_ftp_file_list_def task_finish_def
        del: get_local_file_list.simps task_loop.simps split: option.split prod.split)
qed

lemma demo_put_file: "put_wanted demo_put_env ''a'' [demo_entry] [] 1000 demo_entry"
  by (simp add: put_wanted_def demo_entry_def demo_put_env_def)

lemma demo_put_total:
  assumes "log_ok 7 FTP_PUT demo_put_task 1 w"
  shows "\<exists>ret evs w'. ftp_put_task demo_put_env demo_put_task w = Some (ret, evs, w')"
proof -
  let ?w = "log_tick 1000 w"
  have st: "log_storable 7 (''a'', 10)" using demo_record(1) by (simp add: log_storable_def record_ok_def demo_show)
  have ok: "log_ok 7 FTP_PUT demo_put_task 1 ?w" using log_tick_ok [OF assms, of 1000] by (simp add: demo_show)
  obtain r w1 where r: "read_ftped_file 7 ''a'' 10 FTP_PUT ?w = Some (r, w1)" "log_ok 7 FTP_PUT demo_put_task 1 w1"
    using log_read [OF ok st] by blast
  obtain w2 where "write_ftped_file 7 ''a'' 10 FTP_PUT w1 = Some (0, ''a'', w2)"
    using log_write [of 7 FTP_PUT demo_put_task 0 w1 "''a''" 10] r(2) st by auto
  moreover have "sch_id (sch_item demo_put_task) = 7" "fi_file demo_entry = ''a''" "fi_size demo_entry = 10"
    "tModifyTime demo_entry = 900" "file_ctime_escape demo_put_task = 31536000" "del_src demo_put_task = 0"
    "use_tmp demo_put_task = 1" "generate_db_cdr demo_put_task = 0" "te_send demo_put_env x y" for x y
    by (simp_all add: demo_entry_def demo_put_defs)
  ultimately have "\<exists>res. put_step demo_put_env ftp_transport demo_put_task ''/l'' ''a'' [demo_entry] [] 0 demo_entry ?w = Some res"
    using r(1) read_ftped_now [OF r(1)]
    by (simp add: put_step_def demo_put_file log_tick_def put_file_def put_sent_def ftp_transport_def tmp_name_def sprintf_buf_def Let_def sql_event_def)
       (intro conjI impI exI [of _ True] TrueI)
  moreover have "te_clock demo_put_env 0 = 1000" by (simp add: demo_put_env_def)
  ultimately show ?thesis by (auto simp: demo_put_run split: option.splits)
qed

text \<open>On the empty store, the file is sent.\<close>

lemma demo_put_first:
  "\<exists>evs w'. ftp_put_task demo_put_env demo_put_task demo_put_world = Some (1, evs, w') \<and> EvPut ''a'' ''tmp_a'' demo_entry True \<in> set evs"
proof -
  let ?w = "log_tick 1000 demo_put_world"
  have st: "log_storable 7 (''a'', 10)" using demo_record(1) by (simp add: log_storable_def record_ok_def demo_show)
  have ok: "log_ok 7 FTP_PUT demo_put_task 1 ?w" using log_tick_ok [OF demo_put_ok [of 1], of 1000] by (simp add: demo_show)
  have q: "quiet 7 FTP_PUT demo_put_task ?w" "history 7 FTP_PUT ?w []" "map_inv (w_map ?w)" "card (dom (w_map ?w)) = 0"
    using ok by (auto simp: log_ok_def history_def log_tick_def demo_put_world_def demo_world_def)
  obtain m' where m': "loaded_from 7 (w_now ?w - file_ctime_escape demo_put_task) [] (w_map ?w) m'"
    "read_ftped_file 7 ''a'' 10 FTP_PUT ?w = Some (if key_look m' (7, show_int 7 @ ''a'', 10) then 1 else 0, ?w\<lparr>w_map := m'\<rparr>)"
    using read_ftped_quiet [OF q(1-3), of "''a''" 10] q(4) by (auto simp: demo_show)
  have "w_map ?w = Map.empty" by (simp add: log_tick_def demo_put_world_def demo_world_def)
  moreover have "key_exact (7, show_int 7 @ ''a'', 10)" by (simp add: demo_show key_exact_def)
  ultimately have "\<not> key_look m' (7, show_int 7 @ ''a'', 10)"
    using m'(1) unfolding loaded_from_def by (auto simp: fresh_keys_def key_look_def map_lookup_def)
  then have r: "read_ftped_file 7 ''a'' 10 FTP_PUT ?w = Some (0, ?w\<lparr>w_map := m'\<rparr>)" using m'(2) by simp
  then have k: "log_ok 7 FTP_PUT demo_put_task 1 (?w\<lparr>w_map := m'\<rparr>)" using log_read [OF ok st] by auto
  obtain w2 where "write_ftped_file 7 ''a'' 10 FTP_PUT (?w\<lparr>w_map := m'\<rparr>) = Some (0, ''a'', w2)"
    using log_write [of 7 FTP_PUT demo_put_task 0 "?w\<lparr>w_map := m'\<rparr>" "''a''" 10] k st by fastforce
  moreover have "sch_id (sch_item demo_put_task) = 7" "fi_file demo_entry = ''a''" "fi_size demo_entry = 10"
    "tModifyTime demo_entry = 900" "file_ctime_escape demo_put_task = 31536000" "del_src demo_put_task = 0"
    "use_tmp demo_put_task = 1" "generate_db_cdr demo_put_task = 0" "te_send demo_put_env x y" for x y
    by (simp_all add: demo_entry_def demo_put_defs)
  ultimately have "\<exists>evs w'. put_step demo_put_env ftp_transport demo_put_task ''/l'' ''a'' [demo_entry] [] 0 demo_entry ?w =
      Some (True, EvPut ''a'' ''tmp_a'' demo_entry True # evs, w')"
    using r by (simp add: put_step_def demo_put_file log_tick_def put_file_def put_sent_def ftp_transport_def tmp_name_def sprintf_buf_def Let_def sql_event_def)
  moreover have "te_clock demo_put_env 0 = 1000" by (simp add: demo_put_env_def)
  ultimately show ?thesis by (auto simp: demo_put_run split: option.splits)
qed

end
