(* ===== verification/Get_Task.thy ===== *)
theory Get_Task
  imports Put_Task
begin

text \<open>
  \<open>ftp_get_task\<close> and \<open>sftp_get_task\<close> of \<open>taskmanager.c\<close>: the files of a server's directory are
  fetched. As for the upload, the two functions differ in how they connect, in the remote paths,
  and in the prefix the FTP one strips from names; the rest is modelled once.
\<close>

section \<open>Names\<close>

text \<open>
  A name such as \<open>HIIBGP01.x\<close> loses its first nine characters. (Behind the end of the name
  \<open>file[8]\<close> is a NUL.)
\<close>

definition bss_name :: "cstring \<Rightarrow> cstring" where
  "bss_name file =
     (if strneq file ''HI'' 2 \<and> 8 < length file \<and> file ! 8 = CHR ''.'' then drop 9 file else file)"

text \<open>What differs: the local name, and the remote path of the transfer.\<close>

record source =
  so_local :: "cstring \<Rightarrow> cstring"
  so_remote :: "cstring \<Rightarrow> cstring option"

definition ftp_source :: source where
  "ftp_source = \<lparr>so_local = bss_name, so_remote = Some\<rparr>"

definition sftp_source :: "cstring \<Rightarrow> source" where
  "sftp_source ftp_dir = \<lparr>so_local = (\<lambda>file. file), so_remote = (\<lambda>file. sprintf_buf 256 (ftp_dir @ ''/'' @ file))\<rparr>"

section \<open>One file\<close>

text \<open>
  The sub-directory of \<open>son_dir_mask\<close>, \<open>direction-start-length\<close>: the part of the name that names
  it; \<open>Some None\<close> for a mask that has not three parts. Each part has 8 bytes.
\<close>

definition son_dir :: "cstring \<Rightarrow> cstring \<Rightarrow> cstring option option" where
  "son_dir son_mask file =
     (let fs = sscanf_sets 3 (CHR ''-'') son_mask in
      if \<exists>f \<in> set fs. 8 \<le> length f then None
      else if length fs \<noteq> 3 then Some None
      else map_option (\<lambda>(r, s). Some s) (sub_string file (atoi (fs ! 0)) (atoi (fs ! 1)) (atoi (fs ! 2)) (NAME_MAX + 1)))"

text \<open>
  Moving the file there: the events and the path the file has afterwards. (The second
  \<open>sprintf\<close> writes \<open>_dir\<close> from \<open>_dir\<close>; the model takes the path that is meant.)
\<close>

definition move_son :: "task_env \<Rightarrow> nat \<Rightarrow> TASK_ITEM \<Rightarrow> cstring \<Rightarrow> cstring \<Rightarrow> cstring \<Rightarrow> (task_event list \<times> cstring) option" where
  "move_son env i it path file local =
     (if son_dir_mask it = ''NULL'' then Some ([], local)
      else do {
        son \<leftarrow> son_dir (son_dir_mask it) file;
        (case son of
           None \<Rightarrow> Some ([], local)
         | Some d \<Rightarrow>
             do {
               dir \<leftarrow> sprintf_buf (NAME_MAX + 1) (path @ ''/'' @ d);
               (let made = (if te_fs env i dir = None then [EvMkdirLocal dir] else []) in
                if te_fs env i dir \<noteq> None \<and> if_isdir (te_fs env i dir) = 0 then Some ([], local)
                else if te_fs env i dir = None \<and> \<not> te_mkdir_fs env i dir then Some (made, local)
                else do {
                  new \<leftarrow> sprintf_buf (NAME_MAX + 1) (dir @ ''/'' @ file);
                  if te_fs env i new \<noteq> None then Some (made, local)
                  else if te_move env i local new then Some (made @ [EvMove local new], new)
                  else Some (made @ [EvMove local new], local)
                })
             })
      })"

text \<open>The four copies.\<close>

fun copies :: "cstring list \<Rightarrow> cstring \<Rightarrow> cstring \<Rightarrow> int \<Rightarrow> task_event list option" where
  "copies [] file path flag = Some []"
| "copies (d # ds) file path flag =
     do { a \<leftarrow> cp_item_to_dir d file path flag; evs \<leftarrow> copies ds file path flag; Some (EvCopy a # evs) }"

text \<open>What follows a transfer that succeeded.\<close>

definition get_done ::
  "task_env \<Rightarrow> nat \<Rightarrow> TASK_ITEM \<Rightarrow> cstring \<Rightarrow> cstring \<Rightarrow> cstring \<Rightarrow> FTP_FILE_INFO \<Rightarrow> cstring \<Rightarrow> shm_world \<Rightarrow>
   (task_event list \<times> shm_world) option" where
  "get_done env i it path local tmp_local f renamed w =
     do {
       (moves, at) \<leftarrow> move_son env i it path renamed local;
       cps \<leftarrow> copies [cp_dir_1 it, cp_dir_2 it, cp_dir_3 it, cp_dir_4 it] renamed at (copy_flag it);
       (r, file', w') \<leftarrow> write_ftped_file (sch_id (sch_item it)) renamed (fi_size f) FTP_GET w;
       let rows = GetFileRows (te_file env at);
       let mtime = format_time (te_tz env) (tModifyTime f);
       sql \<leftarrow> sql_event (generate_db_cdr it = 1) (te_pid env) (sch_id (sch_item it)) file' (fi_size f) rows mtime;
       Some ((if del_src it = 1 then [EvDelRemote (fi_file f)] else []) @
         (if use_tmp it = 1 then [EvMove tmp_local local] else []) @ moves @ cps @
         [EvRow file' (fi_size f) rows mtime] @ sql, w')
     }"

definition get_file ::
  "task_env \<Rightarrow> source \<Rightarrow> TASK_ITEM \<Rightarrow> cstring \<Rightarrow> FTP_FILE_INFO list \<Rightarrow> nat \<Rightarrow> FTP_FILE_INFO \<Rightarrow> cstring \<Rightarrow> shm_world \<Rightarrow> task_result" where
  "get_file env so it path first i f renamed w =
     do {
       local \<leftarrow> sprintf_buf 256 (path @ ''/'' @ renamed);
       if te_fs env i local \<noteq> None \<and> fi_size f = get_file_size (te_fs env i local) then Some (True, [], w)
       else if \<not> if_in_list_exist first f then Some (True, [], w)
       else do {
         tmp_local \<leftarrow> (if use_tmp it = 1 then sprintf_buf 256 (path @ ''/temp__'' @ renamed) else Some local);
         remote \<leftarrow> so_remote so (fi_file f);
         if \<not> te_recv env tmp_local remote then Some (False, [EvGet tmp_local remote f False], w)
         else do {
           (evs, w') \<leftarrow> get_done env i it path local tmp_local f renamed w;
           Some (True, EvGet tmp_local remote f True # evs, w')
         }
       }
     }"

definition get_wanted :: "task_env \<Rightarrow> source \<Rightarrow> cstring \<Rightarrow> FTP_FILE_INFO \<Rightarrow> bool" where
  "get_wanted env so name_pat f =
     (fi_dir f = 0 \<and> (te_reg env name_pat (fi_file f) \<or> te_reg env name_pat (so_local so (fi_file f))))"

definition get_step ::
  "task_env \<Rightarrow> source \<Rightarrow> TASK_ITEM \<Rightarrow> cstring \<Rightarrow> cstring \<Rightarrow> FTP_FILE_INFO list \<Rightarrow> nat \<Rightarrow> FTP_FILE_INFO \<Rightarrow> shm_world \<Rightarrow> task_result" where
  "get_step env so it path name_pat first i f w =
     (let renamed = so_local so (fi_file f) in
      if \<not> get_wanted env so name_pat f then Some (True, [], w)
      else if w_now w - tModifyTime f \<ge> file_ctime_escape it then
        Some (True, if del_src it = 1 then [EvDelRemote (fi_file f)] else [], w)
      else if del_src it = 2 then Some (True, [EvDelRemote (fi_file f)], w)
      else do {
        (r, w1) \<leftarrow> read_ftped_file (sch_id (sch_item it)) renamed (fi_size f) FTP_GET w;
        if r \<noteq> 0 then Some (True, [], w1) else get_file env so it path first i f renamed w1
      })"

section \<open>The tasks\<close>

definition get_connect :: "task_env \<Rightarrow> FTP_SERVER_INFO \<Rightarrow> cstring \<Rightarrow> cstring \<Rightarrow> task_event list \<times> bool" where
  "get_connect env srv ftp_dir local =
     (if \<not> te_conn env then ([EvConn srv], False)
      else if \<not> te_login env then ([EvConn srv, EvLogin], False)
      else if \<not> te_cd env then ([EvConn srv, EvLogin, EvCd ftp_dir], False)
      else ([EvConn srv, EvLogin, EvCd ftp_dir, EvLcd local], te_lcd env))"

definition sftp_get_connect :: "task_env \<Rightarrow> FTP_SERVER_INFO \<Rightarrow> cstring \<Rightarrow> cstring \<Rightarrow> task_event list \<times> bool" where
  "sftp_get_connect env srv ftp_dir local = ([EvConn srv], te_conn env)"

definition get_session ::
  "task_env \<Rightarrow> (FTP_SERVER_INFO \<Rightarrow> cstring \<Rightarrow> cstring \<Rightarrow> task_event list \<times> bool) \<Rightarrow> (cstring \<Rightarrow> source) \<Rightarrow>
   TASK_ITEM \<Rightarrow> shm_world \<Rightarrow> (int \<times> task_event list \<times> shm_world) option" where
  "get_session env connect so it w =
     do {
       path \<leftarrow> trans_path_str (te_tz env) (te_start env) (local_path it) 256;
       ftp_dir \<leftarrow> trans_path_str (te_tz env) (te_start env) (ftp_path it) 256;
       name_pat \<leftarrow> trans_path_str (te_tz env) (te_start env) (task_file it) 256;
       (let made = (if te_stat env path = None then [EvMkdirLocal path] else []) in
        if te_stat env path \<noteq> None \<and> if_isdir (te_stat env path) = 0 then Some (0, [], w)
        else if te_stat env path = None \<and> \<not> te_mkdir_fs env 0 path then Some (0, made, w)
        else do {
          info \<leftarrow> get_ftp_info (ftp_host it);
          (case info of
             None \<Rightarrow> Some (0, made, w)
           | Some srv \<Rightarrow>
               (case connect srv ftp_dir path of (evs, through) \<Rightarrow>
                  if \<not> through then Some (0, made @ evs, w)
                  else do {
                    first \<leftarrow> get_ftp_file_list (te_tz env) (te_start env) (te_listing env ftp_dir);
                    second \<leftarrow> get_ftp_file_list (te_tz env) (te_start env) (te_listing2 env ftp_dir);
                    (ok, evs', w') \<leftarrow> task_loop env (get_step env (so ftp_dir) it path name_pat first) 0 second w;
                    (let (ret, evs'') = task_finish env it ok in Some (ret, made @ evs @ evs' @ evs'', w'))
                  }))
        })
     }"

definition ftp_get_task :: "task_env \<Rightarrow> TASK_ITEM \<Rightarrow> shm_world \<Rightarrow> (int \<times> task_event list \<times> shm_world) option" where
  "ftp_get_task env = get_session env (get_connect env) (\<lambda>ftp_dir. ftp_source)"

definition sftp_get_task :: "task_env \<Rightarrow> TASK_ITEM \<Rightarrow> shm_world \<Rightarrow> (int \<times> task_event list \<times> shm_world) option" where
  "sftp_get_task env = get_session env (sftp_get_connect env) sftp_source"

section \<open>What is fetched\<close>

lemma get_done_transfers: "get_done env i it path local tmp f renamed w = Some (evs, w') \<Longrightarrow> transfers evs = []"
proof -
  have "transfers e = []" if "move_son env i it path renamed local = Some (e, at)" for e at
    using that by (auto simp: move_son_def Let_def split: if_splits bind_splits option.splits)
  moreover have "copies ds g p fl = Some e \<Longrightarrow> transfers e = []" for ds g p fl e
    by (induction ds arbitrary: e) (auto split: bind_splits)
  ultimately show "get_done env i it path local tmp f renamed w = Some (evs, w') \<Longrightarrow> transfers evs = []"
    by (auto simp: get_done_def Let_def simp del: copies.simps split: bind_splits if_splits)
qed

text \<open>The local path of a transfer.\<close>

definition get_target :: "TASK_ITEM \<Rightarrow> cstring \<Rightarrow> cstring \<Rightarrow> cstring" where
  "get_target it path renamed = path @ (if use_tmp it = 1 then ''/temp__'' else ''/'') @ renamed"

text \<open>
  The conditions under which a file is fetched: not a directory, unchanged between the listings,
  younger than the limit, of a matching name, not on disk with its size, in a task that
  transfers.
\<close>

definition may_get :: "task_env \<Rightarrow> source \<Rightarrow> TASK_ITEM \<Rightarrow> cstring \<Rightarrow> cstring \<Rightarrow> FTP_FILE_INFO list \<Rightarrow> nat \<Rightarrow> FTP_FILE_INFO \<Rightarrow> bool" where
  "may_get env so it path name_pat first i f =
     (get_wanted env so name_pat f \<and> (fi_size f, fi_file f) \<in> (\<lambda>x. (fi_size x, fi_file x)) ` set first \<and>
      te_clock env i - tModifyTime f < file_ctime_escape it \<and> del_src it \<noteq> 2 \<and>
      \<not> (te_fs env i (path @ ''/'' @ so_local so (fi_file f)) \<noteq> None \<and>
         fi_size f = get_file_size (te_fs env i (path @ ''/'' @ so_local so (fi_file f)))))"

lemma get_step_gets:
  assumes "get_step env so it path name_pat first i f (log_tick (te_clock env i) w) = Some (ok, evs, w')"
    and "e \<in> set (transfers evs)"
  shows "\<exists>r. e = EvGet (get_target it path (so_local so (fi_file f))) r f (te_recv env (get_target it path (so_local so (fi_file f))) r) \<and>
    so_remote so (fi_file f) = Some r \<and> may_get env so it path name_pat first i f"
proof -
  let ?w = "log_tick (te_clock env i) w"
  have wanted: "get_wanted env so name_pat f" "te_clock env i - tModifyTime f < file_ctime_escape it" "del_src it \<noteq> 2"
    using assms by (auto simp: get_step_def Let_def log_tick_def split: if_splits)
  obtain w1 where "get_file env so it path first i f (so_local so (fi_file f)) w1 = Some (ok, evs, w')"
    using assms wanted by (auto simp: get_step_def Let_def log_tick_def split: if_splits bind_splits)
  then show ?thesis
    using assms(2) wanted get_done_transfers
    by (auto simp: get_file_def get_target_def may_get_def if_in_list_exist_iff sprintf_buf_def split: if_splits bind_splits)
qed

section \<open>Turns on the store\<close>

lemma get_done_turn:
  assumes "get_done env i it path local tmp f renamed w = Some (evs, w')"
  shows "log_wr (sch_id (sch_item it)) FTP_GET (renamed, fi_size f) w = Some w'"
  using assms by (auto simp: get_done_def Let_def log_wr_def simp del: copies.simps split: bind_splits if_splits)

lemma get_file_turn:
  assumes "get_file env so it path first i f renamed w = Some (ok, evs, w')" and "renamed = so_local so (fi_file f)"
  shows "(w' = w \<and> moved (so_local so) evs = []) \<or>
    (log_wr (sch_id (sch_item it)) FTP_GET (renamed, fi_size f) w = Some w' \<and> moved (so_local so) evs = [(renamed, fi_size f)])"
  using assms get_done_turn transfers_none [OF get_done_transfers]
  by (auto simp: get_file_def split: if_splits bind_splits)

lemma get_steps_turns:
  assumes "\<And>f. f \<in> set fs \<Longrightarrow> log_storable (sch_id (sch_item it)) (so_local so (fi_file f), fi_size f)"
  shows "step_turns (so_local so) (sch_id (sch_item it)) FTP_GET (get_step env so it path name_pat first) fs"
  unfolding step_turns_def
proof (intro allI impI)
  fix i f t w ok evs w'
  assume f: "f \<in> set fs" and step: "get_step env so it path name_pat first i f (log_tick t w) = Some (ok, evs, w')"
  let ?sid = "sch_id (sch_item it)" and ?k = "(so_local so (fi_file f), fi_size f)"
  show "\<exists>s. task_turn ?sid FTP_GET t s w w' \<and> moved (so_local so) evs = sent [(t, s)]"
  proof (cases "w' = log_tick t w \<and> moved (so_local so) evs = []")
    case True
    then show ?thesis using skip_turn [of ?sid FTP_GET t w] by simp
  next
    case False
    then obtain r w1 where r: "log_rd ?sid FTP_GET ?k (log_tick t w) = Some (r, w1)"
      and rest: "if r \<noteq> 0 then evs = [] \<and> w' = w1 else get_file env so it path first i f (so_local so (fi_file f)) w1 = Some (ok, evs, w')"
      using step by (auto simp: get_step_def Let_def log_rd_def split: bind_splits if_splits)
    show ?thesis
      by (rule ask_turn [OF assms [OF f] r]) (use rest get_file_turn in \<open>auto split: if_splits\<close>)
  qed
qed

section \<open>The whole task\<close>

lemma get_connects: "connects_only (get_connect env)" "connects_only (sftp_get_connect env)"
  by (auto simp: connects_only_def get_connect_def sftp_get_connect_def)

lemma get_connect_dirs: "get_connect env srv d local = (evs, True) \<Longrightarrow> EvCd d \<in> set evs \<and> EvLcd local \<in> set evs"
  by (auto simp: get_connect_def split: if_splits)

lemma get_session_cases:
  assumes "get_session env connect so it w = Some (ret, evs, w')" and con: "connects_only connect"
  obtains (stopped) "w' = w" "transfers evs = []"
    | (ran) srv cevs path ftp_dir name_pat first second ok evs' where
      "trans_path_str (te_tz env) (te_start env) (local_path it) 256 = Some path"
      "trans_path_str (te_tz env) (te_start env) (ftp_path it) 256 = Some ftp_dir"
      "trans_path_str (te_tz env) (te_start env) (task_file it) 256 = Some name_pat"
      "get_ftp_file_list (te_tz env) (te_start env) (te_listing env ftp_dir) = Some first"
      "get_ftp_file_list (te_tz env) (te_start env) (te_listing2 env ftp_dir) = Some second"
      "task_loop env (get_step env (so ftp_dir) it path name_pat first) 0 second w = Some (ok, evs', w')"
      "transfers evs = transfers evs'" "connect srv ftp_dir path = (cevs, True)" "set cevs \<subseteq> set evs"
proof -
  obtain path ftp_dir name_pat where t: "trans_path_str (te_tz env) (te_start env) (local_path it) 256 = Some path"
    "trans_path_str (te_tz env) (te_start env) (ftp_path it) 256 = Some ftp_dir"
    "trans_path_str (te_tz env) (te_start env) (task_file it) 256 = Some name_pat"
    using assms(1) by (auto simp: get_session_def split: bind_splits)
  define made where "made = (if te_stat env path = None then [EvMkdirLocal path] else [])"
  have made: "transfers made = []" by (auto simp: made_def)
  define bad where "bad = (te_stat env path \<noteq> None \<and> if_isdir (te_stat env path) = 0 \<or> te_stat env path = None \<and> \<not> te_mkdir_fs env 0 path)"
  show thesis
  proof (cases bad)
    case True
    with assms t made show thesis by (intro stopped) (auto simp: get_session_def Let_def bad_def made_def split: if_splits)
  next
    case good: False
    obtain info where i: "get_ftp_info (ftp_host it) = Some info"
      using assms(1) t good by (auto simp: get_session_def bad_def Let_def split: bind_splits if_splits)
    show thesis
    proof (cases info)
      case None
      with assms t good i made show thesis by (intro stopped) (auto simp: get_session_def bad_def Let_def made_def split: if_splits)
    next
      case (Some srv)
      obtain cevs through where c: "connect srv ftp_dir path = (cevs, through)" by (cases "connect srv ftp_dir path")
      have cevs: "transfers cevs = []"
        using con c unfolding connects_only_def by (metis fst_conv)
      have body: "(if \<not> through then Some (0, made @ cevs, w)
         else do {
           first \<leftarrow> get_ftp_file_list (te_tz env) (te_start env) (te_listing env ftp_dir);
           second \<leftarrow> get_ftp_file_list (te_tz env) (te_start env) (te_listing2 env ftp_dir);
           (ok, evs', w') \<leftarrow> task_loop env (get_step env (so ftp_dir) it path name_pat first) 0 second w;
           (let (ret, evs'') = task_finish env it ok in Some (ret, made @ cevs @ evs' @ evs'', w'))
         }) = Some (ret, evs, w')"
        using assms(1) t good i Some c by (auto simp: get_session_def bad_def Let_def made_def split: if_splits)
      show thesis
      proof (cases through)
        case False
        with body made cevs show thesis by (intro stopped) auto
      next
        case True
        with body obtain first second ok evs' w2 where l: "get_ftp_file_list (te_tz env) (te_start env) (te_listing env ftp_dir) = Some first"
          "get_ftp_file_list (te_tz env) (te_start env) (te_listing2 env ftp_dir) = Some second"
          "task_loop env (get_step env (so ftp_dir) it path name_pat first) 0 second w = Some (ok, evs', w2)"
          by (auto split: bind_splits)
        obtain ret' fevs where fin: "task_finish env it ok = (ret', fevs)" by (cases "task_finish env it ok")
        have "evs = made @ cevs @ evs' @ fevs" "w2 = w'" using True body l fin by auto
        then show thesis using made cevs t l c True transfers_finish [OF fin] by (intro ran) auto
      qed
    qed
  qed
qed

lemma get_session_gets:
  assumes "get_session env connect so it w = Some (ret, evs, w')" and "connects_only connect"
    and "e \<in> set evs" and "is_transfer e"
  shows "\<exists>srv cevs path ftp_dir name_pat first second j l r.
    trans_path_str (te_tz env) (te_start env) (local_path it) 256 = Some path \<and>
    trans_path_str (te_tz env) (te_start env) (ftp_path it) 256 = Some ftp_dir \<and>
    trans_path_str (te_tz env) (te_start env) (task_file it) 256 = Some name_pat \<and>
    get_ftp_file_list (te_tz env) (te_start env) (te_listing env ftp_dir) = Some first \<and>
    get_ftp_file_list (te_tz env) (te_start env) (te_listing2 env ftp_dir) = Some second \<and>
    j < length second \<and>
    e = EvGet l r (second ! j) (te_recv env l r) \<and> l = get_target it path (so_local (so ftp_dir) (fi_file (second ! j))) \<and>
    so_remote (so ftp_dir) (fi_file (second ! j)) = Some r \<and>
    may_get env (so ftp_dir) it path name_pat first j (second ! j) \<and>
    connect srv ftp_dir path = (cevs, True) \<and> set cevs \<subseteq> set evs"
  using assms(1,2)
proof (cases rule: get_session_cases)
  case stopped
  with assms(3,4) show ?thesis using transfers_member [of e evs] by simp
next
  case (ran srv cevs path ftp_dir name_pat first second ok evs')
  then have "e \<in> set evs'" using assms(3,4) transfers_eq_member by blast
  from task_loop_event [OF ran(6) this] obtain j w1 ok1 evs1 w2 where j: "j < length second" and e: "e \<in> set evs1"
    and step: "get_step env (so ftp_dir) it path name_pat first j (second ! j) (log_tick (te_clock env j) w1) = Some (ok1, evs1, w2)"
    by auto
  have "e \<in> set (transfers evs1)" using e assms(4) by (simp add: transfers_member)
  from get_step_gets [OF step this] show ?thesis using ran(1-5,8,9) j by blast
qed

text \<open>The local names and the sizes of the second listing are ones the store can keep apart.\<close>

definition listing_storable :: "task_env \<Rightarrow> (cstring \<Rightarrow> source) \<Rightarrow> int \<Rightarrow> bool" where
  "listing_storable env so sid =
     ((\<forall>second d f. get_ftp_file_list (te_tz env) (te_start env) (te_listing2 env d) = Some second \<longrightarrow> f \<in> set second \<longrightarrow>
         log_storable sid (so_local (so d) (fi_file f), fi_size f)) \<and>
      (\<forall>i. length (show_int (te_clock env i)) \<le> 20))"

definition listed :: "task_env \<Rightarrow> TASK_ITEM \<Rightarrow> nat" where
  "listed env it =
     (case trans_path_str (te_tz env) (te_start env) (ftp_path it) 256 of
        None \<Rightarrow> 0
      | Some d \<Rightarrow>
          (case get_ftp_file_list (te_tz env) (te_start env) (te_listing2 env d) of None \<Rightarrow> 0 | Some l \<Rightarrow> length l))"

lemma get_session_once:
  assumes "get_session env connect so it w = Some (ret, evs, w')" and "connects_only connect"
    and st: "listing_storable env so (sch_id (sch_item it))" and ren: "\<And>d. so_local (so d) = ren"
  shows "once ren (sch_id (sch_item it)) FTP_GET it (listed env it) w evs w'"
  using assms(1,2)
proof (cases rule: get_session_cases)
  case stopped
  then show ?thesis using once_stopped by simp
next
  case (ran srv cevs path ftp_dir name_pat first second b evs')
  let ?sid = "sch_id (sch_item it)"
  have "step_turns (so_local (so ftp_dir)) ?sid FTP_GET (get_step env (so ftp_dir) it path name_pat first) second"
    by (rule get_steps_turns) (use st ran(5) in \<open>auto simp: listing_storable_def\<close>)
  then have "step_turns ren ?sid FTP_GET (get_step env (so ftp_dir) it path name_pat first) second" by (simp add: ren)
  moreover have "\<forall>i. length (show_int (te_clock env i)) \<le> 20" using st by (simp add: listing_storable_def)
  moreover have "length second \<le> listed env it" by (simp add: listed_def ran(2,5))
  ultimately show ?thesis using once_loop [OF ran(6)] ran(7) by blast
qed

lemma get_task_once:
  "ftp_get_task env it w = Some (ret, evs, w') \<Longrightarrow> listing_storable env (\<lambda>d. ftp_source) (sch_id (sch_item it)) \<Longrightarrow>
    once bss_name (sch_id (sch_item it)) FTP_GET it (listed env it) w evs w'"
  "sftp_get_task env it w = Some (ret, evs, w') \<Longrightarrow> listing_storable env sftp_source (sch_id (sch_item it)) \<Longrightarrow>
    once id (sch_id (sch_item it)) FTP_GET it (listed env it) w evs w'"
  using get_session_once [OF _ get_connects(1)] get_session_once [OF _ get_connects(2)]
  by (auto simp: ftp_get_task_def sftp_get_task_def ftp_source_def sftp_source_def fun_eq_iff)

section \<open>The source that should be deleted\<close>

text \<open>
  \<open>sftp_get_task\<close> fetches \<open>ftp_path/file\<close> but deletes \<open>file\<close>: with \<open>del_src\<close> set, the file that was
  fetched stays on the server, and a file of that name in the login directory goes.
\<close>

lemma sftp_deletes_elsewhere:
  assumes "get_file env (sftp_source ftp_dir) it path first i f renamed w = Some (True, EvGet l r g b # evs, w')" and "del_src it = 1"
  shows "r = ftp_dir @ ''/'' @ fi_file f \<and> EvDelRemote (fi_file f) \<in> set evs"
  using assms by (auto simp: get_file_def get_done_def Let_def sftp_source_def sprintf_buf_def split: if_splits bind_splits)

section \<open>A run\<close>

definition demo_line :: cstring where
  "demo_line = list_line [''-rw-r--r--'', ''1'', ''o'', ''g'', show_int 3, szEnglishMon ! 8, show_nat 19, show_nat 2007, ''a.txt'' @ [CR]]"

lemma demo_listing:
  "\<exists>t. get_ftp_file_list 0 1112140800 (Some demo_line) =
    Some [\<lparr>fi_dir = 0, fi_access = ''-rw-r--r--'', fi_size = 3, tModifyTime = t, fi_file = ''a.txt''\<rparr>]"
proof -
  have d: "demo_line = ''-rw-r--r-- 1 o g 3 Sep 19 2007 a.txt'' @ [CR, LF]"
    by (simp add: demo_line_def list_line_def szEnglishMon_def show_int_def show_nat.simps digit_char_def char_of_def bit_0)
  have "fgets_lines 256 demo_line = [demo_line]"
    using fgets_lines_line [of "''-rw-r--r-- 1 o g 3 Sep 19 2007 a.txt'' @ [CR]" 256 "[]"] by (simp add: d)
  moreover obtain t where "parse_list_line 0 1112140800 demo_line =
      Some (Some \<lparr>fi_dir = 0, fi_access = ''-rw-r--r--'', fi_size = 3, tModifyTime = t, fi_file = ''a.txt''\<rparr>)"
    using parse_line_fields [of "''-rw-r--r--''" "''1''" "''o''" "''g''" 8 2007 19 "''a.txt''" 3 "[CR]" 0 1112140800]
    unfolding demo_line_def [symmetric] by (auto simp: ward_sep_def month_days_def)
  ultimately show ?thesis by (simp add: get_ftp_file_list_def)
qed

definition demo_remote :: "time_t \<Rightarrow> FTP_FILE_INFO" where
  "demo_remote t = \<lparr>fi_dir = 0, fi_access = ''-rw-r--r--'', fi_size = 3, tModifyTime = t, fi_file = ''a.txt''\<rparr>"

definition demo_get_env :: "time_t \<Rightarrow> task_env" where
  "demo_get_env t = demo_put_env\<lparr>te_listing := (\<lambda>_. Some demo_line), te_listing2 := (\<lambda>_. Some demo_line), te_clock := (\<lambda>_. t),
     te_reg := (\<lambda>pat name. name = ''a.txt''), te_recv := (\<lambda>_ _. False)\<rparr>"

definition demo_get_task :: TASK_ITEM where
  "demo_get_task = demo_task\<lparr>ftp_host := ''joe:pw:10.0.0.1'', task_file := ''a.txt''\<rparr>"

definition demo_get_world :: shm_world where
  "demo_get_world = (demo_world Map.empty)\<lparr>w_tasks := [demo_get_task]\<rparr>"

lemma demo_get_read:
  "\<exists>w'. read_ftped_file 7 ''a.txt'' 3 FTP_GET (log_tick t demo_get_world) = Some (0, w')"
proof -
  let ?w = "log_tick t demo_get_world"
  have p: "list_path 7 FTP_GET ?w = ''/x/log/TASK_ID_7_HAVE_GET_LIST''"
    by (simp add: list_path_def log_tick_def demo_get_world_def demo_world_def demo_show)
  have "quiet 7 FTP_GET demo_get_task ?w" "history 7 FTP_GET ?w []" "map_inv (w_map ?w)" "w_map ?w = Map.empty"
    by (simp_all add: quiet_def history_def p) (simp_all add: log_tick_def demo_get_world_def demo_world_def demo_get_task_def demo_task_def map_inv_empty)
  then obtain m' where m': "loaded_from 7 (w_now ?w - file_ctime_escape demo_get_task) [] Map.empty m'"
    "read_ftped_file 7 ''a.txt'' 3 FTP_GET ?w = Some (if key_look m' (7, show_int 7 @ ''a.txt'', 3) then 1 else 0, ?w\<lparr>w_map := m'\<rparr>)"
    using read_ftped_quiet [of 7 FTP_GET demo_get_task ?w "[]" "''a.txt''" 3] by (auto simp: demo_show)
  have "key_exact (7, show_int 7 @ ''a.txt'', 3)" by (simp add: demo_show key_exact_def)
  then have "\<not> key_look m' (7, show_int 7 @ ''a.txt'', 3)"
    using m'(1) unfolding loaded_from_def by (auto simp: fresh_keys_def key_look_def map_lookup_def)
  then show ?thesis using m'(2) by auto
qed

lemma demo_get_run:
  "\<exists>t evs w'. ftp_get_task (demo_get_env t) demo_get_task demo_get_world = Some (0, evs, w') \<and> EvGet ''/l/temp__a.txt'' ''a.txt'' (demo_remote t) False \<in> set evs"
proof -
  obtain t where l: "get_ftp_file_list 0 1112140800 (Some demo_line) =
    Some [demo_remote t]"
    using demo_listing unfolding demo_remote_def by blast
  let ?e = "demo_get_env t" and ?f = "demo_remote t"
  obtain w' where r: "read_ftped_file 7 ''a.txt'' 3 FTP_GET (log_tick t demo_get_world) = Some (0, w')" using demo_get_read by blast
  have tr: "trans_path_str 0 1112140800 ''/l'' 256 = Some ''/l''" "trans_path_str 0 1112140800 ''/r'' 256 = Some ''/r''"
    "trans_path_str 0 1112140800 ''a.txt'' 256 = Some ''a.txt''" by (simp_all add: trans_path_plain plain_def)
  have s: "get_step ?e ftp_source demo_get_task ''/l'' ''a.txt'' [?f] 0 ?f (log_tick t demo_get_world) =
      Some (False, [EvGet ''/l/temp__a.txt'' ''a.txt'' ?f False], w')"
    using r by (simp add: demo_remote_def get_step_def get_wanted_def get_file_def ftp_source_def bss_name_def strneq_def log_tick_def sprintf_buf_def
        demo_get_env_def demo_put_env_def demo_get_task_def demo_task_def Let_def)
  have i: "get_ftp_info (ftp_host demo_get_task) = Some (Some \<lparr>srv_ip = ''10.0.0.1'', srv_port = 0, srv_user = ''joe'', srv_pass = ''pw''\<rparr>)"
    by (simp add: demo_get_task_def get_ftp_info_no_port)
  have e: "te_tz ?e = 0" "te_start ?e = 1112140800" "te_listing ?e d = Some demo_line" "te_listing2 ?e d = Some demo_line"
    "te_stat ?e ''/l'' = Some (True, 0, 0)" "te_clock ?e 0 = t"
    "local_path demo_get_task = ''/l''" "ftp_path demo_get_task = ''/r''" "task_file demo_get_task = ''a.txt''" "sh_file demo_get_task = ''NO''" for d
    by (simp_all add: demo_get_env_def demo_put_env_def demo_get_task_def demo_task_def)
  have c: "get_connect ?e srv d p = ([EvConn srv, EvLogin, EvCd d, EvLcd p], True)" for srv d p
    by (simp add: get_connect_def demo_get_env_def demo_put_env_def)
  show ?thesis
    by (rule exI [of _ t]) (simp add: ftp_get_task_def get_session_def e tr i c l s if_isdir_def task_finish_def)
qed

end
