(* ===== verification/Cron.thy ===== *)
theory Cron
  imports Task_Data Calendar "HOL-Library.Signed_Division"
begin

text \<open>
  The time fields of a schedule (\<open>_if_time_equ\<close> and \<open>_sch_internal_if_exec\<close> of \<open>schedule.c\<close>):
  \<open>*\<close>, \<open>*/n\<close>, a number, or a list of numbers. The list's numbers go through the buffer
  \<open>_str[10]\<close>; \<^const>\<open>None\<close> is a field that leaves it without a terminating NUL or overflows it.
\<close>

section \<open>The matcher\<close>

function list_equ :: "int \<Rightarrow> cstring \<Rightarrow> bool option" where
  "list_equ now prev =
     (case strchr prev (CHR '','') of
        None \<Rightarrow> Some (atoi prev = now)
      | Some (str, cur) \<Rightarrow>
          if 10 \<le> length str then None
          else if atoi str = now then Some True
          else list_equ now cur)"
  by pat_completeness auto
termination
proof (relation "measure (\<lambda>(now, prev). length prev)", goal_cases)
  case (2 now prev x2 str cur)
  then show ?case by (auto dest!: strchr_SomeD)
qed simp

declare list_equ.simps [simp del]

definition if_time_equ :: "int \<Rightarrow> cstring \<Rightarrow> bool option" where
  "if_time_equ now tm_str =
     (if tm_str = ''*'' then Some True
      else if strneq tm_str ''*/'' 2 then
        if length tm_str = 2 then Some False
        else let n = atoi (drop 2 tm_str) in if n = 0 then Some False else Some (now smod n = 0)
      else if strchr tm_str (CHR '','') = None then Some (atoi tm_str = now)
      else list_equ now tm_str)"

definition sch_internal_if_exec :: "tm \<Rightarrow> SCHEDULE_ITEM \<Rightarrow> bool option" where
  "sch_internal_if_exec t it =
     do {
       a \<leftarrow> if_time_equ (tm_mon t) (sch_month it);
       if \<not> a then Some False
       else do {
         b \<leftarrow> if_time_equ (tm_mday t) (sch_day it);
         if \<not> b then Some False
         else do {
           c \<leftarrow> if_time_equ (tm_hour t) (sch_hour it);
           if \<not> c then Some False else if_time_equ (tm_min t) (sch_min it)
         }
       }
     }"

section \<open>What the fields mean\<close>

datatype cron_field = Every | Step int | Values "int list"

fun commas :: "cstring list \<Rightarrow> cstring" where
  "commas [] = []"
| "commas [s] = s"
| "commas (s # ss) = s @ CHR '','' # commas ss"

fun show_field :: "cron_field \<Rightarrow> cstring" where
  "show_field Every = ''*''"
| "show_field (Step n) = ''*/'' @ show_int n"
| "show_field (Values ns) = commas (map show_int ns)"

fun field_ok :: "cron_field \<Rightarrow> bool" where
  "field_ok Every = True"
| "field_ok (Step n) = (n \<noteq> 0)"
| "field_ok (Values ns) = (ns \<noteq> [] \<and> (\<forall>n \<in> set ns. length (show_int n) < 10))"

fun field_matches :: "cron_field \<Rightarrow> int \<Rightarrow> bool" where
  "field_matches Every t = True"
| "field_matches (Step n) t = (n dvd t)"
| "field_matches (Values ns) t = (t \<in> set ns)"

lemma smod_0_iff_dvd: "b \<noteq> 0 \<Longrightarrow> a smod b = 0 \<longleftrightarrow> b dvd (a::int)"
  by (simp add: smod_int_alt_def sgn_if flip: dvd_eq_mod_eq_0)

lemma show_int_comma [simp]: "CHR '','' \<notin> set (show_int n)"
  using show_int_chars [of "CHR '',''" n] by auto

lemma show_int_star: "show_int n \<noteq> CHR ''*'' # s"
proof
  assume "show_int n = CHR ''*'' # s"
  then have "CHR ''*'' \<in> set (show_int n)" by simp
  then show False using show_int_chars [of "CHR ''*''" n] by auto
qed

lemma list_equ_values:
  "ns \<noteq> [] \<Longrightarrow> \<forall>n \<in> set ns. length (show_int n) < 10 \<Longrightarrow>
   list_equ t (commas (map show_int ns)) = Some (t \<in> set ns)"
proof (induction ns rule: induct_list012)
  case (2 n)
  then show ?case by (subst list_equ.simps) auto
next
  case (3 n m ns)
  have "strchr (commas (map show_int (n # m # ns))) (CHR '','') = Some (show_int n, commas (map show_int (m # ns)))"
    by simp
  then show ?case using "3.IH"(2) "3.prems" by (subst list_equ.simps) auto
qed simp

lemma if_time_equ_field:
  assumes "field_ok f"
  shows "if_time_equ t (show_field f) = Some (field_matches f t)"
proof (cases f)
  case Every
  then show ?thesis by (simp add: if_time_equ_def)
next
  case (Step n)
  then show ?thesis using assms by (simp add: if_time_equ_def strneq_def smod_0_iff_dvd)
next
  case (Values ns)
  then obtain n ms where ns: "ns = n # ms" using assms by (cases ns) auto
  obtain r where r: "commas (map show_int ns) = show_int n @ r" by (cases ms) (auto simp: ns)
  obtain c cs where c: "show_int n = c # cs" using show_int_ne by (cases "show_int n") auto
  have "c \<noteq> CHR ''*''" using show_int_star [of n cs] c by auto
  then have 1: "commas (map show_int ns) \<noteq> ''*''" "\<not> strneq (commas (map show_int ns)) ''*/'' 2"
    by (auto simp: r c strneq_def)
  show ?thesis
  proof (cases "strchr (commas (map show_int ns)) (CHR '','') = None")
    case True
    then have "list_equ t (commas (map show_int ns)) = Some (atoi (commas (map show_int ns)) = t)"
      by (subst list_equ.simps) simp
    then show ?thesis using list_equ_values [of ns t] assms Values 1 True by (simp add: if_time_equ_def)
  next
    case False
    then show ?thesis
      using list_equ_values [of ns t] assms Values 1 unfolding if_time_equ_def by auto
  qed
qed

text \<open>
  A schedule fires when its fields say so. For month, day, hour and minute written as \<open>*\<close>,
  \<open>*/n\<close>, a number or a list of numbers of fewer than ten characters, \<open>_sch_internal_if_exec\<close>
  answers whether each field matches; the month is compared with \<open>tm_mon\<close>, which counts from 0.
\<close>

theorem if_exec_fields:
  assumes "field_ok a" "field_ok b" "field_ok c" "field_ok d"
  shows "sch_internal_if_exec t \<lparr>sch_id = i, sch_month = show_field a, sch_day = show_field b,
      sch_hour = show_field c, sch_min = show_field d\<rparr> =
    Some (field_matches a (tm_mon t) \<and> field_matches b (tm_mday t) \<and>
      field_matches c (tm_hour t) \<and> field_matches d (tm_min t))"
  using assms by (auto simp: sch_internal_if_exec_def if_time_equ_field)

theorem if_exec_fields_witness:
  "sch_internal_if_exec (localtime 0 0) \<lparr>sch_id = 7, sch_month = show_field Every, sch_day = show_field (Step 2),
      sch_hour = show_field (Values [3]), sch_min = show_field (Values [0, 30])\<rparr> =
    Some (2 dvd tm_mday (localtime 0 0) \<and> tm_hour (localtime 0 0) = 3 \<and> tm_min (localtime 0 0) \<in> {0, 30})"
  using if_exec_fields [of Every "Step 2" "Values [3]" "Values [0, 30]" "localtime 0 0" 7]
  by (simp add: show_int_def show_nat.simps)

text \<open>A task for December, month 12, never fires; one for month 1 fires in February.\<close>

lemma december_never_fires:
  assumes "tm_mon t < 12"
  shows "sch_internal_if_exec t \<lparr>sch_id = i, sch_month = show_field (Values [12]), sch_day = b, sch_hour = c, sch_min = d\<rparr> = Some False"
proof -
  have "field_ok (Values [12])" by (simp add: show_int_def show_nat.simps)
  then have "if_time_equ (tm_mon t) (show_field (Values [12])) = Some (field_matches (Values [12]) (tm_mon t))"
    by (rule if_time_equ_field)
  then show ?thesis using assms(1) by (simp add: sch_internal_if_exec_def)
qed

text \<open>A number of ten characters or more in a list has no defined result.\<close>

lemma long_list_number: "10 \<le> length s \<Longrightarrow> CHR '','' \<notin> set s \<Longrightarrow> list_equ t (s @ CHR '','' # r) = None"
  by (subst list_equ.simps) simp

end
