(* ===== verification/Schedule.thy ===== *)
theory Schedule
  imports Cron
begin

text \<open>
  \<open>schedule.c\<close>: the scheduler process. Its list of tasks, the messages other processes send it
  (\<open>TMSG\<close>, 256 bytes), the reaction to a message, the check of the schedules, and one turn of
  \<open>_sch_internal_main_loop\<close>. The tasks it started are its children; they, and the command line,
  append to its queue between turns. A linked list is a HOL list; \<open>palloc\<close> is taken to succeed,
  and log lines and prints are left out.
\<close>

section \<open>The list of tasks\<close>

datatype sch_status = STOP | RUN

record sch_entry =
  se_item :: SCHEDULE_ITEM
  se_status :: sch_status
  se_pid :: int

abbreviation se_id :: "sch_entry \<Rightarrow> int" where
  "se_id e \<equiv> sch_id (se_item e)"

definition new_entry :: "SCHEDULE_ITEM \<Rightarrow> sch_entry" where
  "new_entry it = \<lparr>se_item = it, se_status = STOP, se_pid = 0\<rparr>"

text \<open>A task is appended unless its id is there.\<close>

fun sch_internal_add_item :: "SCHEDULE_ITEM \<Rightarrow> sch_entry list \<Rightarrow> bool \<times> sch_entry list" where
  "sch_internal_add_item it [] = (True, [new_entry it])"
| "sch_internal_add_item it (e # l) =
     (if se_id e = sch_id it then (False, e # l)
      else (case sch_internal_add_item it l of (r, l') \<Rightarrow> (r, e # l')))"

fun sch_internal_del_item :: "int \<Rightarrow> sch_entry list \<Rightarrow> bool \<times> sch_entry list" where
  "sch_internal_del_item i [] = (False, [])"
| "sch_internal_del_item i (e # l) =
     (if se_id e = i then (True, l)
      else (case sch_internal_del_item i l of (r, l') \<Rightarrow> (r, e # l')))"

definition stop_entry :: "sch_entry \<Rightarrow> sch_entry" where
  "stop_entry e = e\<lparr>se_status := STOP, se_pid := 0\<rparr>"

definition sch_internal_son_exit :: "int \<Rightarrow> sch_entry list \<Rightarrow> sch_entry list" where
  "sch_internal_son_exit i = map (\<lambda>e. if se_id e = i then stop_entry e else e)"

text \<open>\<open>memcpy(&_cur->item, ...)\<close> on the first entry of the id.\<close>

fun set_item :: "SCHEDULE_ITEM \<Rightarrow> sch_entry list \<Rightarrow> sch_entry list" where
  "set_item it [] = []"
| "set_item it (e # l) = (if se_id e = sch_id it then e\<lparr>se_item := it\<rparr> # l else e # set_item it l)"

text \<open>\<open>_sch_internal_update_item\<close>: the tasks of the database that changed; flag 0 deletes.\<close>

definition update_one :: "TASK_ITEM \<Rightarrow> sch_entry list \<Rightarrow> sch_entry list" where
  "update_one t l =
     (if sch_id (sch_item t) \<in> set (map se_id l) then
        (if ftp_flag t = 0 then snd (sch_internal_del_item (sch_id (sch_item t)) l) else set_item (sch_item t) l)
      else if ftp_flag t = 1 then snd (sch_internal_add_item (sch_item t) l) else l)"

definition sch_internal_update_item :: "TASK_ITEM list \<Rightarrow> sch_entry list \<Rightarrow> sch_entry list" where
  "sch_internal_update_item ts l = fold update_one ts l"

text \<open>
  \<open>_SCH_DB_RELOAD\<close>. First every task of the database replaces its entry or is added; \<open>cur\<close> is
  the index \<open>_cur\<close> has after the last of them, \<^const>\<open>None\<close> for NULL. The search starts from the
  list as it was at the start: with an empty list it finds nothing.
\<close>

fun reload_walk :: "bool \<Rightarrow> TASK_ITEM list \<Rightarrow> nat option \<Rightarrow> sch_entry list \<Rightarrow> nat option \<times> sch_entry list" where
  "reload_walk none [] cur l = (cur, l)"
| "reload_walk none (t # ts) cur l =
     (if \<not> none \<and> sch_id (sch_item t) \<in> set (map se_id l)
      then reload_walk none ts (Some (length (takeWhile (\<lambda>e. se_id e \<noteq> sch_id (sch_item t)) l))) (set_item (sch_item t) l)
      else reload_walk none ts None (snd (sch_internal_add_item (sch_item t) l)))"

text \<open>
  Then the entries from \<open>_cur\<close> on are deleted when their task is gone. Deleting an entry that is
  not the head clears its \<open>next\<close>, and the loop ends there.
\<close>

fun reload_sweep :: "int list \<Rightarrow> sch_entry list \<Rightarrow> sch_entry list \<Rightarrow> sch_entry list" where
  "reload_sweep ids prev [] = prev"
| "reload_sweep ids prev (c # cs) =
     (if se_id c \<in> set ids then reload_sweep ids (prev @ [c]) cs
      else if prev = [] then reload_sweep ids [] cs
      else snd (sch_internal_del_item (se_id c) (prev @ c # cs)))"

definition sch_db_reload :: "TASK_ITEM list \<Rightarrow> sch_entry list \<Rightarrow> sch_entry list" where
  "sch_db_reload ts l =
     (case reload_walk (l = []) ts (if l = [] then None else Some 0) l of
        (None, l') \<Rightarrow> l'
      | (Some k, l') \<Rightarrow> reload_sweep (map (\<lambda>t. sch_id (sch_item t)) ts) (take k l') (drop k l'))"

section \<open>Messages\<close>

text \<open>
  An \<open>int\<close> in memory, low byte first, and back. (The build files also name AIX, where the high byte comes first; sender
  and receiver are one program on one machine, so that only the byte a request to delete is cut to would be another one.)
\<close>

definition int_bytes :: "int \<Rightarrow> cstring" where
  "int_bytes i = map (\<lambda>k. char_of (i div 256 ^ k)) [0, 1, 2, 3]"

definition bytes_int :: "cstring \<Rightarrow> int" where
  "bytes_int b = signed_take_bit 31 (of_char (b ! 0) + 256 * of_char (b ! 1) + 65536 * of_char (b ! 2) + 16777216 * of_char (b ! 3))"

definition pad_to :: "nat \<Rightarrow> cstring \<Rightarrow> cstring" where
  "pad_to n s = s @ replicate (n - length s) NUL"

text \<open>
  \<open>struct T\<close>: the id and the four fields of 16 bytes. (Behind them lie the function pointer and
  its argument, which are always \<open>start_task\<close> and the id; they are not modelled.)
\<close>

definition item_bytes :: "SCHEDULE_ITEM \<Rightarrow> cstring" where
  "item_bytes it = int_bytes (sch_id it) @ pad_to 16 (sch_month it) @ pad_to 16 (sch_day it) @
     pad_to 16 (sch_hour it) @ pad_to 16 (sch_min it)"

definition item_of_bytes :: "cstring \<Rightarrow> SCHEDULE_ITEM" where
  "item_of_bytes b =
     (let str = (\<lambda>k. takeWhile (\<lambda>c. c \<noteq> NUL) (drop k b)) in
      \<lparr>sch_id = bytes_int (take 4 b), sch_month = str 4, sch_day = str 20, sch_hour = str 36, sch_min = str 52\<rparr>)"

definition schedule_stop :: cstring where "schedule_stop = pad_to 256 [CHR 0x01]"

definition schedule_add_item :: "SCHEDULE_ITEM \<Rightarrow> cstring" where
  "schedule_add_item it = pad_to 256 (CHR 0x02 # item_bytes it)"

text \<open>\<open>*(msg._cmd_buf+1)=__id\<close> stores one byte.\<close>

definition schedule_del_item :: "int \<Rightarrow> cstring" where
  "schedule_del_item i = pad_to 256 [CHR 0x03, char_of i]"

definition sch_internal_son_exit_msg :: "int \<Rightarrow> int \<Rightarrow> cstring" where
  "sch_internal_son_exit_msg i pid = pad_to 256 (CHR 0x05 # int_bytes i @ int_bytes pid)"

definition schedule_reload :: cstring where "schedule_reload = pad_to 256 [CHR 0x06]"

datatype sch_cmd = CmdStop | CmdAdd SCHEDULE_ITEM | CmdDel int | CmdSonStop int int | CmdReload | CmdOther

definition decode_msg :: "cstring \<Rightarrow> sch_cmd" where
  "decode_msg m =
     (let cmd = hd m; arg = tl m in
      if cmd = CHR 0x01 then CmdStop
      else if cmd = CHR 0x02 then CmdAdd (item_of_bytes arg)
      else if cmd = CHR 0x03 then CmdDel (bytes_int (take 4 arg))
      else if cmd = CHR 0x05 then CmdSonStop (bytes_int (take 4 arg)) (bytes_int (take 4 (drop 4 arg)))
      else if cmd = CHR 0x06 then CmdReload
      else CmdOther)"

section \<open>The process\<close>

record sched =
  sc_list :: "sch_entry list"
  sc_queue :: "cstring list"
  sc_kids :: "(int \<times> int) list"
  sc_live :: bool
  sc_last :: time_t
  sc_reload :: time_t

text \<open>
  \<open>_sch_internal_msg\<close>; \<open>ts\<close> is what \<open>creat_task_list\<close> would load. Stopping waits for the
  children and removes the queue. A failing \<open>msgrcv\<close> stops the scheduler too.
\<close>

definition handle_cmd :: "TASK_ITEM list \<Rightarrow> sch_cmd \<Rightarrow> sched \<Rightarrow> sched" where
  "handle_cmd ts cmd s =
     (case cmd of
        CmdStop \<Rightarrow> s\<lparr>sc_kids := [], sc_queue := [], sc_live := False\<rparr>
      | CmdAdd it \<Rightarrow> s\<lparr>sc_list := snd (sch_internal_add_item it (sc_list s))\<rparr>
      | CmdDel i \<Rightarrow> s\<lparr>sc_list := snd (sch_internal_del_item i (sc_list s))\<rparr>
      | CmdSonStop i pid \<Rightarrow> s\<lparr>sc_list := sch_internal_son_exit i (sc_list s)\<rparr>
      | CmdReload \<Rightarrow> s\<lparr>sc_list := sch_db_reload ts (sc_list s)\<rparr>
      | CmdOther \<Rightarrow> s)"

definition sch_internal_msg :: "bool \<Rightarrow> TASK_ITEM list \<Rightarrow> sched \<Rightarrow> sched" where
  "sch_internal_msg err ts s =
     (if err then handle_cmd ts CmdStop s
      else (case sc_queue s of
              [] \<Rightarrow> s
            | m # q \<Rightarrow> handle_cmd ts (decode_msg m) (s\<lparr>sc_queue := q\<rparr>)))"

text \<open>\<open>_sch_internal_start_item\<close> in the parent; \<open>pid\<close> is what \<open>fork\<close> returned.\<close>

definition sch_internal_start_item :: "int \<Rightarrow> sch_entry \<Rightarrow> sch_entry \<times> (int \<times> int) list" where
  "sch_internal_start_item pid e =
     (if pid < 0 then (e, []) else (e\<lparr>se_status := RUN, se_pid := pid\<rparr>, [(se_id e, pid)]))"

fun check_tasks :: "tm \<Rightarrow> (int \<Rightarrow> int) \<Rightarrow> sch_entry list \<Rightarrow> (sch_entry list \<times> (int \<times> int) list) option" where
  "check_tasks t fork [] = Some ([], [])"
| "check_tasks t fork (e # l) =
     do {
       due \<leftarrow> (if se_status e = RUN then Some False else sch_internal_if_exec t (se_item e));
       (case (if due then sch_internal_start_item (fork (se_id e)) e else (e, [])) of
          (e', kids) \<Rightarrow> do { (l', kids') \<leftarrow> check_tasks t fork l; Some (e' # l', kids @ kids') })
     }"

text \<open>
  What one turn of the loop meets: the clock at its four readings, the interval settings, the
  changed tasks of the database with their count, the whole list for a reload, \<open>msgrcv\<close>
  failing, and the answers of \<open>fork\<close> by task id.
\<close>

record loop_env =
  le_t1 :: time_t
  le_t2 :: time_t
  le_t3 :: time_t
  le_t4 :: time_t
  le_interval :: int
  le_reload_interval :: int
  le_count :: int
  le_changed :: "TASK_ITEM list"
  le_tasks :: "TASK_ITEM list"
  le_err :: bool
  le_fork :: "int \<Rightarrow> int"

definition main_reload :: "loop_env \<Rightarrow> sched \<Rightarrow> sched" where
  "main_reload env s =
     (if le_t1 env - sc_reload s \<ge> le_reload_interval env then
        s\<lparr>sc_list := (if 0 < le_count env then sch_internal_update_item (le_changed env) (sc_list s) else sc_list s),
          sc_reload := le_t2 env\<rparr>
      else s)"

definition main_check :: "int \<Rightarrow> loop_env \<Rightarrow> sched \<Rightarrow> sched option" where
  "main_check tz env s =
     (if le_t3 env - sc_last s \<ge> le_interval env then
        do {
          (l, kids) \<leftarrow> check_tasks (localtime tz (le_t4 env)) (le_fork env) (sc_list s);
          Some (s\<lparr>sc_last := le_t4 env, sc_list := l, sc_kids := sc_kids s @ kids\<rparr>)
        }
      else Some s)"

definition main_loop_turn :: "int \<Rightarrow> loop_env \<Rightarrow> sched \<Rightarrow> sched option" where
  "main_loop_turn tz env s =
     (let s2 = sch_internal_msg (le_err env) (le_tasks env) (main_reload env s) in
      if \<not> sc_live s2 then Some s2 else main_check tz env s2)"

text \<open>
  The steps of the system: a message from the command line, a child that posts its end or dies
  without a word, a turn of the loop. A child that posts its end calls \<open>exit\<close> next; \<open>kid_exit\<close> is both calls in one step.
\<close>

datatype sch_action = AddCmd SCHEDULE_ITEM | DelCmd int | StopCmd | ReloadCmd | KidExit int int | KidDies int int | Turn loop_env

inductive sched_step :: "int \<Rightarrow> sch_action \<Rightarrow> sched \<Rightarrow> sched \<Rightarrow> bool" where
  add: "sc_live s \<Longrightarrow> sched_step tz (AddCmd it) s (s\<lparr>sc_queue := sc_queue s @ [schedule_add_item it]\<rparr>)"
| del: "sc_live s \<Longrightarrow> sched_step tz (DelCmd i) s (s\<lparr>sc_queue := sc_queue s @ [schedule_del_item i]\<rparr>)"
| stop: "sc_live s \<Longrightarrow> sched_step tz StopCmd s (s\<lparr>sc_queue := sc_queue s @ [schedule_stop]\<rparr>)"
| reload: "sc_live s \<Longrightarrow> sched_step tz ReloadCmd s (s\<lparr>sc_queue := sc_queue s @ [schedule_reload]\<rparr>)"
| kid_exit: "sc_live s \<Longrightarrow> sc_kids s = ks @ (i, p) # ks' \<Longrightarrow>
    sched_step tz (KidExit i p) s (s\<lparr>sc_kids := ks @ ks', sc_queue := sc_queue s @ [sch_internal_son_exit_msg i p]\<rparr>)"
| kid_dies: "sc_live s \<Longrightarrow> sc_kids s = ks @ (i, p) # ks' \<Longrightarrow> sched_step tz (KidDies i p) s (s\<lparr>sc_kids := ks @ ks'\<rparr>)"
| turn: "sc_live s \<Longrightarrow> main_loop_turn tz env s = Some s' \<Longrightarrow> sched_step tz (Turn env) s s'"

inductive_cases AddE [elim!]: "sched_step tz (AddCmd it) s s'"
inductive_cases DelE [elim!]: "sched_step tz (DelCmd i) s s'"
inductive_cases StopE [elim!]: "sched_step tz StopCmd s s'"
inductive_cases ReloadE [elim!]: "sched_step tz ReloadCmd s s'"
inductive_cases KidExitE [elim!]: "sched_step tz (KidExit i p) s s'"
inductive_cases KidDiesE [elim!]: "sched_step tz (KidDies i p) s s'"
inductive_cases TurnE [elim!]: "sched_step tz (Turn env) s s'"

inductive sched_run :: "int \<Rightarrow> sched \<Rightarrow> sch_action list \<Rightarrow> sched \<Rightarrow> bool" where
  none: "sched_run tz s [] s"
| more: "sched_step tz a s s1 \<Longrightarrow> sched_run tz s1 as s' \<Longrightarrow> sched_run tz s (a # as) s'"

inductive_simps sched_run_simps [simp]: "sched_run tz s [] s'" "sched_run tz s (a # as) s'"

lemma sched_run_invariant:
  "sched_run tz s as s' \<Longrightarrow> (\<And>a s s'. a \<in> set as \<Longrightarrow> I s \<Longrightarrow> sched_step tz a s s' \<Longrightarrow> I s') \<Longrightarrow> I s \<Longrightarrow> I s'"
  by (induction rule: sched_run.induct) (meson list.set_intros)+

section \<open>Messages arrive as they were sent\<close>

definition int32 :: "int \<Rightarrow> bool" where
  "int32 i = (- (2 ^ 31) \<le> i \<and> i < 2 ^ 31)"

lemma bytes_int32: "int32 (bytes_int b)"
  using signed_take_bit_int_less_exp [of 31] signed_take_bit_int_greater_eq_minus_exp [of 31]
  by (simp only: bytes_int_def int32_def)

lemma int_bytes_length [simp]: "length (int_bytes i) = 4"
  by (simp add: int_bytes_def)

lemma int_bytes_nth:
  "of_char (int_bytes i ! 0) = i mod 256" "of_char (int_bytes i ! 1) = i div 256 mod 256"
  "of_char (int_bytes i ! 2) = i div 65536 mod 256" "of_char (int_bytes i ! 3) = i div 16777216 mod 256"
  by (simp_all add: int_bytes_def)

lemma bytes_int_bytes:
  assumes "int32 i"
  shows "bytes_int (int_bytes i) = i"
proof -
  have "i mod (256 * 256) = 256 * (i div 256 mod 256) + i mod 256"
    "i mod (65536 * 256) = 65536 * (i div 65536 mod 256) + i mod 65536"
    "i mod (16777216 * 256) = 16777216 * (i div 16777216 mod 256) + i mod 16777216"
    by (rule zmod_zmult2_eq; simp)+
  then have "i mod 256 + 256 * (i div 256 mod 256) + 65536 * (i div 65536 mod 256) + 16777216 * (i div 16777216 mod 256) = take_bit 32 i"
    by (simp add: take_bit_eq_mod)
  then have "bytes_int (int_bytes i) = signed_take_bit 31 (take_bit 32 i)"
    by (simp only: bytes_int_def int_bytes_nth)
  also have "\<dots> = signed_take_bit 31 i" by (simp add: signed_take_bit_take_bit)
  also have "\<dots> = i" using assms by (intro signed_take_bit_int_eq_self) (auto simp: int32_def)
  finally show ?thesis .
qed

lemma bytes_int_take: "int32 i \<Longrightarrow> bytes_int (take 4 (int_bytes i @ r)) = i"
  by (simp add: bytes_int_bytes)

definition item_ok :: "SCHEDULE_ITEM \<Rightarrow> bool" where
  "item_ok it = (int32 (sch_id it) \<and>
     (\<forall>f \<in> {sch_month it, sch_day it, sch_hour it, sch_min it}. length f < 16 \<and> NUL \<notin> set f))"

lemma pad_to_length [simp]: "length s \<le> n \<Longrightarrow> length (pad_to n s) = n"
  by (simp add: pad_to_def)

lemma pad_field:
  assumes "length f < n" and "NUL \<notin> set f"
  shows "takeWhile (\<lambda>c. c \<noteq> NUL) (pad_to n f @ r) = f"
proof -
  obtain k where "n - length f = Suc k" using assms(1) by (metis Suc_diff_Suc)
  then have "pad_to n f @ r = f @ NUL # replicate k NUL @ r" by (simp add: pad_to_def)
  then show ?thesis using assms(2) by (simp only:) (rule takeWhile_stop; auto)
qed

lemma item_bytes_back:
  assumes "item_ok it"
  shows "item_of_bytes (item_bytes it @ r) = it"
proof -
  obtain i mo da ho mi where it: "it = \<lparr>sch_id = i, sch_month = mo, sch_day = da, sch_hour = ho, sch_min = mi\<rparr>"
    by (cases it)
  have l: "length mo < 16" "length da < 16" "length ho < 16" "length mi < 16" "int32 i"
    and n: "NUL \<notin> set mo" "NUL \<notin> set da" "NUL \<notin> set ho" "NUL \<notin> set mi"
    using assms by (simp_all add: item_ok_def it)
  let ?b = "item_bytes it @ r"
  have b: "?b = int_bytes i @ pad_to 16 mo @ pad_to 16 da @ pad_to 16 ho @ pad_to 16 mi @ r"
    by (simp add: item_bytes_def it)
  have "bytes_int (take 4 ?b) = i" using l(5) by (simp add: b bytes_int_bytes)
  moreover have "drop 4 ?b = pad_to 16 mo @ pad_to 16 da @ pad_to 16 ho @ pad_to 16 mi @ r"
    "drop 20 ?b = pad_to 16 da @ pad_to 16 ho @ pad_to 16 mi @ r"
    "drop 36 ?b = pad_to 16 ho @ pad_to 16 mi @ r" "drop 52 ?b = pad_to 16 mi @ r"
    using l by (simp_all add: b)
  ultimately show ?thesis
    using l n by (simp add: item_of_bytes_def Let_def pad_field it del: drop_append take_append)
qed

lemma item_bytes_length: "item_ok it \<Longrightarrow> length (item_bytes it) = 68"
  by (simp add: item_bytes_def item_ok_def)

lemma decode_add: "item_ok it \<Longrightarrow> decode_msg (schedule_add_item it) = CmdAdd it"
  using item_bytes_back [of it] by (simp add: decode_msg_def schedule_add_item_def pad_to_def)

lemma decode_stop: "decode_msg schedule_stop = CmdStop"
  by (simp add: decode_msg_def schedule_stop_def pad_to_def)

lemma decode_reload: "decode_msg schedule_reload = CmdReload"
  by (simp add: decode_msg_def schedule_reload_def pad_to_def)

lemma decode_del: "decode_msg (schedule_del_item i) = CmdDel (i mod 256)"
proof -
  have "bytes_int (char_of i # NUL # NUL # NUL # s) = i mod 256" for s
  proof -
    have "bytes_int (char_of i # NUL # NUL # NUL # s) = signed_take_bit 31 (i mod 256)"
      by (simp add: bytes_int_def nth_Cons')
    also have "\<dots> = i mod 256"
      by (rule signed_take_bit_int_eq_self) (auto intro: order.strict_trans1 [OF _ pos_mod_bound, of _ 256] order_trans [OF _ pos_mod_sign, of 256])
    finally show ?thesis .
  qed
  then show ?thesis by (simp add: decode_msg_def schedule_del_item_def pad_to_def numeral_eq_Suc)
qed

lemma decode_son_exit:
  assumes "int32 i" and "int32 pid"
  shows "decode_msg (sch_internal_son_exit_msg i pid) = CmdSonStop i pid"
proof -
  have "pad_to 256 (CHR 0x05 # int_bytes i @ int_bytes pid) = CHR 0x05 # int_bytes i @ int_bytes pid @ replicate 247 NUL"
    by (simp add: pad_to_def)
  then show ?thesis using assms by (simp add: decode_msg_def sch_internal_son_exit_msg_def bytes_int_bytes)
qed

text \<open>
  C31. Messages arrive as they were sent (integers in memory with the low byte first). A schedule whose id fits an \<open>int\<close> and whose fields fit
  their 16 bytes is added as it is, an ending task reports its own id and process; but a request
  to delete carries one byte of the id only.
\<close>

theorem messages_arrive:
  assumes "item_ok it" and "int32 i" and "int32 pid"
  shows "decode_msg (schedule_add_item it) = CmdAdd it \<and>
    decode_msg (sch_internal_son_exit_msg i pid) = CmdSonStop i pid \<and>
    decode_msg (schedule_del_item i) = CmdDel (i mod 256) \<and>
    decode_msg schedule_stop = CmdStop \<and> decode_msg schedule_reload = CmdReload"
  using assms by (simp add: decode_add decode_son_exit decode_del decode_stop decode_reload)

theorem messages_arrive_witness:
  "decode_msg (schedule_del_item 300) = CmdDel 44"
  using messages_arrive [of "\<lparr>sch_id = 7, sch_month = ''*'', sch_day = ''*'', sch_hour = ''*'', sch_min = ''*''\<rparr>" 300 1]
  by (simp add: item_ok_def int32_def)

section \<open>The list is a table\<close>

definition ids :: "sch_entry list \<Rightarrow> int list" where
  "ids l = map se_id l"

definition entry_of :: "sch_entry list \<Rightarrow> int \<Rightarrow> sch_entry option" where
  "entry_of l i = List.find (\<lambda>e. se_id e = i) l"

lemma entry_of_simps [simp]:
  "entry_of [] i = None" "entry_of (e # l) i = (if se_id e = i then Some e else entry_of l i)"
  by (simp_all add: entry_of_def)

lemma ids_simps [simp]: "ids [] = []" "ids (e # l) = se_id e # ids l" "ids (l @ l') = ids l @ ids l'"
  by (simp_all add: ids_def)

lemma entry_of_None: "entry_of l i = None \<longleftrightarrow> i \<notin> set (ids l)"
  by (induction l) auto

lemma entry_of_in: "e \<in> set l \<Longrightarrow> se_id e \<in> set (ids l)"
  by (induction l) auto

lemma add_item_eq:
  "sch_internal_add_item it l = (if sch_id it \<in> set (ids l) then (False, l) else (True, l @ [new_entry it]))"
  by (induction l) (auto split: prod.splits)

lemma del_item_ids:
  assumes "distinct (ids l)"
  shows "ids (snd (sch_internal_del_item i l)) = filter (\<lambda>j. j \<noteq> i) (ids l)"
  using assms by (induction l) (auto split: prod.splits intro!: filter_True [symmetric] filter_id_conv [THEN iffD2])

lemma set_item_ids: "ids (set_item it l) = ids l"
  by (induction l) auto

lemma son_exit_ids: "ids (sch_internal_son_exit i l) = ids l"
  by (induction l) (auto simp: sch_internal_son_exit_def stop_entry_def)

lemma entry_of_append: "entry_of (l @ l') i = (case entry_of l i of None \<Rightarrow> entry_of l' i | Some e \<Rightarrow> Some e)"
  by (induction l) auto

lemma entry_of_add:
  "entry_of (snd (sch_internal_add_item it l)) =
    (if entry_of l (sch_id it) = None then (entry_of l)(sch_id it \<mapsto> new_entry it) else entry_of l)"
proof
  fix x
  show "entry_of (snd (sch_internal_add_item it l)) x =
    (if entry_of l (sch_id it) = None then (entry_of l)(sch_id it \<mapsto> new_entry it) else entry_of l) x"
    using entry_of_None [of l x] entry_of_None [of l "sch_id it"]
    by (auto simp: add_item_eq entry_of_append new_entry_def split: option.splits)
qed

lemma entry_of_del: "distinct (ids l) \<Longrightarrow> entry_of (snd (sch_internal_del_item i l)) = (entry_of l)(i := None)"
proof (induction l)
  case (Cons e l)
  show ?case
  proof (cases "se_id e = i")
    case True
    then have "entry_of l i = None" using Cons.prems by (simp add: entry_of_None)
    then show ?thesis using True by (auto simp: fun_eq_iff)
  next
    case False
    then show ?thesis using Cons by (auto simp: fun_eq_iff split: prod.splits)
  qed
qed (simp add: fun_eq_iff)

lemma entry_of_set_item:
  "entry_of (set_item it l) = (entry_of l)(sch_id it := map_option (\<lambda>e. e\<lparr>se_item := it\<rparr>) (entry_of l (sch_id it)))"
  by (induction l) (auto simp: fun_eq_iff)

lemma entry_of_son_exit: "entry_of (sch_internal_son_exit i l) = (entry_of l)(i := map_option stop_entry (entry_of l i))"
  by (induction l) (auto simp: fun_eq_iff sch_internal_son_exit_def stop_entry_def)

end
