(* ===== verification/Schedule_Run.thy ===== *)
theory Schedule_Run
  imports Schedule
begin

text \<open>
  What the scheduler keeps: its list is a table from ids to entries (the contract
  \<open>task_table\<close>), a task has at most one process unless tasks are deleted, and what a reload from
  the database does.
\<close>

section \<open>The contract of a task table\<close>

datatype ('i, 'k) table_op = Put 'i | Del 'k | Halt 'k | Replace 'i

fun table_step :: "('i \<Rightarrow> 't \<Rightarrow> 't) \<Rightarrow> ('k \<Rightarrow> 't \<Rightarrow> 't) \<Rightarrow> ('k \<Rightarrow> 't \<Rightarrow> 't) \<Rightarrow> ('i \<Rightarrow> 't \<Rightarrow> 't) \<Rightarrow> ('i, 'k) table_op \<Rightarrow> 't \<Rightarrow> 't" where
  "table_step put del halt repl (Put i) t = put i t"
| "table_step put del halt repl (Del k) t = del k t"
| "table_step put del halt repl (Halt k) t = halt k t"
| "table_step put del halt repl (Replace i) t = repl i t"

text \<open>The same operations on a map.\<close>

fun map_step :: "('i \<Rightarrow> 'k) \<Rightarrow> ('i \<Rightarrow> 'e) \<Rightarrow> ('e \<Rightarrow> 'e) \<Rightarrow> ('i \<Rightarrow> 'e \<Rightarrow> 'e) \<Rightarrow> ('i, 'k) table_op \<Rightarrow> ('k \<rightharpoonup> 'e) \<Rightarrow> ('k \<rightharpoonup> 'e)" where
  "map_step key fresh stopped set_it (Put i) m = (if m (key i) = None then m(key i \<mapsto> fresh i) else m)"
| "map_step key fresh stopped set_it (Del k) m = m(k := None)"
| "map_step key fresh stopped set_it (Halt k) m = m(k := map_option stopped (m k))"
| "map_step key fresh stopped set_it (Replace i) m = m(key i := map_option (set_it i) (m (key i)))"

locale task_table =
  fixes inv :: "'t \<Rightarrow> bool"
    and look :: "'t \<Rightarrow> 'k \<Rightarrow> 'e option"
    and put :: "'i \<Rightarrow> 't \<Rightarrow> 't"
    and del :: "'k \<Rightarrow> 't \<Rightarrow> 't"
    and halt :: "'k \<Rightarrow> 't \<Rightarrow> 't"
    and repl :: "'i \<Rightarrow> 't \<Rightarrow> 't"
    and key :: "'i \<Rightarrow> 'k"
    and fresh :: "'i \<Rightarrow> 'e"
    and stopped :: "'e \<Rightarrow> 'e"
    and set_it :: "'i \<Rightarrow> 'e \<Rightarrow> 'e"
  assumes put_look: "inv t \<Longrightarrow> look (put i t) = (if look t (key i) = None then (look t)(key i \<mapsto> fresh i) else look t)"
    and del_look: "inv t \<Longrightarrow> look (del k t) = (look t)(k := None)"
    and halt_look: "inv t \<Longrightarrow> look (halt k t) = (look t)(k := map_option stopped (look t k))"
    and repl_look: "inv t \<Longrightarrow> look (repl i t) = (look t)(key i := map_option (set_it i) (look t (key i)))"
    and put_inv: "inv t \<Longrightarrow> inv (put i t)"
    and del_inv: "inv t \<Longrightarrow> inv (del k t)"
    and halt_inv: "inv t \<Longrightarrow> inv (halt k t)"
    and repl_inv: "inv t \<Longrightarrow> inv (repl i t)"
begin

lemma step_inv: "inv t \<Longrightarrow> inv (table_step put del halt repl op t)"
  by (cases op) (simp_all add: put_inv del_inv halt_inv repl_inv)

lemma step_look: "inv t \<Longrightarrow> look (table_step put del halt repl op t) = map_step key fresh stopped set_it op (look t)"
  by (cases op) (simp_all add: put_look del_look halt_look repl_look)

lemma steps_refine:
  "inv t \<Longrightarrow> inv (fold (table_step put del halt repl) ops t) \<and>
    look (fold (table_step put del halt repl) ops t) = fold (map_step key fresh stopped set_it) ops (look t)"
  by (induction ops arbitrary: t) (simp_all add: step_inv step_look)

end

text \<open>The scheduler's list keeps the contract.\<close>

definition table_add :: "SCHEDULE_ITEM \<Rightarrow> sch_entry list \<Rightarrow> sch_entry list" where
  "table_add it l = snd (sch_internal_add_item it l)"

definition table_del :: "int \<Rightarrow> sch_entry list \<Rightarrow> sch_entry list" where
  "table_del i l = snd (sch_internal_del_item i l)"

lemmas table_defs = table_add_def table_del_def

lemma add_distinct: "distinct (ids l) \<Longrightarrow> distinct (ids (snd (sch_internal_add_item it l)))"
  by (simp add: add_item_eq new_entry_def)

interpretation st: task_table "\<lambda>l. distinct (ids l)" entry_of table_add table_del sch_internal_son_exit set_item
  sch_id new_entry stop_entry "\<lambda>it e. e\<lparr>se_item := it\<rparr>"
  by unfold_locales
    (simp_all add: table_defs entry_of_add entry_of_del entry_of_son_exit entry_of_set_item add_distinct del_item_ids son_exit_ids set_item_ids)

abbreviation sch_op :: "(SCHEDULE_ITEM, int) table_op \<Rightarrow> sch_entry list \<Rightarrow> sch_entry list" where
  "sch_op \<equiv> table_step table_add table_del sch_internal_son_exit set_item"

abbreviation map_op :: "(SCHEDULE_ITEM, int) table_op \<Rightarrow> (int \<rightharpoonup> sch_entry) \<Rightarrow> (int \<rightharpoonup> sch_entry)" where
  "map_op \<equiv> map_step sch_id new_entry stop_entry (\<lambda>it e. e\<lparr>se_item := it\<rparr>)"

definition every_minute :: "int \<Rightarrow> SCHEDULE_ITEM" where
  "every_minute i = \<lparr>sch_id = i, sch_month = ''*'', sch_day = ''*'', sch_hour = ''*'', sch_min = ''*''\<rparr>"

text \<open>
  C18. The scheduler's linked list is a map from task ids to entries. Whatever sequence of
  insertions, deletions, stops and replacements it goes through, no id occurs twice, and looking
  an id up gives what the same sequence does to a map.
\<close>

theorem schedule_list_is_map:
  assumes "distinct (ids l)"
  shows "distinct (ids (fold sch_op ops l)) \<and> entry_of (fold sch_op ops l) = fold map_op ops (entry_of l)"
  using st.steps_refine [OF assms] .

theorem schedule_list_is_map_witness:
  "entry_of (fold sch_op [Put (every_minute 7), Put ((every_minute 7)\<lparr>sch_month := ''1''\<rparr>), Put (every_minute 8), Del 7] []) 8 =
    Some (new_entry (every_minute 8))"
  using schedule_list_is_map [of "[]" "[Put (every_minute 7), Put ((every_minute 7)\<lparr>sch_month := ''1''\<rparr>), Put (every_minute 8), Del 7]"]
  by (simp add: every_minute_def)

section \<open>The check starts what is due\<close>

definition starts :: "tm \<Rightarrow> (int \<Rightarrow> int) \<Rightarrow> sch_entry \<Rightarrow> bool" where
  "starts t fork e = (se_status e \<noteq> RUN \<and> sch_internal_if_exec t (se_item e) = Some True \<and> 0 \<le> fork (se_id e))"

definition started :: "tm \<Rightarrow> (int \<Rightarrow> int) \<Rightarrow> sch_entry \<Rightarrow> sch_entry" where
  "started t fork e = (if starts t fork e then e\<lparr>se_status := RUN, se_pid := fork (se_id e)\<rparr> else e)"

lemma check_tasks_result:
  "check_tasks t fork l = Some (l', kids) \<Longrightarrow>
    l' = map (started t fork) l \<and> kids = map (\<lambda>e. (se_id e, fork (se_id e))) (filter (starts t fork) l)"
proof (induction l arbitrary: l' kids)
  case (Cons e l)
  obtain due l1 k1 where c: "(if se_status e = RUN then Some False else sch_internal_if_exec t (se_item e)) = Some due"
    "check_tasks t fork l = Some (l1, k1)"
    "l' = fst (if due then sch_internal_start_item (fork (se_id e)) e else (e, [])) # l1"
    "kids = snd (if due then sch_internal_start_item (fork (se_id e)) e else (e, [])) @ k1"
    using Cons.prems by (auto split: bind_splits prod.splits)
  have "due \<longleftrightarrow> se_status e \<noteq> RUN \<and> sch_internal_if_exec t (se_item e) = Some True"
    using c(1) by (auto split: if_splits)
  then show ?case
    using Cons.IH [OF c(2)] c(3,4) by (auto simp: sch_internal_start_item_def starts_def started_def)
qed simp

lemma started_id [simp]: "se_id (started t fork e) = se_id e"
  by (simp add: started_def)

lemma started_ids [simp]: "ids (map (started t fork) l) = ids l"
  by (induction l) auto

lemma entry_of_started: "entry_of (map (started t fork) l) i = map_option (started t fork) (entry_of l i)"
  by (induction l) auto

text \<open>
  C26. The check starts exactly the tasks that are due: those that do not run, whose four fields
  match the minute, and whose \<open>fork\<close> succeeds get a process and the state RUN; all other entries
  stay as they are.
\<close>

theorem check_starts_due:
  assumes "main_check tz env s = Some s'" and "le_interval env \<le> le_t3 env - sc_last s"
  shows "sc_list s' = map (started (localtime tz (le_t4 env)) (le_fork env)) (sc_list s) \<and>
    sc_kids s' = sc_kids s @ map (\<lambda>e. (se_id e, le_fork env (se_id e)))
      (filter (starts (localtime tz (le_t4 env)) (le_fork env)) (sc_list s)) \<and> sc_last s' = le_t4 env"
proof -
  obtain l kids where c: "check_tasks (localtime tz (le_t4 env)) (le_fork env) (sc_list s) = Some (l, kids)"
    "s' = s\<lparr>sc_last := le_t4 env, sc_list := l, sc_kids := sc_kids s @ kids\<rparr>"
    using assms by (auto simp: main_check_def split: bind_splits)
  show ?thesis using check_tasks_result [OF c(1)] c(2) by simp
qed

lemma every_minute_due [simp]: "sch_internal_if_exec t (every_minute i) = Some True"
  by (simp add: sch_internal_if_exec_def every_minute_def if_time_equ_def)

definition sched_init :: sched where
  "sched_init = \<lparr>sc_list = [], sc_queue = [], sc_kids = [], sc_live = True, sc_last = 0, sc_reload = 0\<rparr>"

definition quiet_env :: "int \<Rightarrow> loop_env" where
  "quiet_env pid = \<lparr>le_t1 = 100, le_t2 = 100, le_t3 = 100, le_t4 = 0, le_interval = 30, le_reload_interval = 1000,
     le_count = 0, le_changed = [], le_tasks = [], le_err = False, le_fork = (\<lambda>_. pid)\<rparr>"

theorem check_starts_due_witness:
  "\<exists>s'. main_check 0 (quiet_env 100) (sched_init\<lparr>sc_list := [new_entry (every_minute 7)]\<rparr>) = Some s' \<and> sc_kids s' = [(7, 100)]"
proof -
  let ?s = "sched_init\<lparr>sc_list := [new_entry (every_minute 7)]\<rparr>"
  obtain s' where s': "main_check 0 (quiet_env 100) ?s = Some s'"
    by (simp add: main_check_def quiet_env_def sched_init_def new_entry_def sch_internal_start_item_def)
  moreover have "sc_kids s' = [(7, 100)]"
    using check_starts_due [OF s']
    by (simp add: quiet_env_def sched_init_def new_entry_def starts_def) (simp add: every_minute_def)
  ultimately show ?thesis by blast
qed

section \<open>One process per task\<close>

text \<open>The ids that processes hold: those of the children, and of the ends not yet read.\<close>

definition exit_of :: "cstring \<Rightarrow> int option" where
  "exit_of m = (case decode_msg m of CmdSonStop i p \<Rightarrow> Some i | _ \<Rightarrow> None)"

definition held :: "sched \<Rightarrow> int list" where
  "held s = map fst (sc_kids s) @ List.map_filter exit_of (sc_queue s)"

definition runs :: "sched \<Rightarrow> int \<Rightarrow> bool" where
  "runs s i = (\<exists>e. entry_of (sc_list s) i = Some e \<and> se_status e = RUN)"

definition sched_safe :: "sched \<Rightarrow> bool" where
  "sched_safe s =
     (distinct (ids (sc_list s)) \<and> (\<forall>i \<in> set (ids (sc_list s)). int32 i) \<and>
      (\<forall>m \<in> set (sc_queue s). decode_msg m \<noteq> CmdReload \<and> (\<forall>i. decode_msg m \<noteq> CmdDel i)) \<and>
      distinct (held s) \<and> (\<forall>i \<in> set (held s). runs s i))"

text \<open>Actions that delete nothing.\<close>

definition no_delete :: "sch_action \<Rightarrow> bool" where
  "no_delete a =
     (case a of
        DelCmd _ \<Rightarrow> False
      | ReloadCmd \<Rightarrow> False
      | Turn env \<Rightarrow> (\<forall>t \<in> set (le_changed env). ftp_flag t \<noteq> 0 \<and> int32 (sch_id (sch_item t)))
      | _ \<Rightarrow> True)"

lemma map_filter_append [simp]: "List.map_filter f (xs @ ys) = List.map_filter f xs @ List.map_filter f ys"
  by (simp add: List.map_filter_def)

lemma map_filter_simps [simp]:
  "List.map_filter f [] = []"
  "List.map_filter f (x # xs) = (case f x of None \<Rightarrow> List.map_filter f xs | Some y \<Rightarrow> y # List.map_filter f xs)"
  by (simp_all add: List.map_filter_def split: option.splits)

lemma decode_add_cmd: "\<exists>it'. decode_msg (schedule_add_item it) = CmdAdd it' \<and> int32 (sch_id it')"
  by (simp add: decode_msg_def schedule_add_item_def pad_to_def item_of_bytes_def bytes_int32)

lemma decode_son_exit_id: "int32 i \<Longrightarrow> \<exists>p'. decode_msg (sch_internal_son_exit_msg i p) = CmdSonStop i p'"
proof -
  assume "int32 i"
  moreover have "pad_to 256 (CHR 0x05 # int_bytes i @ int_bytes p) = CHR 0x05 # int_bytes i @ int_bytes p @ replicate 247 NUL"
    by (simp add: pad_to_def)
  ultimately show ?thesis by (simp add: decode_msg_def sch_internal_son_exit_msg_def bytes_int_bytes)
qed

lemma decode_add_int32: "decode_msg m = CmdAdd it \<Longrightarrow> int32 (sch_id it)"
  by (auto simp: decode_msg_def Let_def item_of_bytes_def bytes_int32 split: if_splits)

lemma entry_of_member: "distinct (ids l) \<Longrightarrow> e \<in> set l \<Longrightarrow> entry_of l (se_id e) = Some e"
  by (induction l) (auto dest: entry_of_in)

text \<open>An insertion or a change keeps the states of the entries.\<close>

definition keeps_running :: "sch_entry list \<Rightarrow> sch_entry list \<Rightarrow> bool" where
  "keeps_running l l' =
     (distinct (ids l') \<and> (\<forall>i \<in> set (ids l'). int32 i) \<and>
      (\<forall>i e. entry_of l i = Some e \<longrightarrow> (\<exists>e'. entry_of l' i = Some e' \<and> se_status e' = se_status e)))"

lemma keeps_add:
  "distinct (ids l) \<Longrightarrow> \<forall>i \<in> set (ids l). int32 i \<Longrightarrow> int32 (sch_id it) \<Longrightarrow> keeps_running l (snd (sch_internal_add_item it l))"
  by (auto simp: keeps_running_def add_item_eq new_entry_def entry_of_append)

lemma keeps_set: "distinct (ids l) \<Longrightarrow> \<forall>i \<in> set (ids l). int32 i \<Longrightarrow> keeps_running l (set_item it l)"
  by (auto simp: keeps_running_def set_item_ids entry_of_set_item)

lemma keeps_update_item:
  assumes "distinct (ids l)" "\<forall>i \<in> set (ids l). int32 i" "\<forall>t \<in> set ts. ftp_flag t \<noteq> 0 \<and> int32 (sch_id (sch_item t))"
  shows "keeps_running l (sch_internal_update_item ts l)"
  using assms
proof (induction ts arbitrary: l)
  case Nil
  then show ?case by (simp add: sch_internal_update_item_def keeps_running_def)
next
  case (Cons t ts)
  have k: "keeps_running l (update_one t l)"
    using Cons.prems keeps_set [of l "sch_item t"] keeps_add [of l "sch_item t"]
    by (auto simp: update_one_def keeps_running_def)
  have "keeps_running (update_one t l) (sch_internal_update_item ts (update_one t l))"
    by (rule Cons.IH) (use k Cons.prems in \<open>auto simp: keeps_running_def\<close>)
  moreover have "sch_internal_update_item (t # ts) l = sch_internal_update_item ts (update_one t l)"
    by (simp add: sch_internal_update_item_def)
  ultimately show ?case using k unfolding keeps_running_def by (metis (no_types, lifting))
qed

lemma safe_keeps:
  assumes "sched_safe s" and "keeps_running (sc_list s) l"
  shows "sched_safe (s\<lparr>sc_list := l\<rparr>)"
  using assms unfolding sched_safe_def keeps_running_def runs_def held_def by (fastforce simp del: set_append)

lemma safe_main_reload:
  assumes "sched_safe s" and "no_delete (Turn env)"
  shows "sched_safe (main_reload env s)"
proof -
  have "keeps_running (sc_list s) (sch_internal_update_item (le_changed env) (sc_list s))"
    using assms by (intro keeps_update_item) (auto simp: sched_safe_def no_delete_def)
  then have "sched_safe (s\<lparr>sc_list := sch_internal_update_item (le_changed env) (sc_list s)\<rparr>)"
    by (rule safe_keeps [OF assms(1)])
  then show ?thesis using assms(1) by (auto simp: main_reload_def sched_safe_def held_def runs_def)
qed

lemma safe_msg:
  assumes "sched_safe s"
  shows "sched_safe (sch_internal_msg err ts s)"
proof (cases "err \<or> sc_queue s = []")
  case True
  then show ?thesis using assms
    by (cases err) (auto simp: sch_internal_msg_def handle_cmd_def sched_safe_def held_def runs_def)
next
  case False
  then obtain m q where q: "sc_queue s = m # q" "\<not> err" by (cases "sc_queue s") auto
  let ?s = "s\<lparr>sc_queue := q\<rparr>"
  have s: "sched_safe ?s"
    using assms q(1) by (auto simp: sched_safe_def held_def runs_def split: option.splits)
  show ?thesis
  proof (cases "decode_msg m")
    case CmdStop
    then show ?thesis using s q by (auto simp: sch_internal_msg_def handle_cmd_def sched_safe_def held_def runs_def)
  next
    case (CmdAdd it)
    have "keeps_running (sc_list ?s) (snd (sch_internal_add_item it (sc_list ?s)))"
      using s decode_add_int32 [OF CmdAdd] by (intro keeps_add) (auto simp: sched_safe_def)
    then have "sched_safe (?s\<lparr>sc_list := snd (sch_internal_add_item it (sc_list ?s))\<rparr>)" by (rule safe_keeps [OF s])
    then show ?thesis using q CmdAdd by (simp add: sch_internal_msg_def handle_cmd_def)
  next
    case (CmdSonStop i p)
    then have h: "held s = map fst (sc_kids s) @ i # List.map_filter exit_of q"
      by (simp add: held_def q(1) exit_of_def)
    then have "i \<notin> set (held ?s)" using assms by (auto simp: sched_safe_def held_def)
    then have "sched_safe (?s\<lparr>sc_list := sch_internal_son_exit i (sc_list s)\<rparr>)"
      using s by (auto simp: sched_safe_def son_exit_ids entry_of_son_exit held_def runs_def)
    then show ?thesis using q CmdSonStop by (simp add: sch_internal_msg_def handle_cmd_def)
  next
    case CmdOther
    then show ?thesis using s q by (simp add: sch_internal_msg_def handle_cmd_def)
  qed (use assms q in \<open>auto simp: sched_safe_def\<close>)
qed

lemma safe_check:
  assumes "sched_safe s" and "main_check tz env s = Some s'"
  shows "sched_safe s'"
proof (cases "le_interval env \<le> le_t3 env - sc_last s")
  case False
  then show ?thesis using assms by (simp add: main_check_def)
next
  case True
  define T where "T = starts (localtime tz (le_t4 env)) (le_fork env)"
  obtain l kids where c: "check_tasks (localtime tz (le_t4 env)) (le_fork env) (sc_list s) = Some (l, kids)"
    "s' = s\<lparr>sc_last := le_t4 env, sc_list := l, sc_kids := sc_kids s @ kids\<rparr>"
    using assms(2) True by (auto simp: main_check_def split: bind_splits)
  have l: "l = map (started (localtime tz (le_t4 env)) (le_fork env)) (sc_list s)"
    and k: "map fst kids = ids (filter T (sc_list s))"
    using check_tasks_result [OF c(1)] by (auto simp: T_def ids_def)
  have d: "distinct (ids (sc_list s))" using assms(1) by (simp add: sched_safe_def)
  have entry: "entry_of (sc_list s) (se_id e) = Some e" if "e \<in> set (sc_list s)" for e
    using d that by (rule entry_of_member)
  have new: "\<exists>e. entry_of (sc_list s) i = Some e \<and> T e" if "i \<in> set (map fst kids)" for i
    using that entry unfolding k by (auto simp: ids_def)
  have old: "\<not> (\<exists>e. entry_of (sc_list s) i = Some e \<and> T e)" if "i \<in> set (held s)" for i
    using assms(1) that by (fastforce simp: sched_safe_def runs_def T_def starts_def)
  have "distinct (map fst kids)" unfolding k using d by (simp add: ids_def distinct_map_filter)
  then have "distinct (held s')"
    using assms(1) new old unfolding c(2) held_def sched_safe_def by auto
  moreover have "runs s' i" if i: "i \<in> set (held s')" for i
  proof -
    have "i \<in> set (held s) \<or> i \<in> set (map fst kids)" using i by (auto simp: c(2) held_def)
    then obtain e where "entry_of (sc_list s) i = Some e" "se_status e = RUN \<or> T e"
      using assms(1) new [of i] unfolding sched_safe_def runs_def by blast
    then show ?thesis by (auto simp: runs_def c(2) l entry_of_started started_def T_def)
  qed
  ultimately show ?thesis using assms(1) by (auto simp: sched_safe_def c(2) l)
qed

lemma safe_step:
  assumes "sched_step tz a s s'" and "no_delete a" and "sched_safe s"
  shows "sched_safe s'"
  using assms(1)
proof cases
  case (add it)
  then show ?thesis using assms(3) decode_add_cmd [of it]
    by (auto simp: sched_safe_def held_def runs_def exit_of_def)
next
  case stop
  then show ?thesis using assms(3) by (auto simp: sched_safe_def held_def runs_def exit_of_def decode_stop)
next
  case (kid_exit ks i p ks')
  then have "i \<in> set (held s)" by (simp add: held_def)
  then have "int32 i" using assms(3) entry_of_None [of "sc_list s" i] by (force simp: sched_safe_def runs_def)
  then obtain p' where "decode_msg (sch_internal_son_exit_msg i p) = CmdSonStop i p'" using decode_son_exit_id by blast
  then show ?thesis using assms(3) kid_exit by (auto simp: sched_safe_def held_def runs_def exit_of_def)
next
  case (kid_dies ks i p ks')
  then show ?thesis using assms(3) by (auto simp: sched_safe_def held_def runs_def)
next
  case (turn env)
  let ?s2 = "sch_internal_msg (le_err env) (le_tasks env) (main_reload env s)"
  have "sched_safe ?s2" by (intro safe_msg safe_main_reload) (use assms turn in auto)
  then show ?thesis using turn safe_check [of ?s2 tz env s'] by (auto simp: main_loop_turn_def Let_def split: if_splits)
qed (use assms(2) in \<open>auto simp: no_delete_def\<close>)

lemma safe_run: "sched_run tz s as s' \<Longrightarrow> \<forall>a \<in> set as. no_delete a \<Longrightarrow> sched_safe s \<Longrightarrow> sched_safe s'"
  by (induction rule: sched_run.induct) (auto intro: safe_step)

lemma safe_init: "sched_safe sched_init"
  by (simp add: sched_safe_def sched_init_def held_def)

text \<open>
  C4. A task has at most one process. While nothing deletes tasks (no delete and no reload
  command, no deletion flag from the database), in every state the scheduler reaches the
  processes it has started and that are alive belong to different tasks, and each of these is
  in the list with state RUN. (A process is alive until it has posted its end: its exit is the call behind the post,
  and the step \<open>kid_exit\<close> takes both at once.)
\<close>

theorem one_process_per_task:
  assumes "sched_run tz sched_init as s" and "\<forall>a \<in> set as. no_delete a"
  shows "distinct (map fst (sc_kids s)) \<and> (\<forall>(i, p) \<in> set (sc_kids s). runs s i)"
proof -
  have s: "sched_safe s" by (rule safe_run [OF assms safe_init])
  have "runs s i" if "(i, p) \<in> set (sc_kids s)" for i p
  proof -
    have "i \<in> fst ` set (sc_kids s)" using that by force
    then show ?thesis using s by (simp add: sched_safe_def held_def)
  qed
  then show ?thesis using s by (auto simp: sched_safe_def held_def)
qed

lemma sched_run_append: "sched_run tz s as s1 \<Longrightarrow> sched_run tz s1 bs s2 \<Longrightarrow> sched_run tz s (as @ bs) s2"
  by (induction rule: sched_run.induct) auto

text \<open>A task is added and started.\<close>

definition demo_started :: sched where
  "demo_started = sched_init\<lparr>sc_list := [\<lparr>se_item = every_minute 7, se_status = RUN, se_pid = 100\<rparr>],
     sc_kids := [(7, 100)]\<rparr>"

lemma every_minute_ok: "int32 i \<Longrightarrow> item_ok (every_minute i)"
  by (simp add: item_ok_def every_minute_def)

lemma demo_turn:
  assumes "sc_live s" "sc_list s = []" "sc_queue s = [schedule_add_item (every_minute 7)]" "sc_last s = 0" "sc_reload s = 0" "0 \<le> pid"
  shows "main_loop_turn 0 (quiet_env pid) s =
    Some (s\<lparr>sc_list := [\<lparr>se_item = every_minute 7, se_status = RUN, se_pid = pid\<rparr>], sc_queue := [], sc_kids := sc_kids s @ [(7, pid)]\<rparr>)"
  using assms decode_add [of "every_minute 7"] every_minute_ok [of 7]
  by (simp add: main_loop_turn_def main_reload_def main_check_def quiet_env_def sch_internal_msg_def handle_cmd_def
      new_entry_def sch_internal_start_item_def int32_def Let_def)
    (simp add: every_minute_def)

lemma demo_start_run: "sched_run 0 sched_init [AddCmd (every_minute 7), Turn (quiet_env 100)] demo_started"
proof -
  let ?s = "sched_init\<lparr>sc_queue := [schedule_add_item (every_minute 7)]\<rparr>"
  have 1: "sched_step 0 (AddCmd (every_minute 7)) sched_init ?s"
    using sched_step.add [of sched_init 0 "every_minute 7"] by (simp add: sched_init_def)
  have "main_loop_turn 0 (quiet_env 100) ?s = Some demo_started"
    using demo_turn [of ?s 100] by (simp add: sched_init_def demo_started_def)
  then have 2: "sched_step 0 (Turn (quiet_env 100)) ?s demo_started"
    by (intro sched_step.turn) (simp add: sched_init_def)
  show ?thesis by (rule sched_run.more [OF 1 sched_run.more [OF 2 sched_run.none]])
qed

theorem one_process_per_task_witness:
  "sc_kids demo_started = [(7, 100)] \<and> distinct (map fst (sc_kids demo_started)) \<and> runs demo_started 7"
proof -
  have "sc_kids demo_started = [(7, 100)]" by (simp add: demo_started_def)
  then show ?thesis
    using one_process_per_task [OF demo_start_run] by (simp add: no_delete_def quiet_env_def)
qed

text \<open>
  Deleting a running task and adding it again gives it a second process: the deletion
  forgets the entry, and with it that the task runs.
\<close>

theorem delete_and_add_runs_twice:
  "\<exists>as s. sched_run 0 sched_init as s \<and> sc_kids s = [(7, 100), (7, 200)]"
proof -
  let ?s1 = "demo_started\<lparr>sc_queue := [schedule_del_item 7]\<rparr>"
  let ?e = "(quiet_env 0)\<lparr>le_interval := 1000\<rparr>"
  let ?s2 = "demo_started\<lparr>sc_list := [], sc_queue := []\<rparr>"
  let ?s3 = "?s2\<lparr>sc_queue := [schedule_add_item (every_minute 7)]\<rparr>"
  let ?s4 = "?s3\<lparr>sc_list := [\<lparr>se_item = every_minute 7, se_status = RUN, se_pid = 200\<rparr>], sc_queue := [], sc_kids := sc_kids ?s3 @ [(7, 200)]\<rparr>"
  have 1: "sched_step 0 (DelCmd 7) demo_started ?s1"
    using sched_step.del [of demo_started 0 7] by (simp add: demo_started_def sched_init_def)
  have "main_loop_turn 0 ?e ?s1 = Some ?s2"
    by (simp add: main_loop_turn_def main_reload_def main_check_def quiet_env_def sch_internal_msg_def handle_cmd_def
        decode_del demo_started_def sched_init_def every_minute_def)
  then have 2: "sched_step 0 (Turn ?e) ?s1 ?s2" by (intro sched_step.turn) (simp add: demo_started_def sched_init_def)
  have 3: "sched_step 0 (AddCmd (every_minute 7)) ?s2 ?s3"
    using sched_step.add [of ?s2 0 "every_minute 7"] by (simp add: demo_started_def sched_init_def)
  have "main_loop_turn 0 (quiet_env 200) ?s3 = Some ?s4"
    using demo_turn [of ?s3 200] by (simp add: demo_started_def sched_init_def)
  then have 4: "sched_step 0 (Turn (quiet_env 200)) ?s3 ?s4" by (intro sched_step.turn) (simp add: demo_started_def sched_init_def)
  note sched_run.more [OF 1 sched_run.more [OF 2 sched_run.more [OF 3 sched_run.more [OF 4 sched_run.none]]]]
  note sched_run_append [OF demo_start_run this]
  moreover have "sc_kids ?s4 = [(7, 100), (7, 200)]" by (simp add: demo_started_def)
  ultimately show ?thesis by blast
qed

text \<open>
  A task whose only process died without its message: its entry stays RUN, so the check passes
  it over.
\<close>

definition ghost :: "int \<Rightarrow> sched \<Rightarrow> sched" where
  "ghost i s = s\<lparr>sc_kids := (i, 0) # sc_kids s\<rparr>"

lemma ghost_msg:
  "sch_internal_msg err ts (ghost i s) = ghost i (sch_internal_msg err ts s) \<or>
   \<not> sc_live (sch_internal_msg err ts s) \<and> sc_kids (sch_internal_msg err ts s) = []"
  by (cases "sc_queue s") (auto simp: sch_internal_msg_def handle_cmd_def ghost_def split: sch_cmd.splits)

lemma ghost_turn:
  assumes "main_loop_turn tz env s = Some s'"
  shows "main_loop_turn tz env (ghost i s) = Some (ghost i s') \<or> \<not> sc_live s' \<and> sc_kids s' = []"
proof -
  have r: "main_reload env (ghost i s) = ghost i (main_reload env s)" by (simp add: main_reload_def ghost_def)
  have c: "main_check tz env (ghost i u) = map_option (ghost i) (main_check tz env u)" for u
    by (auto simp: main_check_def ghost_def split: bind_splits option.splits)
  have l: "sc_live (ghost i u) = sc_live u" for u by (simp add: ghost_def)
  show ?thesis
    using ghost_msg [of "le_err env" "le_tasks env" i "main_reload env s"] assms
    by (auto simp: main_loop_turn_def Let_def r c l split: if_splits)
qed

lemma ghost_queue [simp]:
  "ghost i (s\<lparr>sc_queue := q\<rparr>) = (ghost i s)\<lparr>sc_queue := q\<rparr>" "sc_queue (ghost i s) = sc_queue s" "sc_live (ghost i s) = sc_live s"
  by (intro sched.equality; simp add: ghost_def) (simp_all add: ghost_def)

lemma ghost_step:
  assumes "sched_step tz a s s'"
  shows "sched_step tz a (ghost i s) (ghost i s') \<or> \<not> sc_live s' \<and> sc_kids s' = []"
  using assms
proof cases
  case (kid_exit ks j p ks')
  let ?t = "(ghost i s)\<lparr>sc_kids := ((i, 0) # ks) @ ks', sc_queue := sc_queue (ghost i s) @ [sch_internal_son_exit_msg j p]\<rparr>"
  have "ghost i s' = ?t" using kid_exit by (intro sched.equality) (simp_all add: ghost_def)
  moreover have "sched_step tz (KidExit j p) (ghost i s) ?t"
    by (rule sched_step.kid_exit) (use kid_exit in \<open>simp_all add: ghost_def\<close>)
  ultimately show ?thesis using kid_exit(1) by (simp only:) simp
next
  case (kid_dies ks j p ks')
  then show ?thesis using sched_step.kid_dies [of "ghost i s" "(i, 0) # ks" j p ks' tz] by (simp add: ghost_def)
next
  case (turn env)
  then show ?thesis using ghost_turn [OF turn(3), of i] sched_step.turn [of "ghost i s" tz env "ghost i s'"] by (auto simp: ghost_def)
next
  case (add it)
  then show ?thesis using sched_step.add [of "ghost i s" tz it] by simp
next
  case (del j)
  then show ?thesis using sched_step.del [of "ghost i s" tz j] by simp
next
  case stop
  then show ?thesis using sched_step.stop [of "ghost i s" tz] by simp
next
  case reload
  then show ?thesis using sched_step.reload [of "ghost i s" tz] by simp
qed

lemma step_live: "sched_step tz a s s' \<Longrightarrow> sc_live s"
  by (induction rule: sched_step.induct) auto

definition orphan :: "int \<Rightarrow> sched \<Rightarrow> bool" where
  "orphan i s = (sched_safe (ghost i s) \<or> \<not> sc_live s \<and> sc_kids s = [])"

lemma orphan_run: "sched_run tz s as s' \<Longrightarrow> \<forall>a \<in> set as. no_delete a \<Longrightarrow> orphan i s \<Longrightarrow> orphan i s'"
proof (induction rule: sched_run.induct)
  case (more tz a s s1 as s')
  then have "sched_safe (ghost i s)" using step_live [OF more(1)] by (auto simp: orphan_def)
  then have "orphan i s1"
    using ghost_step [OF more(1), of i] safe_step [of tz a "ghost i s" "ghost i s1"] more.prems(1) by (auto simp: orphan_def)
  then show ?case using more by simp
qed

text \<open>
  C40. A task whose process dies without its message is never started again: the scheduler hears
  of an end only by that message (\<open>SIGCHLD\<close> is ignored), the entry stays RUN, and as long as
  nothing deletes tasks no process of this task appears in any later state.
\<close>

theorem dead_task_never_restarts:
  assumes "sched_run tz sched_init as s" and "sched_step tz (KidDies i p) s s1" and "sched_run tz s1 bs s2"
    and "\<forall>a \<in> set as. no_delete a" and "\<forall>a \<in> set bs. no_delete a"
  shows "i \<notin> fst ` set (sc_kids s2)"
proof -
  have s: "sched_safe s" by (rule safe_run [OF assms(1,4) safe_init])
  obtain ks ks' where k: "sc_kids s = ks @ (i, p) # ks'" "s1 = s\<lparr>sc_kids := ks @ ks'\<rparr>" using assms(2) by auto
  then have "sched_safe (ghost i s1)" using s by (auto simp: sched_safe_def held_def ghost_def runs_def)
  then have "orphan i s2" using orphan_run [OF assms(3,5)] by (simp add: orphan_def)
  then show ?thesis by (auto simp: orphan_def sched_safe_def held_def ghost_def)
qed

theorem dead_task_never_restarts_witness:
  "\<exists>s2. sched_run 0 (demo_started\<lparr>sc_kids := []\<rparr>) [Turn (quiet_env 200)] s2 \<and> 7 \<notin> fst ` set (sc_kids s2)"
proof -
  let ?s1 = "demo_started\<lparr>sc_kids := []\<rparr>"
  have 1: "sched_step 0 (KidDies 7 100) demo_started ?s1"
    using sched_step.kid_dies [of demo_started "[]" 7 100 "[]" 0] by (simp add: demo_started_def sched_init_def)
  obtain s2 where "main_loop_turn 0 (quiet_env 200) ?s1 = Some s2"
    by (simp add: main_loop_turn_def main_reload_def main_check_def quiet_env_def sch_internal_msg_def demo_started_def sched_init_def)
  then have 2: "sched_step 0 (Turn (quiet_env 200)) ?s1 s2"
    by (intro sched_step.turn) (simp add: demo_started_def sched_init_def)
  note r = sched_run.more [OF 2 sched_run.none]
  have n: "no_delete (AddCmd it)" "no_delete (Turn (quiet_env q))" for it q by (simp_all add: no_delete_def quiet_env_def)
  have "7 \<notin> fst ` set (sc_kids s2)" using dead_task_never_restarts [OF demo_start_run 1 r] n by simp
  then show ?thesis using r by blast
qed

end
