(* ===== verification/Schedule_Reload.thy ===== *)
theory Schedule_Reload
  imports Schedule_Run
begin

text \<open>
  Reloading the tasks from the database (\<open>_SCH_DB_RELOAD\<close>), no id twice over all runs, and how
  often a task starts in its minute.
\<close>

section \<open>No id twice\<close>

lemma set_item_distinct: "distinct (ids l) \<Longrightarrow> distinct (ids (set_item it l))"
  by (simp add: set_item_ids)

lemma del_distinct: "distinct (ids l) \<Longrightarrow> distinct (ids (snd (sch_internal_del_item i l)))"
  by (simp add: del_item_ids)

lemmas distinct_ops = set_item_distinct del_distinct add_distinct

lemma update_distinct: "distinct (ids l) \<Longrightarrow> distinct (ids (sch_internal_update_item ts l))"
  unfolding sch_internal_update_item_def
  by (induction ts arbitrary: l) (simp_all add: update_one_def distinct_ops)

lemma walk_distinct: "reload_walk none ts cur l = (cur', l') \<Longrightarrow> distinct (ids l) \<Longrightarrow> distinct (ids l')"
  by (induction none ts cur l rule: reload_walk.induct) (auto simp: distinct_ops split: if_splits)

lemma sweep_distinct: "distinct (ids (prev @ l)) \<Longrightarrow> distinct (ids (reload_sweep I prev l))"
  by (induction I prev l rule: reload_sweep.induct) (auto simp: del_item_ids simp del: ids_simps(3) intro: del_distinct)

lemma reload_distinct: "distinct (ids l) \<Longrightarrow> distinct (ids (sch_db_reload ts l))"
  by (auto simp: sch_db_reload_def dest: walk_distinct intro!: sweep_distinct simp del: ids_simps(3) split: prod.splits option.splits)

lemma distinct_turn:
  assumes "main_loop_turn tz env s = Some s'" and "distinct (ids (sc_list s))"
  shows "distinct (ids (sc_list s'))"
proof -
  let ?s1 = "main_reload env s"
  let ?s2 = "sch_internal_msg (le_err env) (le_tasks env) ?s1"
  have 1: "distinct (ids (sc_list ?s1))" using assms(2) by (simp add: main_reload_def update_distinct)
  have 2: "distinct (ids (sc_list ?s2))"
    using 1 by (auto simp: sch_internal_msg_def handle_cmd_def distinct_ops reload_distinct son_exit_ids split: list.splits sch_cmd.splits)
  show ?thesis
    using assms(1) 2 check_tasks_result by (fastforce simp: main_loop_turn_def main_check_def Let_def split: bind_splits if_splits)
qed

text \<open>
  C25. No task is in the scheduler's list twice, in any state the scheduler reaches by any
  sequence of commands, ends of tasks and turns of its loop, reloads included.
\<close>

theorem scheduler_ids_distinct:
  assumes "sched_run tz sched_init as s"
  shows "distinct (ids (sc_list s))"
proof (rule sched_run_invariant [OF assms])
  show "distinct (ids (sc_list sched_init))" by (simp add: sched_init_def)
next
  fix a s s'
  assume d: "distinct (ids (sc_list s))" and st: "sched_step tz a s s'"
  show "distinct (ids (sc_list s'))" using st by cases (use d in \<open>auto dest: distinct_turn\<close>)
qed

theorem scheduler_ids_distinct_witness:
  "distinct (ids (sc_list demo_started)) \<and> ids (sc_list demo_started) = [7]"
  using scheduler_ids_distinct [OF demo_start_run] by (simp add: demo_started_def every_minute_def)

section \<open>What a reload does\<close>

text \<open>Every task of the database is in the list with its schedule, and keeps its process.\<close>

definition task_entry :: "(int \<rightharpoonup> sch_entry) \<Rightarrow> TASK_ITEM \<Rightarrow> sch_entry" where
  "task_entry m t = (case m (sch_id (sch_item t)) of None \<Rightarrow> new_entry (sch_item t) | Some e \<Rightarrow> e\<lparr>se_item := sch_item t\<rparr>)"

lemma walk_entry:
  assumes "reload_walk none ts cur l = (cur', l')" and "distinct (map (\<lambda>t. sch_id (sch_item t)) ts)"
    and "none \<Longrightarrow> \<forall>t \<in> set ts. sch_id (sch_item t) \<notin> set (ids l)"
  shows "(\<forall>t \<in> set ts. entry_of l' (sch_id (sch_item t)) = Some (task_entry (entry_of l) t)) \<and>
    (\<forall>i. i \<notin> (\<lambda>t. sch_id (sch_item t)) ` set ts \<longrightarrow> entry_of l' i = entry_of l i)"
  using assms
proof (induction none ts cur l rule: reload_walk.induct)
  case (2 none t ts cur l)
  let ?i = "sch_id (sch_item t)"
  obtain c1 l1 where l1: "reload_walk none ts c1 l1 = (cur', l')"
    "l1 = (if \<not> none \<and> ?i \<in> set (ids l) then set_item (sch_item t) l else snd (sch_internal_add_item (sch_item t) l))"
    using "2.prems"(1) by (cases "\<not> none \<and> ?i \<in> set (ids l)") (auto simp: ids_def)
  have e: "entry_of l1 = (entry_of l)(?i \<mapsto> task_entry (entry_of l) t)"
    using l1(2) "2.prems"(3) entry_of_None [of l ?i]
    by (auto simp: entry_of_set_item entry_of_add task_entry_def fun_eq_iff split: option.splits)
  have other: "sch_id (sch_item t') \<noteq> ?i" if "t' \<in> set ts" for t'
    using "2.prems"(2) that by (metis (no_types, lifting) distinct.simps(2) image_eqI list.set_map list.simps(9))
  have n: "none \<Longrightarrow> \<forall>t \<in> set ts. sch_id (sch_item t) \<notin> set (ids l1)"
    using other "2.prems"(2,3) l1(2) by (auto simp: add_item_eq new_entry_def)
  have IH: "(\<forall>t \<in> set ts. entry_of l' (sch_id (sch_item t)) = Some (task_entry (entry_of l1) t)) \<and>
    (\<forall>i. i \<notin> (\<lambda>t. sch_id (sch_item t)) ` set ts \<longrightarrow> entry_of l' i = entry_of l1 i)"
  proof (cases "\<not> none \<and> ?i \<in> set (map se_id l)")
    case True
    then show ?thesis using "2.IH"(1) [OF True] "2.prems" l1 n by (simp add: ids_def)
  next
    case False
    then show ?thesis using "2.IH"(2) [OF False] "2.prems" l1 n by (auto simp: ids_def)
  qed
  have "task_entry (entry_of l1) t' = task_entry (entry_of l) t'" if "t' \<in> set ts" for t'
    using other [OF that] by (simp add: task_entry_def e)
  moreover have "entry_of l' ?i = Some (task_entry (entry_of l) t)"
    using IH "2.prems"(2) by (auto simp: e)
  ultimately show ?case using IH by (auto simp: e)
qed simp

lemma sweep_keeps:
  assumes "distinct (ids (prev @ l))" and "i \<in> set I"
  shows "entry_of (reload_sweep I prev l) i = entry_of (prev @ l) i"
  using assms
proof (induction I prev l rule: reload_sweep.induct)
  case (2 I prev c cs)
  show ?case
  proof (cases "se_id c \<in> set I")
    case True
    then show ?thesis using "2.IH"(1) [OF True] "2.prems" by simp
  next
    case out: False
    then have c: "se_id c \<noteq> i" using "2.prems"(2) by auto
    show ?thesis
    proof (cases "prev = []")
      case True
      then show ?thesis using "2.IH"(2) [OF out True] "2.prems" out c by simp
    next
      case False
      then show ?thesis using out c entry_of_del [OF "2.prems"(1), of "se_id c"] by simp
    qed
  qed
qed simp

text \<open>
  After a reload every task of the database is scheduled as the database says: its entry
  has the new schedule, and keeps its state and process when the task was there before. (The
  tasks of the database have different ids.)
\<close>

theorem reload_installs_tasks:
  assumes "distinct (ids l)" and "distinct (map (\<lambda>t. sch_id (sch_item t)) ts)" and "t \<in> set ts"
  shows "entry_of (sch_db_reload ts l) (sch_id (sch_item t)) =
    Some (case entry_of l (sch_id (sch_item t)) of None \<Rightarrow> new_entry (sch_item t) | Some e \<Rightarrow> e\<lparr>se_item := sch_item t\<rparr>)"
proof -
  obtain cur l' where w: "reload_walk (l = []) ts (if l = [] then None else Some 0) l = (cur, l')"
    by (cases "reload_walk (l = []) ts (if l = [] then None else Some 0) l")
  have e: "entry_of l' (sch_id (sch_item t)) = Some (task_entry (entry_of l) t)"
    using walk_entry [OF w assms(2)] assms(3) by auto
  have d: "distinct (ids l')" by (rule walk_distinct [OF w assms(1)])
  have "entry_of (sch_db_reload ts l) (sch_id (sch_item t)) = entry_of l' (sch_id (sch_item t))"
  proof (cases cur)
    case (Some k)
    have "distinct (ids (take k l' @ drop k l'))" using d by (simp del: ids_simps(3))
    from sweep_keeps [OF this, of "sch_id (sch_item t)" "map (\<lambda>t. sch_id (sch_item t)) ts"] show ?thesis
      using assms(3) w Some by (simp add: sch_db_reload_def)
  qed (simp add: sch_db_reload_def w)
  then show ?thesis using e by (simp add: task_entry_def)
qed

lemma walk_last_new:
  "reload_walk none (ts @ [t]) cur l = (cur', l') \<Longrightarrow> sch_id (sch_item t) \<notin> (\<lambda>t. sch_id (sch_item t)) ` set ts \<Longrightarrow>
   sch_id (sch_item t) \<notin> set (ids l) \<Longrightarrow> cur' = None \<and> set (ids l) \<subseteq> set (ids l')"
proof (induction ts arbitrary: cur l)
  case Nil
  then show ?case by (auto simp: ids_def add_item_eq)
next
  case (Cons u ts)
  obtain c1 l1 where l1: "reload_walk none (ts @ [t]) c1 l1 = (cur', l')"
    "l1 = (if \<not> none \<and> sch_id (sch_item u) \<in> set (ids l) then set_item (sch_item u) l else snd (sch_internal_add_item (sch_item u) l))"
    using Cons.prems(1) by (cases "\<not> none \<and> sch_id (sch_item u) \<in> set (ids l)") (auto simp: ids_def)
  have "set (ids l1) \<subseteq> insert (sch_id (sch_item u)) (set (ids l))" "set (ids l) \<subseteq> set (ids l1)"
    using l1(2) by (auto simp: set_item_ids add_item_eq new_entry_def)
  then show ?case using Cons.IH [OF l1(1)] Cons.prems(2,3) by auto
qed

text \<open>
  A reload deletes nothing when the last task of the database is new to the scheduler: the
  loop over the entries to delete starts where the search for that task ended, behind the list.
  Tasks that have left the database go on being started.
\<close>

theorem reload_keeps_stale_tasks:
  assumes "sch_id (sch_item t) \<notin> set (ids l)" and "sch_id (sch_item t) \<notin> (\<lambda>t. sch_id (sch_item t)) ` set ts"
  shows "set (ids l) \<subseteq> set (ids (sch_db_reload (ts @ [t]) l))"
proof -
  obtain cur l' where w: "reload_walk (l = []) (ts @ [t]) (if l = [] then None else Some 0) l = (cur, l')"
    by (cases "reload_walk (l = []) (ts @ [t]) (if l = [] then None else Some 0) l")
  show ?thesis using walk_last_new [OF w assms(2,1)] by (simp add: sch_db_reload_def w)
qed

definition demo_reload_task :: "int \<Rightarrow> TASK_ITEM" where
  "demo_reload_task i = \<lparr>sch_item = every_minute i, ftp_host = [], ftp_path = [], local_path = [], task_file = [],
     direction = 0, del_src = 0, generate_db_cdr = 0, file_ctime_escape = 0, use_tmp = 0, copy_flag = 0, sh_file = [],
     son_dir_mask = [], cp_dir_1 = [], cp_dir_2 = [], cp_dir_3 = [], cp_dir_4 = [], ftp_flag = 1\<rparr>"

lemma demo_reload_id [simp]: "sch_item (demo_reload_task i) = every_minute i" "sch_id (every_minute i) = i"
  by (simp_all add: demo_reload_task_def every_minute_def)

theorem reload_installs_tasks_witness:
  "entry_of (sch_db_reload [demo_reload_task 7, demo_reload_task 8] (sc_list demo_started)) 7 =
    Some \<lparr>se_item = every_minute 7, se_status = RUN, se_pid = 100\<rparr>"
  using reload_installs_tasks [of "sc_list demo_started" "[demo_reload_task 7, demo_reload_task 8]" "demo_reload_task 7"]
  by (simp add: demo_started_def)

theorem reload_keeps_stale_tasks_witness:
  "7 \<in> set (ids (sch_db_reload [demo_reload_task 8] (sc_list demo_started)))"
  using reload_keeps_stale_tasks [of "demo_reload_task 8" "sc_list demo_started" "[]"]
  by (simp add: demo_started_def)

section \<open>Twice in its minute\<close>

text \<open>
  A task that ends within the minute is started again at the next check, 30 seconds later by
  default, while its fields still match: crontab would run it once.
\<close>

lemma started_again_in_its_minute:
  assumes "starts t fork e" and "0 \<le> fork' (se_id e)"
  shows "starts t fork' (stop_entry (started t fork e))"
  using assms by (simp add: starts_def started_def stop_entry_def)

end
