(* ===== verification/Task_Manager.thy ===== *)
theory Task_Manager
  imports Get_Task Schedule_Reload Ini_File
begin

text \<open>
  The rest of \<open>taskmanager.c\<close>: \<open>start_task\<close>, which a child of the scheduler runs, starting and
  stopping the scheduler, and the process that writes the database rows.
\<close>

section \<open>start_task\<close>

definition transfer_task :: "task_env \<Rightarrow> TASK_ITEM \<Rightarrow> shm_world \<Rightarrow> (int \<times> task_event list \<times> shm_world) option" where
  "transfer_task env it w =
     (if direction it = FTP_GET then ftp_get_task env it w
      else if direction it = FTP_PUT then ftp_put_task env it w
      else if direction it = SFTP_GET then sftp_get_task env it w
      else if direction it = SFTP_PUT then sftp_put_task env it w
      else Some (0, [], w))"

text \<open>An unknown id does nothing; \<^const>\<open>True\<close> is the alarm line in the log.\<close>

definition start_task :: "task_env \<Rightarrow> int \<Rightarrow> shm_world \<Rightarrow> (bool \<times> task_event list \<times> shm_world) option" where
  "start_task env i w =
     (case get_task_item_by_id (w_tasks w) i of
        None \<Rightarrow> Some (False, [], w)
      | Some it \<Rightarrow> do { (ret, evs, w') \<leftarrow> transfer_task env it w; Some (ret = 0, evs, w') })"

definition task_dir :: "TASK_ITEM \<Rightarrow> int" where
  "task_dir it = (if direction it = FTP_PUT \<or> direction it = SFTP_PUT then FTP_PUT else FTP_GET)"

text \<open>The files of a run are ones the store can keep apart, and their number.\<close>

definition run_storable :: "task_env \<Rightarrow> TASK_ITEM \<Rightarrow> bool" where
  "run_storable env it =
     (if task_dir it = FTP_PUT then names_storable env (sch_id (sch_item it))
      else listing_storable env (if direction it = FTP_GET then (\<lambda>d. ftp_source) else sftp_source) (sch_id (sch_item it)))"

definition run_files :: "task_env \<Rightarrow> TASK_ITEM \<Rightarrow> nat" where
  "run_files env it = (if task_dir it = FTP_PUT then scanned env it else listed env it)"

lemmas direction_defs = FTP_GET_def FTP_PUT_def SFTP_GET_def SFTP_PUT_def

text \<open>
  The name under which the store knows a file: an FTP download cuts the prefix of the name, the
  others keep it.
\<close>

definition task_name :: "TASK_ITEM \<Rightarrow> cstring \<Rightarrow> cstring" where
  "task_name it = (if direction it = FTP_GET then bss_name else id)"

lemma transfer_once:
  assumes "transfer_task env it w = Some (ret, evs, w')" and "run_storable env it"
  shows "once (task_name it) (sch_id (sch_item it)) (task_dir it) it (run_files env it) w evs w'"
proof -
  consider "direction it = FTP_GET" | "direction it = FTP_PUT" | "direction it = SFTP_GET" | "direction it = SFTP_PUT"
    | "evs = []" "w' = w"
    using assms(1) by (auto simp: transfer_task_def split: if_splits)
  then show ?thesis
  proof cases
    case 1
    then show ?thesis using assms get_task_once(1) [of env it w ret evs w']
      by (simp add: transfer_task_def run_storable_def run_files_def task_dir_def task_name_def direction_defs)
  next
    case 2
    then show ?thesis using assms put_task_once(1) [of env it w ret evs w']
      by (simp add: transfer_task_def run_storable_def run_files_def task_dir_def task_name_def direction_defs)
  next
    case 3
    then show ?thesis using assms get_task_once(2) [of env it w ret evs w']
      by (simp add: transfer_task_def run_storable_def run_files_def task_dir_def task_name_def direction_defs)
  next
    case 4
    then show ?thesis using assms put_task_once(2) [of env it w ret evs w']
      by (simp add: transfer_task_def run_storable_def run_files_def task_dir_def task_name_def direction_defs)
  next
    case 5
    then show ?thesis using once_stopped by simp
  qed
qed

text \<open>
  C1. No file is transferred twice. Over two runs of a task, of any of the four directions, with
  any answers of server, file system and clock in each, the files whose transfer succeeded in
  either run are all different in name or size, and none of them had been entered in the store
  before. (A file of an FTP download goes by its name without the prefix.) Premises:
  \<open>run_storable\<close>, the names the pattern lets through (of a download, the names listed) are plain,
  shorter than 256 characters with the task's id and not of the 47 the table truncates at, and
  sizes and times have at most 20 digits; and \<open>log_ok\<close>, the store's locks are obtained, its list file holds what the table
  says, and table and list file have room for the files of both runs.
\<close>

theorem no_file_transferred_twice:
  assumes "transfer_task env1 it w = Some (ret1, evs1, w1)" and "transfer_task env2 it w1 = Some (ret2, evs2, w2)"
    and "run_storable env1 it" and "run_storable env2 it"
    and "log_ok (sch_id (sch_item it)) (task_dir it) it (run_files env1 it + run_files env2 it) w"
  shows "distinct (moved (task_name it) evs1 @ moved (task_name it) evs2) \<and>
    (\<forall>k \<in> set (moved (task_name it) evs1 @ moved (task_name it) evs2). \<not> log_seen (sch_id (sch_item it)) w k)"
  by (rule once_twice [OF transfer_once [OF assms(1,3)] transfer_once [OF assms(2,4)] assms(5)])

lemma moved_put: "EvPut l r f True \<in> set evs \<Longrightarrow> (ren (fi_file f), fi_size f) \<in> set (moved ren evs)"
  by (induction evs) (auto split: task_event.splits)

text \<open>The first run sends the file, the second one, to which nothing has changed, does not.\<close>

theorem no_file_transferred_twice_witness:
  "\<exists>ret1 evs1 w1 ret2 evs2 w2. transfer_task demo_put_env demo_put_task demo_put_world = Some (ret1, evs1, w1) \<and>
     transfer_task demo_put_env demo_put_task w1 = Some (ret2, evs2, w2) \<and>
     (''a'', 10) \<in> set (moved id evs1) \<and> (''a'', 10) \<notin> set (moved id evs2)"
proof -
  have id: "sch_id (sch_item demo_put_task) = 7" and d: "task_dir demo_put_task = FTP_PUT"
    and n: "run_files demo_put_env demo_put_task = 1" and st: "run_storable demo_put_env demo_put_task"
    and t: "transfer_task env demo_put_task w = ftp_put_task env demo_put_task w" and nm: "task_name demo_put_task = id" for env w
    using demo_put_names demo_put_path_trans(1) by (simp_all add: run_files_def scanned_def run_storable_def task_dir_def task_name_def transfer_task_def demo_put_defs direction_defs)
  obtain evs1 w1 where r1: "ftp_put_task demo_put_env demo_put_task demo_put_world = Some (1, evs1, w1)"
    and e1: "EvPut ''a'' ''tmp_a'' demo_entry True \<in> set evs1"
    using demo_put_first by blast
  have "once id 7 FTP_PUT demo_put_task 1 demo_put_world evs1 w1"
    using transfer_once [of demo_put_env demo_put_task demo_put_world 1 evs1 w1] r1 st id d n nm by (simp add: t)
  then have "log_ok 7 FTP_PUT demo_put_task 1 w1"
    using demo_put_ok [of "1 + 1"] unfolding once_def by simp
  then obtain ret2 evs2 w2 where r2: "ftp_put_task demo_put_env demo_put_task w1 = Some (ret2, evs2, w2)"
    using demo_put_total by blast
  have "distinct (moved id evs1 @ moved id evs2)"
    using no_file_transferred_twice [of demo_put_env demo_put_task demo_put_world 1 evs1 w1 demo_put_env ret2 evs2 w2]
      r1 r2 st demo_put_ok [of "1 + 1"] by (simp add: t id d n nm)
  moreover have "(''a'', 10) \<in> set (moved id evs1)" using moved_put [OF e1, of id] by (simp add: demo_entry_def)
  ultimately show ?thesis using r1 r2 by (auto simp: t)
qed

section \<open>What is transferred\<close>


lemma transfer_task_gets:
  assumes "transfer_task env it w = Some (ret, evs, w')" and "EvGet l r f good \<in> set evs"
  shows "direction it = FTP_GET \<and> ftp_get_task env it w = Some (ret, evs, w') \<or>
    direction it = SFTP_GET \<and> sftp_get_task env it w = Some (ret, evs, w')"
proof -
  have "ftp_put_task env it w \<noteq> Some (ret, evs, w')" "sftp_put_task env it w \<noteq> Some (ret, evs, w')"
    using put_session_sends [OF _ put_connects(1) assms(2)] put_session_sends [OF _ put_connects(2) assms(2)]
    unfolding ftp_put_task_def sftp_put_task_def by fastforce+
  then show ?thesis using assms by (auto simp: transfer_task_def split: if_splits)
qed



text \<open>
  C3. What a download fetches, and from where to where. Every transfer from a server that a task
  makes is made by a download task, over FTP or SFTP, for an entry of the second listing of the
  task's remote directory (\<open>ftp_path\<close> with its time marks replaced) that is not a directory, had the
  same size in the first listing, was last changed less than the task's limit ago, matches the
  pattern \<open>task_file\<close> under its own name or (FTP) without its prefix, and is not in the task's local
  directory with that size; and a task that only deletes fetches nothing. It is fetched from the
  remote directory, by FTP after changing to both, to the local one, under that
  name with \<open>temp__\<close> before it if the task says so.
\<close>

theorem get_task_fetches_eligible:
  assumes "transfer_task env it w = Some (ret, evs, w')" and "EvGet l r f good \<in> set evs"
  shows "\<exists>path ftp_dir name_pat first second j.
    trans_path_str (te_tz env) (te_start env) (local_path it) 256 = Some path \<and>
    trans_path_str (te_tz env) (te_start env) (ftp_path it) 256 = Some ftp_dir \<and>
    trans_path_str (te_tz env) (te_start env) (task_file it) 256 = Some name_pat \<and>
    get_ftp_file_list (te_tz env) (te_start env) (te_listing env ftp_dir) = Some first \<and>
    get_ftp_file_list (te_tz env) (te_start env) (te_listing2 env ftp_dir) = Some second \<and>
    j < length second \<and> f = second ! j \<and> good = te_recv env l r \<and>
    l = get_target it path (task_name it (fi_file f)) \<and>
    (if direction it = FTP_GET
     then may_get env ftp_source it path name_pat first j f \<and> r = fi_file f \<and> EvCd ftp_dir \<in> set evs \<and> EvLcd path \<in> set evs
     else may_get env (sftp_source ftp_dir) it path name_pat first j f \<and> direction it = SFTP_GET \<and>
       r = ftp_dir @ ''/'' @ fi_file f)"
proof -
  have ftp: "so_remote ftp_source g = Some x \<longleftrightarrow> x = g" "so_local ftp_source = bss_name" for g x by (auto simp: ftp_source_def)
  have sftp: "so_remote (sftp_source d) g = Some x \<Longrightarrow> x = d @ ''/'' @ g" "so_local (sftp_source d) = id" for d g x
    by (auto simp: sftp_source_def sprintf_buf_def fun_eq_iff split: if_splits)
  from transfer_task_gets [OF assms(1,2)] show ?thesis
  proof
    assume run: "direction it = FTP_GET \<and> ftp_get_task env it w = Some (ret, evs, w')"
    then have "get_session env (get_connect env) (\<lambda>ftp_dir. ftp_source) it w = Some (ret, evs, w')"
      by (simp add: ftp_get_task_def)
    from get_session_gets [OF this get_connects(1) assms(2)] run show ?thesis
      unfolding ftp task_name_def by (fastforce dest: get_connect_dirs)
  next
    assume run: "direction it = SFTP_GET \<and> sftp_get_task env it w = Some (ret, evs, w')"
    then have "get_session env (sftp_get_connect env) sftp_source it w = Some (ret, evs, w')"
      by (simp add: sftp_get_task_def)
    moreover have "direction it \<noteq> FTP_GET" using run by (simp add: direction_defs)
    ultimately show ?thesis using get_session_gets [OF _ get_connects(2) assms(2)] run
      unfolding task_name_def by (fastforce simp: sftp(2) dest: sftp(1))
  qed
qed

theorem get_task_fetches_eligible_witness:
  "\<exists>t evs w' name_pat first j. transfer_task (demo_get_env t) demo_get_task demo_get_world = Some (0, evs, w') \<and>
     EvGet ''/l/temp__a.txt'' ''a.txt'' (demo_remote t) False \<in> set evs \<and> EvLcd ''/l'' \<in> set evs \<and>
     may_get (demo_get_env t) ftp_source demo_get_task ''/l'' name_pat first j (demo_remote t)"
proof -
  have t: "transfer_task env demo_get_task w = ftp_get_task env demo_get_task w"
    and d: "direction demo_get_task = FTP_GET" for env w
    by (simp_all add: transfer_task_def demo_get_task_def demo_task_def direction_defs)
  have p: "trans_path_str (te_tz (demo_get_env t)) (te_start (demo_get_env t)) (local_path demo_get_task) 256 = Some ''/l''" for t
    by (simp add: demo_get_env_def demo_put_env_def demo_get_task_def demo_task_def trans_path_plain plain_def)
  obtain t evs w' where r: "ftp_get_task (demo_get_env t) demo_get_task demo_get_world = Some (0, evs, w')"
    "EvGet ''/l/temp__a.txt'' ''a.txt'' (demo_remote t) False \<in> set evs"
    using demo_get_run by blast
  from get_task_fetches_eligible [of "demo_get_env t" demo_get_task demo_get_world 0 evs w', unfolded t, OF r] show ?thesis
    using r unfolding t p d option.inject if_P [OF refl] by blast
qed

section \<open>load_task and stop_task\<close>

text \<open>
  \<open>load_task\<close>: refused while the configuration names a scheduler; otherwise the scheduler's process
  and queue go into the configuration and every task is posted, in order. The result is the new
  configuration and the queue. A scheduler that cannot be started, process -1, ends the program.
\<close>

definition load_task ::
  "cstring \<Rightarrow> cstring option \<Rightarrow> TASK_ITEM list \<Rightarrow> int \<Rightarrow> int \<Rightarrow> (cstring option \<times> cstring list) option" where
  "load_task name file tasks pid msg_id =
     (if read_ini_int file ''TaskList'' ''SCHEDULE_P_ID'' 0 \<noteq> 0 then Some (file, [])
      else if pid = -1 then Some (file, [])
      else do {
        f1 \<leftarrow> write_ini_int name file ''TaskList'' ''SCHEDULE_P_ID'' pid;
        f2 \<leftarrow> write_ini_int name (Some f1) ''TaskList'' ''SCHEDULE_MSG_ID'' msg_id;
        Some (Some f2, map (\<lambda>t. schedule_add_item (sch_item t)) tasks)
      })"

text \<open>
  \<open>stop_task\<close> reads the queue itself, five seconds after posting the stop: the answers of
  \<open>msgrcv\<close> are a script, \<^const>\<open>None\<close> in it an error other than an empty queue (which is not
  counted). It ends at an error or at its own stop message, and clears the configuration. The result is the
  configuration, the message posted and the tasks that reported their end.
\<close>

fun stop_loop :: "cstring option list \<Rightarrow> (int \<times> int) list option" where
  "stop_loop [] = None"
| "stop_loop (None # rs) = Some []"
| "stop_loop (Some m # rs) =
     (case decode_msg m of
        CmdSonStop i pid \<Rightarrow> map_option (\<lambda>l. (pid, i) # l) (stop_loop rs)
      | CmdStop \<Rightarrow> Some []
      | _ \<Rightarrow> stop_loop rs)"

definition stop_task :: "cstring \<Rightarrow> cstring option \<Rightarrow> cstring option list \<Rightarrow> (cstring option \<times> cstring list \<times> (int \<times> int) list) option" where
  "stop_task name file answers =
     (if read_ini_int file ''TaskList'' ''SCHEDULE_P_ID'' 0 \<le> 0 then Some (file, [], [])
      else do {
        ended \<leftarrow> stop_loop answers;
        f1 \<leftarrow> write_ini_int name file ''TaskList'' ''SCHEDULE_MSG_ID'' 0;
        f2 \<leftarrow> write_ini_int name (Some f1) ''TaskList'' ''SCHEDULE_P_ID'' 0;
        Some (Some f2, [schedule_stop], ended)
      })"

text \<open>
  The scheduler started by \<open>load_task\<close> meets the tasks in its queue; with different ids it ends
  up with exactly these, one turn per message.
\<close>

lemma load_posts_tasks:
  assumes "\<forall>t \<in> set tasks. item_ok (sch_item t)"
  shows "map decode_msg (map (\<lambda>t. schedule_add_item (sch_item t)) tasks) = map (\<lambda>t. CmdAdd (sch_item t)) tasks"
  using assms by (simp add: decode_add)

section \<open>start_db_process\<close>

text \<open>
  The rows of the tasks are executed one by one, with a commit at every twentieth and one at the
  end; the process ends when \<open>msgrcv\<close> fails.
\<close>

datatype db_action = DbExec cstring bool | DbCommit | DbDisconnect

fun db_loop :: "nat \<Rightarrow> cstring list \<Rightarrow> db_action list" where
  "db_loop index [] = [DbCommit, DbDisconnect]"
| "db_loop index (q # qs) = DbExec q (Suc index mod 20 = 0) # db_loop (Suc index) qs"

definition start_db_process :: "cstring list \<Rightarrow> db_action list" where
  "start_db_process qs = db_loop 0 qs"

lemma db_loop_rows: "[q. DbExec q b \<leftarrow> db_loop n qs] = qs"
  by (induction qs arbitrary: n) auto

end
