(* ===== verification/Db_Process.thy ===== *)
theory Db_Process
  imports Task_Item Ini_File
begin

text \<open>
  The database part \<open>dbprocess.c\<close>: running statements with their commits and rollbacks, the rows of the
  configuration table as tasks. The file is the output of the Pro*C precompiler; a statement is the
  call of \<open>sqlcxt\<close> that its block of assignments prepares. The database's answers, the code a call leaves
  in \<open>sqlca\<close>, are a script, behind whose end calls succeed.
\<close>

section \<open>Statements\<close>

datatype db_call =
    DbConnect cstring cstring cstring
  | DbRelease
  | DbPrepare cstring
  | DbExecute
  | DbCommitWork
  | DbRollbackWork

record db =
  db_codes :: "int list"
  sqlcode :: int
  db_calls :: "(db_call \<times> int) list"

definition db_start :: db where
  "db_start = \<lparr>db_codes = [], sqlcode = 0, db_calls = []\<rparr>"

definition sql :: "db_call \<Rightarrow> db \<Rightarrow> db" where
  "sql c d =
     (let r = (case db_codes d of [] \<Rightarrow> 0 | r # _ \<Rightarrow> r)
      in d\<lparr>db_codes := tl (db_codes d), sqlcode := r, db_calls := db_calls d @ [(c, r)]\<rparr>)"

definition connect_oracle :: "cstring option \<Rightarrow> db \<Rightarrow> (int \<times> db) option" where
  "connect_oracle file d =
     (let user = read_ini_string file ''TaskList'' ''DB_USER'' ''''; pass = read_ini_string file ''TaskList'' ''DB_PASS'' '''';
          name = read_ini_string file ''TaskList'' ''DB_NAME'' ''''
      in if fits 20 user \<and> fits 20 pass \<and> fits 20 name
         then let d1 = sql (DbConnect user pass name) d in Some (sqlcode d1, d1)
         else None)"

definition disconnect_oracle :: "db \<Rightarrow> int \<times> db" where
  "disconnect_oracle d = (0, sql DbRelease d)"

definition Commit :: "db \<Rightarrow> bool \<times> db" where
  "Commit d = (let d1 = sql DbCommitWork d in (0 \<le> sqlcode d1, d1))"

definition Rollback :: "db \<Rightarrow> bool \<times> db" where
  "Rollback d = (let d1 = sql DbRollbackWork d in (0 \<le> sqlcode d1, d1))"

datatype db_result = db_ok | db_nofound | db_error | db_breaken

definition CheckSqlResult :: "db \<Rightarrow> db_result" where
  "CheckSqlResult d =
     (if sqlcode d = 0 then db_ok
      else if sqlcode d = 1403 then db_nofound
      else if sqlcode d \<in> {-12571, -1089, -1090, -3114, -3113, -1092, -12326, -12329, -1012} then db_breaken
      else db_error)"

text \<open>
  A statement of 512 or more characters fills \<open>sqlCmd\<close> without a terminator. The result of \<open>CheckSqlResult\<close> is that of the last call,
  be it the statement, the rollback or the commit.
\<close>

definition ExecuteSql :: "cstring option \<Rightarrow> cstring \<Rightarrow> bool \<Rightarrow> db \<Rightarrow> (db_result \<times> db) option" where
  "ExecuteSql ini s bCommit d =
     (if \<not> fits 512 s then None
      else
        let d1 = sql DbExecute (sql (DbPrepare s) d);
            d2 = (if sqlcode d1 \<noteq> 0 then snd (Rollback d1) else if bCommit then snd (Commit d1) else d1);
            ret = CheckSqlResult d2
        in if ret = db_breaken then map_option (\<lambda>(_, d3). (ret, d3)) (connect_oracle ini (snd (disconnect_oracle d2)))
           else Some (ret, d2))"

section \<open>The configuration table\<close>

text \<open>A row as the fetch leaves it in the host variables.\<close>

record cfg_row =
  row_id :: int
  row_host :: cstring
  row_path :: cstring
  row_local :: cstring
  row_pattern :: cstring
  row_direction :: int
  row_month :: cstring
  row_day :: cstring
  row_hour :: cstring
  row_min :: cstring
  row_del_src :: int
  row_sh_file :: cstring
  row_mask :: cstring
  row_cp_1 :: cstring
  row_cp_2 :: cstring
  row_cp_3 :: cstring
  row_cp_4 :: cstring
  row_escape :: time_t
  row_cdr :: int
  row_use_tmp :: int
  row_copy :: int
  row_flag :: int
  row_time :: cstring

text \<open>The task a row becomes; \<^const>\<open>None\<close> when a column does not fit the task's array.\<close>

definition row_task :: "cfg_row \<Rightarrow> TASK_ITEM option" where
  "row_task r =
     (let month = trim (row_month r) ''*''; mday = trim (row_day r) ''*''; hour = trim (row_hour r) ''*''; mnt = trim (row_min r) ''*'';
          host = trim (row_host r) ''NULL''; path = trim (row_path r) ''NULL''; loc = trim (row_local r) ''NULL'';
          file = trim (row_pattern r) ''NULL''; sh = trim (row_sh_file r) ''NO''; m = trim (row_mask r) ''NULL'';
          cp1 = trim (row_cp_1 r) ''NULL''; cp2 = trim (row_cp_2 r) ''NULL''; cp3 = trim (row_cp_3 r) ''NULL''; cp4 = trim (row_cp_4 r) ''NULL''
      in if fits 16 month \<and> fits 16 mday \<and> fits 16 hour \<and> fits 16 mnt \<and> fits 256 host \<and> fits 256 path \<and> fits 256 loc \<and> fits 128 file \<and>
            fits 128 sh \<and> fits 32 m \<and> fits 128 cp1 \<and> fits 128 cp2 \<and> fits 128 cp3 \<and> fits 128 cp4
         then Some \<lparr>sch_item = \<lparr>sch_id = row_id r, sch_month = month, sch_day = mday, sch_hour = hour, sch_min = mnt\<rparr>,
           ftp_host = host, ftp_path = path, local_path = loc, task_file = file, direction = row_direction r,
           del_src = row_del_src r, generate_db_cdr = row_cdr r, file_ctime_escape = row_escape r, use_tmp = row_use_tmp r,
           copy_flag = row_copy r, sh_file = sh, son_dir_mask = m, cp_dir_1 = cp1, cp_dir_2 = cp2, cp_dir_3 = cp3, cp_dir_4 = cp4,
           ftp_flag = row_flag r\<rparr>
         else None)"

text \<open>
  The fetches of a cursor: the code each leaves and the row. The loop ends at the first code that is
  not 0, the end of the rows or an error alike.
\<close>

fun fetch_rows :: "(int \<times> cfg_row) list \<Rightarrow> cfg_row list" where
  "fetch_rows [] = []"
| "fetch_rows ((c, r) # fs) = (if c \<noteq> 0 then [] else r # fetch_rows fs)"

text \<open>The state: the task list, the time of the database and the count.\<close>

record db_list =
  dl_tasks :: "TASK_ITEM list"
  dl_time :: cstring
  dl_count :: nat

fun new_tasks :: "cfg_row list \<Rightarrow> TASK_ITEM list option" where
  "new_tasks [] = Some []"
| "new_tasks (r # rs) =
     (if row_id r = 0 then new_tasks rs
      else case row_task r of None \<Rightarrow> None | Some t \<Rightarrow> map_option ((#) t) (new_tasks rs))"

fun last_time :: "cfg_row list \<Rightarrow> cstring \<Rightarrow> cstring" where
  "last_time [] s = s"
| "last_time (r # rs) s = last_time rs (if row_id r = 0 then s else row_time r)"

definition create_task_item_list_by_db :: "(int \<times> cfg_row) list \<Rightarrow> TASK_ITEM list \<Rightarrow> cstring \<Rightarrow> db_list option" where
  "create_task_item_list_by_db fs task_list time =
     (case new_tasks (fetch_rows fs) of
        None \<Rightarrow> None
      | Some ts \<Rightarrow> Some \<lparr>dl_tasks = link_tasks task_list ts, dl_time = last_time (fetch_rows fs) time, dl_count = length ts\<rparr>)"

text \<open>
  The update in place: the first task with the id, or a new one behind the last. The pointer to the last is
  not set when the list is empty. A row without an id clears the schedule of a task without one.
\<close>

fun replace_task :: "TASK_ITEM \<Rightarrow> TASK_ITEM list \<Rightarrow> TASK_ITEM list option" where
  "replace_task t [] = None"
| "replace_task t (u # us) =
     (if sch_id (sch_item u) = sch_id (sch_item t) then Some (t # us) else map_option ((#) u) (replace_task t us))"

fun clear_zero :: "TASK_ITEM list \<Rightarrow> TASK_ITEM list" where
  "clear_zero [] = []"
| "clear_zero (u # us) =
     (if sch_id (sch_item u) = 0 then u\<lparr>sch_item := \<lparr>sch_id = 0, sch_month = [], sch_day = [], sch_hour = [], sch_min = []\<rparr>\<rparr> # us
      else u # clear_zero us)"

definition update_row :: "cfg_row \<Rightarrow> TASK_ITEM list \<Rightarrow> TASK_ITEM list option" where
  "update_row r ts =
     (if row_id r = 0 then Some (clear_zero ts)
      else do {
        t \<leftarrow> row_task r;
        case replace_task t ts of
          Some ts' \<Rightarrow> Some ts'
        | None \<Rightarrow> if ts = [] then None else Some (ts @ [t])
      })"

definition create_task_item_list_by_db_updated :: "(int \<times> cfg_row) list \<Rightarrow> TASK_ITEM list \<Rightarrow> cstring \<Rightarrow> db_list option" where
  "create_task_item_list_by_db_updated fs task_list time =
     (let rs = fetch_rows fs
      in case fold_option update_row rs task_list of
           None \<Rightarrow> None
         | Some ts \<Rightarrow> Some \<lparr>dl_tasks = ts, dl_time = last_time rs time, dl_count = length (filter (\<lambda>r. row_id r \<noteq> 0) rs)\<rparr>)"

section \<open>The writer process\<close>

text \<open>The body of \<open>start_db_process\<close> in the child: one statement per message, a commit with every twentieth.\<close>

fun db_writer :: "cstring option \<Rightarrow> nat \<Rightarrow> cstring list \<Rightarrow> db \<Rightarrow> db option" where
  "db_writer ini n [] d = Some (snd (disconnect_oracle (snd (Commit d))))"
| "db_writer ini n (q # qs) d =
     (case ExecuteSql ini q (Suc n mod 20 = 0) d of None \<Rightarrow> None | Some (_, d1) \<Rightarrow> db_writer ini (Suc n) qs d1)"

end
