(* ===== verification/Counting.thy ===== *)
theory Counting
  imports Prelude
begin

text \<open>
  Counting the threads in a kind of state, for the lock models: each thread is in a state, all
  but finitely many in the idle one.
\<close>

definition count_of :: "('t \<Rightarrow> bool) \<Rightarrow> ('p \<Rightarrow> 't) \<Rightarrow> int" where
  "count_of P ts = int (card {p. P (ts p)})"

definition active :: "'t \<Rightarrow> ('p \<Rightarrow> 't) \<Rightarrow> 'p set" where
  "active i ts = {p. ts p \<noteq> i}"

lemma finite_kind: "finite (active i ts) \<Longrightarrow> \<not> P i \<Longrightarrow> finite {p. P (ts p)}"
  by (rule finite_subset [of _ "active i ts"]) (auto simp: active_def)

lemma count_upd:
  assumes "finite (active i ts)" and "\<not> P i"
  shows "count_of P (ts(q := t)) = count_of P ts - (if P (ts q) then 1 else 0) + (if P t then 1 else 0)"
proof -
  have f: "finite {p. P (ts p)}" using finite_kind [where P = P, OF assms] .
  have e: "{p. P ((ts(q := t)) p)} = (if P t then insert q ({p. P (ts p)} - {q}) else {p. P (ts p)} - {q})" by auto
  have "0 < card {p. P (ts p)}" if "P (ts q)" using f that by (auto simp: card_gt_0_iff)
  then show ?thesis using f unfolding count_of_def e by (auto simp: card_insert_if card_Diff_singleton_if)
qed

lemma active_upd [simp]: "finite (active i ts) \<Longrightarrow> finite (active i (ts(q := t)))"
  by (rule finite_subset [of _ "insert q (active i ts)"]) (auto simp: active_def)

lemma count_pos:
  assumes "finite (active i ts)" and "\<not> P i"
  shows "count_of P ts > 0 \<longleftrightarrow> (\<exists>p. P (ts p))"
  using finite_kind [where P = P, OF assms] by (auto simp: count_of_def card_gt_0_iff)

lemma count_posI: "finite (active i ts) \<Longrightarrow> \<not> P i \<Longrightarrow> P (ts p) \<Longrightarrow> count_of P ts > 0"
  using count_pos [of i ts P] by auto

lemma count_nonneg [simp]: "0 \<le> count_of P ts" "\<not> count_of P ts < 0" "\<not> count_of P ts + 1 < 0"
  by (simp_all add: count_of_def)

lemma count_one:
  assumes "finite (active i ts)" and "\<not> P i" and "count_of P ts \<le> 1" and "P (ts p)" and "P (ts q)"
  shows "p = q"
proof -
  have "card {p. P (ts p)} \<le> 1" using assms(3) by (simp add: count_of_def)
  then show ?thesis using assms(4,5) finite_kind [where P = P, OF assms(1,2)] by (auto simp: card_le_Suc0_iff_eq)
qed

lemma count_none: "(\<And>p. \<not> P (ts p)) \<Longrightarrow> count_of P ts = 0"
  by (simp add: count_of_def)

lemma count_zero: "finite (active i ts) \<Longrightarrow> \<not> P i \<Longrightarrow> count_of P ts = 0 \<Longrightarrow> \<not> P (ts p)"
  using count_posI [of i ts P p] by auto

end
