(* ===== verification/Atomic_Lock.thy ===== *)
theory Atomic_Lock
  imports Counting
begin

text \<open>
  The spin locks of \<open>frame_utils.h\<close> on the atomic counters of \<open>myatomic_1.h\<close>: a lock for readers and
  writers made of two counters, that a thread takes one atomic operation at a time. Any number of threads
  runs interleaved. The counters are far from their bounds, since each is off its initial value by
  at most the number of threads.
\<close>

section \<open>The operations\<close>

definition atomic_inc :: "int \<Rightarrow> int" where
  "atomic_inc v = v + 1"

definition atomic_dec_and_test :: "int \<Rightarrow> bool \<times> int" where
  "atomic_dec_and_test v = (v - 1 = 0, v - 1)"

record atomic_rwlock =
  al_lock :: int
  al_readcount :: int

definition atomic_rwlock_setunlocked :: atomic_rwlock where
  "atomic_rwlock_setunlocked = \<lparr>al_lock = 1, al_readcount = 1\<rparr>"

text \<open>
  Where a thread is. \<open>Outside\<close>, \<open>Reader\<close> and \<open>Writer\<close> are between two calls; every other state is named after the atomic operation that
  comes next. \<open>LockDec\<close> and \<open>LockInc\<close> are the loop of \<open>atomic_lock\<close> on the first counter, with what the call goes on to
  do; \<open>CountDec\<close> and \<open>CountInc\<close> that loop on the second.
\<close>

datatype spin_want = WantRead | WantWrite | WantUpgrade

datatype spin =
    Outside
  | LockDec spin_want
  | LockInc spin_want
  | ReadInc
  | ReadUnlock
  | Reader
  | ReadRelease
  | CountRelease
  | CountDec
  | CountInc
  | CountUnlock
  | Writer
  | WriteUnlock
  | DownInc
  | DownUnlock

text \<open>The next atomic operation; the last component is whether it complains to the log.\<close>

fun advance :: "spin \<Rightarrow> atomic_rwlock \<Rightarrow> spin \<times> atomic_rwlock \<times> bool" where
  "advance (LockDec w) v =
     (let (z, n) = atomic_dec_and_test (al_lock v)
      in (if \<not> z then LockInc w else (case w of WantRead \<Rightarrow> ReadInc | WantWrite \<Rightarrow> CountDec | WantUpgrade \<Rightarrow> CountRelease),
          v\<lparr>al_lock := n\<rparr>, False))"
| "advance (LockInc w) v = (LockDec w, v\<lparr>al_lock := atomic_inc (al_lock v)\<rparr>, False)"
| "advance ReadInc v = (ReadUnlock, v\<lparr>al_readcount := atomic_inc (al_readcount v)\<rparr>, False)"
| "advance ReadUnlock v = (Reader, v\<lparr>al_lock := atomic_inc (al_lock v)\<rparr>, False)"
| "advance ReadRelease v =
     (let (z, n) = atomic_dec_and_test (al_readcount v) in (Outside, v\<lparr>al_readcount := n\<rparr>, z))"
| "advance CountRelease v =
     (let (z, n) = atomic_dec_and_test (al_readcount v) in (CountDec, v\<lparr>al_readcount := n\<rparr>, z))"
| "advance CountDec v =
     (let (z, n) = atomic_dec_and_test (al_readcount v) in (if z then CountUnlock else CountInc, v\<lparr>al_readcount := n\<rparr>, False))"
| "advance CountInc v = (CountDec, v\<lparr>al_readcount := atomic_inc (al_readcount v)\<rparr>, False)"
| "advance CountUnlock v = (Writer, v\<lparr>al_readcount := atomic_inc (al_readcount v)\<rparr>, False)"
| "advance WriteUnlock v = (Outside, v\<lparr>al_lock := atomic_inc (al_lock v)\<rparr>, False)"
| "advance DownInc v = (DownUnlock, v\<lparr>al_readcount := atomic_inc (al_readcount v)\<rparr>, False)"
| "advance DownUnlock v = (Reader, v\<lparr>al_lock := atomic_inc (al_lock v)\<rparr>, False)"
| "advance pc v = (pc, v, False)"

text \<open>The calls, each with the state it may be made in and its first operation.\<close>

datatype spin_call = ReadlockAcquire | ReadlockRelease | WritelockAcquire | WritelockRelease | WritelockUpgrade | WritelockDowngrade

fun start_call :: "spin_call \<Rightarrow> spin \<Rightarrow> spin option" where
  "start_call ReadlockAcquire Outside = Some (LockDec WantRead)"
| "start_call WritelockAcquire Outside = Some (LockDec WantWrite)"
| "start_call ReadlockRelease Reader = Some ReadRelease"
| "start_call WritelockUpgrade Reader = Some (LockDec WantUpgrade)"
| "start_call WritelockRelease Writer = Some WriteUnlock"
| "start_call WritelockDowngrade Writer = Some DownInc"
| "start_call _ _ = None"

definition between_calls :: "spin \<Rightarrow> bool" where
  "between_calls pc = (pc \<in> {Outside, Reader, Writer})"

record 'p spin_state =
  spin_vars :: atomic_rwlock
  spin_pc :: "'p \<Rightarrow> spin"
  complaints :: nat

definition spin_start :: "'p spin_state" where
  "spin_start = \<lparr>spin_vars = atomic_rwlock_setunlocked, spin_pc = (\<lambda>_. Outside), complaints = 0\<rparr>"

inductive spin_step :: "'p spin_state \<Rightarrow> 'p \<Rightarrow> 'p spin_state \<Rightarrow> bool" where
  call: "start_call c (spin_pc s p) = Some pc \<Longrightarrow> spin_step s p (s\<lparr>spin_pc := (spin_pc s)(p := pc)\<rparr>)"
| run: "\<not> between_calls (spin_pc s p) \<Longrightarrow> advance (spin_pc s p) (spin_vars s) = (pc, v, m) \<Longrightarrow>
    spin_step s p (s\<lparr>spin_vars := v, spin_pc := (spin_pc s)(p := pc), complaints := complaints s + (if m then 1 else 0)\<rparr>)"

inductive spin_run :: "'p spin_state \<Rightarrow> 'p list \<Rightarrow> 'p spin_state \<Rightarrow> bool" where
  stay: "spin_run s [] s"
| more: "spin_run s ps s1 \<Longrightarrow> spin_step s1 p s' \<Longrightarrow> spin_run s (ps @ [p]) s'"

section \<open>The invariant\<close>

text \<open>
  A counter tells how many threads are in which part of the code: who holds the first one, who has
  decremented it in vain, who counts as a reader, and who has decremented the second one to look at it.
\<close>

fun holds_lock :: "spin \<Rightarrow> bool" where
  "holds_lock pc = (pc \<in> {ReadInc, ReadUnlock, CountRelease, CountDec, CountInc, CountUnlock, Writer, WriteUnlock, DownInc, DownUnlock})"

fun tried_lock :: "spin \<Rightarrow> bool" where
  "tried_lock (LockInc _) = True"
| "tried_lock _ = False"

fun counted :: "spin \<Rightarrow> bool" where
  "counted pc = (pc \<in> {ReadUnlock, Reader, ReadRelease, CountRelease, DownUnlock, LockDec WantUpgrade, LockInc WantUpgrade})"

fun tried_count :: "spin \<Rightarrow> bool" where
  "tried_count pc = (pc \<in> {CountInc, CountUnlock})"

fun alone :: "spin \<Rightarrow> bool" where
  "alone pc = (pc \<in> {CountUnlock, Writer, DownInc})"

definition spin_ok :: "'p spin_state \<Rightarrow> bool" where
  "spin_ok s \<longleftrightarrow> (let ts = spin_pc s; v = spin_vars s in
     finite (active Outside ts) \<and>
     al_lock v = 1 - count_of holds_lock ts - count_of tried_lock ts \<and> count_of holds_lock ts \<le> 1 \<and>
     al_readcount v = 1 + count_of counted ts - count_of tried_count ts \<and>
     (\<forall>p. alone (ts p) \<longrightarrow> count_of counted ts = 0))"

lemma spin_start_ok: "spin_ok spin_start"
  by (simp add: spin_ok_def spin_start_def atomic_rwlock_setunlocked_def active_def count_none)

lemma one_holder: "spin_ok s \<Longrightarrow> holds_lock (spin_pc s p) \<Longrightarrow> holds_lock (spin_pc s q) \<Longrightarrow> p = q"
  using count_one [of Outside "spin_pc s" holds_lock p q] by (simp add: spin_ok_def Let_def del: holds_lock.simps) simp

lemma holder_count: "spin_ok s \<Longrightarrow> holds_lock (spin_pc s p) \<Longrightarrow> count_of holds_lock (spin_pc s) = 1"
  using count_posI [of Outside "spin_pc s" holds_lock p] by (simp add: spin_ok_def Let_def del: holds_lock.simps) simp

lemma tried_count_holds: "tried_count pc \<Longrightarrow> holds_lock pc" "alone pc \<Longrightarrow> holds_lock pc"
  by auto

lemma no_other_count:
  assumes "spin_ok s" and "holds_lock (spin_pc s p)" and "\<not> tried_count (spin_pc s p)"
  shows "count_of tried_count (spin_pc s) = 0"
proof (rule count_none)
  show "\<not> tried_count (spin_pc s q)" for q
    using one_holder [OF assms(1,2), of q] assms(3) tried_count_holds by auto
qed

text \<open>A thread that changes its state keeps the invariant when the counters follow.\<close>

definition delta :: "bool \<Rightarrow> bool \<Rightarrow> int" where
  "delta old new = (if new then 1 else 0) - (if old then 1 else 0)"

lemma spin_ok_upd:
  assumes ok: "spin_ok s" and pc: "spin_pc s p = old"
    and "al_lock v = al_lock (spin_vars s) - delta (holds_lock old) (holds_lock new) - delta (tried_lock old) (tried_lock new)"
    and "al_readcount v = al_readcount (spin_vars s) + delta (counted old) (counted new) - delta (tried_count old) (tried_count new)"
    and "holds_lock new \<and> \<not> holds_lock old \<Longrightarrow> count_of holds_lock (spin_pc s) = 0"
    and "counted new \<and> \<not> counted old \<Longrightarrow> holds_lock old \<and> \<not> alone new"
    and "alone new \<and> \<not> alone old \<Longrightarrow> count_of counted (spin_pc s) = 0"
    and "alone new \<Longrightarrow> \<not> counted new"
  shows "spin_ok (s\<lparr>spin_vars := v, spin_pc := (spin_pc s)(p := new), complaints := c\<rparr>)"
proof -
  let ?ts = "spin_pc s"
  have f: "finite (active Outside ?ts)" using ok by (simp add: spin_ok_def Let_def)
  note c = count_upd [OF f, of _ p new]
  have h: "count_of holds_lock (?ts(p := new)) = count_of holds_lock ?ts + delta (holds_lock old) (holds_lock new)"
    and t: "count_of tried_lock (?ts(p := new)) = count_of tried_lock ?ts + delta (tried_lock old) (tried_lock new)"
    and r: "count_of counted (?ts(p := new)) = count_of counted ?ts + delta (counted old) (counted new)"
    and k: "count_of tried_count (?ts(p := new)) = count_of tried_count ?ts + delta (tried_count old) (tried_count new)"
    using pc by (simp_all add: c delta_def)
  have a: "count_of counted (?ts(p := new)) = 0" if "alone ((?ts(p := new)) q)" for q
  proof (cases "q = p")
    case True
    then have "alone new" using that by simp
    moreover from this have "count_of counted ?ts = 0" using ok pc assms(7) by (auto simp: spin_ok_def Let_def simp del: alone.simps)
    ultimately show ?thesis using r assms(8) count_nonneg(1) [of counted "?ts(p := new)"]
      by (simp add: delta_def del: count_nonneg counted.simps alone.simps split: if_splits)
  next
    case False
    then have q: "alone (?ts q)" using that by simp
    then have z: "count_of counted ?ts = 0" using ok by (auto simp: spin_ok_def Let_def simp del: alone.simps)
    have "\<not> (counted new \<and> \<not> counted old)"
      using one_holder [OF ok, of p q] False assms(6) pc q tried_count_holds(2) by blast
    then show ?thesis using r z count_nonneg(1) [of counted "?ts(p := new)"]
      by (auto simp: delta_def simp del: count_nonneg counted.simps split: if_splits)
  qed
  have "count_of holds_lock ?ts + delta (holds_lock old) (holds_lock new) \<le> 1"
    using ok assms(5) by (auto simp: spin_ok_def Let_def delta_def simp del: holds_lock.simps)
  then show ?thesis using ok f a h t r k assms(3,4)
    by (auto simp: spin_ok_def Let_def simp del: fun_upd_apply holds_lock.simps alone.simps counted.simps tried_count.simps)
qed

lemma spin_okD:
  assumes "spin_ok s"
  shows "al_lock (spin_vars s) = 1 - count_of holds_lock (spin_pc s) - count_of tried_lock (spin_pc s)"
    and "al_readcount (spin_vars s) = 1 + count_of counted (spin_pc s) - count_of tried_count (spin_pc s)"
    and "alone (spin_pc s p) \<Longrightarrow> count_of counted (spin_pc s) = 0"
  using assms by (auto simp: spin_ok_def Let_def simp del: alone.simps)

text \<open>The two successes: who takes the first counter to 0 is its only holder, who takes the second to 0 sees no reader.\<close>

lemma lock_taken:
  assumes "spin_ok s" and "al_lock (spin_vars s) = 1"
  shows "count_of holds_lock (spin_pc s) = 0"
  using assms(2) spin_okD(1) [OF assms(1)] count_nonneg(1) [of holds_lock "spin_pc s"] count_nonneg(1) [of tried_lock "spin_pc s"]
  by linarith

lemma count_taken:
  assumes "spin_ok s" and "al_readcount (spin_vars s) = 1" and "spin_pc s p = CountDec"
  shows "count_of counted (spin_pc s) = 0"
  using spin_okD(2) [OF assms(1)] no_other_count [OF assms(1), of p] assms(2,3) by simp

lemma spin_ok_step:
  assumes "spin_step s p s'" and "spin_ok s"
  shows "spin_ok s'"
  using assms(1)
proof (cases rule: spin_step.cases)
  case (call c pc)
  have "spin_ok (s\<lparr>spin_vars := spin_vars s, spin_pc := (spin_pc s)(p := pc), complaints := complaints s\<rparr>)"
    using call(2) by (cases "(c, spin_pc s p)" rule: start_call.cases; intro spin_ok_upd [OF assms(2)])
      (auto simp: delta_def dest: spin_okD(3) [OF assms(2)])
  then show ?thesis by (simp add: call(1))
next
  case (run pc v m)
  show ?thesis unfolding run(1)
    using run(3) lock_taken [OF assms(2)] count_taken [OF assms(2), of p]
    by (cases "(spin_pc s p, spin_vars s)" rule: advance.cases; intro spin_ok_upd [OF assms(2)])
      (auto simp: delta_def atomic_inc_def atomic_dec_and_test_def Let_def split: if_splits spin_want.splits)
qed

lemma spin_run_ok: "spin_run s ps s' \<Longrightarrow> spin_ok s \<Longrightarrow> spin_ok s'"
  by (induction rule: spin_run.induct) (auto intro: spin_ok_step)

section \<open>Exclusion\<close>

text \<open>
  C12. A writer is alone. Whatever threads do, one atomic operation at a time in any order, while a thread
  has the lock for writing no other thread has it for writing, and none has it for reading, those that wait
  to turn their read lock into a write lock included.
\<close>

theorem spin_rwlock_excludes:
  assumes "spin_run spin_start ps s" and "spin_pc s p = Writer" and "q \<noteq> p"
  shows "spin_pc s q \<notin> {Writer, Reader, LockDec WantUpgrade, LockInc WantUpgrade}"
proof -
  have ok: "spin_ok s" by (rule spin_run_ok [OF assms(1) spin_start_ok])
  have "count_of counted (spin_pc s) = 0" by (rule spin_okD(3) [OF ok, of p]) (simp add: assms(2))
  then have "\<not> counted (spin_pc s q)" using ok count_zero [of Outside "spin_pc s" counted q] by (simp add: spin_ok_def Let_def)
  moreover have "spin_pc s q \<noteq> Writer" using one_holder [OF ok, of p q] assms(2,3) by auto
  ultimately show ?thesis by auto
qed

text \<open>Runs are computed by a function: a thread between two calls makes the call it is asked for.\<close>

fun spin_do :: "('p \<times> spin_call) list \<Rightarrow> 'p spin_state \<Rightarrow> 'p spin_state option" where
  "spin_do [] s = Some s"
| "spin_do ((p, c) # xs) s =
     (if between_calls (spin_pc s p)
      then (case start_call c (spin_pc s p) of None \<Rightarrow> None | Some pc \<Rightarrow> spin_do xs (s\<lparr>spin_pc := (spin_pc s)(p := pc)\<rparr>))
      else let (pc, v, m) = advance (spin_pc s p) (spin_vars s)
           in spin_do xs (s\<lparr>spin_vars := v, spin_pc := (spin_pc s)(p := pc), complaints := complaints s + (if m then 1 else 0)\<rparr>))"

lemma spin_run_front: "spin_run s1 ps s' \<Longrightarrow> spin_step s p s1 \<Longrightarrow> spin_run s (p # ps) s'"
proof (induction rule: spin_run.induct)
  case (stay s1)
  then show ?case using spin_run.more [OF spin_run.stay, of s p s1] by simp
next
  case (more s1 ps s2 q s')
  then show ?case using spin_run.more [of s "p # ps" s2 q s'] by simp
qed

lemma spin_do_run: "spin_do xs s = Some s' \<Longrightarrow> spin_run s (map fst xs) s'"
proof (induction xs s rule: spin_do.induct)
  case (1 s)
  then show ?case by (simp add: spin_run.stay)
next
  case (2 p c xs s)
  show ?case
  proof (cases "between_calls (spin_pc s p)")
    case True
    then obtain pc where pc: "start_call c (spin_pc s p) = Some pc" "spin_do xs (s\<lparr>spin_pc := (spin_pc s)(p := pc)\<rparr>) = Some s'"
      using 2(3) by (auto split: option.splits)
    show ?thesis using spin_run_front [OF 2(1) [OF True pc] spin_step.call [OF pc(1)]] by simp
  next
    case False
    obtain pc v m where a: "advance (spin_pc s p) (spin_vars s) = (pc, v, m)" by (cases "advance (spin_pc s p) (spin_vars s)")
    have r: "spin_do xs (s\<lparr>spin_vars := v, spin_pc := (spin_pc s)(p := pc), complaints := complaints s + (if m then 1 else 0)\<rparr>) = Some s'"
      using 2(3) False a by simp
    show ?thesis using spin_run_front [OF 2(2) [OF False a [symmetric] refl refl r] spin_step.run [OF False a]] by simp
  qed
qed

text \<open>Two threads take the read lock; the first gives it back and takes the write lock while the second still reads and then leaves.\<close>

definition spin_example :: "(nat \<times> spin_call) list" where
  "spin_example = replicate 4 (1, ReadlockAcquire) @ replicate 4 (2, ReadlockAcquire) @ replicate 2 (1, ReadlockRelease) @
     replicate 4 (1, WritelockAcquire) @ replicate 2 (2, ReadlockRelease) @ replicate 2 (1, WritelockAcquire)"

lemma spin_example_do: "\<exists>s. spin_do spin_example spin_start = Some s \<and> spin_pc s 1 = Writer \<and> complaints s = 0"
  by (simp add: spin_example_def spin_start_def atomic_rwlock_setunlocked_def between_calls_def atomic_inc_def atomic_dec_and_test_def
      numeral_eq_Suc)

theorem spin_rwlock_excludes_witness:
  "\<exists>s. spin_run spin_start (map fst spin_example) s \<and> spin_pc s 1 = Writer \<and>
     spin_pc s 2 \<notin> {Writer, Reader, LockDec WantUpgrade, LockInc WantUpgrade}"
proof -
  obtain s where s: "spin_do spin_example spin_start = Some s" "spin_pc s 1 = Writer" using spin_example_do by auto
  show ?thesis using spin_rwlock_excludes [OF spin_do_run [OF s(1)] s(2), of 2] spin_do_run [OF s(1)] s(2) by auto
qed

section \<open>Upgrades\<close>

text \<open>Two threads that both hold the read lock and both want the write lock wait for each other.\<close>

definition upgrade_stuck :: "'p \<Rightarrow> 'p \<Rightarrow> 'p spin_state \<Rightarrow> bool" where
  "upgrade_stuck p q s \<longleftrightarrow> spin_pc s p \<in> {CountDec, CountInc} \<and> spin_pc s q \<in> {LockDec WantUpgrade, LockInc WantUpgrade}"

lemma stuck_not_free:
  assumes "spin_ok s" and "upgrade_stuck p q s"
  shows "al_lock (spin_vars s) \<noteq> 1" and "spin_pc s p = CountDec \<Longrightarrow> al_readcount (spin_vars s) \<noteq> 1"
proof -
  show "al_lock (spin_vars s) \<noteq> 1"
    using lock_taken [OF assms(1)] holder_count [OF assms(1), of p] assms(2) by (auto simp: upgrade_stuck_def)
  have "counted (spin_pc s q)" using assms(2) by (auto simp: upgrade_stuck_def)
  moreover have "finite (active Outside (spin_pc s))" using assms(1) by (simp add: spin_ok_def Let_def)
  ultimately have "count_of counted (spin_pc s) \<noteq> 0"
    using count_zero [of Outside "spin_pc s" counted q] by auto
  then show "al_readcount (spin_vars s) \<noteq> 1" if "spin_pc s p = CountDec"
    using count_taken [OF assms(1) _ that] by blast
qed

lemma start_call_between: "start_call c pc = Some pc' \<Longrightarrow> between_calls pc"
  by (cases "(c, pc)" rule: start_call.cases) (simp_all add: between_calls_def)

lemma stuck_step:
  assumes "spin_step s r s'" and "spin_ok s" and "upgrade_stuck p q s"
  shows "upgrade_stuck p q s'"
  using assms(1)
proof (cases rule: spin_step.cases)
  case (call c pc)
  have "\<not> between_calls (spin_pc s p)" "\<not> between_calls (spin_pc s q)" using assms(3) by (auto simp: upgrade_stuck_def between_calls_def)
  then have "r \<noteq> p" "r \<noteq> q" using start_call_between [OF call(2)] by metis+
  then show ?thesis using assms(3) call(1) by (simp add: upgrade_stuck_def)
next
  case (run pc v m)
  have "pc \<in> {CountDec, CountInc}" if "r = p"
    using run(3) that assms(3) stuck_not_free(2) [OF assms(2,3)] by (auto simp: upgrade_stuck_def atomic_dec_and_test_def Let_def)
  moreover have "pc \<in> {LockDec WantUpgrade, LockInc WantUpgrade}" if "r = q"
    using run(3) that assms(3) stuck_not_free(1) [OF assms(2,3)] by (auto simp: upgrade_stuck_def atomic_dec_and_test_def Let_def)
  moreover have "p \<noteq> q" using assms(3) by (auto simp: upgrade_stuck_def)
  ultimately show ?thesis using assms(3) run(1) by (auto simp: upgrade_stuck_def)
qed

text \<open>
  C37. Two upgrades deadlock. When one reader has entered \<open>atomic_writelock_upgrade\<close> and waits for the other
  readers to leave, and another reader calls it too, both stay in their loops for ever, whatever any
  thread does: the first waits for the second's read lock, the second for the first's lock.
\<close>

theorem two_upgrades_deadlock:
  assumes "spin_run spin_start ps s" and "spin_pc s p \<in> {CountDec, CountInc}"
    and "spin_pc s q \<in> {LockDec WantUpgrade, LockInc WantUpgrade}" and "spin_run s ps' s'"
  shows "spin_pc s' p \<in> {CountDec, CountInc} \<and> spin_pc s' q \<in> {LockDec WantUpgrade, LockInc WantUpgrade}"
proof -
  have "spin_run s ps' s' \<Longrightarrow> spin_ok s \<Longrightarrow> upgrade_stuck p q s \<Longrightarrow> spin_ok s' \<and> upgrade_stuck p q s'"
    by (induction rule: spin_run.induct) (auto intro: spin_ok_step stuck_step)
  then show ?thesis using spin_run_ok [OF assms(1) spin_start_ok] assms(2-4) by (auto simp: upgrade_stuck_def)
qed

definition upgrade_example :: "(nat \<times> spin_call) list" where
  "upgrade_example = replicate 4 (1, ReadlockAcquire) @ replicate 4 (2, ReadlockAcquire) @ replicate 3 (1, WritelockUpgrade) @ replicate 1 (2, WritelockUpgrade)"

lemma upgrade_example_do: "\<exists>s. spin_do upgrade_example spin_start = Some s \<and> spin_pc s 1 = CountDec \<and> spin_pc s 2 = LockDec WantUpgrade"
  by (simp add: upgrade_example_def spin_start_def atomic_rwlock_setunlocked_def between_calls_def atomic_inc_def atomic_dec_and_test_def
      numeral_eq_Suc)

theorem two_upgrades_deadlock_witness:
  "\<exists>s. spin_run spin_start (map fst upgrade_example) s \<and> spin_pc s 1 \<in> {CountDec, CountInc} \<and>
     spin_pc s 2 \<in> {LockDec WantUpgrade, LockInc WantUpgrade}"
proof -
  obtain s where s: "spin_do upgrade_example spin_start = Some s" "spin_pc s 1 = CountDec" "spin_pc s 2 = LockDec WantUpgrade"
    using upgrade_example_do by auto
  show ?thesis using two_upgrades_deadlock [OF spin_do_run [OF s(1)] _ _ spin_run.stay, of 1 2] spin_do_run [OF s(1)] s(2,3) by auto
qed

section \<open>Smaller flaws\<close>

text \<open>
  A reader that leaves while a writer looks at the count finds it 0 and complains that it was
  decremented too often, although every thread has kept to the rules.
\<close>

lemma complaint_without_cause:
  "map_option complaints (spin_do (replicate 4 (1 :: nat, ReadlockAcquire) @ replicate 3 (2, WritelockAcquire) @ replicate 2 (1, ReadlockRelease)) spin_start)
    = Some 1"
  by (simp add: spin_start_def atomic_rwlock_setunlocked_def between_calls_def atomic_inc_def atomic_dec_and_test_def numeral_eq_Suc)

text \<open>
  Two threads can keep each other out of a free lock: each decrements the counter before the other has undone its
  own attempt.
\<close>

definition livelock :: "'p \<Rightarrow> 'p \<Rightarrow> 'p spin_state" where
  "livelock p q = \<lparr>spin_vars = \<lparr>al_lock = 0, al_readcount = 1\<rparr>,
     spin_pc = (\<lambda>r. if r = p then LockInc WantRead else if r = q then LockDec WantRead else Outside), complaints = 0\<rparr>"

lemma two_threads_livelock:
  assumes "p \<noteq> q"
  shows "spin_do [(q, c), (p, c), (p, c), (q, c)] (livelock p q) = Some (livelock p q)" and "\<not> holds_lock (spin_pc (livelock p q) r)"
  using assms by (auto simp: livelock_def between_calls_def atomic_inc_def atomic_dec_and_test_def fun_upd_def intro!: ext)

end
