(* ===== verification/Mutex_Classes.thy ===== *)
theory Mutex_Classes
  imports Task_Data Atomic_Lock
begin

text \<open>
  The mutex classes of \<open>frame_mutex.c\<close> around \<open>tAbstractMutex\<close>, the helpers \<open>semaphore_*\<close> of \<open>frame_utils.c\<close> and the
  wrappers of \<open>thread.c\<close>. A class is what its methods do to the fields of the object and return,
  with the results of the library calls as arguments. \<open>tSystemVSemaphore::create\<close> runs against a model of
  the system's semaphores, one system call at a time, since processes run it at the same time.
\<close>

section \<open>The common part\<close>

record amutex =
  mx_master :: bool
  mx_connected :: bool
  mx_lockcount :: int

definition mutex_new :: "bool \<Rightarrow> amutex" where
  "mutex_new master = \<lparr>mx_master = master, mx_connected = False, mx_lockcount = 0\<rparr>"

definition mutex_connect :: "amutex \<Rightarrow> amutex" where
  "mutex_connect m = m\<lparr>mx_connected := True\<rparr>"

definition ensure_connected :: "amutex \<Rightarrow> amutex" where
  "ensure_connected m = (if mx_connected m then m else mutex_connect m)"

definition islocked :: "amutex \<Rightarrow> bool" where
  "islocked m = (mx_lockcount m \<noteq> 0)"

text \<open>The methods of the interface: not implemented by the base class, without effect in \<open>tNullMutex\<close>, which leaves one out.\<close>

datatype mutex_method =
    MCreate | MRemove | MAcquire | MTryacquire | MWait | MAcquireRead | MTryacquireRead | MAcquireUpgrade | MTryacquireUpgrade
  | MRelease | MReleaseRead | MReleaseDowngrade

definition abstract_mutex :: "mutex_method \<Rightarrow> tERROR" where
  "abstract_mutex _ = ERR_NotImplemented"

definition null_mutex :: "mutex_method \<Rightarrow> tERROR" where
  "null_mutex f = (if f = MWait then abstract_mutex f else ERR_OK)"

text \<open>Counting locks: the second component is whether the method warns of an unlock without a lock.\<close>

definition count_lock :: "amutex \<Rightarrow> amutex" where
  "count_lock m = m\<lparr>mx_lockcount := mx_lockcount m + 1\<rparr>"

definition count_unlock :: "amutex \<Rightarrow> amutex \<times> bool" where
  "count_unlock m = (if mx_lockcount m > 0 then (m\<lparr>mx_lockcount := mx_lockcount m - 1\<rparr>, False) else (m, True))"

section \<open>Mutexes on atomic counters\<close>

text \<open>The counter of \<open>tAtomicMutex\<close> is set by the master only. One pass of the loop of \<open>acquire\<close>: the lock, or another try.\<close>

definition atomic_mutex_create :: "amutex \<Rightarrow> int \<Rightarrow> tERROR \<times> amutex \<times> int" where
  "atomic_mutex_create m v = (let m1 = ensure_connected m in (ERR_OK, m1, if mx_master m1 then 1 else v))"

definition atomic_mutex_try :: "amutex \<Rightarrow> int \<Rightarrow> (tERROR \<times> amutex) option \<times> int" where
  "atomic_mutex_try m v =
     (let m1 = ensure_connected m; (z, n) = atomic_dec_and_test v
      in if z then (Some (ERR_OK, count_lock m1), n) else (None, atomic_inc n))"

definition atomic_mutex_release :: "amutex \<Rightarrow> int \<Rightarrow> tERROR \<times> amutex \<times> bool \<times> int" where
  "atomic_mutex_release m v = (let (m1, w) = count_unlock (ensure_connected m) in (ERR_OK, m1, w, atomic_inc v))"

text \<open>The object's part of a method of \<open>tAtomicRWMutex\<close>; the counters change as in the call of the same name.\<close>

definition rw_mutex_create :: "amutex \<Rightarrow> atomic_rwlock \<Rightarrow> tERROR \<times> amutex \<times> atomic_rwlock" where
  "rw_mutex_create m v = (let m1 = ensure_connected m in (ERR_OK, m1, if mx_master m1 then atomic_rwlock_setunlocked else v))"

fun rw_mutex :: "spin_call \<Rightarrow> amutex \<Rightarrow> amutex \<times> bool" where
  "rw_mutex ReadlockAcquire m = (count_lock (ensure_connected m), False)"
| "rw_mutex WritelockAcquire m = (count_lock (ensure_connected m), False)"
| "rw_mutex WritelockUpgrade m = count_unlock (ensure_connected m)"
| "rw_mutex WritelockRelease m = count_unlock (ensure_connected m)"
| "rw_mutex ReadlockRelease m = count_unlock (ensure_connected m)"
| "rw_mutex WritelockDowngrade m = count_unlock (ensure_connected m)"

section \<open>POSIX mutexes and semaphores\<close>

text \<open>The argument is the code the library call returns, 0 for success.\<close>

definition err_of :: "int \<Rightarrow> tERROR" where
  "err_of code = (if code \<noteq> 0 then ERR_Mutex else ERR_OK)"

definition pthread_create_mutex :: "int \<Rightarrow> amutex \<Rightarrow> tERROR \<times> amutex" where
  "pthread_create_mutex code m = (let m1 = ensure_connected m in (if mx_master m1 then err_of code else ERR_OK, m1))"

definition pthread_remove :: "int \<Rightarrow> amutex \<Rightarrow> tERROR" where
  "pthread_remove code m = (if mx_connected m \<and> mx_master m then err_of code else ERR_OK)"

definition pthread_acquire :: "int \<Rightarrow> amutex \<Rightarrow> tERROR \<times> amutex" where
  "pthread_acquire code m =
     (let m1 = ensure_connected m in if code \<noteq> 0 then (ERR_Mutex, m1) else (ERR_OK, count_lock m1))"

definition pthread_release :: "int \<Rightarrow> amutex \<Rightarrow> tERROR \<times> amutex \<times> bool" where
  "pthread_release code m = (let (m1, w) = count_unlock (ensure_connected m) in (err_of code, m1, w))"

abbreviation (input) "EINTR \<equiv> 4 :: int"

text \<open>The loop of \<open>tPosixSemaphore::acquire\<close> over what \<open>sem_wait\<close> returns; a script that ends is a call that blocks.\<close>

fun posix_wait :: "int list \<Rightarrow> int option" where
  "posix_wait [] = None"
| "posix_wait (r # rs) = (if r = EINTR then posix_wait rs else Some r)"

text \<open>
  Semaphores. The base class locks the semaphore its own pointer names; \<open>tNamedPosixSemaphore\<close> declares
  a second pointer of the same name, which \<open>create\<close> sets. \<^const>\<open>None\<close> is a pointer that was never set.
\<close>

record posix_sem = amutex +
  sem_named :: bool
  base_semptr :: "nat option"
  named_semptr :: "nat option"

text \<open>\<open>connect\<close> of the unnamed semaphore takes the object's own semaphore, here 0, or the given one.\<close>

definition unnamed_connect :: "nat option \<Rightarrow> posix_sem \<Rightarrow> posix_sem" where
  "unnamed_connect ptr m = m\<lparr>mx_connected := True, base_semptr := Some (case ptr of None \<Rightarrow> 0 | Some p \<Rightarrow> p)\<rparr>"

definition posix_connected :: "posix_sem \<Rightarrow> posix_sem" where
  "posix_connected m =
     (if mx_connected m then m else if sem_named m then m\<lparr>mx_connected := True\<rparr> else unnamed_connect None m)"

definition posix_acquire :: "int list \<Rightarrow> posix_sem \<Rightarrow> (tERROR \<times> posix_sem) option" where
  "posix_acquire rs m =
     (let m1 = posix_connected m
      in if base_semptr m1 = None then None
         else case posix_wait rs of
                None \<Rightarrow> None
              | Some r \<Rightarrow> Some (if r \<noteq> 0 then (ERR_Mutex, m1) else (ERR_OK, m1\<lparr>mx_lockcount := mx_lockcount m1 + 1\<rparr>)))"

definition posix_release :: "int \<Rightarrow> posix_sem \<Rightarrow> (tERROR \<times> posix_sem \<times> bool) option" where
  "posix_release code m =
     (let m1 = posix_connected m
      in if base_semptr m1 = None then None
         else Some (err_of code, m1\<lparr>mx_lockcount := (if mx_lockcount m1 > 0 then mx_lockcount m1 - 1 else mx_lockcount m1)\<rparr>,
                    \<not> mx_lockcount m1 > 0))"

definition unnamed_create :: "int \<Rightarrow> posix_sem \<Rightarrow> tERROR \<times> posix_sem" where
  "unnamed_create code m =
     (let m1 = posix_connected m in (if mx_master m1 then err_of code else ERR_OK, m1))"

definition unnamed_remove :: "int \<Rightarrow> posix_sem \<Rightarrow> tERROR" where
  "unnamed_remove code m = (if mx_connected m \<and> mx_master m then err_of code else ERR_OK)"

definition named_create :: "nat option \<Rightarrow> posix_sem \<Rightarrow> tERROR \<times> posix_sem" where
  "named_create opened m =
     (if opened = None then ERR_Mutex else ERR_OK, m\<lparr>mx_connected := True, named_semptr := opened\<rparr>)"

definition named_remove :: "int \<Rightarrow> posix_sem \<Rightarrow> tERROR" where
  "named_remove code m = (if mx_connected m then err_of code else ERR_Mutex)"

section \<open>System V semaphores\<close>

text \<open>
  The system: which semaphore a key names, and the values. A new semaphore has value 0. The numbers
  of new semaphores are handed out in order; \<open>sv_room\<close> is whether there is room for another one.
\<close>

record sysv =
  sv_keys :: "int \<Rightarrow> nat option"
  sv_vals :: "nat \<Rightarrow> int option"
  sv_next :: nat
  sv_room :: bool

definition sysv_empty :: sysv where
  "sysv_empty = \<lparr>sv_keys = Map.empty, sv_vals = Map.empty, sv_next = 1, sv_room = True\<rparr>"

definition semget :: "bool \<Rightarrow> int \<Rightarrow> sysv \<Rightarrow> nat option \<times> sysv" where
  "semget creat key k =
     (case sv_keys k key of
        Some i \<Rightarrow> (Some i, k)
      | None \<Rightarrow> if creat \<and> sv_room k
          then (Some (sv_next k), k\<lparr>sv_keys := (sv_keys k)(key \<mapsto> sv_next k), sv_vals := (sv_vals k)(sv_next k \<mapsto> 0), sv_next := sv_next k + 1\<rparr>)
          else (None, k))"

definition semctl_rmid :: "nat option \<Rightarrow> sysv \<Rightarrow> bool \<times> sysv" where
  "semctl_rmid i k =
     (case i of None \<Rightarrow> (False, k)
      | Some i \<Rightarrow> if sv_vals k i = None then (False, k)
          else (True, k\<lparr>sv_keys := (\<lambda>key. if sv_keys k key = Some i then None else sv_keys k key), sv_vals := (sv_vals k)(i := None)\<rparr>))"

definition semctl_setval :: "nat option \<Rightarrow> int \<Rightarrow> sysv \<Rightarrow> sysv" where
  "semctl_setval i v k =
     (case i of None \<Rightarrow> k | Some i \<Rightarrow> if sv_vals k i = None then k else k\<lparr>sv_vals := (sv_vals k)(i \<mapsto> v)\<rparr>)"

text \<open>\<open>semop\<close> without waiting.\<close>

definition semop_now :: "nat option \<Rightarrow> int \<Rightarrow> sysv \<Rightarrow> bool \<times> sysv" where
  "semop_now i ch k =
     (case i of None \<Rightarrow> (False, k)
      | Some i \<Rightarrow> (case sv_vals k i of None \<Rightarrow> (False, k)
          | Some v \<Rightarrow> if v + ch < 0 then (False, k) else (True, k\<lparr>sv_vals := (sv_vals k)(i \<mapsto> v + ch)\<rparr>)))"

record sysv_sem = amutex +
  semid :: "nat option"

definition sysv_sem_new :: "bool \<Rightarrow> sysv_sem" where
  "sysv_sem_new master = \<lparr>mx_master = master, mx_connected = False, mx_lockcount = 0, semid = None\<rparr>"

text \<open>\<open>create\<close>, a system call at a time: where it is, and the object so far.\<close>

datatype create_pc = CreateStart | CreateRemove | CreateMake | CreateSet | CreateEnd tERROR

fun create_step :: "int \<Rightarrow> create_pc \<times> sysv_sem \<Rightarrow> sysv \<Rightarrow> (create_pc \<times> sysv_sem) \<times> sysv" where
  "create_step key (CreateStart, m) k =
     (let (i, k1) = semget False key k; m1 = m\<lparr>mx_connected := True, semid := i\<rparr>
      in if mx_master m then ((if i \<noteq> None then CreateRemove else CreateMake, m1), k1)
         else if i = None then ((CreateMake, m1), k1)
         else ((CreateEnd ERR_OK, m1), k1))"
| "create_step key (CreateRemove, m) k = ((CreateMake, m), snd (semctl_rmid (semid m) k))"
| "create_step key (CreateMake, m) k =
     (let (i, k1) = semget True key k
      in ((if i = None then CreateEnd ERR_Mutex else CreateSet, m\<lparr>mx_master := True, semid := i\<rparr>), k1))"
| "create_step key (CreateSet, m) k = ((CreateEnd ERR_OK, m), semctl_setval (semid m) 1 k)"
| "create_step key (CreateEnd r, m) k = ((CreateEnd r, m), k)"

definition sysv_create :: "int \<Rightarrow> sysv_sem \<Rightarrow> sysv \<Rightarrow> (create_pc \<times> sysv_sem) \<times> sysv" where
  "sysv_create key m k =
     (let (s1, k1) = create_step key (CreateStart, m) k; (s2, k2) = create_step key s1 k1; (s3, k3) = create_step key s2 k2
      in create_step key s3 k3)"

definition sysv_remove :: "sysv_sem \<Rightarrow> sysv \<Rightarrow> tERROR \<times> sysv_sem \<times> sysv" where
  "sysv_remove m k =
     (if mx_connected m \<and> mx_master m
      then let (ok, k1) = semctl_rmid (semid m) k
           in (if ok then ERR_OK else ERR_Mutex, m\<lparr>semid := (if ok then Some 0 else None)\<rparr>, k1)
      else (ERR_Mutex, m, k))"

definition sysv_acquire :: "sysv_sem \<Rightarrow> sysv \<Rightarrow> tERROR \<times> sysv_sem \<times> sysv" where
  "sysv_acquire m k =
     (let (ok, k1) = semop_now (semid m) (-1) k in (if ok then ERR_OK else ERR_Mutex, m\<lparr>mx_connected := True\<rparr>, k1))"

section \<open>The semaphores of \<open>frame_utils.c\<close>\<close>

definition semaphore_create :: "bool \<Rightarrow> int \<Rightarrow> sysv \<Rightarrow> nat option \<times> sysv" where
  "semaphore_create master key k =
     (if master
      then let (i, k1) = semget False key k; k2 = (if i \<noteq> None then snd (semctl_rmid i k1) else k1) in semget True key k2
      else semget False key k)"

definition semaphore_remove :: "nat option \<Rightarrow> sysv \<Rightarrow> sysv" where
  "semaphore_remove i k = snd (semctl_rmid i k)"

definition semaphore_getvalue :: "nat option \<Rightarrow> sysv \<Rightarrow> int" where
  "semaphore_getvalue i k = (case i of None \<Rightarrow> -1 | Some i \<Rightarrow> (case sv_vals k i of None \<Rightarrow> -1 | Some v \<Rightarrow> v))"

text \<open>\<open>semaphore_signal\<close> in two calls: whether to post, and the post.\<close>

definition signal_wanted :: "nat option \<Rightarrow> sysv \<Rightarrow> bool" where
  "signal_wanted i k = (semaphore_getvalue i k < 1)"

definition semaphore_signal :: "nat option \<Rightarrow> sysv \<Rightarrow> sysv" where
  "semaphore_signal i k = (if signal_wanted i k then snd (semop_now i 1 k) else k)"

text \<open>\<open>semaphore_wait\<close> over the answers of \<open>semop\<close>: a signal repeats it, any other failure is only logged. The result: whether it was logged.\<close>

fun semaphore_wait :: "(bool \<times> bool) list \<Rightarrow> bool option" where
  "semaphore_wait [] = None"
| "semaphore_wait ((ok, intr) # as) = (if ok then Some False else if intr then semaphore_wait as else Some True)"

section \<open>The wrappers of \<open>thread.c\<close>\<close>

text \<open>
  The argument is the code of the library call, for semaphores \<open>errno\<close> after a failure; an exception carries the
  code whose text it shows.
\<close>

abbreviation (input) "EBUSY \<equiv> 16 :: int"
abbreviation (input) "EAGAIN \<equiv> 11 :: int"
abbreviation (input) "ETIMEDOUT \<equiv> 110 :: int"

definition CThMutex_Lock :: "int \<Rightarrow> int + bool" where
  "CThMutex_Lock r = (if r \<noteq> 0 then Inl r else Inr True)"

definition CThMutex_TryLock :: "int \<Rightarrow> int + bool" where
  "CThMutex_TryLock r = (if r \<noteq> 0 then (if r = EBUSY then Inr False else Inl r) else Inr True)"

definition CThMutex_Unlock :: "int \<Rightarrow> int + bool" where
  "CThMutex_Unlock r = (if r \<noteq> 0 then Inl r else Inr True)"

definition CThSem_new :: "int option \<Rightarrow> int + unit" where
  "CThSem_new failed = (case failed of Some e \<Rightarrow> Inl e | None \<Rightarrow> Inr ())"

definition CThSem_Wait :: "int option \<Rightarrow> int + bool" where
  "CThSem_Wait failed = Inr True"

definition CThSem_TryWait :: "int option \<Rightarrow> int + bool" where
  "CThSem_TryWait failed = (case failed of Some e \<Rightarrow> if e = EAGAIN then Inr False else Inl e | None \<Rightarrow> Inr True)"

definition CThSem_Post :: "int option \<Rightarrow> int + bool" where
  "CThSem_Post failed = (case failed of Some e \<Rightarrow> Inl e | None \<Rightarrow> Inr True)"

definition CThCond_TimedWait :: "int \<Rightarrow> int + bool" where
  "CThCond_TimedWait r = (if r \<noteq> 0 then (if r = ETIMEDOUT \<or> r = EINTR then Inr False else Inl r) else Inr True)"

text \<open>\<open>CThSem::Wait\<close> claims the semaphore also when \<open>sem_wait\<close> was interrupted and did not take it.\<close>

lemma interrupted_wait_succeeds: "CThSem_Wait (Some EINTR) = Inr True"
  by (simp add: CThSem_Wait_def)

section \<open>Creating a semaphore\<close>

definition sysv_ok :: "sysv \<Rightarrow> bool" where
  "sysv_ok k \<longleftrightarrow> (\<forall>key i. sv_keys k key = Some i \<longrightarrow> sv_vals k i \<noteq> None) \<and>
     (\<forall>i. sv_vals k i \<noteq> None \<longrightarrow> i < sv_next k) \<and> inj_on (sv_keys k) (dom (sv_keys k))"

lemma sysv_empty_ok: "sysv_ok sysv_empty"
  by (simp add: sysv_ok_def sysv_empty_def)

lemmas create_defs = sysv_create_def semget_def semctl_rmid_def semctl_setval_def Let_def

lemma sysv_ok_next: "sysv_ok k \<Longrightarrow> sv_vals k (sv_next k) = None"
  by (metis less_irrefl sysv_ok_def)

text \<open>
  What a \<open>create\<close> that nothing interrupts leaves. An object that is not master attaches to the semaphore there is,
  whatever its value, and changes nothing; if there is none, it makes one, free for one user, and becomes master. A master always makes
  a new one, and the old one is gone with whoever waits on it.
\<close>

lemma sysv_create_attaches:
  assumes "sv_keys k key = Some i" and "\<not> mx_master m"
  shows "sysv_create key m k = ((CreateEnd ERR_OK, m\<lparr>mx_connected := True, semid := Some i\<rparr>), k)"
  using assms by (simp add: create_defs)

lemma sysv_create_makes:
  assumes "sv_keys k key = None" and "sv_room k" and "sv_vals k (sv_next k) = None"
  shows "sysv_create key m k = ((CreateEnd ERR_OK, m\<lparr>mx_connected := True, mx_master := True, semid := Some (sv_next k)\<rparr>),
    k\<lparr>sv_keys := (sv_keys k)(key \<mapsto> sv_next k), sv_vals := (sv_vals k)(sv_next k \<mapsto> 1), sv_next := sv_next k + 1\<rparr>)"
  using assms by (simp add: create_defs)

lemma sysv_create_replaces:
  assumes "sysv_ok k" and "sv_keys k key = Some i" and "mx_master m" and "sv_room k"
  shows "\<exists>k'. sysv_create key m k = ((CreateEnd ERR_OK, m\<lparr>mx_connected := True, mx_master := True, semid := Some (sv_next k)\<rparr>), k') \<and>
    sv_keys k' key = Some (sv_next k) \<and> sv_vals k' (sv_next k) = Some 1 \<and> sv_vals k' i = None"
proof -
  have "sv_vals k i \<noteq> None" "i \<noteq> sv_next k" "sv_vals k (sv_next k) = None"
    using assms(1,2) sysv_ok_next [OF assms(1)] by (auto simp: sysv_ok_def)
  then show ?thesis using assms(2-4) by (simp add: create_defs)
qed

text \<open>
  C38. Two processes that create the semaphore at the same time both get in. Each looks for it, finds none and
  makes it; the second one's \<open>semget\<close> yields the first one's semaphore, which it sets back to 1, even if
  the first has taken it in the meantime.
\<close>

theorem create_race_lets_two_in:
  assumes "sv_keys k key = None" and "sv_room k" and "sysv_ok k" and "\<not> mx_master mq"
    and looked: "create_step key (CreateStart, mq) k = (q1, k1)"
    and first: "sysv_create key mp k1 = ((CreateEnd rp, mp1), k2)" "sysv_acquire mp1 k2 = (ap, mp2, k3)"
    and second: "create_step key q1 k3 = (q2, k4)" "create_step key q2 k4 = (q3, k5)" "sysv_acquire (snd q3) k5 = (aq, mq2, k6)"
  shows "rp = ERR_OK \<and> ap = ERR_OK \<and> fst q3 = CreateEnd ERR_OK \<and> aq = ERR_OK \<and> semid mp2 = semid mq2"
proof -
  have n: "sv_vals k (sv_next k) = None" by (rule sysv_ok_next [OF assms(3)])
  have q1: "q1 = (CreateMake, mq\<lparr>mx_connected := True, semid := None\<rparr>)" "k1 = k"
    using looked assms(1,4) by (auto simp: semget_def)
  note c = sysv_create_makes [OF assms(1,2) n, of mp]
  then have p1: "rp = ERR_OK" "semid mp1 = Some (sv_next k)" "sv_keys k2 key = Some (sv_next k)" "sv_vals k2 (sv_next k) = Some 1"
    using first(1) q1(2) by auto
  then have p2: "ap = ERR_OK" "semid mp2 = Some (sv_next k)" "sv_keys k3 key = Some (sv_next k)" "sv_vals k3 (sv_next k) = Some 0"
    using first(2) by (auto simp: sysv_acquire_def semop_now_def)
  have q2: "q2 = (CreateSet, mq\<lparr>mx_connected := True, semid := Some (sv_next k), mx_master := True\<rparr>)" "k4 = k3"
    using second(1) q1(1) p2(3) by (auto simp: semget_def)
  then have "fst q3 = CreateEnd ERR_OK" "semid (snd q3) = Some (sv_next k)" "sv_vals k5 (sv_next k) = Some 1"
    using second(2) p2(4) by (auto simp: semctl_setval_def)
  then show ?thesis using second(3) p1(1) p2(1,2) by (auto simp: sysv_acquire_def semop_now_def)
qed

theorem create_race_lets_two_in_witness:
  "\<exists>q1 k1 rp mp1 k2 ap mp2 k3 q2 k4 q3 k5 aq mq2 k6.
     create_step 7 (CreateStart, sysv_sem_new False) sysv_empty = (q1, k1) \<and>
     sysv_create 7 (sysv_sem_new False) k1 = ((CreateEnd rp, mp1), k2) \<and> sysv_acquire mp1 k2 = (ap, mp2, k3) \<and>
     create_step 7 q1 k3 = (q2, k4) \<and> create_step 7 q2 k4 = (q3, k5) \<and> sysv_acquire (snd q3) k5 = (aq, mq2, k6) \<and>
     rp = ERR_OK \<and> ap = ERR_OK \<and> fst q3 = CreateEnd ERR_OK \<and> aq = ERR_OK \<and> semid mp2 = semid mq2"
proof -
  obtain q1 k1 where 1: "create_step 7 (CreateStart, sysv_sem_new False) sysv_empty = (q1, k1)" by fastforce
  then have "k1 = sysv_empty" by (auto simp: semget_def sysv_empty_def sysv_sem_new_def)
  moreover have e: "sv_keys sysv_empty 7 = None" "sv_room sysv_empty" by (simp_all add: sysv_empty_def)
  ultimately obtain rp mp1 k2 where 2: "sysv_create 7 (sysv_sem_new False) k1 = ((CreateEnd rp, mp1), k2)"
    using sysv_create_makes [OF e sysv_ok_next [OF sysv_empty_ok], of "sysv_sem_new False"] by auto
  obtain ap mp2 k3 where 3: "sysv_acquire mp1 k2 = (ap, mp2, k3)" by (cases "sysv_acquire mp1 k2")
  obtain q2 k4 where 4: "create_step 7 q1 k3 = (q2, k4)" by fastforce
  obtain q3 k5 where 5: "create_step 7 q2 k4 = (q3, k5)" by fastforce
  obtain aq mq2 k6 where 6: "sysv_acquire (snd q3) k5 = (aq, mq2, k6)" by (cases "sysv_acquire (snd q3) k5")
  have "\<not> mx_master (sysv_sem_new False)" by (simp add: sysv_sem_new_def)
  from create_race_lets_two_in [OF e sysv_empty_ok this 1 2 3 4 5 6] 1 2 3 4 5 6 show ?thesis by blast
qed

text \<open>A semaphore that a new master makes while another process is inside lets a second one in, and the first one's release fails.\<close>

lemma new_master_lets_in:
  assumes "sysv_ok k" and "sv_keys k key = Some i" and "mx_master m" and "sv_room k" and "sysv_create key m k = ((r, m1), k1)"
  shows "fst (sysv_acquire m1 k1) = ERR_OK \<and> \<not> fst (semop_now (Some i) 1 k1)"
  using sysv_create_replaces [OF assms(1-4)] assms(5) by (auto simp: sysv_acquire_def semop_now_def)

text \<open>Two signallers that both see the value 0 raise it to 2.\<close>

lemma signal_twice:
  assumes "sv_vals k i = Some 0"
  shows "signal_wanted (Some i) k \<and> semaphore_getvalue (Some i) (snd (semop_now (Some i) 1 (snd (semop_now (Some i) 1 k)))) = 2"
  using assms by (simp add: signal_wanted_def semaphore_getvalue_def semop_now_def)

lemma semaphore_signal_once:
  assumes "sv_vals k i = Some v" and "0 \<le> v"
  shows "semaphore_getvalue (Some i) (semaphore_signal (Some i) k) = max 1 v"
  using assms by (simp add: semaphore_signal_def signal_wanted_def semaphore_getvalue_def semop_now_def)

section \<open>Flaws of the other classes\<close>

text \<open>
  \<open>acquire_upgrade\<close> counts down as if the lock were given back: the object of a thread that has the lock
  for writing says that it is not locked, and its release warns.
\<close>

lemma upgrade_hides_lock:
  defines "m1 \<equiv> fst (rw_mutex ReadlockAcquire (mutex_new False))"
  defines "m2 \<equiv> fst (rw_mutex WritelockUpgrade m1)"
  shows "islocked m1 \<and> \<not> islocked m2 \<and> snd (rw_mutex WritelockRelease m2)"
  by (simp add: assms islocked_def mutex_new_def ensure_connected_def mutex_connect_def count_lock_def count_unlock_def)

text \<open>The loop of \<open>tPosixSemaphore::acquire\<close> compares the returned -1 with \<open>EINTR\<close>: an interrupted wait is an error.\<close>

lemma interrupted_acquire_fails: "base_semptr m \<noteq> None \<Longrightarrow> mx_connected m \<Longrightarrow> map_option fst (posix_acquire (-1 # rs) m) = Some ERR_Mutex"
  by (simp add: posix_acquire_def posix_connected_def)

text \<open>A named semaphore cannot be used: \<open>create\<close> sets its own pointer, \<open>acquire\<close> and \<open>release\<close> follow the base class's, which nothing sets.\<close>

lemma named_semaphore_unusable:
  assumes "sem_named m" and "base_semptr m = None" and "named_create opened m = (r, m1)"
  shows "posix_acquire rs m1 = None \<and> posix_release code m1 = None"
  using assms by (auto simp: named_create_def posix_acquire_def posix_release_def posix_connected_def)

text \<open>\<open>tNullMutex\<close> does not override \<open>wait\<close>.\<close>

lemma null_mutex_wait: "null_mutex f = ERR_OK \<longleftrightarrow> f \<noteq> MWait"
  by (simp add: null_mutex_def abstract_mutex_def)

text \<open>A mutex of counters: while someone is inside, a try leaves the counter and the object's count as they were.\<close>

lemma atomic_mutex_busy: "v \<le> 0 \<Longrightarrow> atomic_mutex_try m v = (None, v)"
  by (simp add: atomic_mutex_try_def atomic_dec_and_test_def atomic_inc_def)

lemma atomic_mutex_round:
  assumes "atomic_mutex_try m 1 = (Some (r, m1), v)"
  shows "r = ERR_OK \<and> v = 0 \<and> (0 \<le> mx_lockcount m \<longrightarrow> atomic_mutex_release m1 v = (ERR_OK, ensure_connected m, False, 1))"
  using assms by (auto simp: atomic_mutex_try_def atomic_mutex_release_def atomic_dec_and_test_def atomic_inc_def
      count_lock_def count_unlock_def ensure_connected_def mutex_connect_def)

section \<open>Scopes\<close>

text \<open>
  \<open>tGuardCurrentScope\<close> acquires the mutex when it is made and releases it when it is deleted, whatever \<open>acquire\<close> has returned.
  The second component is whether the release warns.
\<close>

definition guard_scope :: "(amutex \<Rightarrow> tERROR \<times> amutex) \<Rightarrow> (amutex \<Rightarrow> tERROR \<times> amutex \<times> bool) \<Rightarrow> amutex \<Rightarrow> amutex \<times> bool" where
  "guard_scope acquire release m = (let (_, m1) = acquire m; (_, m2, w) = release m1 in (m2, w))"

lemma guard_balanced:
  "0 \<le> mx_lockcount m \<Longrightarrow> guard_scope (pthread_acquire 0) (pthread_release c) m = (ensure_connected m, False)"
  by (auto simp: guard_scope_def pthread_acquire_def pthread_release_def count_lock_def count_unlock_def ensure_connected_def
      mutex_connect_def Let_def)

text \<open>When \<open>acquire\<close> fails the guard releases a lock it has not got: a lock taken earlier with the same object is gone.\<close>

lemma guard_releases_other:
  assumes "code \<noteq> 0" and "0 < mx_lockcount m"
  shows "mx_lockcount (fst (guard_scope (pthread_acquire code) (pthread_release c) m)) = mx_lockcount m - 1"
  using assms by (simp add: guard_scope_def pthread_acquire_def pthread_release_def count_unlock_def ensure_connected_def
      mutex_connect_def Let_def)

text \<open>
  \<open>CLock\<close>, the same for a bare \<open>pthread_mutex_t\<close>; a call that fails leaves a message. It shows \<open>errno\<close>, which the calls do
  not set, and not the code they return.
\<close>

definition CLock_message :: "(int \<Rightarrow> cstring) \<Rightarrow> int \<Rightarrow> cstring \<Rightarrow> int \<Rightarrow> cstring option" where
  "CLock_message strerror errno call m_err =
     (if m_err \<noteq> 0 then Some ('' '' @ call @ '' error:'' @ show_int errno @ '',  '' @ strerror errno) else None)"

definition CLock_scope :: "(int \<Rightarrow> cstring) \<Rightarrow> int \<Rightarrow> int \<Rightarrow> int \<Rightarrow> int \<Rightarrow> cstring option \<times> cstring option" where
  "CLock_scope strerror errno1 lock_code errno2 unlock_code =
     (CLock_message strerror errno1 ''pthread_mutex_lock'' lock_code, CLock_message strerror errno2 ''pthread_mutex_unlock'' unlock_code)"

lemma CLock_code_not_shown:
  "c \<noteq> 0 \<Longrightarrow> d \<noteq> 0 \<Longrightarrow> CLock_scope strerror e c e' u = CLock_scope strerror e d e' u"
  by (simp add: CLock_scope_def CLock_message_def)

text \<open>The destructors of \<open>thread.c\<close> throw what the library returns; \<open>Signal\<close>, \<open>Broadcast\<close> and \<open>Wait\<close> always claim success.\<close>

definition CThSem_delete :: "int option \<Rightarrow> int + unit" where
  "CThSem_delete failed = (case failed of Some e \<Rightarrow> Inl e | None \<Rightarrow> Inr ())"

definition CThCond_delete :: "int \<Rightarrow> int + unit" where
  "CThCond_delete r = (if r \<noteq> 0 then Inl r else Inr ())"

definition CThCond_call :: "int \<Rightarrow> int + bool" where
  "CThCond_call r = Inr True"

end
