(* ===== verification/Main_Program.thy ===== *)
theory Main_Program
  imports Task_Manager Db_Process Mutex_Classes
begin

text \<open>
  \<open>main.c\<close>: the set-up every command goes through and the commands, over the configuration file, the
  system's semaphores and whether the shared segment is there. With it \<open>schedule_start\<close> of \<open>schedule.c\<close> and
  \<open>creat_task_list\<close> of \<open>taskmanager.c\<close>.
\<close>

section \<open>Hexadecimal numbers\<close>

text \<open>\<open>strtol\<close> with base 16; a value beyond a \<open>long\<close> becomes the nearest one.\<close>

definition hex_digit :: "char \<Rightarrow> int option" where
  "hex_digit c =
     (if is_digit c then Some (digit_val c)
      else let n = of_char c in if 65 \<le> n \<and> n \<le> 70 then Some (n - 55) else if 97 \<le> n \<and> n \<le> 102 then Some (n - 87) else None)"

fun hex_digits :: "int \<Rightarrow> cstring \<Rightarrow> int" where
  "hex_digits acc [] = acc"
| "hex_digits acc (c # cs) = (case hex_digit c of None \<Rightarrow> acc | Some v \<Rightarrow> hex_digits (acc * 16 + v) cs)"

fun skip_0x :: "cstring \<Rightarrow> cstring" where
  "skip_0x (z # x # c # cs) = (if z = CHR ''0'' \<and> x \<in> {CHR ''x'', CHR ''X''} \<and> hex_digit c \<noteq> None then c # cs else z # x # c # cs)"
| "skip_0x s = s"

definition strtol_16 :: "cstring \<Rightarrow> int" where
  "strtol_16 s =
     (let r = dropWhile is_space s;
          v = (if r \<noteq> [] \<and> hd r = CHR ''-'' then - hex_digits 0 (skip_0x (tl r))
               else if r \<noteq> [] \<and> hd r = CHR ''+'' then hex_digits 0 (skip_0x (tl r))
               else hex_digits 0 (skip_0x r))
      in max (- (2 ^ 63)) (min (2 ^ 63 - 1) v))"

section \<open>Setting up\<close>

text \<open>
  The environment: the working directory, the configuration, whether the queue can be had, whether the shared segment exists and holds
  the allocator's object.
\<close>

record main_env =
  me_dir :: cstring
  me_ini :: "cstring option"
  me_queue :: bool
  me_segment :: bool
  me_allocator :: bool

datatype main_exit = NoProgramId | SchedulerExists | ReloadSent "cstring option" | NotEnoughMemory

record main_state =
  g_pid :: int
  mem_id :: int
  master :: bool
  segment_key :: "64 word"
  segment_size :: int
  segment_address :: int
  alloc_sem :: sysv_sem
  file_sem :: sysv_sem

definition sem_key :: "cstring \<Rightarrow> int" where
  "sem_key name = sint (crc32 name :: 32 word)"

text \<open>\<^const>\<open>None\<close>: a name that does not fit its array.\<close>

definition init :: "cstring list \<Rightarrow> main_env \<Rightarrow> sysv \<Rightarrow> ((main_exit + main_state) \<times> sysv) option" where
  "init args env k =
     (let ini = me_ini env; pid = read_ini_int ini ''TaskList'' ''PROGRAM_ID'' (-999);
          start = (length args = 1 \<and> strneq (hd args) ''start'' 5); reload = (length args = 1 \<and> strneq (hd args) ''reload'' 6);
          shm = read_ini_string ini ''TaskList'' ''SHM_KEY_NAME'' ''shm_filecollection'';
          sem = read_ini_string ini ''TaskList'' ''SHM_SEMAPHORE_NAME'' ''shm_sem'';
          address = strtol_16 (read_ini_string ini ''TaskList'' ''SHM_ADDRESS'' ''0x10000000'');
          sz = read_ini_int ini ''TaskList'' ''SHM_SIZE'' 2147483647
      in if \<not> fits (NAME_MAX + 1) (me_dir env @ ''/ini/Task.ini'') then None
         else if pid = -999 then Some (Inl NoProgramId, k)
         else if start \<and> read_ini_int ini ''TaskList'' ''SCHEDULE_P_ID'' 0 \<noteq> 0 then Some (Inl SchedulerExists, k)
         else if reload then Some (Inl (ReloadSent (if me_queue env then Some schedule_reload else None)), k)
         else if \<not> fits 128 shm \<or> \<not> fits 128 sem then None
         else
           let mst = \<not> me_segment env;
               ((_, s1), k1) = sysv_create (sem_key sem) (sysv_sem_new mst) k
           in if \<not> mst \<and> \<not> me_allocator env then Some (Inl NotEnoughMemory, k1)
              else let ((_, s2), k2) = sysv_create (sem_key ''childpid_operate_file_semaphore'') (sysv_sem_new mst) k1
                   in Some (Inr \<lparr>g_pid = pid, mem_id = (if start then pid else 10), master = mst, segment_key = crc32 shm,
                                 segment_size = sz, segment_address = address, alloc_sem = s1, file_sem = s2\<rparr>, k2))"

section \<open>The commands\<close>

datatype main_command = RunList | RunStart | RunStop | RunClean | RunOne int | RunUsage

definition main_command_of :: "cstring list \<Rightarrow> main_command" where
  "main_command_of args =
     (case args of
        [] \<Rightarrow> RunList
      | [a] \<Rightarrow> if a = ''start'' then RunStart else if a = ''stop'' then RunStop else if a = ''clean'' then RunClean else RunUsage
      | [a, b] \<Rightarrow> if a = ''start'' then RunOne (atoi b) else RunUsage
      | _ \<Rightarrow> RunUsage)"

definition creat_task_list ::
  "cstring option \<Rightarrow> (int \<times> cfg_row) list \<Rightarrow> TASK_ITEM list \<Rightarrow> cstring \<Rightarrow> db \<Rightarrow> (db_list \<times> db) option" where
  "creat_task_list ini fs tasks time d =
     do {
       (_, d1) \<leftarrow> connect_oracle ini d;
       l \<leftarrow> create_task_item_list_by_db fs tasks time;
       Some (l, snd (disconnect_oracle d1))
     }"

text \<open>\<open>schedule_start\<close>: the queue, made or found, and the child's process or -1.\<close>

definition schedule_start :: "int option \<Rightarrow> int option \<Rightarrow> int \<Rightarrow> int option \<times> int" where
  "schedule_start made found forked =
     (case made of Some q \<Rightarrow> (Some q, forked)
      | None \<Rightarrow> (case found of Some q \<Rightarrow> (Some q, forked) | None \<Rightarrow> (None, -1)))"

text \<open>The system command of \<open>clean\<close>, with the segment it finds (-1: none).\<close>

definition clean_command :: "int \<Rightarrow> cstring" where
  "clean_command shmid = ''ipcrm -m '' @ show_int shmid"

text \<open>The command \<open>start\<close> behind \<open>init\<close>: the task list, and the scheduler with its tasks.\<close>

definition run_start ::
  "main_env \<Rightarrow> (int \<times> cfg_row) list \<Rightarrow> db \<Rightarrow> int option \<Rightarrow> int option \<Rightarrow> int \<Rightarrow> (cstring option \<times> cstring list \<times> db) option" where
  "run_start env fs d made found forked =
     do {
       (l, d1) \<leftarrow> creat_task_list (me_ini env) fs [] '''' d;
       (case schedule_start made found forked of (q, pid) \<Rightarrow> do {
          (file, posted) \<leftarrow> load_task (me_dir env @ ''/ini/Task.ini'') (me_ini env) (dl_tasks l) pid (case q of None \<Rightarrow> -1 | Some q \<Rightarrow> q);
          Some (file, posted, d1)
        })
     }"

section \<open>One scheduler\<close>

definition ini_text :: "cstring \<Rightarrow> bool" where
  "ini_text content = (\<forall>c \<in> set (fgets_lines 256 content). text_line c)"

abbreviation (input) "ini_get content key \<equiv> read_sections True ''TaskList'' key (fgets_lines 256 content)"

lemma ini_word_int:
  assumes "0 \<le> v" and "v < 2 ^ 31"
  shows "ini_word (show_int v)"
proof -
  have "length (show_int v) \<le> 10" by (rule show_int_length) (use assms in auto)
  moreover have "\<not> ward_sep c \<and> c \<noteq> NUL" if "c \<in> set (show_int v)" for c
    using show_int_chars [OF that] by (auto simp: ward_sep_def)
  ultimately show ?thesis by (simp add: ini_word_def)
qed

lemma ini_names: "ini_section ''TaskList''" "ini_key ''SCHEDULE_P_ID''" "ini_key ''SCHEDULE_MSG_ID''" "ini_key ''PROGRAM_ID''"
  by (simp_all add: ini_section_def ini_key_def ini_word_def ward_sep_def)

lemma write_int_text:
  assumes "ini_text content" and "write_ini_int name (Some content) ''TaskList'' key v = Some content'" and "ini_key key" and "0 \<le> v" and "v < 2 ^ 31"
  shows "ini_text content'" and "ini_get content' key = Some (show_int v)"
    and "ini_key key2 \<Longrightarrow> key2 \<noteq> key \<Longrightarrow> ini_get content key2 = Some w \<Longrightarrow> ini_get content' key2 = Some w"
proof -
  have c: "content' = concat (write_ini_chunks content ''TaskList'' key (show_int v))"
    using assms(2) by (auto simp: write_ini_int_def write_ini_string_def split: if_splits)
  note w = ini_word_int [OF assms(4,5)] and t = assms(1) [unfolded ini_text_def]
  show "ini_text content'" "ini_get content' key = Some (show_int v)"
    using write_other_sections(1) [OF assms(3) w ini_names(1) t] write_read_sections [OF assms(3) w ini_names(1) t]
    by (simp_all add: ini_text_def c)
  show "ini_get content' key2 = Some w" if "ini_key key2" "key2 \<noteq> key" "ini_get content key2 = Some w"
    using write_other_sections(2) [OF assms(3) \<open>ini_word (show_int v)\<close> ini_names(1) t that] by (simp add: c)
qed

text \<open>What the configuration says after the scheduler was started: its process and queue, and the program's number as before.\<close>

lemma load_task_file:
  assumes "ini_text content" and "load_task name (Some content) tasks pid q = Some (file, posted)"
    and "read_ini_int (Some content) ''TaskList'' ''SCHEDULE_P_ID'' 0 = 0"
    and "0 < pid" and "pid < 2 ^ 31" and "0 \<le> q" and "q < 2 ^ 31"
  shows "\<exists>content'. file = Some content' \<and> ini_text content' \<and> ini_get content' ''SCHEDULE_P_ID'' = Some (show_int pid) \<and>
    (\<forall>w. ini_get content ''PROGRAM_ID'' = Some w \<longrightarrow> ini_get content' ''PROGRAM_ID'' = Some w)"
proof -
  obtain f1 f2 where f1: "write_ini_int name (Some content) ''TaskList'' ''SCHEDULE_P_ID'' pid = Some f1"
    and f2: "write_ini_int name (Some f1) ''TaskList'' ''SCHEDULE_MSG_ID'' q = Some f2" and f: "file = Some f2"
    using assms(2-4) by (auto simp: load_task_def split: bind_splits dest!: sym [of "Some _"])
  note w1 = write_int_text [OF assms(1) f1 ini_names(2) less_imp_le [OF assms(4)] assms(5)]
  note w2 = write_int_text [OF w1(1) f2 ini_names(3) assms(6,7)]
  have "ini_get f2 ''SCHEDULE_P_ID'' = Some (show_int pid)" by (rule w2(3) [OF ini_names(2) _ w1(2)]) simp
  moreover have "ini_get f2 ''PROGRAM_ID'' = Some w" if "ini_get content ''PROGRAM_ID'' = Some w" for w
    using w2(3) [OF ini_names(4) _ w1(3) [OF ini_names(4) _ that]] by simp
  ultimately show ?thesis using f w2(1) by blast
qed

text \<open>\<open>stop_task\<close> leaves a configuration that names no scheduler.\<close>

lemma stop_task_clears:
  assumes "ini_text c" and "stop_task name (Some c) answers = Some (file, out, ended)"
  shows "read_ini_int file ''TaskList'' ''SCHEDULE_P_ID'' 0 \<le> 0"
proof (cases "read_ini_int (Some c) ''TaskList'' ''SCHEDULE_P_ID'' 0 \<le> 0")
  case False
  obtain f1 f2 where f1: "write_ini_int name (Some c) ''TaskList'' ''SCHEDULE_MSG_ID'' 0 = Some f1"
    and f2: "write_ini_int name (Some f1) ''TaskList'' ''SCHEDULE_P_ID'' 0 = Some f2" and f: "file = Some f2"
    using assms(2) False by (auto simp: stop_task_def split: bind_splits dest!: sym [of "Some _"])
  have "ini_text f1" by (rule write_int_text(1) [OF assms(1) f1 ini_names(3)]) simp_all
  from write_int_text(2) [OF this f2 ini_names(2)] show ?thesis by (simp add: f read_ini_int_def)
qed (use assms(2) in \<open>simp add: stop_task_def\<close>)

text \<open>
  C16. One scheduler at a time. Once a scheduler has been started, another \<open>start\<close> in the same directory ends
  in its set-up, before it touches a semaphore or the shared segment; \<open>load_task\<close> itself would refuse too.
\<close>

theorem scheduler_is_single:
  assumes "ini_text content" and "load_task name (Some content) tasks pid q = Some (file, posted)"
    and "read_ini_int (Some content) ''TaskList'' ''SCHEDULE_P_ID'' 0 = 0" and "read_ini_int (Some content) ''TaskList'' ''PROGRAM_ID'' (-999) \<noteq> -999"
    and "0 < pid" and "pid < 2 ^ 31" and "0 \<le> q" and "q < 2 ^ 31"
    and "me_ini env = file" and "fits (NAME_MAX + 1) (me_dir env @ ''/ini/Task.ini'')"
  shows "init [''start''] env k = Some (Inl SchedulerExists, k) \<and> load_task name' file tasks' pid' q' = Some (file, [])"
proof -
  obtain c where c: "file = Some c" "ini_get c ''SCHEDULE_P_ID'' = Some (show_int pid)"
    "\<And>w. ini_get content ''PROGRAM_ID'' = Some w \<Longrightarrow> ini_get c ''PROGRAM_ID'' = Some w"
    using load_task_file [OF assms(1-3,5-8)] by blast
  have p: "read_ini_int file ''TaskList'' ''SCHEDULE_P_ID'' 0 = pid" using c(1,2) by (simp add: read_ini_int_def)
  have "read_ini_int file ''TaskList'' ''PROGRAM_ID'' (-999) \<noteq> -999"
    using assms(4) c(1,3) by (auto simp: read_ini_int_def split: option.splits)
  then show ?thesis using p assms(5,9,10) by (simp add: init_def Let_def strneq_def load_task_def)
qed

definition demo_ini :: cstring where
  "demo_ini = concat [''[TaskList]'' @ [LF], ''PROGRAM_ID = 3'' @ [LF]]"

lemma demo_ini_lines: "fgets_lines 256 demo_ini = [''[TaskList]'' @ [LF], ''PROGRAM_ID = 3'' @ [LF]]"
  unfolding demo_ini_def by (rule fgets_lines_chunks) (simp add: text_line_def)

lemma demo_ini_reads:
  "ini_text demo_ini" "read_ini_int (Some demo_ini) ''TaskList'' ''PROGRAM_ID'' (-999) = 3" "read_ini_int (Some demo_ini) ''TaskList'' ''SCHEDULE_P_ID'' 0 = 0"
proof -
  have h: "ini_header ''TaskList'' (''[TaskList]'' @ [LF])" "ini_match ''TaskList'' (''[TaskList]'' @ [LF])"
    using header_line(1,2) [OF ini_names(1)] by simp_all
  have w: "ini_word ''PROGRAM_ID''" "ini_word ''3''" by (simp_all add: ini_word_def ward_sep_def)
  have k: "''PROGRAM_ID = 3'' @ [LF] = key_line ''PROGRAM_ID'' ''3''" by (simp add: key_line_def)
  show "ini_text demo_ini" by (simp add: ini_text_def demo_ini_lines text_line_def)
  have r: "ini_get demo_ini key = read_keys True key [key_line ''PROGRAM_ID'' ''3'']" for key
    unfolding demo_ini_lines k using h by simp
  show "read_ini_int (Some demo_ini) ''TaskList'' ''PROGRAM_ID'' (-999) = 3"
    using read_keys_hit [OF ini_names(4) w(2), of True "[]"]
    by (simp add: read_ini_int_def r atoi_def digit_val_def is_digit_def is_space_def del: read_keys.simps)
  show "read_ini_int (Some demo_ini) ''TaskList'' ''SCHEDULE_P_ID'' 0 = 0"
    using ward_key_line(1) [OF w] by (simp add: read_ini_int_def r)
qed

definition demo_env :: "cstring option \<Rightarrow> main_env" where
  "demo_env file = \<lparr>me_dir = [], me_ini = file, me_queue = True, me_segment = True, me_allocator = True\<rparr>"

theorem scheduler_is_single_witness:
  "\<exists>file posted. load_task ''/ini/Task.ini'' (Some demo_ini) [] 42 7 = Some (file, posted) \<and>
     init [''start''] (demo_env file) sysv_empty = Some (Inl SchedulerExists, sysv_empty)"
proof -
  obtain f posted where l: "load_task ''/ini/Task.ini'' (Some demo_ini) [] 42 7 = Some (f, posted)"
    using demo_ini_reads(3) by (simp add: load_task_def write_ini_int_def write_ini_string_def)
  have "init [''start''] (demo_env f) sysv_empty = Some (Inl SchedulerExists, sysv_empty) \<and> load_task [] f [] 0 0 = Some (f, [])"
    by (rule scheduler_is_single [OF demo_ini_reads(1) l demo_ini_reads(3)])
      (use demo_ini_reads(2) in \<open>simp_all add: demo_env_def fits_def NAME_MAX_def\<close>)
  then show ?thesis using l by blast
qed

end
