(* ===== verification/Shm_Pool.thy ===== *)
theory Shm_Pool
  imports Shm_Keys Main_Program
begin

text \<open>
  The rest of the shared-memory allocator: attaching the segment (\<open>tSharedMemoryPool\<close>), freeing with a hint, data by key,
  and the STL allocator \<open>tSTLShMemAllocator\<close> of \<open>frame_memory.h\<close>, which finds the allocator of a
  process through a map in the shared memory.
\<close>

section \<open>The segment\<close>

text \<open>
  The master first destroys a segment that is there: each pair is whether \<open>shmget\<close> finds one and whether it can be
  destroyed. A script that ends is a loop that goes on for ever.
\<close>

fun destroy_segment :: "(bool \<times> bool) list \<Rightarrow> nat option" where
  "destroy_segment [] = None"
| "destroy_segment ((found, ok) # as) = (if \<not> found then Some 0 else map_option Suc (destroy_segment as))"

text \<open>
  Attaching, with the addresses \<open>shmat\<close> yields: at the address asked for, and at the one the master has left in the
  segment. The result is where the pool is, and what the segment's first word then says.
\<close>

definition attach_segment :: "bool \<Rightarrow> int option \<Rightarrow> int \<Rightarrow> int option \<Rightarrow> int option \<times> int" where
  "attach_segment mst at stored again =
     (case at of None \<Rightarrow> (None, stored)
      | Some a \<Rightarrow> if mst then (Some a, a) else if stored = a then (Some a, stored) else (again, stored))"

lemma attach_at_masters_address:
  assumes "attach_segment True (Some a) x y = (Some a, stored)" and "again = None \<or> again = Some stored"
    and "attach_segment False at stored again = (Some b, z)"
  shows "b = a"
  using assms by (auto simp: attach_segment_def split: option.splits if_splits)

section \<open>Freeing with a hint, data by key\<close>

text \<open>
  A hint is the first and the last block of a key. \<open>free_keyhint\<close> takes the semaphore, brings the hint up to
  date and calls \<open>free\<close>, which takes the semaphore too.
\<close>

definition hint_without :: "nat \<Rightarrow> nat \<times> nat \<Rightarrow> pool \<Rightarrow> (nat \<times> nat) option" where
  "hint_without b hint p =
     do {
       h \<leftarrow> header_at p b;
       lst \<leftarrow> (if snd hint \<noteq> b then Some (snd hint) else if key_prev h = 0 then Some 0
              else do { n \<leftarrow> header_at p (key_prev h); Some (if blk_key n \<noteq> blk_key h then 0 else key_prev h) });
       fir \<leftarrow> (if fst hint \<noteq> b then Some (fst hint) else if key_next h = 0 then Some 0
              else do { n \<leftarrow> header_at p (key_next h); Some (if blk_key n \<noteq> blk_key h then 0 else key_next h) });
       Some (fir, lst)
     }"

definition free_keyhint :: "nat \<Rightarrow> nat \<times> nat \<Rightarrow> pool \<Rightarrow> ((nat \<times> nat) \<times> pool) option" where
  "free_keyhint b hint p =
     do {
       (_, v) \<leftarrow> wait_value (-1) (pool_sem p);
       hint' \<leftarrow> (if b = 0 then Some hint else hint_without b hint p);
       p1 \<leftarrow> shm_free b (p\<lparr>pool_sem := v\<rparr>);
       Some (hint', p1\<lparr>pool_sem := pool_sem p1 + 1\<rparr>)
     }"

text \<open>
  \<open>free_keyhint\<close> never returns. It waits for the semaphore it holds itself: on a pool whose semaphore is free
  for one user, as it is from the start, the call blocks for ever, and with it every other user of the pool.
\<close>

theorem free_keyhint_blocks:
  assumes "pool_sem p \<le> 1"
  shows "free_keyhint b hint p = None"
  using assms by (auto simp: free_keyhint_def shm_free_def wait_value_def split: bind_splits if_splits)

theorem free_keyhint_blocks_witness: "free_keyhint 72 (72, 72) (pool_reset 4096) = None"
  by (rule free_keyhint_blocks) (simp add: pool_reset_def)

text \<open>\<open>getdata\<close>: where the data of the first block with the key begins, 0 for no block.\<close>

definition getdata :: "int \<Rightarrow> pool \<Rightarrow> nat option" where
  "getdata key p = do { b \<leftarrow> getfirst key True p; Some (if b = 0 then 0 else b + hdr_size) }"

section \<open>The STL allocator\<close>

text \<open>
  The map from \<open>mem_id\<close> to a process's allocator object lies in the shared memory, while the objects lie in the processes. An entry may hold
  the null pointer, the inner \<^const>\<open>None\<close>.
\<close>

type_synonym 'a alloc_map = "int \<rightharpoonup> 'a option"

definition setmalloc :: "int \<Rightarrow> 'a \<Rightarrow> 'a alloc_map option \<Rightarrow> 'a alloc_map" where
  "setmalloc i a cur =
     (case cur of
        None \<Rightarrow> (\<lambda>j. if j = i then Some (Some a) else if 0 \<le> j \<and> j < 15 then Some None else None)
      | Some m \<Rightarrow> m(i \<mapsto> Some a))"

text \<open>\<^const>\<open>None\<close>: the process has no entry, and the end of the map is followed.\<close>

definition getmalloc :: "int \<Rightarrow> 'a alloc_map \<Rightarrow> 'a option option" where
  "getmalloc i m = m i"

datatype stl_result = FromHeap | FromPool alloc_result | FromNowhere

definition stl_allocate :: "int \<Rightarrow> 'a alloc_map option \<Rightarrow> nat \<Rightarrow> nat \<Rightarrow> pool \<Rightarrow> (stl_result \<times> pool) option" where
  "stl_allocate i cur num sz p =
     (case cur of
        None \<Rightarrow> Some (FromHeap, p)
      | Some m \<Rightarrow> do {
          a \<leftarrow> getmalloc i m;
          if a = None then Some (FromNowhere, p)
          else do { (r, p1) \<leftarrow> shm_malloc (num * sz) p; Some (FromPool r, p1) }
        })"

definition stl_deallocate :: "int \<Rightarrow> 'a alloc_map option \<Rightarrow> nat \<Rightarrow> pool \<Rightarrow> pool option" where
  "stl_deallocate i cur data p =
     (case cur of
        None \<Rightarrow> Some p
      | Some m \<Rightarrow> do {
          a \<leftarrow> getmalloc i m;
          if a = None then Some p else shm_free (data - hdr_size) p
        })"

text \<open>What a process has set it gets back, until a process with its number sets another.\<close>

lemma getmalloc_setmalloc: "getmalloc j (setmalloc i a (Some m)) = (if j = i then Some (Some a) else getmalloc j m)"
  by (simp add: getmalloc_def setmalloc_def)

lemma getmalloc_first: "getmalloc i (setmalloc i a None) = Some (Some a)"
  by (simp add: getmalloc_def setmalloc_def)

text \<open>
  Every command but \<open>start\<close> uses the number 10. Of two that run at the same time the first one then finds the second
  one's allocator, an address in another process.
\<close>

lemma tool_mem_id:
  assumes "init args env k = Some (Inr s, k')"
  shows "mem_id s = (if length args = 1 \<and> strneq (hd args) ''start'' 5 then g_pid s else 10)"
  using assms by (auto simp: init_def Let_def split: if_splits prod.splits)

lemma two_tools_share_slot:
  assumes "init args1 env1 k1 = Some (Inr s1, k1')" and "init args2 env2 k2 = Some (Inr s2, k2')"
    and "length args1 \<noteq> 1 \<or> \<not> strneq (hd args1) ''start'' 5" and "length args2 \<noteq> 1 \<or> \<not> strneq (hd args2) ''start'' 5"
  shows "getmalloc (mem_id s1) (setmalloc (mem_id s2) b (Some (setmalloc (mem_id s1) a cur))) = Some (Some b)"
  using tool_mem_id [OF assms(1)] tool_mem_id [OF assms(2)] assms(3,4) by (auto simp: getmalloc_setmalloc)

end
