(* ===== verification/Mem_Pool.thy ===== *)
theory Mem_Pool
  imports Prelude
begin

text \<open>
  The memory pools of \<open>memmanager.c\<close>. A pointer is the block it points into with the offset from the
  block's first data byte. A block header's \<open>endp\<close> and \<open>first_avail\<close> are such offsets; the chains
  linked by \<open>next\<close> are lists, as are a pool's children linked by \<open>sub_next\<close> and \<open>sub_prev\<close>. A pool
  lives at the start of its own first block, so that block names it. Sizes are those of a 64-bit machine:
  24 bytes for a block header, 56 for a pool, alignment 8.
\<close>

section \<open>Blocks and pools\<close>

record mblock =
  blk_id :: nat
  endp :: int
  first_avail :: int

record mpool =
  pool_blocks :: "mblock list"
  free_first_avail :: int
  sub_pools :: "nat list"
  pool_parent :: "nat option"

text \<open>
  \<open>mallocs\<close> holds the successes of the calls of \<open>malloc\<close>; behind its end they succeed. Each
  success is a block with a name of its own.
\<close>

record mem =
  free_list :: "mblock list"
  pools :: "nat \<Rightarrow> mpool option"
  next_id :: nat
  mallocs :: "bool list"
  bytes :: "nat \<times> int \<Rightarrow> char"

abbreviation (input) "BLOCK_MINALLOC \<equiv> 8192 :: int"
abbreviation (input) "BLOCK_MINFREE \<equiv> 4096 :: int"
abbreviation (input) "BLOCK_HDR_BYTES \<equiv> 24 :: int"
abbreviation (input) "CLICK_SZ \<equiv> 8 :: int"
abbreviation (input) "POOL_HDR_BYTES \<equiv> 56 :: int"

text \<open>The conversion to \<open>int\<close>.\<close>

definition to_int :: "int \<Rightarrow> int" where
  "to_int x = sint (word_of_int x :: 32 word)"

text \<open>\<^const>\<open>None\<close> is \<open>exit(1)\<close> without memory, or the overflow of \<open>size\<close> plus the header.\<close>

definition malloc_block :: "int \<Rightarrow> mem \<Rightarrow> (mblock \<times> mem) option" where
  "malloc_block n m =
     (if 2 ^ 31 \<le> n + BLOCK_HDR_BYTES \<or> (mallocs m \<noteq> [] \<and> \<not> hd (mallocs m)) then None
      else Some (\<lparr>blk_id = next_id m, endp = n, first_avail = 0\<rparr>, m\<lparr>next_id := next_id m + 1, mallocs := tl (mallocs m)\<rparr>))"

definition reset_block :: "mblock \<Rightarrow> mblock" where
  "reset_block b = b\<lparr>first_avail := 0\<rparr>"

definition free_blocks :: "mblock list \<Rightarrow> mem \<Rightarrow> mem" where
  "free_blocks bs m = (if bs = [] then m else m\<lparr>free_list := map reset_block bs @ free_list m\<rparr>)"

text \<open>The search of the free list: the first block with room, and the list without it.\<close>

fun take_free :: "int \<Rightarrow> mblock list \<Rightarrow> (mblock \<times> mblock list) option" where
  "take_free n [] = None"
| "take_free n (b # bs) =
     (if n + BLOCK_MINFREE \<le> endp b - first_avail b then Some (b, bs)
      else (case take_free n bs of None \<Rightarrow> None | Some (c, bs') \<Rightarrow> Some (c, b # bs')))"

definition new_block :: "int \<Rightarrow> mem \<Rightarrow> (mblock \<times> mem) option" where
  "new_block n m =
     (if 2 ^ 31 \<le> n + BLOCK_MINFREE then None
      else case take_free n (free_list m) of
             Some (b, bs) \<Rightarrow> Some (b, m\<lparr>free_list := bs\<rparr>)
           | None \<Rightarrow> malloc_block (if n + BLOCK_MINFREE > BLOCK_MINALLOC then n + BLOCK_MINFREE else BLOCK_MINALLOC) m)"

fun bytes_in_block_list :: "mblock list \<Rightarrow> int" where
  "bytes_in_block_list [] = 0"
| "bytes_in_block_list (b # bs) = endp b + bytes_in_block_list bs"

definition bytes_in_pool :: "nat \<Rightarrow> mem \<Rightarrow> int option" where
  "bytes_in_pool a m = (case pools m a of None \<Rightarrow> None | Some p \<Rightarrow> Some (bytes_in_block_list (pool_blocks p)))"

definition bytes_in_free_blocks :: "mem \<Rightarrow> int" where
  "bytes_in_free_blocks m = bytes_in_block_list (free_list m)"

section \<open>Making and destroying pools\<close>

definition make_sub_pool :: "nat option \<Rightarrow> mem \<Rightarrow> (nat \<times> mem) option" where
  "make_sub_pool parent m =
     do {
       (b, m1) \<leftarrow> new_block POOL_HDR_BYTES m;
       let b1 = b\<lparr>first_avail := first_avail b + POOL_HDR_BYTES\<rparr>;
           a = blk_id b;
           new = \<lparr>pool_blocks = [b1], free_first_avail = first_avail b1, sub_pools = [], pool_parent = parent\<rparr>
       in case parent of
            None \<Rightarrow> Some (a, m1\<lparr>pools := (pools m1)(a \<mapsto> new)\<rparr>)
          | Some p \<Rightarrow> do {
              pp \<leftarrow> pools m1 p;
              Some (a, m1\<lparr>pools := (pools m1)(p \<mapsto> pp\<lparr>sub_pools := a # sub_pools pp\<rparr>, a \<mapsto> new)\<rparr>)
            }
     }"

text \<open>\<open>destroy_pool\<close> behind its call of \<open>clear_pool\<close>.\<close>

definition unlink_pool :: "nat \<Rightarrow> mem \<Rightarrow> mem option" where
  "unlink_pool a m =
     do {
       pa \<leftarrow> pools m a;
       m1 \<leftarrow> (case pool_parent pa of
                None \<Rightarrow> Some m
              | Some p \<Rightarrow> do {
                  pp \<leftarrow> pools m p;
                  Some (m\<lparr>pools := (pools m)(p \<mapsto> pp\<lparr>sub_pools := remove1 a (sub_pools pp)\<rparr>)\<rparr>)
                });
       Some (free_blocks (pool_blocks pa) (m1\<lparr>pools := (pools m1)(a := None)\<rparr>))
     }"

definition shrink_pool :: "nat \<Rightarrow> mpool \<Rightarrow> mem \<Rightarrow> mem option" where
  "shrink_pool a pa m =
     (case pool_blocks pa of
        [] \<Rightarrow> None
      | b # bs \<Rightarrow>
          (let m1 = free_blocks bs m
           in Some (m1\<lparr>pools := (pools m1)(a \<mapsto> pa\<lparr>pool_blocks := [b\<lparr>first_avail := free_first_avail pa\<rparr>]\<rparr>)\<rparr>)))"

partial_function (option) clear_pool :: "nat \<Rightarrow> mem \<Rightarrow> mem option" where
  "clear_pool a m =
     Option.bind (pools m a) (\<lambda>pa.
       case sub_pools pa of
         [] \<Rightarrow> shrink_pool a pa m
       | c # _ \<Rightarrow> Option.bind (clear_pool c m) (\<lambda>m1. Option.bind (unlink_pool c m1) (clear_pool a)))"

declare clear_pool.simps [code]

definition destroy_pool :: "nat \<Rightarrow> mem \<Rightarrow> mem option" where
  "destroy_pool a m = Option.bind (clear_pool a m) (unlink_pool a)"

definition mem_start :: mem where
  "mem_start = \<lparr>free_list = [], pools = Map.empty, next_id = 0, mallocs = [], bytes = (\<lambda>_. NUL)\<rparr>"

definition init_alloc :: "mem \<Rightarrow> (nat \<times> mem) option" where
  "init_alloc m = make_sub_pool None m"

section \<open>Allocating\<close>

text \<open>The size rounded up to whole clicks, computed as \<open>size_t\<close> and stored as \<open>int\<close>.\<close>

definition click_size :: "int \<Rightarrow> int" where
  "click_size n = to_int (to_int (1 + (n - 1) div CLICK_SZ) * CLICK_SZ)"

text \<open>\<open>Some None\<close> of the result is the null pointer for a size that is not positive.\<close>

definition palloc :: "nat \<Rightarrow> int \<Rightarrow> mem \<Rightarrow> ((nat \<times> int) option \<times> mem) option" where
  "palloc a n m =
     do {
       pa \<leftarrow> pools m a;
       if pool_blocks pa = [] then None
       else if n \<le> 0 then Some (None, m)
       else
         let k = click_size n; b = last (pool_blocks pa) in
         if first_avail b + k \<le> endp b then
           Some (Some (blk_id b, first_avail b),
                 m\<lparr>pools := (pools m)(a \<mapsto> pa\<lparr>pool_blocks := butlast (pool_blocks pa) @ [b\<lparr>first_avail := first_avail b + k\<rparr>]\<rparr>)\<rparr>)
         else do {
           (c, m1) \<leftarrow> new_block k m;
           Some (Some (blk_id c, first_avail c),
                 m1\<lparr>pools := (pools m1)(a \<mapsto> pa\<lparr>pool_blocks := pool_blocks pa @ [c\<lparr>first_avail := first_avail c + k\<rparr>]\<rparr>)\<rparr>)
         }
     }"

text \<open>Writing bytes behind a pointer; \<open>memset\<close>, \<open>memcpy\<close> and \<open>strcpy\<close> into the null pointer are undefined.\<close>

fun store :: "nat \<times> int \<Rightarrow> cstring \<Rightarrow> (nat \<times> int \<Rightarrow> char) \<Rightarrow> nat \<times> int \<Rightarrow> char" where
  "store (b, i) [] f = f"
| "store (b, i) (c # cs) f = store (b, i + 1) cs (f((b, i) := c))"

definition put_bytes :: "cstring \<Rightarrow> (nat \<times> int) option \<times> mem \<Rightarrow> ((nat \<times> int) option \<times> mem) option" where
  "put_bytes cs = (\<lambda>(p, m). case p of None \<Rightarrow> None | Some q \<Rightarrow> Some (Some q, m\<lparr>bytes := store q cs (bytes m)\<rparr>))"

definition pcalloc :: "nat \<Rightarrow> int \<Rightarrow> mem \<Rightarrow> ((nat \<times> int) option \<times> mem) option" where
  "pcalloc a n m = Option.bind (palloc a n m) (put_bytes (replicate (nat n) NUL))"

text \<open>The first argument \<^const>\<open>None\<close> is the null pointer.\<close>

definition pstrdup :: "nat \<Rightarrow> cstring option \<Rightarrow> mem \<Rightarrow> ((nat \<times> int) option \<times> mem) option" where
  "pstrdup a s m =
     (case s of None \<Rightarrow> Some (None, m)
      | Some s \<Rightarrow> Option.bind (palloc a (to_int (int (length s) + 1)) m) (put_bytes (s @ [NUL])))"

definition pstrndup :: "nat \<Rightarrow> cstring option \<Rightarrow> nat \<Rightarrow> mem \<Rightarrow> ((nat \<times> int) option \<times> mem) option" where
  "pstrndup a s n m =
     (case s of None \<Rightarrow> Some (None, m)
      | Some s \<Rightarrow>
          if length s + 1 < n then None
          else Option.bind (palloc a (int n + 1) m) (put_bytes (take n (s @ [NUL]) @ [NUL])))"

definition pstrcat :: "nat \<Rightarrow> cstring list \<Rightarrow> mem \<Rightarrow> ((nat \<times> int) option \<times> mem) option" where
  "pstrcat a ss m = Option.bind (palloc a (int (length (concat ss)) + 1) m) (put_bytes (concat ss @ [NUL]))"

end
