(* ===== verification/Mem_Facts.thy ===== *)
theory Mem_Facts
  imports Mem_Pool
begin

text \<open>
  What the memory pools promise: allocated areas do not overlap, clearing and destroying pools
  returns and loses no block, strings stay what they were.
\<close>

section \<open>Pools in order\<close>

definition block_fine :: "mblock \<Rightarrow> bool" where
  "block_fine b \<longleftrightarrow> 0 \<le> first_avail b \<and> first_avail b \<le> endp b \<and> 8 dvd first_avail b"

definition ids :: "mblock list \<Rightarrow> nat set" where
  "ids bs = blk_id ` set bs"

lemma mem_ids_simps [simp]: "ids [] = {}" "ids (b # bs) = insert (blk_id b) (ids bs)" "ids (bs @ cs) = ids bs \<union> ids cs"
  "ids (map reset_block bs) = ids bs"
  by (auto simp: ids_def reset_block_def image_image)

lemma in_ids: "b \<in> set bs \<Longrightarrow> blk_id b \<in> ids bs"
  by (simp add: ids_def)

definition pool_fine :: "nat \<Rightarrow> mpool \<Rightarrow> bool" where
  "pool_fine a p \<longleftrightarrow> pool_blocks p \<noteq> [] \<and> blk_id (hd (pool_blocks p)) = a \<and> free_first_avail p = 56 \<and>
     56 \<le> first_avail (hd (pool_blocks p)) \<and> distinct (map blk_id (pool_blocks p)) \<and> list_all block_fine (pool_blocks p)"

text \<open>The free list \<open>fl\<close> and the pools \<open>P\<close> share no block, and no block is newer than \<open>n\<close>.\<close>

definition blocks_ok :: "mblock list \<Rightarrow> (nat \<Rightarrow> mpool option) \<Rightarrow> nat \<Rightarrow> bool" where
  "blocks_ok fl P n \<longleftrightarrow>
     distinct (map blk_id fl) \<and> list_all (\<lambda>b. block_fine b \<and> first_avail b = 0) fl \<and> ids fl \<subseteq> {..<n} \<and>
     (\<forall>a p. P a = Some p \<longrightarrow> pool_fine a p \<and> ids (pool_blocks p) \<subseteq> {..<n} \<and> ids (pool_blocks p) \<inter> ids fl = {}) \<and>
     (\<forall>a b p q. P a = Some p \<longrightarrow> P b = Some q \<longrightarrow> a \<noteq> b \<longrightarrow> ids (pool_blocks p) \<inter> ids (pool_blocks q) = {})"

lemma blocks_okD:
  assumes "blocks_ok fl P n"
  shows "distinct (map blk_id fl)" "list_all (\<lambda>b. block_fine b \<and> first_avail b = 0) fl" "ids fl \<subseteq> {..<n}"
    "P a = Some p \<Longrightarrow> pool_fine a p" "P a = Some p \<Longrightarrow> ids (pool_blocks p) \<subseteq> {..<n}" "P a = Some p \<Longrightarrow> ids (pool_blocks p) \<inter> ids fl = {}"
    "P a = Some p \<Longrightarrow> P b = Some q \<Longrightarrow> a \<noteq> b \<Longrightarrow> ids (pool_blocks p) \<inter> ids (pool_blocks q) = {}"
  using assms by (auto simp: blocks_ok_def)

definition tree_ok :: "(nat \<Rightarrow> mpool option) \<Rightarrow> bool" where
  "tree_ok P \<longleftrightarrow>
     (\<forall>a p. P a = Some p \<longrightarrow> distinct (sub_pools p) \<and> (\<forall>c \<in> set (sub_pools p). \<exists>q. P c = Some q \<and> pool_parent q = Some a)) \<and>
     (\<forall>c q a. P c = Some q \<longrightarrow> pool_parent q = Some a \<longrightarrow> (\<exists>p. P a = Some p \<and> c \<in> set (sub_pools p)))"

lemma tree_child:
  assumes "tree_ok P" and "P a = Some p"
  shows "distinct (sub_pools p)" "\<forall>c \<in> set (sub_pools p). \<exists>q. P c = Some q \<and> pool_parent q = Some a"
  using assms unfolding tree_ok_def by blast+

lemma tree_parent:
  assumes "tree_ok P" and "P c = Some q" and "pool_parent q = Some a"
  shows "\<exists>p. P a = Some p \<and> c \<in> set (sub_pools p)"
  using assms unfolding tree_ok_def by blast

definition edges :: "(nat \<Rightarrow> mpool option) \<Rightarrow> (nat \<times> nat) set" where
  "edges P = {(a, c). \<exists>p. P a = Some p \<and> c \<in> set (sub_pools p)}"

definition rank_ok :: "(nat \<Rightarrow> nat) \<Rightarrow> (nat \<Rightarrow> mpool option) \<Rightarrow> bool" where
  "rank_ok r P \<longleftrightarrow> (\<forall>(a, c) \<in> edges P. r c < r a)"

definition mem_ok :: "mem \<Rightarrow> bool" where
  "mem_ok m \<longleftrightarrow> blocks_ok (free_list m) (pools m) (next_id m) \<and> tree_ok (pools m) \<and> (\<exists>r. rank_ok r (pools m))"

text \<open>The bytes in use, and all blocks there are with their sizes.\<close>

definition used :: "mblock list \<Rightarrow> (nat \<times> int) set" where
  "used bs = {(blk_id b, i) | b i. b \<in> set bs \<and> 0 \<le> i \<and> i < first_avail b}"

definition live :: "mem \<Rightarrow> (nat \<times> int) set" where
  "live m = (\<Union>p \<in> ran (pools m). used (pool_blocks p))"

definition area :: "nat \<times> int \<Rightarrow> int \<Rightarrow> (nat \<times> int) set" where
  "area p n = {(fst p, i) | i. snd p \<le> i \<and> i < snd p + n}"

definition sized :: "mblock list \<Rightarrow> (nat \<times> int) set" where
  "sized bs = (\<lambda>b. (blk_id b, endp b)) ` set bs"

lemma sized_simps [simp]: "sized [] = {}" "sized (b # bs) = insert (blk_id b, endp b) (sized bs)" "sized (bs @ cs) = sized bs \<union> sized cs"
  "sized (map reset_block bs) = sized bs"
  by (auto simp: sized_def reset_block_def image_image)

definition owned :: "mblock list \<Rightarrow> (nat \<Rightarrow> mpool option) \<Rightarrow> (nat \<times> int) set" where
  "owned fl P = sized fl \<union> (\<Union>p \<in> ran P. sized (pool_blocks p))"

lemma mem_start_ok: "mem_ok mem_start"
  by (auto simp: mem_ok_def mem_start_def blocks_ok_def tree_ok_def rank_ok_def edges_def)

lemma blocks_mono:
  assumes "blocks_ok fl P n" and "n \<le> k"
  shows "blocks_ok fl P k"
proof -
  have "{..<n} \<subseteq> {..<k}" using assms(2) by auto
  then show ?thesis using assms(1) unfolding blocks_ok_def by (meson order_trans)
qed

section \<open>New blocks\<close>

lemma take_free_result:
  "take_free n bs = Some (b, bs') \<Longrightarrow> \<exists>xs ys. bs = xs @ b # ys \<and> bs' = xs @ ys \<and> n + 4096 \<le> endp b - first_avail b"
  by (induction bs arbitrary: bs') (force split: if_splits option.splits intro: exI [of _ "[]"] exI [of _ "_ # _"])+

lemma new_block_ok:
  assumes "new_block n m = Some (b, m1)" and "blocks_ok (free_list m) (pools m) (next_id m)" and "0 \<le> n"
  shows "pools m1 = pools m" "bytes m1 = bytes m" "blocks_ok (free_list m1) (pools m) (next_id m1)" "block_fine b" "first_avail b = 0" "n \<le> endp b"
    "blk_id b \<notin> ids (free_list m1)" "blk_id b < next_id m1" "\<And>a p. pools m a = Some p \<Longrightarrow> blk_id b \<notin> ids (pool_blocks p)"
    "owned (free_list m1) (pools m) \<union> {(blk_id b, endp b)} \<supseteq> owned (free_list m) (pools m)"
proof -
  have "pools m1 = pools m \<and> bytes m1 = bytes m \<and> blocks_ok (free_list m1) (pools m) (next_id m1) \<and> block_fine b \<and> first_avail b = 0 \<and> n \<le> endp b \<and>
    blk_id b \<notin> ids (free_list m1) \<and> blk_id b < next_id m1 \<and> (\<forall>a p. pools m a = Some p \<longrightarrow> blk_id b \<notin> ids (pool_blocks p)) \<and>
    owned (free_list m1) (pools m) \<union> {(blk_id b, endp b)} \<supseteq> owned (free_list m) (pools m)"
  proof (cases "take_free n (free_list m)")
    case None
    have lt: "next_id m \<notin> ids (free_list m)" "\<forall>a p. pools m a = Some p \<longrightarrow> next_id m \<notin> ids (pool_blocks p)"
      using assms(2) unfolding blocks_ok_def by (meson lessThan_iff less_irrefl subsetD)+
    have "blocks_ok (free_list m) (pools m) (next_id m + 1)"
      by (rule blocks_mono [OF assms(2)]) simp
    then show ?thesis using None assms(1,3) lt
      by (auto simp: new_block_def malloc_block_def block_fine_def split: if_splits)
  next
    case (Some r)
    then obtain bs' where r: "take_free n (free_list m) = Some (b, bs')" "m1 = m\<lparr>free_list := bs'\<rparr>"
      using assms(1) by (cases r) (auto simp: new_block_def split: if_splits)
    then obtain xs ys where xy: "free_list m = xs @ b # ys" "bs' = xs @ ys" "n + 4096 \<le> endp b - first_avail b"
      using take_free_result by blast
    show ?thesis using assms(2) xy r(2) by (auto simp: blocks_ok_def owned_def in_ids ids_def)
  qed
  then show "pools m1 = pools m" "bytes m1 = bytes m" "blocks_ok (free_list m1) (pools m) (next_id m1)" "block_fine b" "first_avail b = 0" "n \<le> endp b"
    "blk_id b \<notin> ids (free_list m1)" "blk_id b < next_id m1" "\<And>a p. pools m a = Some p \<Longrightarrow> blk_id b \<notin> ids (pool_blocks p)"
    "owned (free_list m1) (pools m) \<union> {(blk_id b, endp b)} \<supseteq> owned (free_list m) (pools m)"
    by blast+
qed

section \<open>Replacing a pool's blocks\<close>

lemma tree_upd:
  assumes "tree_ok P" and "P a = Some p" and "sub_pools p' = sub_pools p" and "pool_parent p' = pool_parent p"
  shows "tree_ok (P(a \<mapsto> p'))"
  unfolding tree_ok_def
proof (rule conjI; intro allI impI)
  fix x px assume x: "(P(a \<mapsto> p')) x = Some px"
  then obtain qx where q: "P x = Some qx" "sub_pools px = sub_pools qx" using assms(2,3) by (auto split: if_splits)
  then have "distinct (sub_pools px)" "\<forall>c \<in> set (sub_pools px). \<exists>q. P c = Some q \<and> pool_parent q = Some x"
    using tree_child [OF assms(1) q(1)] by simp_all
  then show "distinct (sub_pools px) \<and> (\<forall>c \<in> set (sub_pools px). \<exists>q. (P(a \<mapsto> p')) c = Some q \<and> pool_parent q = Some x)"
    using assms(2,4) by (metis fun_upd_apply option.inject)
next
  fix c q x assume c: "(P(a \<mapsto> p')) c = Some q" "pool_parent q = Some x"
  then obtain q' where "P c = Some q'" "pool_parent q' = Some x" using assms(2,4) by (auto split: if_splits)
  then obtain px where "P x = Some px" "c \<in> set (sub_pools px)" using tree_parent [OF assms(1)] by blast
  then show "\<exists>p. (P(a \<mapsto> p')) x = Some p \<and> c \<in> set (sub_pools p)" using assms(2,3) by (metis fun_upd_apply option.inject)
qed

lemma edges_upd:
  assumes "P a = Some p" and "sub_pools p' = sub_pools p"
  shows "edges (P(a \<mapsto> p')) = edges P"
  using assms by (auto simp: edges_def split: if_splits)

lemma blocks_upd:
  assumes "blocks_ok fl P n" and "P a = Some p" and "pool_fine a p'" and "ids (pool_blocks p') \<subseteq> {..<n}" and "ids (pool_blocks p') \<inter> ids fl = {}"
    and "\<And>b q. b \<noteq> a \<Longrightarrow> P b = Some q \<Longrightarrow> ids (pool_blocks p') \<inter> ids (pool_blocks q) = {}"
  shows "blocks_ok fl (P(a \<mapsto> p')) n"
  using assms unfolding blocks_ok_def by (simp add: Int_commute)

section \<open>palloc\<close>

lemma to_int_id: "- (2 ^ 31) \<le> x \<Longrightarrow> x < 2 ^ 31 \<Longrightarrow> to_int x = x"
  unfolding to_int_def by (simp add: signed_of_int signed_take_bit_int_eq_self)

lemma click_size_bounds:
  assumes "0 < n" and "n \<le> 2 ^ 31 - 8"
  shows "n \<le> click_size n" "0 < click_size n" "8 dvd click_size n" "click_size n < n + 8"
proof -
  have "click_size n = (1 + (n - 1) div 8) * 8"
  proof -
    have a: "to_int (1 + (n - 1) div 8) = 1 + (n - 1) div 8" by (rule to_int_id) (use assms in auto)
    show ?thesis unfolding click_size_def a by (rule to_int_id) (use assms in auto)
  qed
  then show "n \<le> click_size n" "0 < click_size n" "8 dvd click_size n" "click_size n < n + 8" using assms by auto
qed

lemma used_simps [simp]: "used [] = {}" "used (bs @ cs) = used bs \<union> used cs"
  "used [b] = {(blk_id b, i) | i. 0 \<le> i \<and> i < first_avail b}"
  by (auto simp: used_def)

lemma used_ids: "x \<in> used bs \<Longrightarrow> fst x \<in> ids bs"
  by (auto simp: used_def in_ids)

lemma ran_upd: "ran (P(a \<mapsto> p)) = insert p (ran (P(a := None)))"
  by (auto simp: ran_def)

lemma live_split:
  assumes "pools m a = Some p"
  shows "live m = used (pool_blocks p) \<union> (\<Union>q \<in> ran ((pools m)(a := None)). used (pool_blocks q))"
proof -
  have "pools m = (pools m)(a \<mapsto> p)" using assms by (simp add: fun_upd_idem)
  then have "ran (pools m) = insert p (ran ((pools m)(a := None)))" using ran_upd by metis
  then show ?thesis by (simp add: live_def)
qed

lemma owned_split:
  assumes "P a = Some p"
  shows "owned fl P = sized fl \<union> sized (pool_blocks p) \<union> (\<Union>q \<in> ran (P(a := None)). sized (pool_blocks q))"
proof -
  have "P = P(a \<mapsto> p)" using assms by (simp add: fun_upd_idem)
  then have "ran P = insert p (ran (P(a := None)))" using ran_upd by metis
  then show ?thesis by (auto simp: owned_def)
qed

text \<open>A pool gets another list of blocks: what it used before is still in use, and the new area was not.\<close>

lemma grow_pool:
  assumes B: "blocks_ok fl (pools m) n" and T: "tree_ok (pools m)" and R: "\<exists>r. rank_ok r (pools m)" and p: "pools m a = Some p"
    and m': "free_list m' = fl" "pools m' = (pools m)(a \<mapsto> p\<lparr>pool_blocks := bs\<rparr>)" "next_id m' = n"
    and fine: "pool_fine a (p\<lparr>pool_blocks := bs\<rparr>)"
    and ids: "ids bs \<subseteq> insert b (ids (pool_blocks p))" and b: "b \<in> ids (pool_blocks p) \<or> b < n \<and> b \<notin> ids fl \<and> (\<forall>x q. pools m x = Some q \<longrightarrow> b \<notin> ids (pool_blocks q))"
    and used: "used bs = used (pool_blocks p) \<union> area (b, i) k" "used (pool_blocks p) \<inter> area (b, i) k = {}"
  shows "mem_ok m'" "live m' = live m \<union> area (b, i) k" "live m \<inter> area (b, i) k = {}"
proof -
  have new: "ids bs \<inter> ids (pool_blocks q) = {}" and bq: "b \<notin> ids (pool_blocks q)" if "x \<noteq> a" "pools m x = Some q" for x q
    using blocks_okD(7) [OF B p that(2)] that ids b by fastforce+
  have "blocks_ok fl (pools m') n"
    unfolding m' by (rule blocks_upd [OF B p fine]) (use ids b blocks_okD(5,6) [OF B p] new in auto)
  moreover have "tree_ok (pools m')" unfolding m' by (rule tree_upd [OF T p]) simp_all
  moreover have "edges (pools m') = edges (pools m)" unfolding m' by (rule edges_upd) (use p in simp_all)
  then have "\<exists>r. rank_ok r (pools m')" using R by (simp add: rank_ok_def)
  ultimately show "mem_ok m'" by (simp add: mem_ok_def m')
  have l: "live m' = used bs \<union> (\<Union>q \<in> ran ((pools m)(a := None)). used (pool_blocks q))"
    using live_split [of m' a "p\<lparr>pool_blocks := bs\<rparr>"] m'(2) by simp
  then show "live m' = live m \<union> area (b, i) k" using live_split [OF p] used(1) by auto
  have "area (b, i) k \<inter> used (pool_blocks q) = {}" if q: "q \<in> ran ((pools m)(a := None))" for q
  proof -
    obtain x where "x \<noteq> a" "pools m x = Some q" using q by (auto simp: ran_def split: if_splits)
    then have "b \<notin> ids (pool_blocks q)" by (rule bq)
    then show ?thesis by (auto simp: area_def dest: used_ids)
  qed
  then show "live m \<inter> area (b, i) k = {}" using live_split [OF p] used(2) by auto
qed

text \<open>A pool's list of blocks with room taken from the last, or with one more block.\<close>

lemma palloc_ok:
  assumes ok: "mem_ok m" and r: "palloc a n m = Some (Some (b, i), m')" and n: "n \<le> 2 ^ 31 - 8"
  shows "mem_ok m'" "bytes m' = bytes m" "8 dvd i" "0 < n"
    "\<exists>k \<ge> n. live m' = live m \<union> area (b, i) k \<and> live m \<inter> area (b, i) k = {}"
    "owned (free_list m) (pools m) \<subseteq> owned (free_list m') (pools m')"
    "\<And>x. x \<noteq> a \<Longrightarrow> pools m' x = pools m x"
proof -
  have B: "blocks_ok (free_list m) (pools m) (next_id m)" and T: "tree_ok (pools m)" and R: "\<exists>r. rank_ok r (pools m)"
    using ok by (simp_all add: mem_ok_def)
  obtain p where p: "pools m a = Some p" using r by (auto simp: palloc_def split: bind_splits)
  show n0: "0 < n" using r p by (auto simp: palloc_def split: if_splits)
  have "pool_blocks p \<noteq> []" using r p by (auto simp: palloc_def split: if_splits)
  then obtain bs l where bl: "pool_blocks p = bs @ [l]" by (metis append_butlast_last_id)
  define k where "k = click_size n"
  have k: "n \<le> k" "0 < k" "8 dvd k" using click_size_bounds [OF n0 n] by (simp_all add: k_def)
  have fine: "pool_fine a p" "ids (pool_blocks p) \<subseteq> {..<next_id m}" "ids (pool_blocks p) \<inter> ids (free_list m) = {}"
    using blocks_okD(4-6) [OF B p] by blast+
  have lf: "block_fine l" and lid: "blk_id l \<notin> ids bs" using fine(1) bl by (auto simp: pool_fine_def ids_def)
  have "mem_ok m' \<and> bytes m' = bytes m \<and> 8 dvd i \<and> (live m' = live m \<union> area (b, i) k \<and> live m \<inter> area (b, i) k = {}) \<and>
    owned (free_list m) (pools m) \<subseteq> owned (free_list m') (pools m') \<and> (\<forall>x. x \<noteq> a \<longrightarrow> pools m' x = pools m x)"
  proof (cases "first_avail l + k \<le> endp l")
    case True
    let ?l = "l\<lparr>first_avail := first_avail l + k\<rparr>"
    have res: "b = blk_id l" "i = first_avail l" "m' = m\<lparr>pools := (pools m)(a \<mapsto> p\<lparr>pool_blocks := bs @ [?l]\<rparr>)\<rparr>"
      using r p True bl n0 by (auto simp: palloc_def k_def)
    have "pool_fine a (p\<lparr>pool_blocks := bs @ [?l]\<rparr>)"
      using fine(1) bl True k lf by (cases bs) (auto simp: pool_fine_def block_fine_def)
    moreover have "used (bs @ [?l]) = used (pool_blocks p) \<union> area (b, i) k"
      using lf k by (auto simp: bl res area_def block_fine_def)
    moreover have "used (pool_blocks p) \<inter> area (b, i) k = {}"
      using lid by (auto simp: bl res area_def dest: used_ids)
    ultimately have "mem_ok m'" "live m' = live m \<union> area (b, i) k" "live m \<inter> area (b, i) k = {}"
      using grow_pool [OF B T R p, of m' "bs @ [?l]" b i k] by (simp_all add: res bl)
    moreover have "owned (free_list m') (pools m') = owned (free_list m) (pools m)"
      using owned_split [of "pools m" a p, OF p] owned_split [of "pools m'" a "p\<lparr>pool_blocks := bs @ [?l]\<rparr>"] by (simp add: res(3) bl)
    ultimately show ?thesis using lf res by (auto simp: block_fine_def)
  next
    case False
    obtain c m1 where c: "new_block k m = Some (c, m1)" "b = blk_id c" "i = first_avail c"
      "m' = m1\<lparr>pools := (pools m1)(a \<mapsto> p\<lparr>pool_blocks := pool_blocks p @ [c\<lparr>first_avail := first_avail c + k\<rparr>]\<rparr>)\<rparr>"
      using r p False bl n0 by (auto simp: palloc_def k_def Let_def split: bind_splits)
    note nb = new_block_ok [OF c(1) B]
    have k0: "0 \<le> k" using k by simp
    let ?c = "c\<lparr>first_avail := first_avail c + k\<rparr>"
    have i: "i = 0" using nb(5) [OF k0] c(3) by simp
    have B1: "blocks_ok (free_list m1) (pools m) (next_id m1)" by (rule nb(3) [OF k0])
    have cp: "blk_id c \<notin> ids (pool_blocks p)" by (rule nb(9) [OF k0 p])
    have "pool_fine a (p\<lparr>pool_blocks := pool_blocks p @ [?c]\<rparr>)"
      using fine(1) k nb(4-6) [OF k0] cp by (auto simp: pool_fine_def block_fine_def ids_def)
    moreover have "used (pool_blocks p @ [?c]) = used (pool_blocks p) \<union> area (b, i) k"
      using nb(5) [OF k0] by (auto simp: c area_def)
    moreover have "used (pool_blocks p) \<inter> area (b, i) k = {}"
      using cp by (auto simp: c area_def dest: used_ids)
    ultimately have "mem_ok m'" "live m' = live m \<union> area (b, i) k" "live m \<inter> area (b, i) k = {}"
      using grow_pool [OF B1 T R p, of m' "pool_blocks p @ [?c]" b i k] nb [OF k0] by (auto simp: c)
    moreover have "owned (free_list m) (pools m) \<subseteq> owned (free_list m') (pools m')"
      using nb(10) [OF k0] owned_split [of "pools m" a p, OF p] owned_split [of "pools m'" a "p\<lparr>pool_blocks := pool_blocks p @ [?c]\<rparr>"] nb(1) [OF k0]
      by (auto simp: c(4))
    ultimately show ?thesis using i nb(1,2) [OF k0] by (simp add: c(4))
  qed
  then show "mem_ok m'" "bytes m' = bytes m" "8 dvd i"
    "\<exists>k \<ge> n. live m' = live m \<union> area (b, i) k \<and> live m \<inter> area (b, i) k = {}"
    "owned (free_list m) (pools m) \<subseteq> owned (free_list m') (pools m')" "\<And>x. x \<noteq> a \<Longrightarrow> pools m' x = pools m x"
    using k(1) by auto
qed

end
