(* ===== verification/Mem_Clear.thy ===== *)
theory Mem_Clear
  imports Mem_Facts
begin

text \<open>
  Clearing and destroying pools: the recursion over the tree of pools ends, every block
  comes back to the free list, and the other pools are left alone.
\<close>

section \<open>Taking a pool out of the tree\<close>

definition drop_pool :: "nat \<Rightarrow> (nat \<Rightarrow> mpool option) \<Rightarrow> nat \<Rightarrow> mpool option" where
  "drop_pool c P x = (if x = c then None else map_option (sub_pools_update (remove1 c)) (P x))"

lemma drop_pool_Some:
  "drop_pool c P x = Some q \<longleftrightarrow> x \<noteq> c \<and> (\<exists>q0. P x = Some q0 \<and> q = q0\<lparr>sub_pools := remove1 c (sub_pools q0)\<rparr>)"
  by (auto simp: drop_pool_def)

lemma tree_drop:
  assumes T: "tree_ok P" and c: "P c = Some q" "sub_pools q = []"
  shows "tree_ok (drop_pool c P)"
  unfolding tree_ok_def
proof (rule conjI; intro allI impI)
  fix a p assume "drop_pool c P a = Some p"
  then obtain p0 where p0: "P a = Some p0" "p = p0\<lparr>sub_pools := remove1 c (sub_pools p0)\<rparr>" by (auto simp: drop_pool_Some)
  note ch = tree_child [OF T p0(1)]
  have "\<exists>q. drop_pool c P d = Some q \<and> pool_parent q = Some a" if d: "d \<in> set (sub_pools p)" for d
  proof -
    have "d \<noteq> c" "d \<in> set (sub_pools p0)" using d p0(2) ch(1) by auto
    then show ?thesis using ch(2) by (fastforce simp: drop_pool_def)
  qed
  then show "distinct (sub_pools p) \<and> (\<forall>d \<in> set (sub_pools p). \<exists>q. drop_pool c P d = Some q \<and> pool_parent q = Some a)"
    using p0(2) ch(1) by simp
next
  fix d qd a assume d: "drop_pool c P d = Some qd" "pool_parent qd = Some a"
  then obtain q0 where q0: "d \<noteq> c" "P d = Some q0" "pool_parent q0 = Some a" by (auto simp: drop_pool_Some)
  then obtain p where p: "P a = Some p" "d \<in> set (sub_pools p)" using tree_parent [OF T] by blast
  moreover have "a \<noteq> c" using p c by auto
  ultimately show "\<exists>p. drop_pool c P a = Some p \<and> d \<in> set (sub_pools p)" using q0(1) by (auto simp: drop_pool_def)
qed

lemma edges_drop: "edges (drop_pool c P) \<subseteq> edges P"
  by (auto simp: edges_def drop_pool_Some dest: notin_set_remove1 in_set_remove1 [THEN iffD1, rotated] intro: set_remove1_subset [THEN subsetD])

lemma rank_mono: "rank_ok r P \<Longrightarrow> edges P' \<subseteq> edges P \<Longrightarrow> rank_ok r P'"
  by (auto simp: rank_ok_def)

lemma not_child:
  assumes "tree_ok P" and "P c = Some q" and "pool_parent q \<noteq> Some x" and "P x = Some px"
  shows "c \<notin> set (sub_pools px)"
  using tree_child(2) [OF assms(1,4)] assms(2,3) by auto

lemma blocks_drop:
  assumes B: "blocks_ok fl P n" and c: "P c = Some q"
  shows "blocks_ok (map reset_block (pool_blocks q) @ fl) (drop_pool c P) n"
proof -
  note D = blocks_okD [OF B]
  have q: "pool_fine c q" "ids (pool_blocks q) \<subseteq> {..<n}" "ids (pool_blocks q) \<inter> ids fl = {}" using D(4-6) [OF c] by blast+
  have "map blk_id (map reset_block (pool_blocks q)) = map blk_id (pool_blocks q)" by (simp add: reset_block_def)
  then have "distinct (map blk_id (map reset_block (pool_blocks q) @ fl))"
    using q D(1) by (auto simp: pool_fine_def ids_def comp_def reset_block_def)
  moreover have "list_all (\<lambda>b. block_fine b \<and> first_avail b = 0) (map reset_block (pool_blocks q) @ fl)"
    using q(1) D(2) by (auto simp: pool_fine_def list_all_iff block_fine_def reset_block_def)
  moreover have "pool_fine a p \<and> ids (pool_blocks p) \<subseteq> {..<n} \<and> ids (pool_blocks p) \<inter> ids (map reset_block (pool_blocks q) @ fl) = {}"
    if p: "drop_pool c P a = Some p" for a p
  proof -
    obtain p0 where p0: "a \<noteq> c" "P a = Some p0" "p = p0\<lparr>sub_pools := remove1 c (sub_pools p0)\<rparr>" using p by (auto simp: drop_pool_Some)
    then show ?thesis using D(4-6) [OF p0(2)] D(7) [OF p0(2) c] by (auto simp: pool_fine_def)
  qed
  moreover have "ids (pool_blocks p) \<inter> ids (pool_blocks p') = {}"
    if "drop_pool c P a = Some p" "drop_pool c P b = Some p'" "a \<noteq> b" for a b p p'
    using that D(7) by (fastforce simp: drop_pool_Some)
  ultimately show ?thesis using q(2) D(3) by (auto simp: blocks_ok_def)
qed

lemma owned_drop:
  assumes "P c = Some q"
  shows "owned (map reset_block (pool_blocks q) @ fl) (drop_pool c P) = owned fl P"
proof -
  have "(\<Union>p \<in> ran (drop_pool c P). sized (pool_blocks p)) = (\<Union>p \<in> ran (P(c := None)). sized (pool_blocks p))"
    by (fastforce simp: ran_def drop_pool_def split: if_splits)
  then show ?thesis using owned_split [of P c q fl, OF assms] by (auto simp: owned_def)
qed

lemma unlink_ok:
  assumes ok: "mem_ok m" and c: "pools m c = Some q" "sub_pools q = []"
  shows "\<exists>m'. unlink_pool c m = Some m' \<and> mem_ok m' \<and> owned (free_list m') (pools m') = owned (free_list m) (pools m) \<and>
    bytes m' = bytes m \<and> pools m' = drop_pool c (pools m)"
proof -
  have B: "blocks_ok (free_list m) (pools m) (next_id m)" and T: "tree_ok (pools m)" using ok by (simp_all add: mem_ok_def)
  obtain r where R: "rank_ok r (pools m)" using ok by (auto simp: mem_ok_def)
  have ne: "pool_blocks q \<noteq> []" using blocks_okD(4) [OF B c(1)] by (simp add: pool_fine_def)
  let ?m = "m\<lparr>free_list := map reset_block (pool_blocks q) @ free_list m, pools := drop_pool c (pools m)\<rparr>"
  have "unlink_pool c m = Some ?m"
  proof (cases "pool_parent q")
    case None
    have "(pools m)(c := None) = drop_pool c (pools m)"
    proof
      fix x show "((pools m)(c := None)) x = drop_pool c (pools m) x"
        using not_child [OF T c(1), of x] None by (cases "pools m x") (auto simp: drop_pool_def remove1_idem)
    qed
    then show ?thesis using c None ne by (simp add: unlink_pool_def free_blocks_def)
  next
    case (Some p)
    then obtain pp where pp: "pools m p = Some pp" "c \<in> set (sub_pools pp)" using tree_parent [OF T c(1)] by blast
    have "((pools m)(p \<mapsto> pp\<lparr>sub_pools := remove1 c (sub_pools pp)\<rparr>))(c := None) = drop_pool c (pools m)"
    proof
      fix x show "(((pools m)(p \<mapsto> pp\<lparr>sub_pools := remove1 c (sub_pools pp)\<rparr>))(c := None)) x = drop_pool c (pools m) x"
        using not_child [OF T c(1), of x] Some pp by (cases "pools m x") (auto simp: drop_pool_def remove1_idem)
    qed
    then show ?thesis using c Some pp ne by (simp add: unlink_pool_def free_blocks_def)
  qed
  moreover have "mem_ok ?m"
    using blocks_drop [OF B c(1)] tree_drop [OF T c] rank_mono [OF R edges_drop] by (auto simp: mem_ok_def)
  ultimately show ?thesis using owned_drop [of "pools m" c q, OF c(1)] by (intro exI [of _ ?m]) simp
qed

section \<open>clear_pool\<close>

lemma shrink_ok:
  assumes ok: "mem_ok m" and p: "pools m a = Some p"
  shows "\<exists>m' b bs. pool_blocks p = b # bs \<and> shrink_pool a p m = Some m' \<and> mem_ok m' \<and> bytes m' = bytes m \<and>
    owned (free_list m') (pools m') = owned (free_list m) (pools m) \<and>
    pools m' = (pools m)(a \<mapsto> p\<lparr>pool_blocks := [b\<lparr>first_avail := 56\<rparr>]\<rparr>)"
proof -
  have B: "blocks_ok (free_list m) (pools m) (next_id m)" and T: "tree_ok (pools m)" using ok by (simp_all add: mem_ok_def)
  obtain r where R: "rank_ok r (pools m)" using ok by (auto simp: mem_ok_def)
  note D = blocks_okD [OF B]
  have fine: "pool_fine a p" "ids (pool_blocks p) \<subseteq> {..<next_id m}" "ids (pool_blocks p) \<inter> ids (free_list m) = {}" using D(4-6) [OF p] by blast+
  then obtain b bs where b: "pool_blocks p = b # bs" by (cases "pool_blocks p") (auto simp: pool_fine_def)
  let ?p = "p\<lparr>pool_blocks := [b\<lparr>first_avail := 56\<rparr>]\<rparr>"
  let ?m = "m\<lparr>free_list := map reset_block bs @ free_list m, pools := (pools m)(a \<mapsto> ?p)\<rparr>"
  have "shrink_pool a p m = Some ?m" using b fine(1) by (simp add: shrink_pool_def free_blocks_def Let_def pool_fine_def)
  moreover have "blocks_ok (map reset_block bs @ free_list m) ((pools m)(a \<mapsto> ?p)) (next_id m)"
  proof -
    have fb: "pool_fine a ?p" using fine(1) b by (auto simp: pool_fine_def block_fine_def)
    have "distinct (map blk_id (map reset_block bs @ free_list m))"
      using fine(1,3) b D(1) by (auto simp: pool_fine_def ids_def comp_def reset_block_def)
    moreover have "list_all (\<lambda>b. block_fine b \<and> first_avail b = 0) (map reset_block bs @ free_list m)"
      using fine(1) b D(2) by (auto simp: pool_fine_def list_all_iff block_fine_def reset_block_def)
    moreover have "ids [b] \<inter> ids (map reset_block bs @ free_list m) = {}" using fine(1,3) b by (auto simp: pool_fine_def ids_def reset_block_def)
    moreover have "ids (pool_blocks q) \<inter> ids (map reset_block bs @ free_list m) = {}" "ids [b] \<inter> ids (pool_blocks q) = {}"
      if "x \<noteq> a" "pools m x = Some q" for x q
      using D(6) [OF that(2)] D(7) [OF that(2) p that(1)] b by auto
    ultimately show ?thesis using fb fine(2) b D(3-7) unfolding blocks_ok_def by (auto simp: Int_commute split: if_splits)
  qed
  moreover have "tree_ok ((pools m)(a \<mapsto> ?p))" by (rule tree_upd [OF T p]) simp_all
  moreover have "edges ((pools m)(a \<mapsto> ?p)) = edges (pools m)" by (rule edges_upd) (use p in simp_all)
  ultimately have "shrink_pool a p m = Some ?m" "mem_ok ?m" using R by (auto simp: mem_ok_def rank_ok_def)
  moreover have "owned (free_list ?m) (pools ?m) = owned (free_list m) (pools m)"
    using owned_split [of "pools m" a p, OF p] owned_split [of "(pools m)(a \<mapsto> ?p)" a ?p] b by auto
  ultimately show ?thesis using b by (intro exI [of _ ?m] exI [of _ b] exI [of _ bs]) simp
qed

text \<open>What \<open>clear_pool\<close> leaves behind.\<close>

definition cleared :: "nat \<Rightarrow> mem \<Rightarrow> mem \<Rightarrow> bool" where
  "cleared a m m' \<longleftrightarrow>
     mem_ok m' \<and> bytes m' = bytes m \<and> owned (free_list m') (pools m') = owned (free_list m) (pools m) \<and> edges (pools m') \<subseteq> edges (pools m) \<and>
     (\<exists>p b bs. pools m a = Some p \<and> pool_blocks p = b # bs \<and>
        pools m' a = Some (p\<lparr>pool_blocks := [b\<lparr>first_avail := 56\<rparr>], sub_pools := []\<rparr>)) \<and>
     (\<forall>x. x \<noteq> a \<longrightarrow> (a, x) \<notin> (edges (pools m))\<^sup>+ \<longrightarrow> pools m' x = pools m x) \<and>
     (\<forall>x q'. pools m' x = Some q' \<longrightarrow> (\<exists>q. pools m x = Some q \<and> pool_parent q' = pool_parent q))"

lemma rank_trancl: "(x, y) \<in> (edges P)\<^sup>+ \<Longrightarrow> rank_ok r P \<Longrightarrow> r y < r x"
  by (induction rule: trancl_induct) (auto simp: rank_ok_def)

lemma clear_ok:
  assumes "rank_ok r (pools m)" and "mem_ok m" and "pools m a = Some p"
  shows "\<exists>m'. clear_pool a m = Some m' \<and> cleared a m m'"
  using assms
proof (induction "r a" arbitrary: a m p rule: less_induct)
  case outer: less
  show ?case
    using outer.prems
  proof (induction "length (sub_pools p)" arbitrary: m p)
    case 0
    obtain m' b bs where s: "pool_blocks p = b # bs" "shrink_pool a p m = Some m'" "mem_ok m'" "bytes m' = bytes m"
      "owned (free_list m') (pools m') = owned (free_list m) (pools m)" "pools m' = (pools m)(a \<mapsto> p\<lparr>pool_blocks := [b\<lparr>first_avail := 56\<rparr>]\<rparr>)"
      using shrink_ok [OF 0(3,4)] by blast
    have "edges (pools m') = edges (pools m)" unfolding s(6) by (rule edges_upd) (use 0(4) in simp_all)
    then have "cleared a m m'" using s 0 by (auto simp: cleared_def)
    moreover have "clear_pool a m = Some m'" using s(2) 0 by (subst clear_pool.simps) simp
    ultimately show ?case by blast
  next
    case (Suc n)
    obtain c cs where cs: "sub_pools p = c # cs" using Suc(2) by (cases "sub_pools p") auto
    have T: "tree_ok (pools m)" using Suc(4) by (simp add: mem_ok_def)
    have edge: "(a, c) \<in> edges (pools m)" using Suc(5) cs by (auto simp: edges_def)
    then have rc: "r c < r a" using Suc(3) by (auto simp: rank_ok_def)
    obtain q where q: "pools m c = Some q" "pool_parent q = Some a" using tree_child(2) [OF T Suc(5)] cs by auto
    obtain m1 where m1: "clear_pool c m = Some m1" "cleared c m m1" using outer.hyps [OF rc Suc(3,4) q(1)] by blast
    obtain q1 where q1: "pools m1 c = Some q1" "sub_pools q1 = []" "pool_parent q1 = Some a" using m1(2) q by (auto simp: cleared_def)
    have ok1: "mem_ok m1" and E1: "edges (pools m1) \<subseteq> edges (pools m)" using m1(2) by (simp_all add: cleared_def)
    have a1: "pools m1 a = Some p" using m1(2) Suc(5) rank_trancl [OF _ Suc(3), of c a] rc unfolding cleared_def by (metis less_asym less_irrefl)
    obtain m2 where m2: "unlink_pool c m1 = Some m2" "mem_ok m2" "owned (free_list m2) (pools m2) = owned (free_list m1) (pools m1)"
      "bytes m2 = bytes m1" "pools m2 = drop_pool c (pools m1)" using unlink_ok [OF ok1 q1(1,2)] by blast
    have E2: "edges (pools m2) \<subseteq> edges (pools m)" using E1 edges_drop [of c "pools m1"] m2(5) by auto
    have R2: "rank_ok r (pools m2)" by (rule rank_mono [OF Suc(3) E2])
    define p2 where "p2 = p\<lparr>sub_pools := cs\<rparr>"
    have a2: "pools m2 a = Some p2" using a1 rc cs by (auto simp: m2(5) drop_pool_def p2_def)
    obtain m' where m': "clear_pool a m2 = Some m'" "cleared a m2 m'"
      using Suc(1) [OF _ R2 m2(2) a2] Suc(2) cs by (auto simp: p2_def)
    have "clear_pool a m = Some m'"
      using Suc(5) cs m1(1) m2(1) m'(1) by (subst clear_pool.simps) simp
    moreover have "cleared a m m'"
    proof -
      have "pools m' x = pools m x" if x: "x \<noteq> a" "(a, x) \<notin> (edges (pools m))\<^sup>+" for x
      proof -
        have xc: "x \<noteq> c" "(c, x) \<notin> (edges (pools m))\<^sup>+" using x edge by (auto intro: trancl_into_trancl2)
        have "pools m1 x = pools m x" using m1(2) xc by (simp add: cleared_def)
        moreover have "pools m2 x = pools m1 x"
          using not_child [of "pools m1" c q1 x] ok1 q1 x(1) xc(1)
          by (cases "pools m1 x") (auto simp: m2(5) drop_pool_def mem_ok_def remove1_idem)
        moreover have "(a, x) \<notin> (edges (pools m2))\<^sup>+" using x(2) trancl_mono [OF _ E2] by blast
        ultimately show ?thesis using m'(2) x(1) by (simp add: cleared_def)
      qed
      moreover have "\<exists>q. pools m x = Some q \<and> pool_parent q' = pool_parent q" if xq: "pools m' x = Some q'" for x q'
      proof -
        obtain q2 where q2: "pools m2 x = Some q2" "pool_parent q' = pool_parent q2" using m'(2) xq unfolding cleared_def by blast
        then obtain q1 where "pools m1 x = Some q1" "pool_parent q2 = pool_parent q1" by (auto simp: m2(5) drop_pool_Some)
        then show ?thesis using m1(2) q2(2) unfolding cleared_def by metis
      qed
      moreover have "edges (pools m') \<subseteq> edges (pools m)" using m'(2) E2 by (auto simp: cleared_def)
      ultimately show ?thesis using m'(2) m1(2) m2 Suc(5) a2 unfolding cleared_def by (auto simp: p2_def)
    qed
    ultimately show ?case by blast
  qed
qed

section \<open>destroy_pool\<close>

text \<open>A pool with everything below it.\<close>

definition subtree :: "nat \<Rightarrow> mem \<Rightarrow> nat set" where
  "subtree a m = {x. (a, x) \<in> (edges (pools m))\<^sup>*}"

lemma subtree_iff: "x \<in> subtree a m \<longleftrightarrow> x = a \<or> (a, x) \<in> (edges (pools m))\<^sup>+"
  by (auto simp: subtree_def rtrancl_eq_or_trancl)

lemma below_gone:
  assumes "cleared a m m'" and "mem_ok m" and "(a, x) \<in> (edges (pools m))\<^sup>+"
  shows "pools m' x = None"
  using assms(3)
proof (induction rule: trancl_induct)
  case (base x)
  have "pools m' x \<noteq> Some q'" for q'
  proof
    assume q': "pools m' x = Some q'"
    then obtain q where q: "pools m x = Some q" "pool_parent q' = pool_parent q" using assms(1) unfolding cleared_def by blast
    obtain p where "pools m a = Some p" "x \<in> set (sub_pools p)" using base by (auto simp: edges_def)
    then have "pool_parent q' = Some a" using tree_child(2) [of "pools m" a p] assms(2) q by (auto simp: mem_ok_def)
    then obtain p' where "pools m' a = Some p'" "x \<in> set (sub_pools p')"
      using tree_parent [of "pools m'" x q' a] assms(1) q' by (auto simp: cleared_def mem_ok_def)
    then show False using assms(1) by (auto simp: cleared_def)
  qed
  then show ?case by auto
next
  case (step y x)
  have "pools m' x \<noteq> Some q'" for q'
  proof
    assume q': "pools m' x = Some q'"
    then obtain q where q: "pools m x = Some q" "pool_parent q' = pool_parent q" using assms(1) unfolding cleared_def by blast
    obtain p where "pools m y = Some p" "x \<in> set (sub_pools p)" using step(2) by (auto simp: edges_def)
    then have "pool_parent q' = Some y" using tree_child(2) [of "pools m" y p] assms(2) q by (auto simp: mem_ok_def)
    then obtain p' where "pools m' y = Some p'"
      using tree_parent [of "pools m'" x q' y] assms(1) q' by (auto simp: cleared_def mem_ok_def)
    then show False using step(3) by simp
  qed
  then show ?case by auto
qed

lemma destroy_ok:
  assumes ok: "mem_ok m" and p: "pools m a = Some p"
  shows "\<exists>m'. destroy_pool a m = Some m' \<and> mem_ok m' \<and> bytes m' = bytes m \<and> owned (free_list m') (pools m') = owned (free_list m) (pools m) \<and>
    (\<forall>x \<in> subtree a m. pools m' x = None) \<and>
    (\<forall>x. x \<notin> subtree a m \<longrightarrow> map_option pool_blocks (pools m' x) = map_option pool_blocks (pools m x))"
proof -
  obtain r where R: "rank_ok r (pools m)" using ok by (auto simp: mem_ok_def)
  obtain m1 where m1: "clear_pool a m = Some m1" "cleared a m m1" using clear_ok [OF R ok p] by blast
  obtain q where q: "pools m1 a = Some q" "sub_pools q = []" using m1(2) by (auto simp: cleared_def)
  have ok1: "mem_ok m1" using m1(2) by (simp add: cleared_def)
  obtain m' where m': "unlink_pool a m1 = Some m'" "mem_ok m'" "owned (free_list m') (pools m') = owned (free_list m1) (pools m1)"
    "bytes m' = bytes m1" "pools m' = drop_pool a (pools m1)" using unlink_ok [OF ok1 q] by blast
  have "pools m' x = None" if x: "x \<in> subtree a m" for x
    using x below_gone [OF m1(2) ok, of x] by (auto simp: subtree_iff m'(5) drop_pool_def)
  moreover have "map_option pool_blocks (pools m' x) = map_option pool_blocks (pools m x)" if x: "x \<notin> subtree a m" for x
  proof -
    have "pools m1 x = pools m x" using m1(2) x by (simp add: cleared_def subtree_iff)
    then show ?thesis using x by (cases "pools m x") (auto simp: m'(5) drop_pool_def subtree_iff)
  qed
  moreover have "destroy_pool a m = Some m'" using m1(1) m'(1) by (simp add: destroy_pool_def)
  ultimately show ?thesis using m' m1(2) by (intro exI [of _ m']) (simp add: cleared_def)
qed

text \<open>
  C11. Destroying a pool always returns and gives every block of the pool and of all pools below it back
  to the free list; the blocks of the other pools stay theirs, and no block of the process is lost or changes its size.
\<close>

theorem destroy_pool_gives_back:
  assumes "mem_ok m" and "pools m a = Some p"
  shows "\<exists>m'. destroy_pool a m = Some m' \<and> mem_ok m' \<and> owned (free_list m') (pools m') = owned (free_list m) (pools m) \<and>
    (\<forall>x q. x \<in> subtree a m \<longrightarrow> pools m x = Some q \<longrightarrow> pools m' x = None \<and> sized (pool_blocks q) \<subseteq> sized (free_list m')) \<and>
    (\<forall>x. x \<notin> subtree a m \<longrightarrow> map_option pool_blocks (pools m' x) = map_option pool_blocks (pools m x))"
proof -
  obtain m' where m': "destroy_pool a m = Some m'" "mem_ok m'" "owned (free_list m') (pools m') = owned (free_list m) (pools m)"
    "\<forall>x \<in> subtree a m. pools m' x = None"
    "\<forall>x. x \<notin> subtree a m \<longrightarrow> map_option pool_blocks (pools m' x) = map_option pool_blocks (pools m x)"
    using destroy_ok [OF assms] by blast
  have B: "blocks_ok (free_list m) (pools m) (next_id m)" using assms(1) by (simp add: mem_ok_def)
  have "sized (pool_blocks q) \<subseteq> sized (free_list m')" if x: "x \<in> subtree a m" "pools m x = Some q" for x q
  proof
    fix e assume e: "e \<in> sized (pool_blocks q)"
    then have "e \<in> owned (free_list m) (pools m)" using x(2) by (auto simp: owned_def ran_def)
    then have "e \<in> owned (free_list m') (pools m')" using m'(3) by simp
    then consider "e \<in> sized (free_list m')" | y q' where "pools m' y = Some q'" "e \<in> sized (pool_blocks q')"
      by (auto simp: owned_def ran_def)
    then show "e \<in> sized (free_list m')"
    proof cases
      case (2 y q')
      then have y: "y \<notin> subtree a m" using m'(4) by auto
      then have "map_option pool_blocks (pools m y) = Some (pool_blocks q')" using m'(5) [rule_format, OF y] 2(1) by simp
      then obtain q2 where q2: "pools m y = Some q2" "pool_blocks q2 = pool_blocks q'" by (cases "pools m y") auto
      have sub: "x \<in> sized bs \<Longrightarrow> fst x \<in> ids bs" for x bs by (auto simp: sized_def in_ids)
      have "fst e \<in> ids (pool_blocks q)" "fst e \<in> ids (pool_blocks q2)" using sub [OF e] sub [OF 2(2)] q2(2) by simp_all
      moreover have "x \<noteq> y" using x(1) y by auto
      ultimately show ?thesis using blocks_okD(7) [OF B x(2) q2(1)] by auto
    qed
  qed
  then show ?thesis using m' by blast
qed

end
