(* ===== verification/Mem_Strings.thy ===== *)
theory Mem_Strings
  imports Mem_Clear
begin

text \<open>
  Sequences of allocations: areas do not overlap, and a string copied into a pool reads back until its pool is cleared.
\<close>

section \<open>The contents of an area\<close>

lemma store_outside: "x \<notin> area p (int (length cs)) \<Longrightarrow> store p cs f x = f x"
proof (induction p cs f rule: store.induct)
  case (2 b i c cs f)
  obtain d j where x: "x = (d, j)" by (cases x)
  have "x \<notin> area (b, i + 1) (int (length cs))" "x \<noteq> (b, i)" using 2(2) by (auto simp: x area_def)
  then show ?case using 2(1) by (simp del: fun_upd_apply) simp
qed simp

lemma store_inside: "k < length cs \<Longrightarrow> store (b, i) cs f (b, i + int k) = cs ! k"
proof (induction cs arbitrary: i k f)
  case (Cons c cs)
  show ?case
  proof (cases k)
    case 0
    have "(b, i) \<notin> area (b, i + 1) (int (length cs))" by (simp add: area_def)
    then show ?thesis using 0 by (simp add: store_outside)
  next
    case (Suc l)
    then show ?thesis using Cons(1) [of l "i + 1" "f((b, i) := c)"] Cons(2) by (simp add: ac_simps del: fun_upd_apply)
  qed
qed simp

definition read_mem :: "mem \<Rightarrow> nat \<times> int \<Rightarrow> nat \<Rightarrow> cstring" where
  "read_mem m p n = map (\<lambda>k. bytes m (fst p, snd p + int k)) [0..<n]"

lemma read_store: "bytes m = store p cs f \<Longrightarrow> read_mem m p (length cs) = cs"
  by (cases p) (auto simp: read_mem_def store_inside intro: nth_equalityI)

lemma read_mem_cong:
  assumes "area p (int n) \<subseteq> A" and "\<And>x. x \<in> A \<Longrightarrow> bytes m' x = bytes m x"
  shows "read_mem m' p n = read_mem m p n"
proof -
  have "(fst p, snd p + int k) \<in> A" if "k < n" for k using assms(1) that by (auto simp: area_def)
  then show ?thesis using assms(2) by (simp add: read_mem_def)
qed

section \<open>Operations\<close>

datatype mem_op = Alloc nat int | Zero nat int | Dup nat "cstring option" | Cat nat "cstring list" | SubPool "nat option"

fun mem_do :: "mem_op \<Rightarrow> mem \<Rightarrow> mem option" where
  "mem_do (Alloc a n) m = map_option snd (palloc a n m)"
| "mem_do (Zero a n) m = map_option snd (pcalloc a n m)"
| "mem_do (Dup a s) m = map_option snd (pstrdup a s m)"
| "mem_do (Cat a ss) m = map_option snd (pstrcat a ss m)"
| "mem_do (SubPool a) m = map_option snd (make_sub_pool a m)"

fun small :: "mem_op \<Rightarrow> bool" where
  "small (Alloc a n) = (n \<le> 2 ^ 31 - 8)"
| "small (Zero a n) = (n \<le> 2 ^ 31 - 8)"
| "small (Dup a s) = (case s of None \<Rightarrow> True | Some s \<Rightarrow> int (length s) + 1 \<le> 2 ^ 31 - 8)"
| "small (Cat a ss) = (int (length (concat ss)) + 1 \<le> 2 ^ 31 - 8)"
| "small (SubPool a) = True"

text \<open>What every operation keeps.\<close>

definition extends :: "mem \<Rightarrow> mem \<Rightarrow> bool" where
  "extends m m' \<longleftrightarrow> mem_ok m' \<and> live m \<subseteq> live m' \<and> (\<forall>x \<in> live m. bytes m' x = bytes m x)"

lemma palloc_extends:
  assumes "mem_ok m" and "palloc a n m = Some (r, m')" and "n \<le> 2 ^ 31 - 8"
  shows "extends m m'"
proof (cases r)
  case None
  then have "m' = m" using assms(2) by (auto simp: palloc_def Let_def split: bind_splits if_splits)
  then show ?thesis using assms(1) by (simp add: extends_def)
next
  case (Some p)
  obtain b i where p: "p = (b, i)" by (cases p)
  show ?thesis
    using palloc_ok(1,2,5) [OF assms(1) assms(2) [unfolded Some p] assms(3)] by (auto simp: extends_def)
qed

lemma mem_ok_bytes [simp]: "mem_ok (m\<lparr>bytes := f\<rparr>) = mem_ok m" "live (m\<lparr>bytes := f\<rparr>) = live m"
  by (simp_all add: mem_ok_def live_def)

text \<open>An allocation whose area is written at once.\<close>

lemma write_ok:
  assumes ok: "mem_ok m" and r: "palloc a n m = Some (r, m1)" and n: "n \<le> 2 ^ 31 - 8" and w: "put_bytes cs (r, m1) = Some (q, m')" and l: "int (length cs) \<le> n"
  shows "extends m m'" "\<exists>p. q = Some p \<and> read_mem m' p (length cs) = cs \<and> area p (int (length cs)) \<subseteq> live m'"
proof -
  obtain p where p: "r = Some p" "q = Some p" "m' = m1\<lparr>bytes := store p cs (bytes m1)\<rparr>"
    using w by (auto simp: put_bytes_def split: option.splits)
  obtain b i where bi: "p = (b, i)" by (cases p)
  note A = palloc_ok [OF ok r [unfolded p(1) bi] n]
  obtain k where k: "n \<le> k" "live m1 = live m \<union> area p k" "live m \<inter> area p k = {}" using A(5) bi by blast
  have sub: "area p (int (length cs)) \<subseteq> area p k" using l k(1) by (auto simp: area_def)
  have "bytes m' x = bytes m x" if "x \<in> live m" for x
    using that k(3) sub A(2) by (simp add: p(3)) (metis disjoint_iff store_outside subsetD)
  then show "extends m m'" using A(1) k(2) by (auto simp: extends_def p(3))
  have "read_mem m' p (length cs) = cs" by (rule read_store) (simp add: p(3))
  then show "\<exists>p. q = Some p \<and> read_mem m' p (length cs) = cs \<and> area p (int (length cs)) \<subseteq> live m'"
    using p k(2) sub by auto
qed

lemma blocks_cong:
  assumes "blocks_ok fl P n"
    and "\<And>x q. Q x = Some q \<Longrightarrow> \<exists>q0. P x = Some q0 \<and> pool_blocks q = pool_blocks q0 \<and> free_first_avail q = free_first_avail q0"
  shows "blocks_ok fl Q n"
proof -
  note D = blocks_okD [OF assms(1)]
  have "pool_fine x q \<and> ids (pool_blocks q) \<subseteq> {..<n} \<and> ids (pool_blocks q) \<inter> ids fl = {}" if q: "Q x = Some q" for x q
  proof -
    obtain q0 where q0: "P x = Some q0" "pool_blocks q = pool_blocks q0" "free_first_avail q = free_first_avail q0" using assms(2) [OF q] by blast
    show ?thesis using D(4-6) [OF q0(1)] q0(2,3) by (simp add: pool_fine_def)
  qed
  moreover have "ids (pool_blocks p) \<inter> ids (pool_blocks q) = {}" if "Q x = Some p" "Q y = Some q" "x \<noteq> y" for x y p q
    using assms(2) [OF that(1)] assms(2) [OF that(2)] D(7) that(3) by force
  ultimately show ?thesis using D(1-3) unfolding blocks_ok_def by blast
qed

lemma blocks_add:
  assumes "blocks_ok fl P n" and "pool_fine a p" and "ids (pool_blocks p) = I" and "ids (pool_blocks p) \<subseteq> {..<n}"
    and "ids (pool_blocks p) \<inter> ids fl = {}" and "P a = None" and "\<And>x q. P x = Some q \<Longrightarrow> ids (pool_blocks p) \<inter> ids (pool_blocks q) = {}"
  shows "blocks_ok fl (P(a \<mapsto> p)) n"
  using assms unfolding blocks_ok_def by (auto simp: Int_commute)

lemma make_sub_pool_extends:
  assumes ok: "mem_ok m" and r: "make_sub_pool par m = Some (a, m')"
  shows "extends m m' \<and> pools m a = None \<and> pools m' a \<noteq> None"
proof -
  have B: "blocks_ok (free_list m) (pools m) (next_id m)" and T: "tree_ok (pools m)" using ok by (simp_all add: mem_ok_def)
  obtain rk where R: "rank_ok rk (pools m)" using ok by (auto simp: mem_ok_def)
  obtain b m1 where b: "new_block 56 m = Some (b, m1)" "a = blk_id b" using r by (auto simp: make_sub_pool_def Let_def split: bind_splits option.splits)
  note N = new_block_ok [OF b(1) B, simplified]
  define new where "new = \<lparr>pool_blocks = [b\<lparr>first_avail := 56\<rparr>], free_first_avail = 56, sub_pools = [], pool_parent = par\<rparr>"
  have na: "pools m a = None"
  proof (cases "pools m a")
    case (Some q)
    then have "a \<in> ids (pool_blocks q)"
      using blocks_okD(4) [OF B Some] in_ids [of "hd (pool_blocks q)" "pool_blocks q"] by (auto simp: pool_fine_def)
    then show ?thesis using N(9) [OF Some] b(2) by simp
  qed
  define Q where "Q = (case par of None \<Rightarrow> pools m | Some p \<Rightarrow> (pools m)(p := map_option (\<lambda>pp. pp\<lparr>sub_pools := a # sub_pools pp\<rparr>) (pools m p)))"
  have par: "par = Some p \<Longrightarrow> \<exists>pp. pools m p = Some pp" for p
    using r b(1) N(1) by (auto simp: make_sub_pool_def Let_def split: bind_splits)
  have m': "m' = m1\<lparr>pools := Q(a \<mapsto> new)\<rparr>"
    using r b N(1,5) by (auto simp: make_sub_pool_def Let_def Q_def new_def split: bind_splits option.splits)
  have Qs: "\<exists>q0. pools m x = Some q0 \<and> pool_blocks q = pool_blocks q0 \<and> free_first_avail q = free_first_avail q0 \<and> pool_parent q = pool_parent q0 \<and>
      sub_pools q = (if par = Some x then a # sub_pools q0 else sub_pools q0)" if "Q x = Some q" for x q
    using that by (cases par) (auto simp: Q_def split: if_splits)
  have Qn: "Q x = None \<longleftrightarrow> pools m x = None" for x by (cases par) (auto simp: Q_def)
  have "blocks_ok (free_list m1) Q (next_id m1)" by (rule blocks_cong [OF N(3)]) (use Qs in blast)
  moreover have nf: "pool_fine a new" "ids (pool_blocks new) = {a}" using N(4,6) b(2) by (auto simp: new_def pool_fine_def block_fine_def)
  ultimately have "blocks_ok (free_list m1) (Q(a \<mapsto> new)) (next_id m1)"
  proof (rule blocks_add)
    show "ids (pool_blocks new) \<subseteq> {..<next_id m1}" "ids (pool_blocks new) \<inter> ids (free_list m1) = {}" using nf(2) N(7,8) b(2) by auto
    show "Q a = None" using Qn na by simp
    show "ids (pool_blocks new) \<inter> ids (pool_blocks q) = {}" if "Q x = Some q" for x q
      using Qs [OF that] N(9) nf(2) b(2) by auto
  qed
  moreover have "tree_ok (Q(a \<mapsto> new))"
    unfolding tree_ok_def
  proof (rule conjI; intro allI impI)
    fix x p assume x: "(Q(a \<mapsto> new)) x = Some p"
    show "distinct (sub_pools p) \<and> (\<forall>c \<in> set (sub_pools p). \<exists>q. (Q(a \<mapsto> new)) c = Some q \<and> pool_parent q = Some x)"
    proof (cases "x = a")
      case False
      then obtain q0 where q0: "pools m x = Some q0" "sub_pools p = (if par = Some x then a # sub_pools q0 else sub_pools q0)"
        using x Qs by fastforce
      note ch = tree_child [OF T q0(1)]
      have "\<exists>q. (Q(a \<mapsto> new)) c = Some q \<and> pool_parent q = Some x" if c: "c \<in> set (sub_pools p)" for c
      proof (cases "c = a")
        case True
        then show ?thesis using c q0(2) ch(2) na by (auto simp: new_def split: if_splits)
      next
        case False
        then obtain q1 where "pools m c = Some q1" "pool_parent q1 = Some x" using c q0(2) ch(2) by (auto split: if_splits)
        then show ?thesis using False Qs [of c] Qn [of c] by (cases "Q c") auto
      qed
      moreover have "a \<notin> set (sub_pools q0)" using ch(2) na by auto
      ultimately show ?thesis using ch(1) q0(2) by auto
    qed (use x in \<open>auto simp: new_def\<close>)
  next
    fix c q x assume c: "(Q(a \<mapsto> new)) c = Some q" "pool_parent q = Some x"
    show "\<exists>p. (Q(a \<mapsto> new)) x = Some p \<and> c \<in> set (sub_pools p)"
    proof (cases "c = a")
      case True
      then have "par = Some x" using c by (auto simp: new_def)
      moreover from this obtain pp where "pools m x = Some pp" using par by blast
      ultimately show ?thesis using True na by (auto simp: Q_def)
    next
      case False
      then obtain q0 where "pools m c = Some q0" "pool_parent q0 = Some x" using c Qs [of c] by auto
      then obtain p where p: "pools m x = Some p" "c \<in> set (sub_pools p)" using tree_parent [OF T] by blast
      moreover have "x \<noteq> a" using p na by auto
      ultimately show ?thesis using Qs [of x] Qn [of x] by (cases "Q x") auto
    qed
  qed
  moreover have "rank_ok (\<lambda>x. if x = a then 0 else Suc (rk x)) (Q(a \<mapsto> new))"
  proof -
    have "(if c = a then 0 else Suc (rk c)) < Suc (rk x)" if x: "x \<noteq> a" "Q x = Some p" "c \<in> set (sub_pools p)" for x p c
    proof (cases "c = a")
      case False
      then obtain q0 where "pools m x = Some q0" "c \<in> set (sub_pools q0)" using Qs [OF x(2)] x(3) by (auto split: if_splits)
      then have "(x, c) \<in> edges (pools m)" by (auto simp: edges_def)
      then show ?thesis using R False by (auto simp: rank_ok_def)
    qed simp
    then show ?thesis by (fastforce simp: rank_ok_def edges_def new_def split: if_splits)
  qed
  ultimately have "mem_ok m'" by (auto simp: m' mem_ok_def)
  moreover have "live m \<subseteq> live m'"
  proof
    fix z assume "z \<in> live m"
    then obtain x q0 where x: "pools m x = Some q0" "z \<in> used (pool_blocks q0)" by (auto simp: live_def ran_def)
    then obtain q where q: "Q x = Some q" using Qn [of x] by auto
    then have "pool_blocks q = pool_blocks q0" using Qs [OF q] x(1) by auto
    moreover have "x \<noteq> a" using x(1) na by auto
    ultimately show "z \<in> live m'" using x(2) q by (auto simp: live_def ran_def m')
  qed
  ultimately show ?thesis using na N(2) by (auto simp: extends_def m')
qed

section \<open>Sequences\<close>

lemma put_bytes_Some: "put_bytes cs (r, m) = Some (q, m') \<Longrightarrow> r \<noteq> None"
  by (auto simp: put_bytes_def split: option.splits)

lemma mem_do_extends:
  assumes "mem_ok m" and "mem_do x m = Some m'" and "small x"
  shows "extends m m'"
proof (cases x)
  case (Alloc a n)
  then show ?thesis using assms palloc_extends by auto
next
  case (Zero a n)
  then obtain r m1 q where r: "palloc a n m = Some (r, m1)" "put_bytes (replicate (nat n) NUL) (r, m1) = Some (q, m')"
    using assms(2) by (auto simp: pcalloc_def split: bind_splits)
  have "0 < n" using r put_bytes_Some [OF r(2)] by (auto simp: palloc_def Let_def split: bind_splits if_splits)
  then show ?thesis using write_ok(1) [OF assms(1) r(1) _ r(2)] assms(3) Zero by simp
next
  case (Dup a s)
  show ?thesis
  proof (cases s)
    case None
    then show ?thesis using assms Dup by (simp add: pstrdup_def extends_def)
  next
    case (Some t)
    then have n: "int (length t) + 1 \<le> 2 ^ 31 - 8" using assms(3) Dup by simp
    then have "to_int (int (length t) + 1) = int (length t) + 1" by (intro to_int_id) auto
    then obtain r m1 q where r: "palloc a (int (length t) + 1) m = Some (r, m1)" "put_bytes (t @ [NUL]) (r, m1) = Some (q, m')"
      using assms(2) Dup Some by (auto simp: pstrdup_def split: bind_splits)
    show ?thesis using write_ok(1) [OF assms(1) r(1) n r(2)] by simp
  qed
next
  case (Cat a ss)
  then obtain r m1 q where r: "palloc a (int (length (concat ss)) + 1) m = Some (r, m1)" "put_bytes (concat ss @ [NUL]) (r, m1) = Some (q, m')"
    using assms(2) by (auto simp: pstrcat_def split: bind_splits)
  show ?thesis using write_ok(1) [OF assms(1) r(1) _ r(2)] assms(3) Cat by simp
next
  case (SubPool a)
  then show ?thesis using assms make_sub_pool_extends by auto
qed

lemma mem_run_extends:
  "fold_option mem_do xs m = Some m' \<Longrightarrow> mem_ok m \<Longrightarrow> list_all small xs \<Longrightarrow> extends m m'"
proof (induction xs arbitrary: m)
  case Nil
  then show ?case by (simp add: extends_def)
next
  case (Cons x xs)
  then obtain m1 where m1: "mem_do x m = Some m1" "fold_option mem_do xs m1 = Some m'" by (auto split: option.splits)
  have e: "extends m m1" using mem_do_extends Cons.prems m1 by simp
  then have "extends m1 m'" using Cons.IH [OF m1(2)] Cons.prems(3) by (simp add: extends_def)
  then show ?case using e by (auto simp: extends_def)
qed

section \<open>Properties\<close>

text \<open>
  Allocations do not overlap. In every state reached from the program's start by any sequence of
  allocations, \<open>palloc\<close> returns an area aligned to 8 bytes that no earlier allocation covers, and
  keeps it and all earlier ones in use. The size is at most \<open>INT_MAX - 7\<close>.
\<close>

theorem palloc_disjoint:
  assumes "fold_option mem_do xs mem_start = Some m" and "list_all small xs"
    and "palloc a n m = Some (Some (b, i), m')" and "n \<le> 2 ^ 31 - 8"
  shows "8 dvd i \<and> area (b, i) n \<inter> live m = {} \<and> area (b, i) n \<union> live m \<subseteq> live m'"
proof -
  have ok: "mem_ok m" using mem_run_extends [OF assms(1) mem_start_ok assms(2)] by (simp add: extends_def)
  note A = palloc_ok [OF ok assms(3,4)]
  obtain k where k: "n \<le> k" "live m' = live m \<union> area (b, i) k" "live m \<inter> area (b, i) k = {}" using A(5) by blast
  have "area (b, i) n \<subseteq> area (b, i) k" using k(1) by (auto simp: area_def)
  then show ?thesis using A(3) k by auto
qed

text \<open>A pool with a child, as the program's start and the scheduler make them.\<close>

definition two_pools :: mem where
  "two_pools = \<lparr>free_list = [],
     pools = [0 \<mapsto> \<lparr>pool_blocks = [\<lparr>blk_id = 0, endp = 8192, first_avail = 56\<rparr>], free_first_avail = 56, sub_pools = [1], pool_parent = None\<rparr>,
              1 \<mapsto> \<lparr>pool_blocks = [\<lparr>blk_id = 1, endp = 8192, first_avail = 56\<rparr>], free_first_avail = 56, sub_pools = [], pool_parent = Some 0\<rparr>],
     next_id = 2, mallocs = [], bytes = (\<lambda>_. NUL)\<rparr>"

lemma two_pools_run: "fold_option mem_do [SubPool None, SubPool (Some 0)] mem_start = Some two_pools"
  by (simp add: make_sub_pool_def mem_start_def new_block_def malloc_block_def two_pools_def fun_upd_twist)

lemma two_pools_ok: "mem_ok two_pools"
  using mem_run_extends [OF two_pools_run mem_start_ok] by (simp add: extends_def)

lemma click_size_10: "click_size 10 = 16" "click_size 3 = 8"
  by (simp_all add: click_size_def to_int_def)

lemma two_pools_palloc:
  "palloc 1 10 two_pools = Some (Some (1, 56), two_pools\<lparr>pools := (pools two_pools)(1 \<mapsto>
     \<lparr>pool_blocks = [\<lparr>blk_id = 1, endp = 8192, first_avail = 72\<rparr>], free_first_avail = 56, sub_pools = [], pool_parent = Some 0\<rparr>)\<rparr>)"
  by (simp add: palloc_def two_pools_def click_size_10)

theorem palloc_disjoint_witness:
  "(8 :: int) dvd 56 \<and> area (1, 56) 10 \<inter> live two_pools = {}"
  using palloc_disjoint [OF two_pools_run _ two_pools_palloc] by simp

text \<open>
  A string copied into a pool reads back. After \<open>pstrdup\<close> the area it returns holds the string with
  its terminator, and it still does after any sequence of further allocations, copies and new pools.
\<close>

theorem pstrdup_kept:
  assumes "mem_ok m" and "pstrdup a (Some s) m = Some (Some p, m1)" and "int (length s) + 1 \<le> 2 ^ 31 - 8"
    and "fold_option mem_do xs m1 = Some m2" and "list_all small xs"
  shows "read_mem m2 p (length s + 1) = s @ [NUL]"
proof -
  have "to_int (int (length s) + 1) = int (length s) + 1" by (intro to_int_id) (use assms(3) in auto)
  then obtain r m0 where r: "palloc a (int (length s) + 1) m = Some (r, m0)" "put_bytes (s @ [NUL]) (r, m0) = Some (Some p, m1)"
    using assms(2) by (auto simp: pstrdup_def split: bind_splits)
  have w: "extends m m1" "read_mem m1 p (length (s @ [NUL])) = s @ [NUL]" "area p (int (length (s @ [NUL]))) \<subseteq> live m1"
    using write_ok [OF assms(1) r(1) assms(3) r(2)] by auto
  have "extends m1 m2" by (rule mem_run_extends [OF assms(4)]) (use w(1) assms(5) in \<open>simp_all add: extends_def\<close>)
  then have "read_mem m2 p (length (s @ [NUL])) = read_mem m1 p (length (s @ [NUL]))"
    by (intro read_mem_cong [OF w(3)]) (simp add: extends_def)
  then show ?thesis using w(2) by simp
qed

theorem pstrdup_kept_witness:
  "\<exists>m1 m2. pstrdup 0 (Some ''ab'') two_pools = Some (Some (0, 56), m1) \<and>
     fold_option mem_do [Zero 0 10, SubPool (Some 0)] m1 = Some m2 \<and> read_mem m2 (0, 56) 3 = ''ab'' @ [NUL]"
proof -
  let ?f = "store (0, 56) [CHR 0x61, CHR 0x62, NUL] (\<lambda>_. NUL)"
  let ?b = "\<lparr>blk_id = 0, endp = 8192, first_avail = 64\<rparr>"
  let ?m1 = "two_pools\<lparr>pools := (pools two_pools)(0 \<mapsto> \<lparr>pool_blocks = [?b], free_first_avail = 56, sub_pools = [1], pool_parent = None\<rparr>), bytes := ?f\<rparr>"
  have m1: "pstrdup 0 (Some ''ab'') two_pools = Some (Some (0, 56), ?m1)"
    by (simp add: pstrdup_def palloc_def two_pools_def click_size_def to_int_def put_bytes_def fun_upd_twist)
  obtain m2 where m2: "fold_option mem_do [Zero 0 10, SubPool (Some 0)] ?m1 = Some m2"
    by (simp add: pcalloc_def palloc_def two_pools_def click_size_def to_int_def put_bytes_def make_sub_pool_def new_block_def malloc_block_def)
  show ?thesis
    using m1 m2 pstrdup_kept [OF two_pools_ok m1 _ m2] by (auto simp: eval_nat_numeral)
qed

theorem destroy_pool_gives_back_witness:
  "\<exists>m'. destroy_pool 0 two_pools = Some m' \<and> pools m' 1 = None \<and> {(1, 8192)} \<subseteq> sized (free_list m')"
proof -
  obtain p where p: "pools two_pools 0 = Some p" by (simp add: two_pools_def)
  have "(0, 1) \<in> edges (pools two_pools)" by (simp add: edges_def two_pools_def)
  then have "1 \<in> subtree 0 two_pools" by (auto simp: subtree_def)
  moreover obtain q where "pools two_pools 1 = Some q" "sized (pool_blocks q) = {(1, 8192)}" by (simp add: two_pools_def)
  ultimately show ?thesis using destroy_pool_gives_back [OF two_pools_ok p] by metis
qed

text \<open>
  A size above \<open>INT_MAX - 7\<close> wraps to a negative one: \<open>palloc\<close> returns the rest of the last block and moves
  its first free byte back, so the next allocations overlap earlier ones.
\<close>

lemma palloc_size_wraps:
  assumes "pools m a = Some p" and "pool_blocks p = bs @ [l]" and "first_avail l \<le> endp l" and "2 ^ 31 - 8 < n" and "n < 2 ^ 31"
  shows "\<exists>m'. palloc a n m = Some (Some (blk_id l, first_avail l), m') \<and>
    map_option pool_blocks (pools m' a) = Some (bs @ [l\<lparr>first_avail := first_avail l - 2 ^ 31\<rparr>])"
proof -
  have "2147483640 < n" "n < 2147483648" using assms(4,5) by simp_all
  then have "(n - 1) div 8 = 268435455" by presburger
  then have "click_size n = - (2 ^ 31)" by (simp add: click_size_def to_int_def)
  then show ?thesis using assms by (simp add: palloc_def Let_def)
qed

text \<open>As long as \<open>malloc\<close> succeeds \<open>palloc\<close> does.\<close>

lemma palloc_returns:
  assumes "mem_ok m" and "pools m a = Some p" and "0 < n" and "n \<le> 2 ^ 31 - 4136" and "mallocs m = []"
  shows "\<exists>q m'. palloc a n m = Some (Some q, m')"
proof -
  have "pool_blocks p \<noteq> []" using assms(1,2) blocks_okD(4) by (auto simp: mem_ok_def pool_fine_def)
  moreover have "click_size n < 2 ^ 31 - 4120" using click_size_bounds(4) [of n] assms(3,4) by simp
  then have "\<exists>b m1. new_block (click_size n) m = Some (b, m1)"
    using assms(5) by (auto simp: new_block_def malloc_block_def split: option.splits)
  ultimately show ?thesis using assms(2,3) by (auto simp: palloc_def Let_def)
qed

end
