(* ===== verification/Mem_Spec.thy ===== *)
theory Mem_Spec
  imports Mem_Strings Alloc_Spec
begin

text \<open>
  The memory pools keep the contract of an allocator that frees: the requests are the routines that allocate, and
  making a pool, which takes the header of the new pool; the releases are destroying and clearing a pool.
\<close>

section \<open>Requests and releases\<close>

text \<open>
  The area a routine hands out, of the \<open>n\<close> bytes asked for; a size above \<open>2 ^ 31 - 8\<close> is no request: \<open>palloc\<close>
  rounds it up to a negative number (\<open>palloc_size_wraps\<close>).
\<close>

definition handed :: "int \<Rightarrow> (nat \<times> int) option \<times> mem \<Rightarrow> (nat \<times> int) set \<times> mem" where
  "handed n = (\<lambda>(p, m). (case p of None \<Rightarrow> {} | Some q \<Rightarrow> area q n, m))"

fun mem_request :: "mem_op \<Rightarrow> mem \<Rightarrow> ((nat \<times> int) set \<times> mem) option" where
  "mem_request (Alloc a n) m = (if small (Alloc a n) then map_option (handed n) (palloc a n m) else None)"
| "mem_request (Zero a n) m = (if small (Zero a n) then map_option (handed n) (pcalloc a n m) else None)"
| "mem_request (Dup a s) m =
     (if small (Dup a s) then map_option (handed (case s of None \<Rightarrow> 0 | Some t \<Rightarrow> int (length t) + 1)) (pstrdup a s m) else None)"
| "mem_request (Cat a ss) m =
     (if small (Cat a ss) then map_option (handed (int (length (concat ss)) + 1)) (pstrcat a ss m) else None)"
| "mem_request (SubPool par) m = map_option (\<lambda>(a, m'). (area (a, 0) POOL_HDR_BYTES, m')) (make_sub_pool par m)"

datatype mem_release = Destroy nat | Clear nat

fun mem_release_do :: "mem_release \<Rightarrow> mem \<Rightarrow> mem option" where
  "mem_release_do (Destroy a) m = destroy_pool a m"
| "mem_release_do (Clear a) m = clear_pool a m"

text \<open>
  The bytes of a pool and of all pools below it; clearing a pool keeps its header.
\<close>

definition tree_bytes :: "nat \<Rightarrow> mem \<Rightarrow> (nat \<times> int) set" where
  "tree_bytes a m = {x. \<exists>b p. b \<in> subtree a m \<and> pools m b = Some p \<and> x \<in> used (pool_blocks p)}"

fun mem_region :: "mem_release \<Rightarrow> mem \<Rightarrow> (nat \<times> int) set" where
  "mem_region (Destroy a) m = tree_bytes a m"
| "mem_region (Clear a) m = tree_bytes a m - area (a, 0) POOL_HDR_BYTES"

section \<open>What a request hands out\<close>

lemma palloc_hands:
  assumes ok: "mem_ok m" and r: "palloc a n m = Some (p, m')" and n: "n \<le> 2 ^ 31 - 8"
  shows "mem_ok m'" "fst (handed n (p, m')) \<inter> live m = {}" "live m \<union> fst (handed n (p, m')) \<subseteq> live m'"
proof -
  have "mem_ok m' \<and> fst (handed n (p, m')) \<inter> live m = {} \<and> live m \<union> fst (handed n (p, m')) \<subseteq> live m'"
  proof (cases p)
    case None
    then show ?thesis using palloc_extends [OF ok r n] by (auto simp: handed_def extends_def)
  next
    case (Some q)
    obtain b i where q: "q = (b, i)" by (cases q)
    note K = palloc_ok [OF ok r [unfolded Some q] n]
    obtain k where k: "n \<le> k" "live m' = live m \<union> area (b, i) k" "live m \<inter> area (b, i) k = {}" using K(5) by blast
    have "area (b, i) n \<subseteq> area (b, i) k" using k(1) by (auto simp: area_def)
    then show ?thesis using K(1) k by (auto simp: handed_def Some q)
  qed
  then show "mem_ok m'" "fst (handed n (p, m')) \<inter> live m = {}" "live m \<union> fst (handed n (p, m')) \<subseteq> live m'" by blast+
qed

text \<open>Writing the area changes no pool.\<close>

lemma put_bytes_keeps:
  "put_bytes cs (r, m1) = Some (q, m') \<Longrightarrow> q = r \<and> mem_ok m' = mem_ok m1 \<and> live m' = live m1"
  by (auto simp: put_bytes_def split: option.splits)

lemma written_hands:
  assumes ok: "mem_ok m" and n: "n \<le> 2 ^ 31 - 8"
    and r: "Option.bind (palloc a n m) (put_bytes cs) = Some (q, m')"
  shows "mem_ok m' \<and> fst (handed n (q, m')) \<inter> live m = {} \<and> live m \<union> fst (handed n (q, m')) \<subseteq> live m'"
proof -
  obtain p m1 where p: "palloc a n m = Some (p, m1)" "put_bytes cs (p, m1) = Some (q, m')" using r by (auto split: bind_splits)
  have "q = p" "mem_ok m' = mem_ok m1" "live m' = live m1" using put_bytes_keeps [OF p(2)] by simp_all
  then show ?thesis using palloc_hands [OF ok p(1) n] by (simp add: handed_def)
qed

lemma sub_pool_hands:
  assumes ok: "mem_ok m" and r: "make_sub_pool par m = Some (a, m')"
  shows "mem_ok m' \<and> area (a, 0) 56 \<inter> live m = {} \<and> live m \<union> area (a, 0) 56 \<subseteq> live m'"
proof -
  note E = make_sub_pool_extends [OF ok r]
  have B: "blocks_ok (free_list m) (pools m) (next_id m)" using ok by (simp add: mem_ok_def)
  obtain b m1 where b: "new_block 56 m = Some (b, m1)" "a = blk_id b"
    using r by (auto simp: make_sub_pool_def Let_def split: bind_splits option.splits)
  note N = new_block_ok [OF b(1) B, simplified]
  have "area (a, 0) 56 \<inter> live m = {}"
  proof (rule equals0I)
    fix x assume x: "x \<in> area (a, 0) 56 \<inter> live m"
    then obtain c q where "pools m c = Some q" "x \<in> used (pool_blocks q)" by (auto simp: live_def ran_def)
    then show False using N(9) used_ids x b(2) by (fastforce simp: area_def)
  qed
  moreover have "area (a, 0) 56 \<subseteq> live m'"
  proof -
    obtain q where q: "pools m' a = Some q" using E by blast
    have "blocks_ok (free_list m') (pools m') (next_id m')" using E by (simp add: extends_def mem_ok_def)
    then have "pool_fine a q" using q by (rule blocks_okD)
    then have "hd (pool_blocks q) \<in> set (pool_blocks q)" "blk_id (hd (pool_blocks q)) = a" "56 \<le> first_avail (hd (pool_blocks q))"
      by (auto simp: pool_fine_def)
    then have "area (a, 0) 56 \<subseteq> used (pool_blocks q)" by (force simp: area_def used_def)
    then show ?thesis using q by (auto simp: live_def ran_def)
  qed
  ultimately show ?thesis using E by (simp add: extends_def)
qed

lemma mem_request_laws:
  assumes "mem_ok m" and "mem_request r m = Some (A, m')"
  shows "mem_ok m'" "A \<inter> live m = {}" "live m \<union> A \<subseteq> live m'"
proof -
  have "mem_ok m' \<and> A \<inter> live m = {} \<and> live m \<union> A \<subseteq> live m'"
  proof (cases r)
    case (Alloc a n)
    then obtain p where "palloc a n m = Some (p, m')" "n \<le> 2 ^ 31 - 8" "A = fst (handed n (p, m'))"
      using assms(2) by (auto simp: handed_def split: if_splits)
    then show ?thesis using palloc_hands [OF assms(1)] by blast
  next
    case (Zero a n)
    then obtain p where "pcalloc a n m = Some (p, m')" "n \<le> 2 ^ 31 - 8" "A = fst (handed n (p, m'))"
      using assms(2) by (auto simp: handed_def split: if_splits)
    then show ?thesis using written_hands [OF assms(1)] unfolding pcalloc_def by blast
  next
    case (Dup a s)
    show ?thesis
    proof (cases s)
      case None
      then show ?thesis using assms Dup by (simp add: pstrdup_def handed_def)
    next
      case (Some t)
      have n: "int (length t) + 1 \<le> 2 ^ 31 - 8" using assms(2) Dup Some by (simp split: if_splits)
      then have "to_int (int (length t) + 1) = int (length t) + 1" by (intro to_int_id) auto
      moreover obtain p where "pstrdup a s m = Some (p, m')" "A = fst (handed (int (length t) + 1) (p, m'))"
        using assms(2) Dup Some by (auto simp: handed_def split: if_splits)
      ultimately show ?thesis using written_hands [OF assms(1) n] Some by (simp add: pstrdup_def)
    qed
  next
    case (Cat a ss)
    have n: "int (length (concat ss)) + 1 \<le> 2 ^ 31 - 8" using assms(2) Cat by (simp split: if_splits)
    obtain p where p: "pstrcat a ss m = Some (p, m')" "A = fst (handed (int (length (concat ss)) + 1) (p, m'))"
      using assms(2) Cat by (auto simp: handed_def split: if_splits)
    show ?thesis using written_hands [OF assms(1) n p(1) [unfolded pstrcat_def]] unfolding p(2) .
  next
    case (SubPool par)
    then obtain a where "make_sub_pool par m = Some (a, m')" "A = area (a, 0) 56" using assms(2) by auto
    then show ?thesis using sub_pool_hands [OF assms(1)] by blast
  qed
  then show "mem_ok m'" "A \<inter> live m = {}" "live m \<union> A \<subseteq> live m'" by blast+
qed

section \<open>What a release gives back\<close>

lemma destroy_needs_pool: "destroy_pool a m = Some m' \<Longrightarrow> \<exists>p. pools m a = Some p"
  by (cases "pools m a") (auto simp: destroy_pool_def clear_pool.simps [of a m])

lemma clear_needs_pool: "clear_pool a m = Some m' \<Longrightarrow> \<exists>p. pools m a = Some p"
  by (cases "pools m a") (auto simp: clear_pool.simps [of a m])

text \<open>Where the pools below \<open>a\<close> are gone and the others as they were, what is left is the rest and what \<open>a\<close> kept.\<close>

lemma tree_gone:
  assumes ok: "mem_ok m" and gone: "\<And>x. x \<in> subtree a m \<Longrightarrow> x \<noteq> a \<Longrightarrow> pools m' x = None"
    and same: "\<And>x. x \<notin> subtree a m \<Longrightarrow> map_option pool_blocks (pools m' x) = map_option pool_blocks (pools m x)"
    and own: "K = (case pools m' a of None \<Rightarrow> {} | Some q \<Rightarrow> used (pool_blocks q))" and sub: "K \<subseteq> tree_bytes a m"
  shows "live m' = live m - (tree_bytes a m - K)"
proof (intro set_eqI iffI)
  have B: "blocks_ok (free_list m) (pools m) (next_id m)" using ok by (simp add: mem_ok_def)
  fix x assume "x \<in> live m'"
  then obtain c q' where c: "pools m' c = Some q'" "x \<in> used (pool_blocks q')" by (auto simp: live_def ran_def)
  show "x \<in> live m - (tree_bytes a m - K)"
  proof (cases "c = a")
    case True
    then have "x \<in> K" using c own by simp
    then have "x \<in> tree_bytes a m" using sub by blast
    then show ?thesis using True c own unfolding tree_bytes_def live_def ran_def by fastforce
  next
    case False
    then have cn: "c \<notin> subtree a m" using gone c(1) by auto
    then obtain q where q: "pools m c = Some q" "pool_blocks q = pool_blocks q'" using same [OF cn] c(1) by (cases "pools m c") auto
    have "x \<notin> tree_bytes a m"
    proof
      assume "x \<in> tree_bytes a m"
      then obtain e r where e: "e \<in> subtree a m" "pools m e = Some r" "x \<in> used (pool_blocks r)" by (auto simp: tree_bytes_def)
      have "e \<noteq> c" using e(1) cn by auto
      then have "ids (pool_blocks r) \<inter> ids (pool_blocks q) = {}" using blocks_okD(7) [OF B e(2) q(1)] by simp
      then show False using used_ids [OF e(3)] used_ids [OF c(2)] q(2) by auto
    qed
    then show ?thesis using q c(2) by (auto simp: live_def ran_def)
  qed
next
  fix x assume x: "x \<in> live m - (tree_bytes a m - K)"
  show "x \<in> live m'"
  proof (cases "x \<in> K")
    case True
    then show ?thesis by (auto simp: own live_def ran_def split: option.splits)
  next
    case False
    then obtain c q where c: "pools m c = Some q" "x \<in> used (pool_blocks q)" "c \<notin> subtree a m"
      using x by (auto simp: live_def ran_def tree_bytes_def)
    then obtain q' where "pools m' c = Some q'" "pool_blocks q' = pool_blocks q" using same [OF c(3)] by (cases "pools m' c") auto
    then show ?thesis using c(2) by (auto simp: live_def ran_def)
  qed
qed

lemma self_subtree: "a \<in> subtree a m"
  by (simp add: subtree_iff)

lemma destroy_laws:
  assumes ok: "mem_ok m" and d: "destroy_pool a m = Some m'"
  shows "mem_ok m' \<and> live m' = live m - tree_bytes a m"
proof -
  obtain p where p: "pools m a = Some p" using destroy_needs_pool [OF d] by blast
  have m': "mem_ok m'" "\<And>x. x \<in> subtree a m \<Longrightarrow> pools m' x = None"
    "\<And>x. x \<notin> subtree a m \<Longrightarrow> map_option pool_blocks (pools m' x) = map_option pool_blocks (pools m x)"
    using destroy_ok [OF ok p] d by auto
  then show ?thesis using tree_gone [OF ok, of a m' "{}"] self_subtree [of a m] by auto
qed

lemma clear_laws:
  assumes ok: "mem_ok m" and d: "clear_pool a m = Some m'"
  shows "mem_ok m' \<and> live m' = live m - (tree_bytes a m - area (a, 0) 56)"
proof -
  obtain p where p: "pools m a = Some p" using clear_needs_pool [OF d] by blast
  obtain r where R: "rank_ok r (pools m)" using ok by (auto simp: mem_ok_def)
  have c: "cleared a m m'" using clear_ok [OF R ok p] d by auto
  obtain b bs where b: "pool_blocks p = b # bs" "pools m' a = Some (p\<lparr>pool_blocks := [b\<lparr>first_avail := 56\<rparr>], sub_pools := []\<rparr>)"
    using c p by (auto simp: cleared_def)
  have "pool_fine a p" using ok p unfolding mem_ok_def by (blast dest: blocks_okD(4))
  then have fine: "blk_id b = a" "56 \<le> first_avail b" using b(1) by (simp_all add: pool_fine_def)
  have own: "area (a, 0) 56 = (case pools m' a of None \<Rightarrow> {} | Some q \<Rightarrow> used (pool_blocks q))"
    using fine b(2) by (auto simp: area_def used_def)
  have "area (a, 0) 56 \<subseteq> used (pool_blocks p)" using fine by (fastforce simp: area_def used_def b(1))
  then have sub: "area (a, 0) 56 \<subseteq> tree_bytes a m" using p self_subtree by (fastforce simp: tree_bytes_def)
  have "live m' = live m - (tree_bytes a m - area (a, 0) 56)"
  proof (rule tree_gone [OF ok _ _ own sub])
    show "pools m' x = None" if "x \<in> subtree a m" "x \<noteq> a" for x
      using below_gone [OF c ok] that by (simp add: subtree_iff)
    show "map_option pool_blocks (pools m' x) = map_option pool_blocks (pools m x)" if "x \<notin> subtree a m" for x
      using c that by (auto simp: cleared_def subtree_iff)
  qed
  then show ?thesis using c by (simp add: cleared_def)
qed

lemma mem_release_laws:
  assumes "mem_ok m" and "mem_release_do h m = Some m'"
  shows "mem_ok m'" "live m' = live m - mem_region h m"
  using assms destroy_laws [of m _ m'] clear_laws [of m _ m'] by (cases h; simp)+

interpretation mp: freeing_allocator mem_ok live mem_request mem_release_do mem_region
  by unfold_locales (rule mem_request_laws mem_release_laws; assumption)+

section \<open>Properties\<close>

text \<open>
  C10. An area of a pool is nobody else's until its pool is cleared or destroyed. Whatever is allocated
  (by \<open>palloc\<close>, \<open>pcalloc\<close>, \<open>pstrdup\<close> or \<open>pstrcat\<close>), whatever pools are made and whatever pools are cleared or destroyed
  after it, no later allocation from any pool, and no header of a later pool, shares a byte with an area whose
  pool, and the pools above it, have been neither cleared nor destroyed. Sizes are at most \<open>2 ^ 31 - 8\<close>: above,
  \<open>palloc\<close> rounds to a negative size (\<open>palloc_size_wraps\<close>).
\<close>

theorem pool_areas_stay_apart:
  assumes "mem_ok m" and "mem_request r m = Some (A, m1)" and "fold_option (alloc_do mem_request mem_release_do) xs m1 = Some m2"
    and "spares mem_request mem_release_do mem_region A xs m1" and "mem_request r' m2 = Some (B, m3)"
  shows "A \<inter> B = {}"
  by (rule mp.not_handed_out_again [OF assms(3) mp.alloc_inv [OF assms(1,2)] _ assms(4,5)])
    (use mp.alloc_live [OF assms(1,2)] in simp)

text \<open>
  Ten bytes of pool 0; then a new pool is made, the old child destroyed, and the new pool
  cleared; three bytes more lie behind the ten.
\<close>

theorem pool_areas_stay_apart_witness:
  "\<exists>m1 m2 m3. mem_request (Alloc 0 10) two_pools = Some (area (0, 56) 10, m1) \<and>
     fold_option (alloc_do mem_request mem_release_do) [Request (SubPool (Some 0)), Release (Clear 2), Release (Destroy 1)] m1 = Some m2 \<and>
     mem_request (Alloc 0 3) m2 = Some (area (0, 72) 3, m3) \<and> area (0, 56) 10 \<inter> area (0, 72) 3 = {}"
proof -
  let ?p = "\<lambda>k cs. \<lparr>pool_blocks = [\<lparr>blk_id = 0, endp = 8192, first_avail = k\<rparr>], free_first_avail = 56, sub_pools = cs, pool_parent = None\<rparr>"
  let ?q = "\<lambda>i. \<lparr>pool_blocks = [\<lparr>blk_id = i, endp = 8192, first_avail = 56\<rparr>], free_first_avail = 56, sub_pools = [], pool_parent = Some 0\<rparr>"
  define m1 where "m1 = two_pools\<lparr>pools := [0 \<mapsto> ?p 72 [1], 1 \<mapsto> ?q 1]\<rparr>"
  have r1: "mem_request (Alloc 0 10) two_pools = Some (area (0, 56) 10, m1)"
    by (simp add: handed_def palloc_def two_pools_def click_size_10 m1_def fun_upd_twist)
  define mk where "mk = m1\<lparr>pools := [0 \<mapsto> ?p 72 [2, 1], 1 \<mapsto> ?q 1, 2 \<mapsto> ?q 2], next_id := 3\<rparr>"
  have r2: "mem_request (SubPool (Some 0)) m1 = Some (area (2, 0) 56, mk)"
    by (simp add: make_sub_pool_def new_block_def malloc_block_def m1_def mk_def two_pools_def fun_upd_twist numeral_2_eq_2)
  have r3: "clear_pool 2 mk = Some mk"
    by (simp add: clear_pool.simps [of 2] shrink_pool_def free_blocks_def mk_def m1_def two_pools_def fun_eq_iff)
  define m2 where "m2 = mk\<lparr>free_list := [\<lparr>blk_id = 1, endp = 8192, first_avail = 0\<rparr>], pools := [0 \<mapsto> ?p 72 [2], 2 \<mapsto> ?q 2]\<rparr>"
  have r4: "destroy_pool 1 mk = Some m2"
    by (simp add: destroy_pool_def clear_pool.simps [of "Suc 0"] shrink_pool_def unlink_pool_def free_blocks_def reset_block_def
        two_pools_def mk_def m1_def m2_def fun_eq_iff)
  obtain m3 where r5: "mem_request (Alloc 0 3) m2 = Some (area (0, 72) 3, m3)"
    by (simp add: handed_def palloc_def m2_def mk_def m1_def two_pools_def click_size_10)
  have ed: "edges (pools mk) = {(0, 2), (0, 1)}" by (auto simp: edges_def mk_def split: if_splits)
  have e: "(a, x) \<in> (edges (pools mk))\<^sup>* \<Longrightarrow> a \<noteq> 0 \<Longrightarrow> x = a" for a x
    by (erule converse_rtranclE) (auto simp: ed)
  have "subtree a mk = {a}" if "a \<noteq> 0" for a unfolding subtree_def using e [OF _ that] by blast
  then have "subtree 1 mk = {1}" "subtree 2 mk = {2}" by simp_all
  then have reg: "tree_bytes 1 mk \<inter> area (0, 56) 10 = {}" "tree_bytes 2 mk \<inter> area (0, 56) 10 = {}"
    by (auto simp: tree_bytes_def mk_def area_def used_def)
  let ?xs = "[Request (SubPool (Some 0)), Release (Clear 2), Release (Destroy 1)]"
  have run: "fold_option (alloc_do mem_request mem_release_do) ?xs m1 = Some m2"
    by (simp add: r2 r3 r4 del: mem_request.simps One_nat_def)
  have "spares mem_request mem_release_do mem_region (area (0, 56) 10) ?xs m1"
    using reg by (auto simp: r2 r3 r4 simp del: mem_request.simps One_nat_def)
  then have "area (0, 56) 10 \<inter> area (0, 72) 3 = {}"
    by (rule pool_areas_stay_apart [OF two_pools_ok r1 run _ r5])
  then show ?thesis using r1 run r5 by blast
qed

end
