(* ===== verification/RW_Lock.thy ===== *)
theory RW_Lock
  imports Counting
begin

text \<open>
  \<open>CThRWLock\<close> of \<open>thread.c\<close>: a lock for one writer or several readers over a mutex and two condition
  variables. The three operations as functions on the lock's fields, and the threads that use
  them as a step relation. A step is what one thread does while it holds the mutex.
\<close>

section \<open>The fields and the operations\<close>

record rwlock =
  writer_first :: bool
  max_reader :: int
  waiting_reader :: int
  waiting_writer :: int
  holding_lock :: int

definition rwlock_new :: "bool \<Rightarrow> int \<Rightarrow> rwlock" where
  "rwlock_new wfst m = \<lparr>writer_first = wfst, max_reader = m, waiting_reader = 0, waiting_writer = 0, holding_lock = 0\<rparr>"

text \<open>The conditions of the two loops, and one pass of each: the lock, or one more thread that waits.\<close>

definition read_blocked :: "rwlock \<Rightarrow> bool" where
  "read_blocked l \<longleftrightarrow> holding_lock l < 0 \<or> (max_reader l > 0 \<and> holding_lock l = max_reader l) \<or> (writer_first l \<and> waiting_writer l > 0)"

definition read_try :: "rwlock \<Rightarrow> bool \<times> rwlock" where
  "read_try l =
     (if read_blocked l then (False, l\<lparr>waiting_reader := waiting_reader l + 1\<rparr>)
      else (True, l\<lparr>holding_lock := holding_lock l + 1\<rparr>))"

definition write_try :: "rwlock \<Rightarrow> bool \<times> rwlock" where
  "write_try l =
     (if holding_lock l \<noteq> 0 then (False, l\<lparr>waiting_writer := waiting_writer l + 1\<rparr>)
      else (True, l\<lparr>holding_lock := -1\<rparr>))"

text \<open>A thread that returns from the condition variable goes around the loop once more.\<close>

definition read_again :: "rwlock \<Rightarrow> bool \<times> rwlock" where
  "read_again l = read_try (l\<lparr>waiting_reader := waiting_reader l - 1\<rparr>)"

definition write_again :: "rwlock \<Rightarrow> bool \<times> rwlock" where
  "write_again l = write_try (l\<lparr>waiting_writer := waiting_writer l - 1\<rparr>)"

datatype wakeup = NoWakeup | SignalWriter | BroadcastReaders

definition unlock_wakeup :: "rwlock \<Rightarrow> wakeup" where
  "unlock_wakeup l =
     (if writer_first l then
        (if waiting_writer l > 0 then (if holding_lock l = 0 then SignalWriter else NoWakeup)
         else if waiting_reader l > 0 then BroadcastReaders
         else NoWakeup)
      else if waiting_writer l > 0 \<and> holding_lock l = 0 then SignalWriter
      else if waiting_reader l > 0 then BroadcastReaders
      else NoWakeup)"

text \<open>\<^const>\<open>None\<close> is the exception, thrown with the mutex locked.\<close>

definition rw_unlock :: "rwlock \<Rightarrow> (wakeup \<times> rwlock) option" where
  "rw_unlock l =
     (if holding_lock l = -1 then let l' = l\<lparr>holding_lock := 0\<rparr> in Some (unlock_wakeup l', l')
      else if holding_lock l > 0 then let l' = l\<lparr>holding_lock := holding_lock l - 1\<rparr> in Some (unlock_wakeup l', l')
      else None)"

section \<open>Threads\<close>

text \<open>
  A waiting thread carries a flag: whether a wake-up has been sent to it. \<open>Stray\<close> is an \<open>Unlock\<close> by a thread that does not hold the
  lock. \<open>rw_stuck\<close>: the mutex is locked for good.
\<close>

datatype rw_thread = Idle | Reading | Writing | WaitRead bool | WaitWrite bool

record 'p rw_state =
  rw_lock :: rwlock
  threads :: "'p \<Rightarrow> rw_thread"
  rw_stuck :: bool

datatype 'p rw_action = ReadLock 'p | WriteLock 'p | Wake 'p | Unlock 'p | Stray 'p

text \<open>A signal reaches one of the threads that wait without a wake-up, a broadcast all of them.\<close>

definition wake_readers :: "('p \<Rightarrow> rw_thread) \<Rightarrow> 'p \<Rightarrow> rw_thread" where
  "wake_readers ts p = (case ts p of WaitRead _ \<Rightarrow> WaitRead True | t \<Rightarrow> t)"

inductive woken :: "wakeup \<Rightarrow> ('p \<Rightarrow> rw_thread) \<Rightarrow> ('p \<Rightarrow> rw_thread) \<Rightarrow> bool" where
  none: "woken NoWakeup ts ts"
| one: "ts q = WaitWrite False \<Longrightarrow> woken SignalWriter ts (ts(q := WaitWrite True))"
| nobody: "(\<And>q. ts q \<noteq> WaitWrite False) \<Longrightarrow> woken SignalWriter ts ts"
| all: "woken BroadcastReaders ts (wake_readers ts)"

text \<open>A condition variable may also wake a thread without a signal.\<close>

inductive rw_step :: "'p rw_state \<Rightarrow> 'p rw_action \<Rightarrow> 'p rw_state \<Rightarrow> bool" where
  read_lock: "\<not> rw_stuck s \<Longrightarrow> threads s p = Idle \<Longrightarrow> read_try (rw_lock s) = (got, l) \<Longrightarrow>
    rw_step s (ReadLock p) (s\<lparr>rw_lock := l, threads := (threads s)(p := if got then Reading else WaitRead False)\<rparr>)"
| write_lock: "\<not> rw_stuck s \<Longrightarrow> threads s p = Idle \<Longrightarrow> write_try (rw_lock s) = (got, l) \<Longrightarrow>
    rw_step s (WriteLock p) (s\<lparr>rw_lock := l, threads := (threads s)(p := if got then Writing else WaitWrite False)\<rparr>)"
| wake_read: "\<not> rw_stuck s \<Longrightarrow> threads s p = WaitRead w \<Longrightarrow> read_again (rw_lock s) = (got, l) \<Longrightarrow>
    rw_step s (Wake p) (s\<lparr>rw_lock := l, threads := (threads s)(p := if got then Reading else WaitRead False)\<rparr>)"
| wake_write: "\<not> rw_stuck s \<Longrightarrow> threads s p = WaitWrite w \<Longrightarrow> write_again (rw_lock s) = (got, l) \<Longrightarrow>
    rw_step s (Wake p) (s\<lparr>rw_lock := l, threads := (threads s)(p := if got then Writing else WaitWrite False)\<rparr>)"
| unlock: "\<not> rw_stuck s \<Longrightarrow> threads s p = Reading \<or> threads s p = Writing \<Longrightarrow> rw_unlock (rw_lock s) = Some (w, l) \<Longrightarrow>
    woken w ((threads s)(p := Idle)) ts \<Longrightarrow> rw_step s (Unlock p) (s\<lparr>rw_lock := l, threads := ts\<rparr>)"
| unlock_throws: "\<not> rw_stuck s \<Longrightarrow> threads s p = Reading \<or> threads s p = Writing \<Longrightarrow> rw_unlock (rw_lock s) = None \<Longrightarrow>
    rw_step s (Unlock p) (s\<lparr>rw_stuck := True\<rparr>)"
| stray: "\<not> rw_stuck s \<Longrightarrow> threads s p = Idle \<Longrightarrow> rw_unlock (rw_lock s) = Some (w, l) \<Longrightarrow>
    woken w (threads s) ts \<Longrightarrow> rw_step s (Stray p) (s\<lparr>rw_lock := l, threads := ts\<rparr>)"
| stray_throws: "\<not> rw_stuck s \<Longrightarrow> threads s p = Idle \<Longrightarrow> rw_unlock (rw_lock s) = None \<Longrightarrow>
    rw_step s (Stray p) (s\<lparr>rw_stuck := True\<rparr>)"

inductive rw_run :: "'p rw_state \<Rightarrow> 'p rw_action list \<Rightarrow> 'p rw_state \<Rightarrow> bool" where
  halt: "rw_run s [] s"
| step: "rw_run s as s1 \<Longrightarrow> rw_step s1 a s' \<Longrightarrow> rw_run s (as @ [a]) s'"

definition rw_start :: "bool \<Rightarrow> int \<Rightarrow> 'p rw_state" where
  "rw_start wfst m = \<lparr>rw_lock = rwlock_new wfst m, threads = (\<lambda>_. Idle), rw_stuck = False\<rparr>"

definition disciplined :: "'p rw_action \<Rightarrow> bool" where
  "disciplined a = (case a of Stray _ \<Rightarrow> False | _ \<Rightarrow> True)"

section \<open>Counting threads\<close>

abbreviation (input) "busy \<equiv> active Idle"

fun is_waitr where "is_waitr (WaitRead _) = True" | "is_waitr _ = False"
fun is_waitw where "is_waitw (WaitWrite _) = True" | "is_waitw _ = False"

lemma busy_wake [simp]: "busy (wake_readers ts) = busy ts"
  by (auto simp: active_def wake_readers_def split: rw_thread.splits)

lemma count_wake:
  assumes "\<And>b c. P (WaitRead b) = P (WaitRead c)"
  shows "count_of P (wake_readers ts) = count_of P ts"
proof -
  have "P (wake_readers ts p) = P (ts p)" for p
    using assms by (cases "ts p") (auto simp: wake_readers_def)
  then show ?thesis by (simp add: count_of_def)
qed

definition flagless :: "(rw_thread \<Rightarrow> bool) \<Rightarrow> bool" where
  "flagless P \<longleftrightarrow> (\<forall>b c. P (WaitRead b) = P (WaitRead c)) \<and> (\<forall>b c. P (WaitWrite b) = P (WaitWrite c)) \<and> \<not> P Idle"

lemma flagless_kinds [simp]: "flagless is_waitr" "flagless is_waitw" "flagless ((=) Reading)" "flagless ((=) Writing)"
  by (simp_all add: flagless_def)

lemma woken_count:
  assumes "woken w ts ts'" and "finite (busy ts)" and "flagless P"
  shows "finite (busy ts') \<and> count_of P ts' = count_of P ts"
  using assms
proof (cases rule: woken.cases)
  case (one q)
  then show ?thesis using assms(2,3) count_upd [of Idle ts P q "WaitWrite True"] by (auto simp: flagless_def)
next
  case all
  have "count_of P (wake_readers ts) = count_of P ts" by (rule count_wake) (use assms(3) in \<open>auto simp: flagless_def\<close>)
  then show ?thesis using all assms(2) by simp
qed (use assms(2) in auto)

section \<open>The invariant\<close>

definition rw_ok :: "'p rw_state \<Rightarrow> bool" where
  "rw_ok s \<longleftrightarrow> (let l = rw_lock s; ts = threads s in
     finite (busy ts) \<and> \<not> rw_stuck s \<and>
     waiting_reader l = count_of is_waitr ts \<and> waiting_writer l = count_of is_waitw ts \<and>
     (if holding_lock l < 0 then holding_lock l = -1 \<and> count_of ((=) Writing) ts = 1 \<and> count_of ((=) Reading) ts = 0
      else holding_lock l = count_of ((=) Reading) ts \<and> count_of ((=) Writing) ts = 0) \<and>
     (max_reader l > 0 \<longrightarrow> holding_lock l \<le> max_reader l))"

lemmas rw_op_defs = read_try_def write_try_def read_again_def write_again_def read_blocked_def rw_unlock_def

lemma rw_ok_upd:
  assumes "rw_ok s" and "\<not> rw_stuck s"
    and "waiting_reader l = waiting_reader (rw_lock s) - (if is_waitr (threads s p) then 1 else 0) + (if is_waitr t then 1 else 0)"
    and "waiting_writer l = waiting_writer (rw_lock s) - (if is_waitw (threads s p) then 1 else 0) + (if is_waitw t then 1 else 0)"
    and "threads s p \<noteq> Reading" and "threads s p \<noteq> Writing" and "max_reader l = max_reader (rw_lock s)"
    and "holding_lock l = holding_lock (rw_lock s) \<and> t \<noteq> Reading \<and> t \<noteq> Writing \<or>
         t = Reading \<and> 0 \<le> holding_lock (rw_lock s) \<and> (max_reader l > 0 \<longrightarrow> holding_lock l \<le> max_reader l) \<and> holding_lock l = holding_lock (rw_lock s) + 1 \<or>
         t = Writing \<and> holding_lock (rw_lock s) = 0 \<and> holding_lock l = -1"
  shows "rw_ok (s\<lparr>rw_lock := l, threads := (threads s)(p := t)\<rparr>)"
proof -
  have f: "finite (busy (threads s))" using assms(1) by (simp add: rw_ok_def Let_def)
  note c = count_upd [OF f, of _ p t]
  show ?thesis
    using assms f by (auto simp: rw_ok_def Let_def c split: if_splits)
qed

lemma rw_ok_step:
  assumes "rw_step s a s'" and "rw_ok s" and "disciplined a"
  shows "rw_ok s'"
  using assms(1)
proof (cases rule: rw_step.cases)
  case (read_lock p got l)
  show ?thesis unfolding read_lock(2)
    by (rule rw_ok_upd) (use assms(2) read_lock in \<open>auto simp: rw_op_defs rw_ok_def Let_def split: if_splits\<close>)
next
  case (write_lock p got l)
  show ?thesis unfolding write_lock(2)
    by (rule rw_ok_upd) (use assms(2) write_lock in \<open>auto simp: rw_op_defs split: if_splits\<close>)
next
  case (wake_read p w got l)
  show ?thesis unfolding wake_read(2)
    by (rule rw_ok_upd) (use assms(2) wake_read in \<open>auto simp: rw_op_defs rw_ok_def Let_def split: if_splits\<close>)
next
  case (wake_write p w got l)
  show ?thesis unfolding wake_write(2)
    by (rule rw_ok_upd) (use assms(2) wake_write in \<open>auto simp: rw_op_defs split: if_splits\<close>)
next
  case (unlock p w l ts)
  have f: "finite (busy (threads s))" using assms(2) by (simp add: rw_ok_def Let_def)
  note c = count_upd [OF f, of _ p Idle]
  have w: "finite (busy ts) \<and> count_of P ts = count_of P ((threads s)(p := Idle))" if "flagless P" for P
    by (rule woken_count [OF unlock(6)]) (use f that in auto)
  have "count_of ((=) Reading) (threads s) > 0" if "threads s p = Reading"
    using count_posI [OF f, of _ p] that by simp
  moreover have "count_of ((=) Writing) (threads s) > 0" if "threads s p = Writing"
    using count_posI [OF f, of _ p] that by simp
  ultimately show ?thesis
    using assms(2) unlock(3-5) w [of is_waitr] w [of is_waitw] w [of "(=) Reading"] w [of "(=) Writing"]
    unfolding unlock(2) by (auto simp: rw_ok_def Let_def c rw_unlock_def split: if_splits)
next
  case (unlock_throws p)
  have f: "finite (busy (threads s))" using assms(2) by (simp add: rw_ok_def Let_def)
  then have "count_of ((=) Reading) (threads s) > 0 \<or> count_of ((=) Writing) (threads s) > 0"
    using unlock_throws(4) count_posI [OF f, of "(=) Reading" p] count_posI [OF f, of "(=) Writing" p] by auto
  then show ?thesis using assms(2) unlock_throws(5) by (auto simp: rw_ok_def Let_def rw_unlock_def split: if_splits)
qed (use assms(3) in \<open>simp_all add: disciplined_def\<close>)

lemma rw_ok_start: "rw_ok (rw_start wfst m)"
  by (simp add: rw_ok_def rw_start_def rwlock_new_def active_def count_of_def)

lemma rw_max: "rw_step s a s' \<Longrightarrow> max_reader (rw_lock s') = max_reader (rw_lock s)"
  by (erule rw_step.cases) (auto simp: rw_op_defs Let_def split: if_splits)

lemma rw_run_ok:
  "rw_run s as s' \<Longrightarrow> list_all disciplined as \<Longrightarrow> rw_ok s \<Longrightarrow> rw_ok s' \<and> max_reader (rw_lock s') = max_reader (rw_lock s)"
  by (induction rule: rw_run.induct) (auto intro: rw_ok_step dest: rw_max)

section \<open>Wake-ups\<close>

text \<open>While the lock is free a waiting writer, or else a waiting reader, has a wake-up on its way.\<close>

definition wake_pending :: "'p rw_state \<Rightarrow> bool" where
  "wake_pending s \<longleftrightarrow> (let ts = threads s in
     holding_lock (rw_lock s) = 0 \<longrightarrow>
       (if (\<exists>p. is_waitw (ts p)) then (\<exists>p. ts p = WaitWrite True)
        else (\<exists>p. is_waitr (ts p)) \<longrightarrow> (\<exists>p. ts p = WaitRead True)))"

lemma waitw_iff: "rw_ok s \<Longrightarrow> 0 < waiting_writer (rw_lock s) \<longleftrightarrow> (\<exists>p. is_waitw (threads s p))"
  using count_pos [of Idle "threads s" is_waitw] by (simp add: rw_ok_def Let_def)

lemma waitr_iff: "rw_ok s \<Longrightarrow> 0 < waiting_reader (rw_lock s) \<longleftrightarrow> (\<exists>p. is_waitr (threads s p))"
  using count_pos [of Idle "threads s" is_waitr] by (simp add: rw_ok_def Let_def)

lemma wake_pending_upd:
  assumes "wake_pending s" and "holding_lock l = holding_lock (rw_lock s)" and "threads s p \<noteq> WaitWrite True" and "\<not> is_waitw t"
    and "holding_lock l = 0 \<Longrightarrow> \<exists>q. is_waitw (threads s q)"
  shows "wake_pending (s\<lparr>rw_lock := l, threads := (threads s)(p := t)\<rparr>)"
proof (cases "holding_lock l = 0")
  case True
  then obtain q where q: "threads s q = WaitWrite True" using assms(1,2,5) by (auto simp: wake_pending_def Let_def)
  then have "((threads s)(p := t)) q = WaitWrite True" using assms(3) by auto
  then have "\<exists>q. ((threads s)(p := t)) q = WaitWrite True" "\<exists>q. is_waitw (((threads s)(p := t)) q)" by (metis is_waitw.simps(1))+
  then show ?thesis by (simp add: wake_pending_def Let_def del: fun_upd_apply)
qed (simp add: wake_pending_def)

lemma wake_pending_held: "holding_lock l \<noteq> 0 \<Longrightarrow> wake_pending (s\<lparr>rw_lock := l, threads := ts\<rparr>)"
  by (simp add: wake_pending_def)

lemma wake_pending_step:
  assumes "rw_step s a s'" and ok: "rw_ok s" and "wake_pending s" and "disciplined a"
  shows "wake_pending s'"
  using assms(1)
proof (cases rule: rw_step.cases)
  case (read_lock p got l)
  show ?thesis
  proof (cases got)
    case True
    then show ?thesis unfolding read_lock(2)
      by (intro wake_pending_held) (use read_lock in \<open>auto simp: rw_op_defs split: if_splits\<close>)
  next
    case False
    then show ?thesis unfolding read_lock(2)
      by (intro wake_pending_upd assms(3)) (use read_lock waitw_iff [OF ok] in \<open>auto simp: rw_op_defs split: if_splits\<close>)
  qed
next
  case (wake_read p w got l)
  show ?thesis
  proof (cases got)
    case True
    then show ?thesis unfolding wake_read(2)
      by (intro wake_pending_held) (use wake_read in \<open>auto simp: rw_op_defs split: if_splits\<close>)
  next
    case False
    then show ?thesis unfolding wake_read(2)
      by (intro wake_pending_upd assms(3)) (use wake_read waitw_iff [OF ok] in \<open>auto simp: rw_op_defs split: if_splits\<close>)
  qed
next
  case (write_lock p got l)
  then show ?thesis unfolding write_lock(2)
    by (intro wake_pending_held) (auto simp: rw_op_defs split: if_splits)
next
  case (wake_write p w got l)
  then show ?thesis unfolding wake_write(2)
    by (intro wake_pending_held) (auto simp: rw_op_defs split: if_splits)
next
  case (unlock p w l ts)
  define ts0 where "ts0 = (threads s)(p := Idle)"
  have fields: "waiting_writer l = waiting_writer (rw_lock s)" "waiting_reader l = waiting_reader (rw_lock s)" "w = unlock_wakeup l"
    using unlock(5) by (auto simp: rw_unlock_def Let_def split: if_splits)
  have p: "\<not> is_waitw (threads s p)" "\<not> is_waitr (threads s p)" using unlock(4) by auto
  have W: "0 < waiting_writer l \<longleftrightarrow> (\<exists>q. is_waitw (ts0 q))" and R: "0 < waiting_reader l \<longleftrightarrow> (\<exists>q. is_waitr (ts0 q))"
    using waitw_iff [OF ok] waitr_iff [OF ok] p fields by (auto simp: ts0_def)
  have "if (\<exists>q. is_waitw (ts q)) then (\<exists>q. ts q = WaitWrite True) else (\<exists>q. is_waitr (ts q)) \<longrightarrow> (\<exists>q. ts q = WaitRead True)"
    if "holding_lock l = 0"
    using unlock(6) [folded ts0_def]
  proof (cases rule: woken.cases)
    case none
    have "\<not> 0 < waiting_writer l" "\<not> 0 < waiting_reader l"
      using none(1) fields(3) that by (auto simp: unlock_wakeup_def split: if_splits)
    then show ?thesis using none(2) W R by simp
  next
    case (one q)
    then show ?thesis by auto
  next
    case nobody
    have "0 < waiting_writer l" using nobody(1) fields(3) by (auto simp: unlock_wakeup_def split: if_splits)
    then obtain q where "is_waitw (ts0 q)" using W by blast
    moreover have "ts0 q \<noteq> WaitWrite False" by (rule nobody(3))
    ultimately have "ts0 q = WaitWrite True" by (cases "ts0 q") simp_all
    then have "is_waitw (ts q)" "ts q = WaitWrite True" using nobody(2) by simp_all
    then show ?thesis by metis
  next
    case all
    have "\<not> 0 < waiting_writer l" "0 < waiting_reader l"
      using all(1) fields(3) that by (auto simp: unlock_wakeup_def split: if_splits)
    then obtain q where q: "is_waitr (ts0 q)" and no: "\<And>q. \<not> is_waitw (ts0 q)" using W R by blast
    have "ts q = WaitRead True" using q all(2) by (cases "ts0 q") (simp_all add: wake_readers_def)
    moreover have "\<not> is_waitw (ts q)" for q using no [of q] all(2) by (cases "ts0 q") (simp_all add: wake_readers_def)
    ultimately show ?thesis by auto
  qed
  then show ?thesis unfolding unlock(2) by (simp add: wake_pending_def Let_def)
next
  case (unlock_throws p)
  then show ?thesis using assms(3) by (simp add: wake_pending_def)
qed (use assms(4) in \<open>simp_all add: disciplined_def\<close>)

lemma wake_pending_run:
  "rw_run s as s' \<Longrightarrow> list_all disciplined as \<Longrightarrow> rw_ok s \<Longrightarrow> wake_pending s \<Longrightarrow> wake_pending s'"
  by (induction rule: rw_run.induct) (auto intro: wake_pending_step dest: rw_run_ok)

lemma wake_pending_start: "wake_pending (rw_start wfst m)"
  by (simp add: wake_pending_def rw_start_def)

text \<open>A woken thread gets the free lock.\<close>

lemma woken_gets_lock:
  assumes ok: "rw_ok s" and "wake_pending s" and free: "holding_lock (rw_lock s) = 0" and "is_waitr (threads s p) \<or> is_waitw (threads s p)"
  shows "\<exists>q s'. threads s q \<in> {WaitRead True, WaitWrite True} \<and> rw_step s (Wake q) s' \<and> threads s' q \<in> {Reading, Writing}"
proof (cases "\<exists>q. is_waitw (threads s q)")
  case True
  then obtain q where q: "threads s q = WaitWrite True" using assms(2) free by (auto simp: wake_pending_def Let_def)
  have "\<not> rw_stuck s" using ok by (simp add: rw_ok_def Let_def)
  then have "rw_step s (Wake q) (s\<lparr>rw_lock := snd (write_again (rw_lock s)), threads := (threads s)(q := if True then Writing else WaitWrite False)\<rparr>)"
    using q free by (intro wake_write) (auto simp: rw_op_defs)
  then show ?thesis using q by (intro exI conjI) auto
next
  case False
  then obtain q where q: "threads s q = WaitRead True" using assms(2,4) free by (auto simp: wake_pending_def Let_def)
  have "\<not> 0 < waiting_writer (rw_lock s)" using False waitw_iff [OF ok] by auto
  moreover have "\<not> rw_stuck s" using ok by (simp add: rw_ok_def Let_def)
  ultimately have "rw_step s (Wake q) (s\<lparr>rw_lock := snd (read_again (rw_lock s)), threads := (threads s)(q := if True then Reading else WaitRead False)\<rparr>)"
    using q free by (intro wake_read) (auto simp: rw_op_defs)
  then show ?thesis using q by (intro exI conjI) auto
qed

section \<open>Properties\<close>

lemma run_facts:
  assumes "rw_run (rw_start wfst m) as s" and "list_all disciplined as"
  shows "rw_ok s \<and> max_reader (rw_lock s) = m \<and> wake_pending s"
  using rw_run_ok [OF assms rw_ok_start] wake_pending_run [OF assms rw_ok_start wake_pending_start]
  by (simp add: rw_start_def rwlock_new_def)

text \<open>
  C14. Writers exclude everybody. In every state reachable by threads that only release what they
  hold, a writer is the only thread inside; the number of readers inside is what the lock counts and
  does not exceed the maximum; and no release throws.
\<close>

theorem rwlock_excludes:
  assumes "rw_run (rw_start wfst m) as s" and "list_all disciplined as"
  shows "(threads s p = Writing \<longrightarrow> (\<forall>q. q \<noteq> p \<longrightarrow> threads s q \<noteq> Writing \<and> threads s q \<noteq> Reading)) \<and>
    (0 < m \<longrightarrow> int (card {q. threads s q = Reading}) \<le> m) \<and> \<not> rw_stuck s"
proof -
  have ok: "rw_ok s" and m: "max_reader (rw_lock s) = m" using run_facts [OF assms] by simp_all
  have f: "finite (busy (threads s))" and ns: "\<not> rw_stuck s" using ok by (simp_all add: rw_ok_def Let_def)
  have r: "count_of ((=) Reading) (threads s) = int (card {q. threads s q = Reading})"
    unfolding count_of_def by (simp add: eq_commute)
  have "threads s q \<noteq> Writing \<and> threads s q \<noteq> Reading" if p: "threads s p = Writing" and q: "q \<noteq> p" for q
  proof -
    have w: "0 < count_of ((=) Writing) (threads s)" using count_posI [OF f, of "(=) Writing" p] p by simp
    then have c: "count_of ((=) Writing) (threads s) = 1" "count_of ((=) Reading) (threads s) = 0"
      using ok by (auto simp: rw_ok_def Let_def split: if_splits)
    then show ?thesis
      using count_one [OF f, of "(=) Writing" p q] count_posI [OF f, of "(=) Reading" q] p q by auto
  qed
  moreover have "int (card {q. threads s q = Reading}) \<le> m" if "0 < m"
    using ok m that unfolding rw_ok_def Let_def r by (auto split: if_splits)
  ultimately show ?thesis using ns by blast
qed

text \<open>A run in which a reader and a writer wait for a writer; the writer gets the lock next.\<close>

definition rw_example :: "nat rw_action list" where
  "rw_example = [WriteLock 4, WriteLock 2, ReadLock 3, Unlock 4]"

definition rw_example_state :: "nat rw_state" where
  "rw_example_state = \<lparr>rw_lock = \<lparr>writer_first = False, max_reader = 5, waiting_reader = 1, waiting_writer = 1, holding_lock = 0\<rparr>,
     threads = (\<lambda>_. Idle)(2 := WaitWrite True, 3 := WaitRead False), rw_stuck = False\<rparr>"

lemma rw_run_append: "rw_run s as s1 \<Longrightarrow> rw_step s1 a s' \<Longrightarrow> bs = as @ [a] \<Longrightarrow> rw_run s bs s'"
  using rw_run.step by metis

lemma rw_example_run: "rw_run (rw_start False 5) rw_example rw_example_state"
proof -
  define l where "l = (\<lambda>r w h. \<lparr>writer_first = False, max_reader = 5, waiting_reader = r, waiting_writer = w, holding_lock = h\<rparr>)"
  let ?s1 = "\<lparr>rw_lock = l 0 0 (-1), threads = (\<lambda>_. Idle)(4 := Writing), rw_stuck = False\<rparr> :: nat rw_state"
  let ?s2 = "\<lparr>rw_lock = l 0 1 (-1), threads = (\<lambda>_. Idle)(4 := Writing, 2 := WaitWrite False), rw_stuck = False\<rparr> :: nat rw_state"
  let ?s3 = "\<lparr>rw_lock = l 1 1 (-1), threads = (\<lambda>_. Idle)(4 := Writing, 2 := WaitWrite False, 3 := WaitRead False), rw_stuck = False\<rparr> :: nat rw_state"
  have "rw_step (rw_start False 5) (WriteLock 4) ?s1"
    using rw_step.write_lock [of "rw_start False 5" 4 True "l 0 0 (-1)"] by (simp add: rw_start_def rwlock_new_def rw_op_defs l_def)
  moreover have "rw_step ?s1 (WriteLock 2) ?s2"
    using rw_step.write_lock [of ?s1 2 False "l 0 1 (-1)"] by (simp add: rw_op_defs l_def)
  moreover have "rw_step ?s2 (ReadLock 3) ?s3"
    using rw_step.read_lock [of ?s2 3 False "l 1 1 (-1)"] by (simp add: rw_op_defs l_def)
  moreover have "rw_step ?s3 (Unlock 4) rw_example_state"
  proof -
    let ?ts = "(threads ?s3)(4 := Idle)"
    have "woken SignalWriter ?ts (?ts(2 := WaitWrite True))" by (rule woken.one) simp
    then have "rw_step ?s3 (Unlock 4) (?s3\<lparr>rw_lock := l 1 1 0, threads := ?ts(2 := WaitWrite True)\<rparr>)"
      by (intro rw_step.unlock [where w = SignalWriter]) (simp_all add: rw_op_defs unlock_wakeup_def l_def)
    moreover have "?ts(2 := WaitWrite True) = (\<lambda>_. Idle)(2 := WaitWrite True, 3 := WaitRead False)" by (simp add: fun_eq_iff)
    ultimately show ?thesis by (simp add: rw_example_state_def l_def)
  qed
  ultimately show ?thesis
    unfolding rw_example_def by (intro rw_run_append [OF rw_run_append [OF rw_run_append [OF rw_run_append [OF rw_run.halt]]]]) simp_all
qed

theorem rwlock_excludes_witness:
  "rw_run (rw_start False 5) rw_example rw_example_state \<and> int (card {q. threads rw_example_state q = Reading}) \<le> 5"
  using rw_example_run rwlock_excludes [OF rw_example_run] by (simp add: rw_example_def disciplined_def)

text \<open>
  C13. No wake-up is lost. In every state reachable by threads that only release what they hold, when
  the lock is free and a thread waits for it, a wake-up is on its way to a thread that takes
  the lock as soon as it runs: the lock is never free for good while threads wait.
\<close>

theorem rwlock_no_lost_wakeup:
  assumes "rw_run (rw_start wfst m) as s" and "list_all disciplined as"
    and "holding_lock (rw_lock s) = 0" and "threads s p \<in> {WaitRead b, WaitWrite b}"
  shows "\<exists>q s'. threads s q \<in> {WaitRead True, WaitWrite True} \<and> rw_step s (Wake q) s' \<and> threads s' q \<in> {Reading, Writing}"
  using woken_gets_lock [of s p] run_facts [OF assms(1,2)] assms(3,4) by auto

theorem rwlock_no_lost_wakeup_witness:
  "\<exists>q s'. threads rw_example_state q \<in> {WaitRead True, WaitWrite True} \<and> rw_step rw_example_state (Wake q) s' \<and> threads s' q \<in> {Reading, Writing}"
  by (rule rwlock_no_lost_wakeup [OF rw_example_run, of 3 False]) (simp_all add: rw_example_def disciplined_def rw_example_state_def)

text \<open>
  A release of a free lock throws with the mutex locked: after it no thread can do anything with
  the lock.
\<close>

lemma stray_unlock_blocks_all:
  assumes "rw_step (rw_start wfst m) (Stray p) s"
  shows "\<not> rw_step s a s'"
proof -
  have "rw_stuck s" using assms by cases (auto simp: rw_start_def rwlock_new_def rw_unlock_def)
  then show ?thesis by (auto elim: rw_step.cases)
qed

text \<open>With writers first no reader gets the lock while a writer waits.\<close>

lemma writer_first_holds_readers_back:
  "writer_first l \<Longrightarrow> 0 < waiting_writer l \<Longrightarrow> \<not> fst (read_try l) \<and> \<not> fst (read_again l)"
  by (simp add: rw_op_defs)

text \<open>
  The destructor throws, here \<^const>\<open>None\<close>, when somebody uses the lock. In a state that disciplined threads reach it throws exactly if a
  thread holds the lock or waits for it.
\<close>

definition rwlock_delete :: "rwlock \<Rightarrow> unit option" where
  "rwlock_delete l = (if waiting_reader l \<noteq> 0 \<or> waiting_writer l \<noteq> 0 \<or> holding_lock l \<noteq> 0 then None else Some ())"

theorem rwlock_delete_throws:
  assumes "rw_run (rw_start wfst m) as s" and "list_all disciplined as"
  shows "rwlock_delete (rw_lock s) = None \<longleftrightarrow> (\<exists>p. threads s p \<noteq> Idle)"
proof -
  have ok: "rw_ok s" using run_facts [OF assms] by simp
  then have f: "finite (busy (threads s))" by (simp add: rw_ok_def Let_def)
  show ?thesis
  proof
    assume "rwlock_delete (rw_lock s) = None"
    then have "count_of is_waitr (threads s) \<noteq> 0 \<or> count_of is_waitw (threads s) \<noteq> 0 \<or>
        count_of ((=) Reading) (threads s) \<noteq> 0 \<or> count_of ((=) Writing) (threads s) \<noteq> 0"
      using ok by (auto simp: rwlock_delete_def rw_ok_def Let_def split: if_splits)
    then show "\<exists>p. threads s p \<noteq> Idle"
      using count_none [of is_waitr "threads s"] count_none [of is_waitw "threads s"]
        count_none [of "(=) Reading" "threads s"] count_none [of "(=) Writing" "threads s"]
      by (metis is_waitr.simps(2) is_waitw.simps(2) rw_thread.distinct(1,3))
  next
    assume "\<exists>p. threads s p \<noteq> Idle"
    then obtain p where p: "threads s p \<noteq> Idle" by blast
    note c = count_posI [OF f, of _ p]
    show "rwlock_delete (rw_lock s) = None"
    proof (cases "threads s p")
      case Reading
      then show ?thesis using c [of "(=) Reading"] ok by (auto simp: rwlock_delete_def rw_ok_def Let_def split: if_splits)
    next
      case Writing
      then show ?thesis using c [of "(=) Writing"] ok by (auto simp: rwlock_delete_def rw_ok_def Let_def split: if_splits)
    next
      case (WaitRead w)
      then show ?thesis using c [of is_waitr] ok by (auto simp: rwlock_delete_def rw_ok_def Let_def)
    next
      case (WaitWrite w)
      then show ?thesis using c [of is_waitw] ok by (auto simp: rwlock_delete_def rw_ok_def Let_def)
    qed (use p in simp)
  qed
qed

end
