(* ===== verification/Db_Statement.thy ===== *)
theory Db_Statement
  imports Db_Process
begin

text \<open>
  The statements of \<open>dbprocess.c\<close> as the precompiler writes them: which variables a block hands to the database, where the
  answer goes, and the texts of the two queries. What \<open>sqlcxt\<close> makes of them is the database's: the rows of
  the table and the conversion of a value to a variable are arguments.
\<close>

section \<open>Host variables\<close>

text \<open>The types of the declare sections. \<open>varchar\<close> becomes a structure of a length of two bytes and the characters.\<close>

datatype host_type = Int_var | Char_var nat | Varchar_var nat

definition sizeof_int :: nat where
  "sizeof_int = 4"

fun sizeof_type :: "host_type \<Rightarrow> nat" where
  "sizeof_type Int_var = sizeof_int"
| "sizeof_type (Char_var n) = n"
| "sizeof_type (Varchar_var n) = n + 2"

text \<open>The variables of \<open>create_task_item_list_by_db_updated\<close>, and of \<open>create_task_item_list_by_db\<close>, where the time is a \<open>varchar\<close>.\<close>

definition declared_updated :: "(string \<times> host_type) list" where
  "declared_updated =
    [(''nCount'', Int_var), (''prg_id'', Int_var), (''ftpparm_id'', Int_var), (''del_src'', Int_var), (''copy_flag'', Int_var),
     (''direction'', Int_var), (''file_modify_time_escape'', Int_var), (''generate_db_cdr'', Int_var), (''use_tmp'', Int_var),
     (''ftp_host'', Char_var 256), (''ftp_path'', Char_var 256), (''local_path'', Char_var 256), (''file_pattern'', Char_var 128),
     (''month'', Char_var 16), (''day'', Char_var 16), (''hour'', Char_var 16), (''min'', Char_var 16), (''sh_file'', Char_var 256),
     (''son_dir_mask'', Char_var 256), (''cp_dir_1'', Char_var 256), (''cp_dir_2'', Char_var 256), (''cp_dir_3'', Char_var 256),
     (''cp_dir_4'', Char_var 256), (''ftp_flag'', Int_var), (''db_time'', Char_var 17)]"

definition declared_all :: "(string \<times> host_type) list" where
  "declared_all =
    [(''nCount'', Int_var), (''prg_id'', Int_var), (''ftpparm_id'', Int_var), (''del_src'', Int_var), (''copy_flag'', Int_var),
     (''direction'', Int_var), (''file_modify_time_escape'', Int_var), (''generate_db_cdr'', Int_var), (''use_tmp'', Int_var),
     (''ftp_host'', Char_var 256), (''ftp_path'', Char_var 256), (''local_path'', Char_var 256), (''file_pattern'', Char_var 128),
     (''month'', Char_var 16), (''day'', Char_var 16), (''hour'', Char_var 16), (''min'', Char_var 16), (''sh_file'', Char_var 256),
     (''son_dir_mask'', Char_var 256), (''cp_dir_1'', Char_var 256), (''cp_dir_2'', Char_var 256), (''cp_dir_3'', Char_var 256),
     (''cp_dir_4'', Char_var 256), (''ftp_flag'', Int_var), (''db_time'', Varchar_var 17)]"

definition declared_connect :: "(string \<times> host_type) list" where
  "declared_connect = [(''username'', Char_var 20), (''password'', Char_var 20), (''oraclename'', Char_var 20)]"

definition declared_execute :: "(string \<times> host_type) list" where
  "declared_execute = [(''sqlCmd'', Char_var 512)]"

section \<open>The blocks\<close>

text \<open>
  A bound variable: its address, its size, the step to the next element, its indicator variable. The entries of the
  arrays \<open>sqinds\<close>, \<open>sqharm\<close>, \<open>sqadto\<close> and \<open>sqtdso\<close> are 0 throughout.
\<close>

record bound_var =
  sqhstv :: string
  sqhstl :: nat
  sqhsts :: nat
  sqindv :: "string option"

definition plain_var :: "string \<Rightarrow> nat \<Rightarrow> bound_var" where
  "plain_var v n = \<lparr>sqhstv = v, sqhstl = n, sqhsts = 0, sqindv = None\<rparr>"

text \<open>The structure handed to \<open>sqlcxt\<close>; a field a block does not assign is \<^const>\<open>None\<close>: the structure is a fresh local one each time.\<close>

record sqlexd =
  arrsiz :: nat
  stmt :: "string option"
  iters :: nat
  sql_offset :: nat
  selerr :: "nat option"
  sqcmod :: "nat option"
  sqfoff :: "nat option"
  sqfmod :: "nat option"
  sqlcpool :: "nat list option"
  sql_vars :: "bound_var list"

definition connect_block :: sqlexd where
  "connect_block = \<lparr>arrsiz = 4, stmt = None, iters = 10, sql_offset = 5, selerr = None, sqcmod = None, sqfoff = None, sqfmod = None,
     sqlcpool = Some [100, 2, 1, 0, 0],
     sql_vars = [\<lparr>sqhstv = ''username'', sqhstl = 20, sqhsts = 20, sqindv = None\<rparr>,
       \<lparr>sqhstv = ''password'', sqhstl = 20, sqhsts = 20, sqindv = None\<rparr>,
       \<lparr>sqhstv = ''oraclename'', sqhstl = 20, sqhsts = 20, sqindv = None\<rparr>]\<rparr>"

definition bare_block :: "nat \<Rightarrow> nat \<Rightarrow> string option \<Rightarrow> sqlexd" where
  "bare_block n off s = \<lparr>arrsiz = n, stmt = s, iters = 1, sql_offset = off, selerr = None, sqcmod = None, sqfoff = None, sqfmod = None,
     sqlcpool = None, sql_vars = []\<rparr>"

definition release_block :: sqlexd where
  "release_block = bare_block 4 41 None"

definition prepare_block :: sqlexd where
  "prepare_block = (bare_block 4 61 (Some ''''))\<lparr>sql_vars := [plain_var ''sqlCmd'' 512]\<rparr>"

definition execute_block :: sqlexd where
  "execute_block = bare_block 4 85 (Some '''')"

definition commit_block :: sqlexd where
  "commit_block = bare_block 4 105 None"

definition rollback_block :: sqlexd where
  "rollback_block = bare_block 4 125 None"

text \<open>The queries.\<close>

definition sq0006 :: string where
  "sq0006 = ''select ftpparm_id ,ftp_host ,ftp_path ,local_path ,Nvl(file_pattern,'^.*') '' @
     '',direction ,Nvl(month,'*') ,Nvl(day,'*') ,Nvl(hour,'*') ,Nvl(min,'*') ,del_sr'' @
     ''c ,Nvl(sh_file,'NO') ,Nvl(son_dir_mask,'NULL') ,Nvl(cp_dir_1,'NULL') ,Nvl(cp_'' @
     ''dir_2,'NULL') ,Nvl(cp_dir_3,'NULL') ,Nvl(cp_dir_4,'NULL') ,file_modify_time_e'' @
     ''scape ,generate_db_cdr ,use_tmp ,nvl(copy_flag,0) ,ftp_flag ,to_char(sysdate,'' @
     '''YYYYMMDDHH24MISS')  from tb_cfg_filecollection where (Program_id=:b0 and opt'' @
     ''_time>=to_date(:b1,'YYYYMMDDHH24MISS'))           ''"

definition sq0007 :: string where
  "sq0007 = ''select ftpparm_id ,ftp_host ,ftp_path ,local_path ,Nvl(file_pattern,'^.*') '' @
     '',direction ,Nvl(month,'*') ,Nvl(day,'*') ,Nvl(hour,'*') ,Nvl(min,'*') ,del_sr'' @
     ''c ,Nvl(sh_file,'NO') ,Nvl(son_dir_mask,'NULL') ,Nvl(cp_dir_1,'NULL') ,Nvl(cp_'' @
     ''dir_2,'NULL') ,Nvl(cp_dir_3,'NULL') ,Nvl(cp_dir_4,'NULL') ,file_modify_time_e'' @
     ''scape ,generate_db_cdr ,use_tmp ,nvl(copy_flag,0) ,ftp_flag ,to_char(sysdate,'' @
     '''YYYYMMDDHH24MISS')  from tb_cfg_filecollection where (Program_id=:b0 and Ftp'' @
     ''_Flag=1)           ''"

text \<open>The cursor of \<open>create_task_item_list_by_db_updated\<close>: opened, fetched from, closed.\<close>

definition open_updated :: sqlexd where
  "open_updated = (bare_block 4 145 (Some sq0006))\<lparr>selerr := Some 1, sqcmod := Some 0, sql_vars := [plain_var ''prg_id'' sizeof_int, plain_var ''db_time'' 17]\<rparr>"

definition updated_source :: "bound_var list" where
  "updated_source =
    [plain_var ''ftpparm_id'' sizeof_int, plain_var ''ftp_host'' 256, plain_var ''ftp_path'' 256, plain_var ''local_path'' 256,
     plain_var ''file_pattern'' 128, plain_var ''direction'' sizeof_int, plain_var ''month'' 16, plain_var ''day'' 16]"

definition updated_action :: "bound_var list" where
  "updated_action =
    [plain_var ''hour'' 16, plain_var ''min'' 16, plain_var ''del_src'' sizeof_int, plain_var ''sh_file'' 256,
     plain_var ''son_dir_mask'' 256, plain_var ''cp_dir_1'' 256, plain_var ''cp_dir_2'' 256, plain_var ''cp_dir_3'' 256]"

definition updated_flags :: "bound_var list" where
  "updated_flags =
    [plain_var ''cp_dir_4'' 256, plain_var ''file_modify_time_escape'' sizeof_int, plain_var ''generate_db_cdr'' sizeof_int,
     plain_var ''use_tmp'' sizeof_int, plain_var ''copy_flag'' sizeof_int, plain_var ''ftp_flag'' sizeof_int,
     plain_var ''db_time'' 17]"

definition fetch_updated :: sqlexd where
  "fetch_updated = (bare_block 23 173 None)\<lparr>selerr := Some 1, sqfoff := Some 0, sqfmod := Some 2,
     sql_vars := updated_source @ updated_action @ updated_flags\<rparr>"

definition close_updated :: sqlexd where
  "close_updated = bare_block 23 285 None"

text \<open>The cursor of \<open>create_task_item_list_by_db\<close>: opened, fetched from, closed.\<close>

definition open_all :: sqlexd where
  "open_all = (bare_block 23 305 (Some sq0007))\<lparr>selerr := Some 1, sqcmod := Some 0, sql_vars := [plain_var ''prg_id'' sizeof_int]\<rparr>"

definition all_source :: "bound_var list" where
  "all_source =
    [plain_var ''ftpparm_id'' sizeof_int, plain_var ''ftp_host'' 256, plain_var ''ftp_path'' 256, plain_var ''local_path'' 256,
     plain_var ''file_pattern'' 128, plain_var ''direction'' sizeof_int, plain_var ''month'' 16, plain_var ''day'' 16]"

definition all_action :: "bound_var list" where
  "all_action =
    [plain_var ''hour'' 16, plain_var ''min'' 16, plain_var ''del_src'' sizeof_int, plain_var ''sh_file'' 256,
     plain_var ''son_dir_mask'' 256, plain_var ''cp_dir_1'' 256, plain_var ''cp_dir_2'' 256, plain_var ''cp_dir_3'' 256]"

definition all_flags :: "bound_var list" where
  "all_flags =
    [plain_var ''cp_dir_4'' 256, plain_var ''file_modify_time_escape'' sizeof_int, plain_var ''generate_db_cdr'' sizeof_int,
     plain_var ''use_tmp'' sizeof_int, plain_var ''copy_flag'' sizeof_int, plain_var ''ftp_flag'' sizeof_int,
     plain_var ''db_time'' 19]"

definition fetch_all :: sqlexd where
  "fetch_all = (bare_block 23 329 None)\<lparr>selerr := Some 1, sqfoff := Some 0, sqfmod := Some 2,
     sql_vars := all_source @ all_action @ all_flags\<rparr>"

definition close_all :: sqlexd where
  "close_all = bare_block 23 441 None"

text \<open>The compilation unit data: a header of five numbers, then a descriptor for each statement.\<close>

definition sqlcud0 :: "int list" where
  "sqlcud0 =
    [12, 4130, 852, 0, 0, 5, 0, 0, 1, 0, 0, 27, 26, 0, 0, 4, 4, 0, 2, 5, 68, 66, 50, 51, 54, 1, 97, 0, 0, 1, 97, 0, 0, 1, 97,
      0, 0, 1, 10, 0, 0, 41, 0, 0, 2, 0, 0, 30, 36, 0, 0, 0, 0, 0, 2, 5, 68, 66, 50, 51, 54, 61, 0, 0, 3, 0, 0, 17, 71, 0, 0,
      1, 1, 0, 2, 5, 68, 66, 50, 51, 54, 1, 97, 0, 0, 85, 0, 0, 3, 0, 0, 21, 72, 0, 0, 0, 0, 0, 2, 5, 68, 66, 50, 51, 54, 105,
      0, 0, 4, 0, 0, 29, 93, 0, 0, 0, 0, 0, 2, 5, 68, 66, 50, 51, 54, 125, 0, 0, 5, 0, 0, 31, 99, 0, 0, 0, 0, 0, 2, 5, 68, 66,
      50, 51, 54, 145, 0, 0, 6, 510, 0, 9, 143, 0, 0, 2, 2, 0, 2, 5, 68, 66, 50, 51, 54, 1, 3, 0, 0, 1, 97, 0, 0, 173, 0, 0, 6,
      0, 0, 13, 146, 0, 0, 23, 0, 0, 2, 5, 68, 66, 50, 51, 54, 2, 3, 0, 0, 2, 97, 0, 0, 2, 97, 0, 0, 2, 97, 0, 0, 2, 97, 0, 0,
      2, 3, 0, 0, 2, 97, 0, 0, 2, 97, 0, 0, 2, 97, 0, 0, 2, 97, 0, 0, 2, 3, 0, 0, 2, 97, 0, 0, 2, 97, 0, 0, 2, 97, 0, 0, 2, 97,
      0, 0, 2, 97, 0, 0, 2, 97, 0, 0, 2, 3, 0, 0, 2, 3, 0, 0, 2, 3, 0, 0, 2, 3, 0, 0, 2, 3, 0, 0, 2, 97, 0, 0, 285, 0, 0, 6, 0,
      0, 15, 223, 0, 0, 0, 0, 0, 2, 5, 68, 66, 50, 51, 54, 305, 0, 0, 7, 479, 0, 9, 264, 0, 0, 1, 1, 0, 2, 5, 68, 66, 50, 51,
      54, 1, 3, 0, 0, 329, 0, 0, 7, 0, 0, 13, 267, 0, 0, 23, 0, 0, 2, 5, 68, 66, 50, 51, 54, 2, 3, 0, 0, 2, 97, 0, 0, 2, 97, 0,
      0, 2, 97, 0, 0, 2, 97, 0, 0, 2, 3, 0, 0, 2, 97, 0, 0, 2, 97, 0, 0, 2, 97, 0, 0, 2, 97, 0, 0, 2, 3, 0, 0, 2, 97, 0, 0, 2,
      97, 0, 0, 2, 97, 0, 0, 2, 97, 0, 0, 2, 97, 0, 0, 2, 97, 0, 0, 2, 3, 0, 0, 2, 3, 0, 0, 2, 3, 0, 0, 2, 3, 0, 0, 2, 3, 0, 0,
      2, 9, 0, 0, 441, 0, 0, 7, 0, 0, 15, 316, 0, 0, 0, 0, 0, 2, 5, 68, 66, 50, 51, 54]"

text \<open>
  A descriptor starts with its own index, has the length of the query in its fifth place, the number of its variables in its eleventh and
  after twenty places four numbers for each variable, of which the first is 1 for input and 2 for
  output and the second the code of the type.
\<close>

definition descriptor_vars :: "nat \<Rightarrow> int list" where
  "descriptor_vars off = map (\<lambda>k. sqlcud0 ! (off + 20 + 4 * k + 1)) [0 ..< nat (sqlcud0 ! (off + 10))]"

end
