(* ===== verification/Db_Facts.thy ===== *)
theory Db_Facts
  imports Db_Process Schedule_Reload
begin

text \<open>
  What the database part does: the statements that end up committed, the tasks after an update, and the scheduler's list after
  its periodic look at the database.
\<close>

section \<open>Transactions\<close>

text \<open>
  The meaning of a sequence of calls by the rules of SQL transactions: the statement prepared last, the statements executed since
  the last commit or rollback, and the committed ones. A call that failed changes nothing.
\<close>

record transaction =
  prepared :: "cstring option"
  pending :: "cstring list"
  saved :: "cstring list"

fun effect_of :: "db_call \<times> int \<Rightarrow> transaction \<Rightarrow> transaction" where
  "effect_of (c, r) t =
     (if r \<noteq> 0 then t
      else case c of
             DbConnect _ _ _ \<Rightarrow> t\<lparr>prepared := None, pending := []\<rparr>
           | DbRelease \<Rightarrow> t\<lparr>prepared := None, pending := [], saved := saved t @ pending t\<rparr>
           | DbPrepare s \<Rightarrow> t\<lparr>prepared := Some s\<rparr>
           | DbExecute \<Rightarrow> (case prepared t of None \<Rightarrow> t | Some s \<Rightarrow> t\<lparr>pending := pending t @ [s]\<rparr>)
           | DbCommitWork \<Rightarrow> t\<lparr>pending := [], saved := saved t @ pending t\<rparr>
           | DbRollbackWork \<Rightarrow> t\<lparr>pending := []\<rparr>)"

definition transaction_of :: "db \<Rightarrow> transaction" where
  "transaction_of d = fold effect_of (db_calls d) \<lparr>prepared = None, pending = [], saved = []\<rparr>"

lemma transaction_sql [simp]:
  "transaction_of (sql c d) = effect_of (c, sqlcode (sql c d)) (transaction_of d)"
  by (simp add: transaction_of_def sql_def Let_def)

lemma sqlcode_sql: "sqlcode (sql c d) = (case db_codes d of [] \<Rightarrow> 0 | r # _ \<Rightarrow> r)" "db_codes (sql c d) = tl (db_codes d)"
  by (simp_all add: sql_def Let_def)

definition answers_ok :: "db \<Rightarrow> bool" where
  "answers_ok d \<longleftrightarrow> (\<forall>r \<in> set (db_codes d). r = 0)"

lemma answers_ok_sql [simp]: "answers_ok d \<Longrightarrow> sqlcode (sql c d) = 0" "answers_ok d \<Longrightarrow> answers_ok (sql c d)"
  by (cases "db_codes d"; simp add: answers_ok_def sqlcode_sql)+

lemma execute_ok:
  assumes "answers_ok d" and "fits 512 s"
  shows "\<exists>d'. ExecuteSql ini s b d = Some (db_ok, d') \<and> answers_ok d' \<and>
    saved (transaction_of d') @ pending (transaction_of d') = saved (transaction_of d) @ pending (transaction_of d) @ [s]"
  using assms by (auto simp: ExecuteSql_def Let_def Commit_def CheckSqlResult_def)

lemma writer_saves:
  "answers_ok d \<Longrightarrow> list_all (fits 512) qs \<Longrightarrow>
   \<exists>d'. db_writer ini n qs d = Some d' \<and> pending (transaction_of d') = [] \<and>
     saved (transaction_of d') = saved (transaction_of d) @ pending (transaction_of d) @ qs"
proof (induction qs arbitrary: n d)
  case Nil
  then show ?case by (simp add: Commit_def disconnect_oracle_def Let_def)
next
  case (Cons q qs)
  obtain d1 where d1: "ExecuteSql ini q (Suc n mod 20 = 0) d = Some (db_ok, d1)" "answers_ok d1"
    "saved (transaction_of d1) @ pending (transaction_of d1) = saved (transaction_of d) @ pending (transaction_of d) @ [q]"
    using execute_ok [of d q ini "Suc n mod 20 = 0"] Cons.prems by auto
  obtain d' where d': "db_writer ini (Suc n) qs d1 = Some d'" "pending (transaction_of d') = []"
    "saved (transaction_of d') = saved (transaction_of d1) @ pending (transaction_of d1) @ qs"
    using Cons.IH [OF d1(2)] Cons.prems(2) by auto
  have "saved (transaction_of d') = saved (transaction_of d) @ pending (transaction_of d) @ q # qs"
    using d'(3) d1(3) by (metis append.assoc append_Cons append_Nil)
  then show ?case using d1(1) d' by simp
qed

text \<open>
  The writer process saves every statement. When the database accepts every call, all statements the
  process receives are committed by the time it ends, in their order, however the commits fall.
\<close>

theorem db_writer_saves_all:
  assumes "list_all (fits 512) qs"
  shows "\<exists>d'. db_writer ini 0 qs db_start = Some d' \<and> saved (transaction_of d') = qs \<and> pending (transaction_of d') = []"
  using writer_saves [of db_start qs ini 0] assms by (auto simp: answers_ok_def db_start_def transaction_of_def)

theorem db_writer_saves_all_witness:
  "\<exists>d'. db_writer None 0 [''insert 1'', ''insert 2''] db_start = Some d' \<and> saved (transaction_of d') = [''insert 1'', ''insert 2'']"
  using db_writer_saves_all [of "[''insert 1'', ''insert 2'']" None] by (auto simp: fits_def)

text \<open>
  C39. A failing statement is reported as done and undoes the others. When a statement is refused and the
  rollback after it succeeds, \<open>ExecuteSql\<close> returns \<open>db_ok\<close>, for it looks at the code of the rollback;
  and all statements executed since the last commit, up to 19 that had been accepted, are gone.
\<close>

theorem failed_statement_loses_batch:
  assumes "db_codes d = 0 # c # 0 # cs" and "c \<noteq> 0" and "fits 512 s"
  shows "\<exists>d'. ExecuteSql ini s b d = Some (db_ok, d') \<and> pending (transaction_of d') = [] \<and> saved (transaction_of d') = saved (transaction_of d)"
  using assms by (simp add: ExecuteSql_def Let_def Rollback_def CheckSqlResult_def sqlcode_sql)

theorem failed_statement_loses_batch_witness:
  "\<exists>d1 d2. ExecuteSql None ''insert 1'' False (db_start\<lparr>db_codes := [0, 0, 0, -1, 0]\<rparr>) = Some (db_ok, d1) \<and>
     pending (transaction_of d1) = [''insert 1''] \<and>
     ExecuteSql None ''insert 1'' False d1 = Some (db_ok, d2) \<and> pending (transaction_of d2) = [] \<and> saved (transaction_of d2) = []"
proof -
  let ?d = "db_start\<lparr>db_codes := [0, 0, 0, -1, 0]\<rparr>"
  define d1 where "d1 = sql DbExecute (sql (DbPrepare ''insert 1'') ?d)"
  have 1: "ExecuteSql None ''insert 1'' False ?d = Some (db_ok, d1)"
    by (simp add: ExecuteSql_def fits_def Let_def d1_def sqlcode_sql CheckSqlResult_def)
  have c: "db_codes d1 = [0, -1, 0]" and t: "saved (transaction_of d1) = []" "pending (transaction_of d1) = [''insert 1'']"
    by (simp_all add: d1_def sqlcode_sql transaction_of_def db_start_def sql_def)
  obtain d2 where "ExecuteSql None ''insert 1'' False d1 = Some (db_ok, d2)" "pending (transaction_of d2) = []"
    "saved (transaction_of d2) = saved (transaction_of d1)"
    using failed_statement_loses_batch [of d1 "-1" "[]" "''insert 1''" None False] c by (auto simp: fits_def)
  then show ?thesis using 1 t by auto
qed

section \<open>The task list after an update\<close>

abbreviation (input) task_id :: "TASK_ITEM \<Rightarrow> int" where
  "task_id t \<equiv> sch_id (sch_item t)"

definition task_ids :: "TASK_ITEM list \<Rightarrow> int list" where
  "task_ids ts = map (\<lambda>t. sch_id (sch_item t)) ts"

lemma replace_task_result:
  "replace_task t ts = (if task_id t \<in> set (task_ids ts) then Some (let (us, vs) = (takeWhile (\<lambda>u. task_id u \<noteq> task_id t) ts, dropWhile (\<lambda>u. task_id u \<noteq> task_id t) ts) in us @ t # tl vs) else None)"
  by (induction ts) (auto simp: task_ids_def)

lemma replace_task_ids: "replace_task t ts = Some us \<Longrightarrow> task_ids us = task_ids ts"
  by (induction ts arbitrary: us) (auto simp: task_ids_def split: if_splits)

lemma replace_task_find:
  "replace_task t ts = Some us \<Longrightarrow> get_task_item_by_id us i = (if i = task_id t then Some t else get_task_item_by_id ts i)"
  by (induction ts arbitrary: us) (auto split: if_splits)

lemma replace_task_None: "replace_task t ts = None \<longleftrightarrow> task_id t \<notin> set (task_ids ts)"
  by (induction ts) (auto simp: task_ids_def)

lemma task_find_None: "get_task_item_by_id ts i = None \<longleftrightarrow> i \<notin> set (task_ids ts)"
  by (induction ts) (auto simp: task_ids_def)

lemma task_find_append: "get_task_item_by_id (ts @ us) i = (case get_task_item_by_id ts i of None \<Rightarrow> get_task_item_by_id us i | Some t \<Rightarrow> Some t)"
  by (induction ts) auto

lemma clear_zero_id: "0 \<notin> set (task_ids ts) \<Longrightarrow> clear_zero ts = ts"
  by (induction ts) (auto simp: task_ids_def)

lemma row_task_id: "row_task r = Some t \<Longrightarrow> task_id t = row_id r \<and> ftp_flag t = row_flag r"
  by (auto simp: row_task_def Let_def split: if_splits)

text \<open>The abstract update: a map from ids to tasks.\<close>

definition put_row :: "cfg_row \<Rightarrow> (int \<Rightarrow> TASK_ITEM option) \<Rightarrow> int \<Rightarrow> TASK_ITEM option" where
  "put_row r m = (if row_id r = 0 then m else m(row_id r := row_task r))"

lemma update_row_refines:
  assumes "update_row r ts = Some us" and "distinct (task_ids ts)" and "0 \<notin> set (task_ids ts)"
  shows "get_task_item_by_id us = put_row r (get_task_item_by_id ts) \<and> distinct (task_ids us) \<and> 0 \<notin> set (task_ids us) \<and>
    (\<exists>new. task_ids us = task_ids ts @ new)"
proof (cases "row_id r = 0")
  case True
  then show ?thesis using assms by (auto simp: update_row_def put_row_def clear_zero_id)
next
  case False
  then obtain t where t: "row_task r = Some t" using assms(1) by (auto simp: update_row_def split: bind_splits)
  note ti = row_task_id [OF t]
  show ?thesis
  proof (cases "replace_task t ts")
    case (Some us')
    then have "us' = us" using assms(1) False t by (simp add: update_row_def)
    then show ?thesis
      using Some False t ti replace_task_ids [OF Some] replace_task_find [OF Some] assms(2,3) by (auto simp: put_row_def fun_eq_iff)
  next
    case None
    then have us: "us = ts @ [t]" using assms(1) False t by (auto simp: update_row_def split: if_splits)
    have "get_task_item_by_id us = put_row r (get_task_item_by_id ts)"
      using None False t ti task_find_None [of ts "row_id r"]
      by (auto simp: us put_row_def fun_eq_iff task_find_append replace_task_None split: option.splits)
    then show ?thesis using None False ti assms(2,3) by (auto simp: us replace_task_None task_ids_def)
  qed
qed

lemma update_rows_refine:
  "fold_option update_row rs ts = Some us \<Longrightarrow> distinct (task_ids ts) \<Longrightarrow> 0 \<notin> set (task_ids ts) \<Longrightarrow>
   get_task_item_by_id us = fold put_row rs (get_task_item_by_id ts) \<and> distinct (task_ids us) \<and> 0 \<notin> set (task_ids us) \<and>
   (\<exists>new. task_ids us = task_ids ts @ new)"
proof (induction rs arbitrary: ts)
  case (Cons r rs)
  then obtain ts1 where ts1: "update_row r ts = Some ts1" "fold_option update_row rs ts1 = Some us" by (auto split: option.splits)
  note u = update_row_refines [OF ts1(1) Cons.prems(2,3)]
  show ?case using Cons.IH [OF ts1(2)] u by auto
qed simp

text \<open>
  C19. The update of the task list refines the update of a map. After the rows of the table have been
  read, the task with an id is the one of the last row with that id, or the old one when there is
  none; no id occurs twice, and the old tasks keep their places.
\<close>

theorem db_update_refines_map:
  assumes "create_task_item_list_by_db_updated fs ts time = Some dl" and "distinct (task_ids ts)" and "0 \<notin> set (task_ids ts)"
  shows "get_task_item_by_id (dl_tasks dl) = fold put_row (fetch_rows fs) (get_task_item_by_id ts) \<and> distinct (task_ids (dl_tasks dl)) \<and>
    (\<exists>new. task_ids (dl_tasks dl) = task_ids ts @ new)"
  using assms(1) update_rows_refine [OF _ assms(2,3)]
  by (auto simp: create_task_item_list_by_db_updated_def Let_def split: option.splits)

text \<open>A list with one task, and rows that change it and add another.\<close>

definition sample_row :: "int \<Rightarrow> cstring \<Rightarrow> cfg_row" where
  "sample_row i hour = \<lparr>row_id = i, row_host = ''u:p:h:21'', row_path = ''/in'', row_local = ''/out'', row_pattern = ''^.*'', row_direction = 0,
     row_month = ''*'', row_day = ''*'', row_hour = hour, row_min = ''* '', row_del_src = 0, row_sh_file = ''NO'', row_mask = ''NULL'',
     row_cp_1 = ''NULL'', row_cp_2 = ''NULL'', row_cp_3 = ''NULL'', row_cp_4 = ''NULL'', row_escape = 100, row_cdr = 0, row_use_tmp = 1,
     row_copy = 0, row_flag = 1, row_time = ''20100101000000''\<rparr>"

definition sample_task :: "int \<Rightarrow> cstring \<Rightarrow> TASK_ITEM" where
  "sample_task i hour = \<lparr>sch_item = \<lparr>sch_id = i, sch_month = ''*'', sch_day = ''*'', sch_hour = hour, sch_min = ''*''\<rparr>,
     ftp_host = ''u:p:h:21'', ftp_path = ''/in'', local_path = ''/out'', task_file = ''^.*'', direction = 0, del_src = 0, generate_db_cdr = 0,
     file_ctime_escape = 100, use_tmp = 1, copy_flag = 0, sh_file = ''NO'', son_dir_mask = ''NULL'', cp_dir_1 = ''NULL'', cp_dir_2 = ''NULL'',
     cp_dir_3 = ''NULL'', cp_dir_4 = ''NULL'', ftp_flag = 1\<rparr>"

lemma sample_row_task: "row_task (sample_row i ''1'') = Some (sample_task i ''1'')" "row_task (sample_row i ''2'') = Some (sample_task i ''2'')"
  by (simp_all add: row_task_def sample_row_def sample_task_def trim_def ltrim_def rtrim_def is_blank_def fits_def Let_def)

lemma sample_ids [simp]: "sch_id (sch_item (sample_task i h)) = i" "row_id (sample_row i h) = i" "row_flag (sample_row i h) = 1" "row_time (sample_row i h) = ''20100101000000''"
  by (simp_all add: sample_task_def sample_row_def)

definition sample_fetches :: "(int \<times> cfg_row) list" where
  "sample_fetches = [(0, sample_row 7 ''2''), (0, sample_row 8 ''1''), (1403, sample_row 0 [])]"

lemma sample_update:
  "create_task_item_list_by_db_updated sample_fetches [sample_task 7 ''1''] [] =
     Some \<lparr>dl_tasks = [sample_task 7 ''2'', sample_task 8 ''1''], dl_time = ''20100101000000'', dl_count = 2\<rparr>"
  by (simp add: create_task_item_list_by_db_updated_def sample_fetches_def update_row_def sample_row_task)

theorem db_update_refines_map_witness:
  "get_task_item_by_id [sample_task 7 ''2'', sample_task 8 ''1''] 7 =
     fold put_row (fetch_rows sample_fetches) (get_task_item_by_id [sample_task 7 ''1'']) 7"
  using db_update_refines_map [OF sample_update] by (simp add: task_ids_def)

section \<open>The scheduler's look at the database\<close>

lemma entry_of_update_one:
  assumes "distinct (ids l)"
  shows "entry_of (update_one t l) = (entry_of l)(task_id t :=
    (case entry_of l (task_id t) of
       Some e \<Rightarrow> if ftp_flag t = 0 then None else Some (e\<lparr>se_item := sch_item t\<rparr>)
     | None \<Rightarrow> if ftp_flag t = 1 then Some (new_entry (sch_item t)) else None))"
proof (cases "entry_of l (task_id t)")
  case None
  then show ?thesis using entry_of_None [of l "task_id t"]
    by (auto simp: update_one_def entry_of_add ids_def fun_eq_iff)
next
  case (Some e)
  then have "task_id t \<in> set (map se_id l)" using entry_of_None [of l "task_id t"] by (auto simp: ids_def)
  then show ?thesis using Some assms by (auto simp: update_one_def entry_of_del entry_of_set_item)
qed

lemma update_item_entries:
  "distinct (ids l) \<Longrightarrow> distinct (task_ids ts) \<Longrightarrow>
   entry_of (sch_internal_update_item ts l) i =
     (case get_task_item_by_id ts i of
        None \<Rightarrow> entry_of l i
      | Some t \<Rightarrow> (case entry_of l i of
          Some e \<Rightarrow> if ftp_flag t = 0 then None else Some (e\<lparr>se_item := sch_item t\<rparr>)
        | None \<Rightarrow> if ftp_flag t = 1 then Some (new_entry (sch_item t)) else None))"
proof (induction ts arbitrary: l)
  case Nil
  then show ?case by (simp add: sch_internal_update_item_def)
next
  case (Cons t ts)
  have d: "distinct (ids (update_one t l))" using Cons.prems(1) by (simp add: update_one_def distinct_ops)
  have IH: "entry_of (sch_internal_update_item (t # ts) l) i =
     (case get_task_item_by_id ts i of
        None \<Rightarrow> entry_of (update_one t l) i
      | Some t' \<Rightarrow> (case entry_of (update_one t l) i of
          Some e \<Rightarrow> if ftp_flag t' = 0 then None else Some (e\<lparr>se_item := sch_item t'\<rparr>)
        | None \<Rightarrow> if ftp_flag t' = 1 then Some (new_entry (sch_item t')) else None))"
    using Cons.IH [OF d] Cons.prems(2) by (simp add: sch_internal_update_item_def task_ids_def)
  show ?case
  proof (cases "i = task_id t")
    case True
    then have "get_task_item_by_id ts i = None" using Cons.prems(2) by (simp add: task_find_None task_ids_def)
    then show ?thesis using IH True by (simp add: entry_of_update_one [OF Cons.prems(1)])
  next
    case False
    then have e: "entry_of (update_one t l) i = entry_of l i" by (simp add: entry_of_update_one [OF Cons.prems(1)])
    show ?thesis using IH [unfolded e] False by simp
  qed
qed

lemma fold_put_row_last:
  assumes "row_id r \<noteq> 0" and "row_id r \<notin> row_id ` set rs'"
  shows "fold put_row (rs @ r # rs') m (row_id r) = row_task r"
proof -
  have "fold put_row rs' m (row_id r) = m (row_id r)" for m
    using assms(2) by (induction rs' arbitrary: m) (auto simp: put_row_def)
  then show ?thesis using assms(1) by (simp add: put_row_def)
qed

text \<open>
  C5. The periodic look at the database brings the scheduler in step with it. When the time for it has come,
  the last row of every task fetched decides: the scheduler has the task with the row's schedule if its flag is 1, with the status
  and the process it had before if it was in the list, and does not have it if the flag is 0.
\<close>

theorem periodic_reload_syncs:
  assumes "create_task_item_list_by_db_updated fs ts time = Some dl" and "distinct (task_ids ts)" and "0 \<notin> set (task_ids ts)"
    and "fetch_rows fs = rs @ r # rs'" and "row_id r \<noteq> 0" and "row_id r \<notin> row_id ` set rs'"
    and "le_changed env = dl_tasks dl" and "le_count env = int (dl_count dl)"
    and "le_t1 env - sc_reload s \<ge> le_reload_interval env" and "distinct (ids (sc_list s))"
  shows "\<exists>t. row_task r = Some t \<and>
    entry_of (sc_list (main_reload env s)) (row_id r) =
      (case entry_of (sc_list s) (row_id r) of
         Some e \<Rightarrow> if row_flag r = 0 then None else Some (e\<lparr>se_item := sch_item t\<rparr>)
       | None \<Rightarrow> if row_flag r = 1 then Some (new_entry (sch_item t)) else None)"
proof -
  have u: "get_task_item_by_id (dl_tasks dl) = fold put_row (fetch_rows fs) (get_task_item_by_id ts)" "distinct (task_ids (dl_tasks dl))"
    using assms(1) update_rows_refine [OF _ assms(2,3)]
    by (auto simp: create_task_item_list_by_db_updated_def Let_def split: option.splits)
  have f: "get_task_item_by_id (dl_tasks dl) (row_id r) = row_task r"
    unfolding u(1) assms(4) by (rule fold_put_row_last [OF assms(5,6)])
  have cnt: "0 < dl_count dl"
    using assms(1,4,5) by (auto simp: create_task_item_list_by_db_updated_def Let_def split: option.splits)
  obtain us where us: "fold_option update_row (rs @ r # rs') ts = Some us"
    using assms(1,4) by (auto simp: create_task_item_list_by_db_updated_def Let_def split: option.splits)
  then obtain t where t: "row_task r = Some t"
    using assms(5) by (auto simp: fold_option_append update_row_def split: option.splits bind_splits)
  have "sc_list (main_reload env s) = sch_internal_update_item (dl_tasks dl) (sc_list s)"
    using assms(7-9) cnt by (simp add: main_reload_def)
  then show ?thesis
    using update_item_entries [OF assms(10) u(2), of "row_id r"] f t row_task_id [OF t] by (auto split: option.splits)
qed

definition sample_env :: loop_env where
  "sample_env = \<lparr>le_t1 = 100, le_t2 = 100, le_t3 = 100, le_t4 = 100, le_interval = 30, le_reload_interval = 30, le_count = 2,
     le_changed = [sample_task 7 ''2'', sample_task 8 ''1''], le_tasks = [], le_err = False, le_fork = (\<lambda>i. i)\<rparr>"

theorem periodic_reload_syncs_witness:
  "entry_of (sc_list (main_reload sample_env sched_init)) 8 = Some (new_entry (sch_item (sample_task 8 ''1'')))"
proof -
  have "\<exists>t. row_task (sample_row 8 ''1'') = Some t \<and>
    entry_of (sc_list (main_reload sample_env sched_init)) (row_id (sample_row 8 ''1'')) =
      (case entry_of (sc_list sched_init) (row_id (sample_row 8 ''1'')) of
         Some e \<Rightarrow> if row_flag (sample_row 8 ''1'') = 0 then None else Some (e\<lparr>se_item := sch_item t\<rparr>)
       | None \<Rightarrow> if row_flag (sample_row 8 ''1'') = 1 then Some (new_entry (sch_item t)) else None)"
    by (rule periodic_reload_syncs [OF sample_update, of "[sample_row 7 ''2'']" _ "[]"])
      (simp_all add: sample_fetches_def sample_env_def sched_init_def task_ids_def)
  then show ?thesis by (simp add: sample_row_task sched_init_def)
qed

end
