(* ===== verification/Db_Query.thy ===== *)
theory Db_Query
  imports Db_Statement Db_Facts
begin

text \<open>
  From the configuration table to the tasks: the columns the two queries select, the rows they take, the fetches into
  the host variables, and the tasks that come of the rows. The table, its clock and the database's conversions are arguments.
\<close>

section \<open>The queries\<close>

text \<open>A row gives every column a value; a date is a number here.\<close>

datatype db_value = Null | Number int | Chars cstring

type_synonym table_row = "string \<Rightarrow> db_value"

datatype sql_expr = Column string | Nvl string cstring | Nvl_number string int | Sysdate_text

definition select_list :: "sql_expr list" where
  "select_list =
    [Column ''ftpparm_id'', Column ''ftp_host'', Column ''ftp_path'', Column ''local_path'', Nvl ''file_pattern'' ''^.*'',
     Column ''direction'', Nvl ''month'' ''*'', Nvl ''day'' ''*'', Nvl ''hour'' ''*'', Nvl ''min'' ''*'', Column ''del_src'',
     Nvl ''sh_file'' ''NO'', Nvl ''son_dir_mask'' ''NULL'', Nvl ''cp_dir_1'' ''NULL'', Nvl ''cp_dir_2'' ''NULL'',
     Nvl ''cp_dir_3'' ''NULL'', Nvl ''cp_dir_4'' ''NULL'', Column ''file_modify_time_escape'', Column ''generate_db_cdr'',
     Column ''use_tmp'', Nvl_number ''copy_flag'' 0, Column ''ftp_flag'', Sysdate_text]"

fun expr_value :: "cstring \<Rightarrow> table_row \<Rightarrow> sql_expr \<Rightarrow> db_value" where
  "expr_value now row (Column c) = row c"
| "expr_value now row (Nvl c d) = (if row c = Null then Chars d else row c)"
| "expr_value now row (Nvl_number c d) = (if row c = Null then Number d else row c)"
| "expr_value now row Sysdate_text = Chars now"

text \<open>The condition of each query. A comparison with a missing value is not true; \<open>to_date\<close> is the database's.\<close>

definition where_all :: "int \<Rightarrow> table_row \<Rightarrow> bool" where
  "where_all prg_id row = (row ''program_id'' = Number prg_id \<and> row ''ftp_flag'' = Number 1)"

definition where_updated :: "(cstring \<Rightarrow> int option) \<Rightarrow> int \<Rightarrow> cstring \<Rightarrow> table_row \<Rightarrow> bool" where
  "where_updated to_date prg_id db_time row =
     (row ''program_id'' = Number prg_id \<and>
      (case (row ''opt_time'', to_date db_time) of (Number t, Some d) \<Rightarrow> d \<le> t | _ \<Rightarrow> False))"

text \<open>The texts handed to the database are these queries.\<close>

fun expr_text :: "sql_expr \<Rightarrow> string" where
  "expr_text (Column c) = c"
| "expr_text (Nvl c d) = ''Nvl('' @ c @ '','' @ [CHR 0x27] @ d @ [CHR 0x27] @ '')''"
| "expr_text (Nvl_number c d) = ''nvl('' @ c @ '','' @ show_int d @ '')''"
| "expr_text Sysdate_text = ''to_char(sysdate,'YYYYMMDDHH24MISS')''"

fun separated :: "string \<Rightarrow> string list \<Rightarrow> string" where
  "separated s [] = []"
| "separated s [x] = x"
| "separated s (x # y # xs) = x @ s @ separated s (y # xs)"

definition query_text :: "string \<Rightarrow> string" where
  "query_text cond = ''select '' @ separated '' ,'' (map expr_text select_list) @ ''  from tb_cfg_filecollection where ('' @ cond @
     '')           ''"

lemma query_texts:
  "sq0006 = query_text ''Program_id=:b0 and opt_time>=to_date(:b1,'YYYYMMDDHH24MISS')''"
  "sq0007 = query_text ''Program_id=:b0 and Ftp_Flag=1''"
  by (simp_all add: sq0006_def sq0007_def query_text_def select_list_def show_int_def show_nat.simps digit_char_def char_of_def bit_simps)

section \<open>The fetch\<close>

text \<open>
  The database converts a value for a variable of a type and a size, or answers with a code.
  What the variables hold, here as the characters before the terminator.
\<close>

datatype host_value = HInt int | HChars cstring

type_synonym host_store = "string \<Rightarrow> host_value option"
type_synonym conversion = "int \<Rightarrow> nat \<Rightarrow> db_value \<Rightarrow> int + host_value"

fun fetch_into :: "conversion \<Rightarrow> bound_var list \<Rightarrow> int list \<Rightarrow> db_value list \<Rightarrow> host_store \<Rightarrow> int + host_store" where
  "fetch_into conv (b # bs) (c # cs) (v # vs) st =
     (case conv c (sqhstl b) v of
        Inl code \<Rightarrow> Inl code
      | Inr h \<Rightarrow> fetch_into conv bs cs vs (st(sqhstv b \<mapsto> h)))"
| "fetch_into conv _ _ _ st = Inr st"

definition fetch_block :: "conversion \<Rightarrow> sqlexd \<Rightarrow> db_value list \<Rightarrow> host_store \<Rightarrow> int + host_store" where
  "fetch_block conv b vs st = fetch_into conv (sql_vars b) (descriptor_vars (sql_offset b)) vs st"

text \<open>The variables as the code after the fetch reads them.\<close>

definition int_var :: "host_store \<Rightarrow> string \<Rightarrow> int" where
  "int_var st v = (case st v of Some (HInt i) \<Rightarrow> i | _ \<Rightarrow> 0)"

definition text_var :: "host_store \<Rightarrow> string \<Rightarrow> cstring" where
  "text_var st v = (case st v of Some (HChars s) \<Rightarrow> s | _ \<Rightarrow> [])"

definition row_of :: "host_store \<Rightarrow> cfg_row" where
  "row_of st = \<lparr>row_id = int_var st ''ftpparm_id'', row_host = text_var st ''ftp_host'', row_path = text_var st ''ftp_path'',
     row_local = text_var st ''local_path'', row_pattern = text_var st ''file_pattern'', row_direction = int_var st ''direction'',
     row_month = text_var st ''month'', row_day = text_var st ''day'', row_hour = text_var st ''hour'', row_min = text_var st ''min'',
     row_del_src = int_var st ''del_src'', row_sh_file = text_var st ''sh_file'', row_mask = text_var st ''son_dir_mask'',
     row_cp_1 = text_var st ''cp_dir_1'', row_cp_2 = text_var st ''cp_dir_2'', row_cp_3 = text_var st ''cp_dir_3'',
     row_cp_4 = text_var st ''cp_dir_4'', row_escape = int_var st ''file_modify_time_escape'', row_cdr = int_var st ''generate_db_cdr'',
     row_use_tmp = int_var st ''use_tmp'', row_copy = int_var st ''copy_flag'', row_flag = int_var st ''ftp_flag'',
     row_time = text_var st ''db_time''\<rparr>"

text \<open>The answers to the fetches of a cursor: a row each, until one fails or the end, code 1403.\<close>

fun fetches :: "conversion \<Rightarrow> sqlexd \<Rightarrow> cstring \<Rightarrow> host_store \<Rightarrow> table_row list \<Rightarrow> (int \<times> cfg_row) list" where
  "fetches conv b now st [] = [(1403, row_of st)]"
| "fetches conv b now st (row # rows) =
     (case fetch_block conv b (map (expr_value now row) select_list) st of
        Inl code \<Rightarrow> [(code, row_of st)]
      | Inr st' \<Rightarrow> (0, row_of st') # fetches conv b now st' rows)"

text \<open>The two functions with their cursors, from the table to the task list.\<close>

definition load_tasks :: "conversion \<Rightarrow> int \<Rightarrow> cstring \<Rightarrow> table_row list \<Rightarrow> TASK_ITEM list \<Rightarrow> cstring \<Rightarrow> db_list option" where
  "load_tasks conv program_id now table task_list time =
     create_task_item_list_by_db (fetches conv fetch_all now Map.empty (filter (where_all program_id) table)) task_list time"

definition load_updates ::
  "conversion \<Rightarrow> (cstring \<Rightarrow> int option) \<Rightarrow> int \<Rightarrow> cstring \<Rightarrow> table_row list \<Rightarrow> TASK_ITEM list \<Rightarrow> cstring \<Rightarrow> db_list option" where
  "load_updates conv to_date program_id now table task_list time =
     create_task_item_list_by_db_updated
       (fetches conv fetch_updated now Map.empty (filter (where_updated to_date program_id time) table)) task_list time"

section \<open>The blocks fit the declarations\<close>

fun type_code :: "host_type \<Rightarrow> int" where
  "type_code Int_var = 3"
| "type_code (Char_var n) = 97"
| "type_code (Varchar_var n) = 9"

definition var_ok :: "(string \<times> host_type) list \<Rightarrow> bound_var \<Rightarrow> int \<Rightarrow> bool" where
  "var_ok ds b c = (case map_of ds (sqhstv b) of None \<Rightarrow> False | Some t \<Rightarrow> c = type_code t \<and> sqhstl b = sizeof_type t)"

text \<open>The connection's descriptor has one variable more than the block binds.\<close>

definition block_ok :: "(string \<times> host_type) list \<Rightarrow> sqlexd \<Rightarrow> bool" where
  "block_ok ds b =
     (sqlcud0 ! sql_offset b = int (sql_offset b) \<and> length (sql_vars b) \<le> 23 \<and>
      list_all2 (var_ok ds) (sql_vars b) (take (length (sql_vars b)) (descriptor_vars (sql_offset b))) \<and>
      sqlcud0 ! (sql_offset b + 4) = int (length (case stmt b of None \<Rightarrow> [] | Some s \<Rightarrow> s)))"

end
