(* ===== verification/Db_Load.thy ===== *)
theory Db_Load
  imports Db_Query
begin

text \<open>
  What the statements and the loading from the table do: every block fits its declarations and its descriptor,
  the tasks are those of the table's rows, up to the first row with a missing value.
\<close>

section \<open>The blocks\<close>

definition all_blocks :: "((string \<times> host_type) list \<times> sqlexd) list" where
  "all_blocks =
    [(declared_connect, connect_block), ([], release_block), (declared_execute, prepare_block), (declared_execute, execute_block),
     ([], commit_block), ([], rollback_block), (declared_updated, open_updated), (declared_updated, fetch_updated),
     (declared_updated, close_updated), (declared_all, open_all), (declared_all, fetch_all), (declared_all, close_all)]"

lemmas block_defs = connect_block_def release_block_def prepare_block_def execute_block_def commit_block_def rollback_block_def
  open_updated_def fetch_updated_def close_updated_def open_all_def fetch_all_def close_all_def bare_block_def plain_var_def
  updated_source_def updated_action_def updated_flags_def all_source_def all_action_def all_flags_def

lemma blocks_fit: "list_all (\<lambda>(ds, b). block_ok ds b) all_blocks"
  by code_simp

lemma fetch_codes:
  "descriptor_vars (sql_offset fetch_updated) = [3, 97, 97, 97, 97, 3, 97, 97, 97, 97, 3, 97, 97, 97, 97, 97, 97, 3, 3, 3, 3, 3, 97]"
  "descriptor_vars (sql_offset fetch_all) = [3, 97, 97, 97, 97, 3, 97, 97, 97, 97, 3, 97, 97, 97, 97, 97, 97, 3, 3, 3, 3, 3, 9]"
  by code_simp+


section \<open>The database's part\<close>

text \<open>
  The conversions as documented: a missing value for a variable without an indicator is the error ORA-01405, numbers go to
  \<open>int\<close> variables, characters are padded with blanks up to the terminator in a \<open>char\<close> array and copied to a \<open>varchar\<close>; the code of an error is not 0.
\<close>

definition padded :: "nat \<Rightarrow> cstring \<Rightarrow> cstring" where
  "padded n s = s @ replicate (n - 1 - length s) SPC"

definition oracle_conversion :: "conversion \<Rightarrow> bool" where
  "oracle_conversion conv \<longleftrightarrow>
     (\<forall>c n. conv c n Null = Inl (-1405)) \<and> (\<forall>c n v. conv c n v \<noteq> Inl 0) \<and>
     (\<forall>i. -(2 ^ 31) \<le> i \<and> i < 2 ^ 31 \<longrightarrow> conv 3 sizeof_int (Number i) = Inr (HInt i)) \<and>
     (\<forall>n s. length s < n \<longrightarrow> conv 97 n (Chars s) = Inr (HChars (padded n s))) \<and>
     (\<forall>n s. length s + 2 < n \<longrightarrow> conv 9 n (Chars s) = Inr (HChars s))"

lemma oracle_conversionD:
  assumes "oracle_conversion conv"
  shows "conv c n Null = Inl (-1405)" "conv c n v \<noteq> Inl 0"
    and "-(2 ^ 31) \<le> i \<Longrightarrow> i < 2 ^ 31 \<Longrightarrow> conv 3 sizeof_int (Number i) = Inr (HInt i)"
    and "length s < n \<Longrightarrow> conv 97 n (Chars s) = Inr (HChars (padded n s))"
    and "length s + 2 < n \<Longrightarrow> conv 9 n (Chars s) = Inr (HChars s)"
  using assms by (auto simp: oracle_conversion_def)

text \<open>The rows the declarations foresee: a value in every column the query does not default, and values that fit.\<close>

fun int_value :: "db_value \<Rightarrow> bool" where
  "int_value (Number i) = (-(2 ^ 31) \<le> i \<and> i < 2 ^ 31)"
| "int_value _ = False"

fun text_value :: "nat \<Rightarrow> db_value \<Rightarrow> bool" where
  "text_value n (Chars s) = (length s < n)"
| "text_value n _ = False"

definition int_columns :: "string list" where
  "int_columns = [''ftpparm_id'', ''direction'', ''del_src'', ''file_modify_time_escape'', ''generate_db_cdr'', ''use_tmp'', ''ftp_flag'']"

definition text_columns :: "string list" where
  "text_columns = [''ftp_host'', ''ftp_path'', ''local_path'']"

definition default_columns :: "(string \<times> nat \<times> cstring) list" where
  "default_columns = [(''file_pattern'', 128, ''^.*''), (''month'', 16, ''*''), (''day'', 16, ''*''), (''hour'', 16, ''*''), (''min'', 16, ''*''),
     (''sh_file'', 256, ''NO''), (''son_dir_mask'', 256, ''NULL''), (''cp_dir_1'', 256, ''NULL''), (''cp_dir_2'', 256, ''NULL''),
     (''cp_dir_3'', 256, ''NULL''), (''cp_dir_4'', 256, ''NULL'')]"

definition lacks_value :: "table_row \<Rightarrow> bool" where
  "lacks_value row = list_ex (\<lambda>c. row c = Null) (int_columns @ text_columns)"

definition fitting :: "table_row \<Rightarrow> bool" where
  "fitting row =
     (list_all (\<lambda>c. int_value (row c)) int_columns \<and> (row ''copy_flag'' = Null \<or> int_value (row ''copy_flag'')) \<and>
      list_all (\<lambda>c. text_value 256 (row c)) text_columns \<and>
      list_all (\<lambda>(c, n, d). row c = Null \<or> text_value n (row c)) default_columns)"

text \<open>What a row stands for, its values as they are, the defaults of the query where there is none.\<close>

definition number_in :: "table_row \<Rightarrow> string \<Rightarrow> int" where
  "number_in row c = (case row c of Number i \<Rightarrow> i | _ \<Rightarrow> 0)"

definition text_in :: "table_row \<Rightarrow> string \<Rightarrow> cstring \<Rightarrow> cstring" where
  "text_in row c d = (case row c of Chars s \<Rightarrow> s | _ \<Rightarrow> d)"

definition row_meant :: "table_row \<Rightarrow> cfg_row" where
  "row_meant row = \<lparr>row_id = number_in row ''ftpparm_id'', row_host = text_in row ''ftp_host'' [], row_path = text_in row ''ftp_path'' [],
     row_local = text_in row ''local_path'' [], row_pattern = text_in row ''file_pattern'' ''^.*'', row_direction = number_in row ''direction'',
     row_month = text_in row ''month'' ''*'', row_day = text_in row ''day'' ''*'', row_hour = text_in row ''hour'' ''*'',
     row_min = text_in row ''min'' ''*'', row_del_src = number_in row ''del_src'', row_sh_file = text_in row ''sh_file'' ''NO'',
     row_mask = text_in row ''son_dir_mask'' ''NULL'', row_cp_1 = text_in row ''cp_dir_1'' ''NULL'', row_cp_2 = text_in row ''cp_dir_2'' ''NULL'',
     row_cp_3 = text_in row ''cp_dir_3'' ''NULL'', row_cp_4 = text_in row ''cp_dir_4'' ''NULL'',
     row_escape = number_in row ''file_modify_time_escape'', row_cdr = number_in row ''generate_db_cdr'', row_use_tmp = number_in row ''use_tmp'',
     row_copy = number_in row ''copy_flag'', row_flag = number_in row ''ftp_flag'', row_time = []\<rparr>"

definition task_meant :: "table_row \<Rightarrow> TASK_ITEM option" where
  "task_meant row = row_task (row_meant row)"

lemma rtrim_padded: "rtrim (padded n s) = rtrim s"
proof -
  have "rtrim (s @ replicate k SPC) = rtrim s" for k
    by (induction k) (simp_all add: is_blank_def replicate_append_same [symmetric] flip: append_assoc)
  then show ?thesis by (simp add: padded_def)
qed

lemma trim_padded [simp]: "trim (padded n s) d = trim s d"
  by (simp add: trim_def rtrim_padded)

lemma conv_int:
  "oracle_conversion conv \<Longrightarrow> int_value (row c) \<Longrightarrow> conv 3 sizeof_int (row c) = Inr (HInt (number_in row c))"
  by (cases "row c") (simp_all add: oracle_conversionD(3) number_in_def)

lemma conv_text:
  "oracle_conversion conv \<Longrightarrow> text_value n (row c) \<Longrightarrow> conv 97 n (row c) = Inr (HChars (padded n (text_in row c [])))"
  by (cases "row c") (simp_all add: oracle_conversionD(4) text_in_def)

lemma conv_nvl:
  "oracle_conversion conv \<Longrightarrow> row c = Null \<or> text_value n (row c) \<Longrightarrow> length d < n \<Longrightarrow>
   conv 97 n (expr_value now row (Nvl c d)) = Inr (HChars (padded n (text_in row c d)))"
  by (cases "row c") (simp_all add: oracle_conversionD(4) text_in_def)

lemma conv_nvl_number:
  "oracle_conversion conv \<Longrightarrow> row c = Null \<or> int_value (row c) \<Longrightarrow>
   conv 3 sizeof_int (expr_value now row (Nvl_number c 0)) = Inr (HInt (number_in row c))"
  by (cases "row c") (simp_all add: oracle_conversionD(3) number_in_def)

lemmas column_names = int_columns_def text_columns_def default_columns_def

lemma fitting_columns:
  assumes "oracle_conversion conv" and "fitting row"
  shows "c \<in> set int_columns \<Longrightarrow> conv 3 sizeof_int (row c) = Inr (HInt (number_in row c))"
    and "conv 3 sizeof_int (expr_value now row (Nvl_number ''copy_flag'' 0)) = Inr (HInt (number_in row ''copy_flag''))"
    and "c \<in> set text_columns \<Longrightarrow> conv 97 256 (row c) = Inr (HChars (padded 256 (text_in row c [])))"
    and "(c, n, d) \<in> set default_columns \<Longrightarrow> conv 97 n (expr_value now row (Nvl c d)) = Inr (HChars (padded n (text_in row c d)))"
proof -
  note f = assms(2) [unfolded fitting_def list_all_iff]
  show "c \<in> set int_columns \<Longrightarrow> conv 3 sizeof_int (row c) = Inr (HInt (number_in row c))"
    using f by (intro conv_int [OF assms(1)]) blast
  show "conv 3 sizeof_int (expr_value now row (Nvl_number ''copy_flag'' 0)) = Inr (HInt (number_in row ''copy_flag''))"
    using f by (intro conv_nvl_number [OF assms(1)]) blast
  show "c \<in> set text_columns \<Longrightarrow> conv 97 256 (row c) = Inr (HChars (padded 256 (text_in row c [])))"
    using f by (intro conv_text [OF assms(1)]) blast
  show "conv 97 n (expr_value now row (Nvl c d)) = Inr (HChars (padded n (text_in row c d)))" if "(c, n, d) \<in> set default_columns"
    using f that by (intro conv_nvl [OF assms(1)]) (fastforce simp: default_columns_def)+
qed

text \<open>What the variables hold after the fetch.\<close>

definition row_fetched :: "table_row \<Rightarrow> cstring \<Rightarrow> cfg_row" where
  "row_fetched row t = \<lparr>row_id = number_in row ''ftpparm_id'', row_host = padded 256 (text_in row ''ftp_host'' []),
     row_path = padded 256 (text_in row ''ftp_path'' []), row_local = padded 256 (text_in row ''local_path'' []),
     row_pattern = padded 128 (text_in row ''file_pattern'' ''^.*''), row_direction = number_in row ''direction'',
     row_month = padded 16 (text_in row ''month'' ''*''), row_day = padded 16 (text_in row ''day'' ''*''),
     row_hour = padded 16 (text_in row ''hour'' ''*''), row_min = padded 16 (text_in row ''min'' ''*''), row_del_src = number_in row ''del_src'',
     row_sh_file = padded 256 (text_in row ''sh_file'' ''NO''), row_mask = padded 256 (text_in row ''son_dir_mask'' ''NULL''),
     row_cp_1 = padded 256 (text_in row ''cp_dir_1'' ''NULL''), row_cp_2 = padded 256 (text_in row ''cp_dir_2'' ''NULL''),
     row_cp_3 = padded 256 (text_in row ''cp_dir_3'' ''NULL''), row_cp_4 = padded 256 (text_in row ''cp_dir_4'' ''NULL''),
     row_escape = number_in row ''file_modify_time_escape'', row_cdr = number_in row ''generate_db_cdr'', row_use_tmp = number_in row ''use_tmp'',
     row_copy = number_in row ''copy_flag'', row_flag = number_in row ''ftp_flag'', row_time = t\<rparr>"

lemma row_task_fetched: "row_task (row_fetched row t) = task_meant row"
  by (simp only: row_task_def row_fetched_def task_meant_def row_meant_def cfg_row.simps trim_padded)

lemma fetch_fitting:
  assumes "oracle_conversion conv" and "fitting row" and "length now < 17"
  shows "\<exists>st'. fetch_block conv fetch_all (map (expr_value now row) select_list) st = Inr st' \<and> row_of st' = row_fetched row now" (is ?all)
    and "\<exists>st'. fetch_block conv fetch_updated (map (expr_value now row) select_list) st = Inr st' \<and> row_of st' = row_fetched row (padded 17 now)"
      (is ?updated)
proof -
  note c = fitting_columns [OF assms(1,2)]
  have v: "conv 97 17 (Chars now) = Inr (HChars (padded 17 now))" "conv 9 19 (Chars now) = Inr (HChars now)"
    using oracle_conversionD(4,5) [OF assms(1)] assms(3) by simp_all
  note steps = fetch_into.simps bound_var.simps expr_value.simps(1,4) sum.case list.map append.simps sqlexd.simps
  note blocks = fetch_all_def all_source_def all_action_def all_flags_def fetch_updated_def updated_source_def updated_action_def
    updated_flags_def plain_var_def select_list_def bare_block_def
  note membership = column_names list.set insert_iff refl simp_thms
  show ?all
    unfolding fetch_block_def fetch_codes
    by (simp only: blocks steps c v membership, intro exI conjI, rule refl)
      (simp add: row_of_def int_var_def text_var_def row_fetched_def)
  show ?updated
    unfolding fetch_block_def fetch_codes
    by (simp only: blocks steps c v membership, intro exI conjI, rule refl)
      (simp add: row_of_def int_var_def text_var_def row_fetched_def)
qed

lemma fetch_into_null:
  "oracle_conversion conv \<Longrightarrow> length cs = length bs \<Longrightarrow> length vs = length bs \<Longrightarrow> Null \<in> set vs \<Longrightarrow>
   \<exists>code. fetch_into conv bs cs vs st = Inl code \<and> code \<noteq> 0"
proof (induction conv bs cs vs st rule: fetch_into.induct)
  case (1 conv b bs c cs v vs st)
  note d = oracle_conversionD(1,2) [OF 1(2)]
  show ?case
  proof (cases "conv c (sqhstl b) v")
    case (Inl code)
    then show ?thesis using d(2) [of c "sqhstl b" v] by auto
  next
    case (Inr h)
    then have "v \<noteq> Null" using d(1) [of c "sqhstl b"] by auto
    then show ?thesis using 1 Inr by (auto simp del: fun_upd_apply)
  qed
qed auto

lemma fetch_lacking:
  assumes "oracle_conversion conv" and "lacks_value row" and "b \<in> {fetch_all, fetch_updated}"
  shows "\<exists>code. fetch_block conv b (map (expr_value now row) select_list) st = Inl code \<and> code \<noteq> 0"
proof -
  obtain c where c: "c \<in> set (int_columns @ text_columns)" "row c = Null" using assms(2) by (auto simp: lacks_value_def list_ex_iff)
  then have "Column c \<in> set select_list" by (auto simp: int_columns_def text_columns_def select_list_def)
  then have n: "Null \<in> set (map (expr_value now row) select_list)" using c(2) by (force simp: image_iff)
  have "length (descriptor_vars (sql_offset b)) = 23" using assms(3) fetch_codes by auto
  moreover have "length (sql_vars b) = 23"
    using assms(3) by (auto simp: block_defs)
  moreover have "length select_list = 23" by (simp add: select_list_def)
  ultimately show ?thesis unfolding fetch_block_def using n by (intro fetch_into_null [OF assms(1)]) simp_all
qed

section \<open>The tasks of the table\<close>

definition rows_read :: "table_row list \<Rightarrow> table_row list" where
  "rows_read rows = takeWhile (\<lambda>r. \<not> lacks_value r) rows"

lemma fetches_rows:
  assumes "oracle_conversion conv" and "length now < 17" and "b = fetch_all \<and> t = now \<or> b = fetch_updated \<and> t = padded 17 now"
  shows "list_all fitting (rows_read rows) \<Longrightarrow> fetch_rows (fetches conv b now st rows) = map (\<lambda>r. row_fetched r t) (rows_read rows)"
proof (induction rows arbitrary: st)
  case (Cons r rows)
  show ?case
  proof (cases "lacks_value r")
    case True
    then show ?thesis using fetch_lacking [OF assms(1) True, of b now st] assms(3) by (auto simp: rows_read_def)
  next
    case False
    then have f: "fitting r" and rest: "list_all fitting (rows_read rows)" using Cons.prems by (auto simp: rows_read_def)
    obtain st' where "fetch_block conv b (map (expr_value now r) select_list) st = Inr st'" "row_of st' = row_fetched r t"
      using fetch_fitting [OF assms(1) f assms(2), of st] assms(3) by auto
    then show ?thesis using Cons.IH [OF rest] False by (simp add: rows_read_def)
  qed
qed (simp add: rows_read_def)

lemma row_fetched_fields [simp]: "row_id (row_fetched r t) = number_in r ''ftpparm_id''" "row_time (row_fetched r t) = t"
  by (simp_all add: row_fetched_def)

lemma task_meant_id: "task_meant r = Some t \<Longrightarrow> task_id t = number_in r ''ftpparm_id''"
  using row_task_id [of "row_meant r" t] by (simp add: task_meant_def row_meant_def)

lemma new_tasks_fetched:
  "map task_meant rows = map Some ts \<Longrightarrow> list_all (\<lambda>t. task_id t \<noteq> 0) ts \<Longrightarrow> new_tasks (map (\<lambda>r. row_fetched r now) rows) = Some ts"
proof (induction rows arbitrary: ts)
  case (Cons r rows)
  then obtain t us where t: "ts = t # us" "task_meant r = Some t" by (cases ts) auto
  then show ?case using Cons task_meant_id [OF t(2)] by (auto simp: row_task_fetched)
qed simp

lemma last_time_fetched: "list_all (\<lambda>r. number_in r ''ftpparm_id'' \<noteq> 0) rows \<Longrightarrow>
  last_time (map (\<lambda>r. row_fetched r t) rows) s = (if rows = [] then s else t)"
  by (induction rows arbitrary: s) auto

text \<open>
  C20. The tasks the program starts with are those of its enabled rows in the table, in the order of the query, column by column,
  up to the first row that has no value in a column the query does not default, \<open>ftp_host\<close> for one:
  the fetch of that row fails, and neither it nor any row behind it is loaded.
\<close>

theorem load_stops_at_missing:
  assumes "oracle_conversion conv" and "length now < 17"
    and "list_all fitting (rows_read (filter (where_all program_id) table))"
    and "map task_meant (rows_read (filter (where_all program_id) table)) = map Some ts" and "list_all (\<lambda>t. sch_id (sch_item t) \<noteq> 0) ts"
  shows "\<exists>dl. load_tasks conv program_id now table [] time = Some dl \<and> dl_tasks dl = ts \<and> dl_count dl = length ts \<and>
    dl_time dl = (if ts = [] then time else now)"
proof -
  let ?rows = "rows_read (filter (where_all program_id) table)"
  have f: "fetch_rows (fetches conv fetch_all now Map.empty (filter (where_all program_id) table)) = map (\<lambda>r. row_fetched r now) ?rows"
    using fetches_rows [OF assms(1,2) _ assms(3), of fetch_all now] by simp
  have n: "new_tasks (map (\<lambda>r. row_fetched r now) ?rows) = Some ts" by (rule new_tasks_fetched [OF assms(4,5)])
  have "list_all (\<lambda>r. number_in r ''ftpparm_id'' \<noteq> 0) ?rows"
  proof (unfold list_all_iff, rule ballI)
    fix r assume "r \<in> set ?rows"
    then have "task_meant r \<in> set (map Some ts)" using assms(4) by (metis image_eqI list.set_map)
    then obtain t where "task_meant r = Some t" "t \<in> set ts" by auto
    then show "number_in r ''ftpparm_id'' \<noteq> 0" using task_meant_id [of r t] assms(5) by (auto simp: list_all_iff)
  qed
  then have l: "last_time (map (\<lambda>r. row_fetched r now) ?rows) time = (if ts = [] then time else now)"
    using assms(4) by (auto simp: last_time_fetched)
  show ?thesis by (simp add: load_tasks_def create_task_item_list_by_db_def f n l link_tasks_def)
qed

text \<open>A database and a table of three rows, the second without a host.\<close>

fun sample_conversion :: conversion where
  "sample_conversion c n Null = Inl (-1405)"
| "sample_conversion c n (Number i) = (if c = 3 then Inr (HInt i) else Inl (-932))"
| "sample_conversion c n (Chars s) =
     (if c = 97 then Inr (HChars (padded n (take (n - 1) s))) else if c = 9 then Inr (HChars s) else Inl (-1722))"

lemma sample_conversion_ok: "oracle_conversion sample_conversion"
proof -
  have "sample_conversion c n v \<noteq> Inl 0" for c n v by (cases v) auto
  then show ?thesis by (simp add: oracle_conversion_def)
qed

definition sample_table_row :: "int \<Rightarrow> db_value \<Rightarrow> table_row" where
  "sample_table_row i host = (\<lambda>_. Null)(''program_id'' := Number 1, ''opt_time'' := Number 20100101000000, ''ftpparm_id'' := Number i,
     ''ftp_host'' := host, ''ftp_path'' := Chars ''/in'', ''local_path'' := Chars ''/out'', ''direction'' := Number 0, ''hour'' := Chars ''1'',
     ''del_src'' := Number 0, ''file_modify_time_escape'' := Number 100, ''generate_db_cdr'' := Number 0, ''use_tmp'' := Number 1,
     ''ftp_flag'' := Number 1)"

definition sample_table :: "table_row list" where
  "sample_table = [sample_table_row 7 (Chars ''u:p:h:21''), sample_table_row 8 Null, sample_table_row 9 (Chars ''u:p:h:21'')]"

lemma sample_rows_read:
  "rows_read (filter (where_all 1) sample_table) = [sample_table_row 7 (Chars ''u:p:h:21'')]"
  by (simp add: sample_table_def sample_table_row_def where_all_def rows_read_def lacks_value_def int_columns_def text_columns_def)

lemma sample_row_fitting: "fitting (sample_table_row 7 (Chars ''u:p:h:21''))"
  by (simp add: sample_table_row_def fitting_def column_names)

lemma sample_task_meant: "task_meant (sample_table_row 7 (Chars ''u:p:h:21'')) = Some (sample_task 7 ''1'')"
  by (simp add: task_meant_def row_meant_def sample_table_row_def text_in_def number_in_def row_task_def sample_task_def trim_def ltrim_def
      rtrim_def is_blank_def fits_def Let_def)

theorem load_stops_at_missing_witness:
  "\<exists>dl. load_tasks sample_conversion 1 ''20100101120000'' sample_table [] [] = Some dl \<and> dl_tasks dl = [sample_task 7 ''1''] \<and> dl_count dl = 1"
  using load_stops_at_missing [OF sample_conversion_ok, of "''20100101120000''" 1 sample_table "[sample_task 7 ''1'']" "[]"]
  by (auto simp: sample_rows_read sample_row_fitting sample_task_meant)

text \<open>
  The periodic look changes the map from ids to tasks by the rows it selects, the enabled ones and the others, those changed since the
  time in \<open>g_db_time\<close>; up to the first with a missing value again.
\<close>

theorem updates_change_map:
  assumes "oracle_conversion conv" and "length now < 17"
    and "list_all fitting (rows_read (filter (where_updated to_date program_id time) table))"
    and "load_updates conv to_date program_id now table ts time = Some dl" and "distinct (task_ids ts)" and "0 \<notin> set (task_ids ts)"
  shows "get_task_item_by_id (dl_tasks dl) =
    fold (\<lambda>r m. if number_in r ''ftpparm_id'' = 0 then m else m(number_in r ''ftpparm_id'' := task_meant r))
      (rows_read (filter (where_updated to_date program_id time) table)) (get_task_item_by_id ts)"
proof -
  let ?rows = "rows_read (filter (where_updated to_date program_id time) table)"
  have f: "fetch_rows (fetches conv fetch_updated now Map.empty (filter (where_updated to_date program_id time) table)) =
      map (\<lambda>r. row_fetched r (padded 17 now)) ?rows"
    using fetches_rows [OF assms(1,2) _ assms(3), of fetch_updated "padded 17 now"] by simp
  have p: "put_row (row_fetched r t) = (\<lambda>m. if number_in r ''ftpparm_id'' = 0 then m else m(number_in r ''ftpparm_id'' := task_meant r))" for r t
    by (auto simp: put_row_def row_task_fetched fun_eq_iff)
  have "\<exists>us. fold_option update_row (map (\<lambda>r. row_fetched r (padded 17 now)) ?rows) ts = Some us \<and> dl_tasks dl = us"
    using assms(4) by (auto simp: load_updates_def create_task_item_list_by_db_updated_def Let_def f split: option.splits)
  then obtain us where us: "fold_option update_row (map (\<lambda>r. row_fetched r (padded 17 now)) ?rows) ts = Some us" "dl_tasks dl = us" by blast
  show ?thesis using update_rows_refine [OF us(1) assms(5,6)] us(2) by (simp add: fold_map comp_def p)
qed

text \<open>
  A program that found no task at its start finds none later. \<open>g_db_time\<close> stays empty, the database makes no
  date of it, the condition is true of no row, and nothing sets the time.
\<close>

lemma empty_start_stays_empty:
  assumes "to_date [] = None"
  shows "load_updates conv to_date program_id now table ts [] = Some \<lparr>dl_tasks = ts, dl_time = [], dl_count = 0\<rparr>"
proof -
  have w: "where_updated to_date program_id [] = (\<lambda>_. False)"
    using assms by (auto simp: where_updated_def fun_eq_iff split: db_value.splits)
  show ?thesis
    by (simp add: load_updates_def w create_task_item_list_by_db_updated_def)
qed

end
