(* ===== verification/Sftp_Client.thy ===== *)
theory Sftp_Client
  imports File_Process "HOL-Library.Sublist"
begin

text \<open>
  The SFTP client \<open>sftp.cpp\<close> over the connection of \<open>ssh.cpp\<close>. The answers of \<open>libssh2\<close>, of the sockets and
  of the local files are arguments: what a server offers, which calls succeed, what a read or write returns.
\<close>

section \<open>ssh.cpp\<close>

text \<open>The fields of \<open>SSH\<close> and \<open>SFTP\<close>, the sockets that are open and the file handles that are.\<close>

record sftp =
  sock :: int
  connected :: bool
  ssh_session :: bool
  open_socks :: "int list"
  open_handles :: nat
  open_files :: nat

definition sftp_new :: sftp where
  "sftp_new = \<lparr>sock = 0, connected = False, ssh_session = False, open_socks = [], open_handles = 0, open_files = 0\<rparr>"

text \<open>\<open>auth_list\<close> is \<^const>\<open>None\<close> when the library returns no list, as for a server that asks for no authentication.\<close>

record ssh_server =
  can_connect :: bool
  init_ok :: bool
  handshake :: int
  auth_list :: "cstring option"
  auth_password :: int
  auth_keyboard :: int
  auth_publickey :: int
  sftp_init_ok :: bool

definition offers :: "cstring \<Rightarrow> cstring \<Rightarrow> bool" where
  "offers l m = sublist m l"

definition connect_to :: "ssh_server \<Rightarrow> int \<Rightarrow> sftp \<Rightarrow> (bool \<times> sftp) option" where
  "connect_to srv fd s =
     (let s1 = s\<lparr>sock := fd, open_socks := (if 0 \<le> fd then fd # open_socks s else open_socks s)\<rparr> in
      if \<not> can_connect srv then Some (False, s1)
      else let s2 = s1\<lparr>ssh_session := init_ok srv\<rparr> in
      if \<not> init_ok srv then Some (False, s2)
      else if handshake srv \<noteq> 0 then Some (False, s2)
      else case auth_list srv of
             None \<Rightarrow> None
           | Some l \<Rightarrow>
               if offers l ''password'' then
                 (if auth_password srv \<noteq> 0 then Some (False, s2) else Some (True, s2\<lparr>connected := True\<rparr>))
               else if offers l ''keyboard-interactive'' then
                 (if auth_keyboard srv \<noteq> 0 then Some (False, s2) else Some (True, s2\<lparr>connected := True\<rparr>))
               else if offers l ''publickey'' then
                 (if auth_publickey srv \<noteq> 0 then Some (False, s2) else Some (True, s2\<lparr>connected := True\<rparr>))
               else Some (False, s2))"

definition ssh_disconnect :: "sftp \<Rightarrow> sftp" where
  "ssh_disconnect s =
     s\<lparr>ssh_session := False, open_socks := (if 0 < sock s then remove1 (sock s) (open_socks s) else open_socks s),
       sock := (if 0 < sock s then 0 else sock s), connected := False\<rparr>"

section \<open>sftp.cpp\<close>

definition open_session :: "ssh_server \<Rightarrow> int \<Rightarrow> sftp \<Rightarrow> (bool \<times> sftp) option" where
  "open_session srv fd s =
     (if connected s then Some (True, s)
      else do {
        (ok, s1) \<leftarrow> connect_to srv fd s;
        if \<not> ok then Some (False, s1)
        else if \<not> sftp_init_ok srv then Some (False, ssh_disconnect s1)
        else Some (True, s1)
      })"

definition close_session :: "sftp \<Rightarrow> sftp" where
  "close_session s = (if connected s then ssh_disconnect s else s)"

text \<open>The destructors of \<open>SSH\<close>, and of \<open>SFTP\<close>, which runs the former.\<close>

definition ssh_delete :: "sftp \<Rightarrow> sftp" where
  "ssh_delete s =
     (let s1 = (if ssh_session s then s\<lparr>ssh_session := False\<rparr> else s);
          s2 = (if 0 < sock s1 then s1\<lparr>open_socks := remove1 (sock s1) (open_socks s1), sock := 0\<rparr> else s1)
      in s2\<lparr>connected := False\<rparr>)"

lemma ssh_delete_disconnects: "ssh_delete s = ssh_disconnect s"
  by (simp add: ssh_delete_def ssh_disconnect_def Let_def)

definition sftp_delete :: "sftp \<Rightarrow> sftp" where
  "sftp_delete s = ssh_delete (close_session s)"

definition exists_file :: "bool \<Rightarrow> sftp \<Rightarrow> bool" where
  "exists_file opens s = (connected s \<and> opens)"

definition size_ex :: "(bool \<times> int) option \<Rightarrow> int" where
  "size_ex h = (case h of None \<Rightarrow> 0 | Some (ok, n) \<Rightarrow> if ok then n else 0)"

definition size_of :: "(bool \<times> int) option \<Rightarrow> sftp \<Rightarrow> int" where
  "size_of h s = (if connected s then size_ex h else 0)"

text \<open>\<open>mkdir\<close> and \<open>rename\<close> by the code of the library; \<open>rm\<close> and \<open>rmdir\<close> tell only whether the call is made.\<close>

definition sftp_mkdir :: "int \<Rightarrow> sftp \<Rightarrow> bool" where
  "sftp_mkdir rc s = (connected s \<and> rc = 0)"

definition sftp_rename :: "int \<Rightarrow> sftp \<Rightarrow> bool" where
  "sftp_rename rc s = (connected s \<and> rc = 0)"

definition sftp_rm :: "sftp \<Rightarrow> bool" where
  "sftp_rm s = connected s"

text \<open>What \<open>ls\<close> keeps of a directory entry, its name and its long form, under each filter.\<close>

definition FILTER_FILE :: nat where "FILTER_FILE = 1"
definition FILTER_PATH :: nat where "FILTER_PATH = 2"
definition FILTER_LONG :: nat where "FILTER_LONG = 4"

definition ls_entry :: "nat \<Rightarrow> cstring \<times> cstring \<Rightarrow> cstring list" where
  "ls_entry flt = (\<lambda>(name, long).
     if name = ''.'' \<or> name = ''..'' then []
     else if flt = FILTER_FILE + FILTER_PATH + FILTER_LONG then [if long \<noteq> [] then long else name]
     else if flt = FILTER_FILE + FILTER_PATH then [name]
     else if flt = FILTER_FILE + FILTER_LONG then (if long \<noteq> [] \<and> hd long \<noteq> CHR ''d'' then [long] else [])
     else if flt = FILTER_PATH + FILTER_LONG then (if long \<noteq> [] \<and> hd long = CHR ''d'' then [long] else [])
     else if flt = FILTER_FILE then (if long \<noteq> [] \<and> hd long \<noteq> CHR ''d'' then [name] else [])
     else if flt = FILTER_PATH then (if long \<noteq> [] \<and> hd long = CHR ''d'' then [name] else [])
     else [])"

text \<open>The directory's entries are \<^const>\<open>None\<close> when it cannot be opened.\<close>

definition ls :: "nat \<Rightarrow> (cstring \<times> cstring) list option \<Rightarrow> sftp \<Rightarrow> cstring list" where
  "ls flt dir s = (if connected s then (case dir of None \<Rightarrow> [] | Some es \<Rightarrow> concat (map (ls_entry flt) es)) else [])"

definition sftp_list :: "bool \<Rightarrow> (cstring \<times> cstring) list option \<Rightarrow> sftp \<Rightarrow> int \<times> cstring option" where
  "sftp_list opens dir s =
     (if \<not> connected s then (0, None)
      else if \<not> opens then (0, None)
      else (1, Some (concat (map (\<lambda>l. l @ [LF]) (ls (FILTER_FILE + FILTER_PATH + FILTER_LONG) dir s)))))"

text \<open>The loop of \<open>sftp_get\<close>: what \<open>fwrite\<close> stores of each block is the disk's answer, which nobody looks at.\<close>

fun get_loop :: "read_result list \<Rightarrow> nat list \<Rightarrow> cstring" where
  "get_loop [] ks = []"
| "get_loop (r # rs) ks =
     (case r of
        ReadData d \<Rightarrow>
          if d = [] then []
          else (case ks of [] \<Rightarrow> d @ get_loop rs [] | k # ks' \<Rightarrow> take k d @ get_loop rs ks')
      | _ \<Rightarrow> [])"

text \<open>The result, the local file (\<^const>\<open>None\<close>: not touched), the state. The handle is not closed.\<close>

definition sftp_get :: "bool \<Rightarrow> bool \<Rightarrow> read_result list \<Rightarrow> nat list \<Rightarrow> sftp \<Rightarrow> int \<times> cstring option \<times> sftp" where
  "sftp_get local_ok remote_ok rs ks s =
     (if \<not> connected s then (0, None, s)
      else if \<not> local_ok then (0, None, s)
      else if \<not> remote_ok then (0, Some [], s\<lparr>open_files := open_files s + 1\<rparr>)
      else (1, Some (get_loop rs ks), s\<lparr>open_handles := open_handles s + 1\<rparr>))"

text \<open>
  The loops of \<open>sftp_put\<close>: a block until it is written or a write fails, and the blocks of the file until a write
  fails. A library that never takes a byte keeps the loop going: \<^const>\<open>None\<close>.
\<close>

fun put_block :: "cstring \<Rightarrow> int list \<Rightarrow> (cstring \<times> int \<times> int list) option" where
  "put_block p [] = None"
| "put_block p (w # ws) =
     (if w < 0 then Some ([], w, ws)
      else if length p \<le> nat w then Some (p, w, ws)
      else (case put_block (drop (nat w) p) ws of None \<Rightarrow> None | Some (out, r) \<Rightarrow> Some (take (nat w) p @ out, r)))"

function put_loop :: "nat \<Rightarrow> cstring \<Rightarrow> int list \<Rightarrow> cstring option" where
  "put_loop n file ws =
     (if n = 0 \<or> file = [] then Some []
      else case put_block (take n file) ws of
             None \<Rightarrow> None
           | Some (out, r, ws') \<Rightarrow>
               if r > 0 then (case put_loop n (drop n file) ws' of None \<Rightarrow> None | Some rest \<Rightarrow> Some (out @ rest))
               else Some out)"
  by pat_completeness auto
termination by (relation "measure (\<lambda>(n, file, ws). length file)") auto

declare put_loop.simps [simp del]

definition sftp_put :: "cstring option \<Rightarrow> bool \<Rightarrow> int list \<Rightarrow> sftp \<Rightarrow> (int \<times> cstring option \<times> sftp) option" where
  "sftp_put file remote_ok ws s =
     (if \<not> connected s then Some (0, None, s)
      else case file of
             None \<Rightarrow> Some (0, None, s)
           | Some f \<Rightarrow>
               if \<not> remote_ok then Some (0, None, s\<lparr>open_files := open_files s + 1\<rparr>)
               else (case put_loop 102400 f ws of
                       None \<Rightarrow> None
                     | Some out \<Rightarrow> Some (1, Some out, s\<lparr>open_handles := open_handles s + 1\<rparr>)))"

section \<open>What arrives\<close>

lemma put_block_prefix:
  "put_block p ws = Some (out, r, ws') \<Longrightarrow> p \<noteq> [] \<Longrightarrow>
   prefix out p \<and> (0 < r \<and> out = p \<or> r < 0 \<and> r \<in> set ws) \<and> suffix ws' ws"
proof (induction p ws arbitrary: out rule: put_block.induct)
  case (2 p w ws)
  have lp: "0 < length p" using 2(3) by simp
  show ?case
  proof (cases "w < 0 \<or> length p \<le> nat w")
    case True
    moreover have "length p \<le> nat w \<longrightarrow> 0 < w" using lp by linarith
    ultimately show ?thesis using 2(2) by (auto intro: suffix_ConsI split: if_splits)
  next
    case False
    then obtain o' where o': "put_block (drop (nat w) p) ws = Some (o', r, ws')" "out = take (nat w) p @ o'"
      using 2(2) by (auto split: option.splits)
    have IH: "prefix o' (drop (nat w) p)" "0 < r \<and> o' = drop (nat w) p \<or> r < 0 \<and> r \<in> set ws" "suffix ws' ws"
      using 2(1) [OF _ _ o'(1)] False by auto
    then have "prefix out p" unfolding o'(2) by (metis append_take_drop_id same_prefix_prefix)
    moreover have "0 < r \<and> out = p \<or> r < 0 \<and> r \<in> set (w # ws)" using IH(2) o'(2) by auto
    ultimately show ?thesis using IH(3) by (auto intro: suffix_ConsI)
  qed
qed simp

lemma put_loop_prefix:
  "put_loop n f ws = Some out \<Longrightarrow> prefix out f \<and> (0 < n \<longrightarrow> (\<forall>w \<in> set ws. 0 \<le> w) \<longrightarrow> out = f)"
proof (induction n f ws arbitrary: out rule: put_loop.induct)
  case (1 n f ws)
  show ?case
  proof (cases "n = 0 \<or> f = []")
    case True
    then show ?thesis using 1(2) by (auto simp: put_loop.simps [of n f ws])
  next
    case False
    then obtain o' r ws' where b: "put_block (take n f) ws = Some (o', r, ws')"
      using 1(2) by (cases "put_block (take n f) ws") (auto simp: put_loop.simps [of n f ws])
    have B: "prefix o' (take n f)" "0 < r \<and> o' = take n f \<or> r < 0 \<and> r \<in> set ws" "suffix ws' ws"
      using put_block_prefix [OF b] False by auto
    show ?thesis
    proof (cases "r > 0")
      case True
      then obtain rest where rest: "put_loop n (drop n f) ws' = Some rest" "out = o' @ rest"
        using 1(2) False b by (auto simp: put_loop.simps [of n f ws] split: option.splits)
      have IH: "prefix rest (drop n f)" "0 < n \<longrightarrow> (\<forall>w \<in> set ws'. 0 \<le> w) \<longrightarrow> rest = drop n f"
        using 1(1) [OF False b _ _ True rest(1)] by auto
      have o': "o' = take n f" using B True by simp
      have "prefix out f" unfolding rest(2) o' using IH(1) by (metis append_take_drop_id same_prefix_prefix)
      moreover have "out = f" if "0 < n" "\<forall>w \<in> set ws. 0 \<le> w"
        using that IH(2) B(3) rest(2) o' set_mono_suffix [OF B(3)] by auto
      ultimately show ?thesis by blast
    next
      case r: False
      then have "out = o'" using 1(2) False b by (auto simp: put_loop.simps [of n f ws])
      moreover have "prefix o' f" using B(1) by (metis append_take_drop_id prefixI prefix_order.trans)
      moreover have "\<exists>w \<in> set ws. w < 0" using B(2) r by auto
      ultimately show ?thesis by fastforce
    qed
  qed
qed

text \<open>
  C34. An upload sends the file from its start, and all of it when no write fails; but the result is 1
  either way. Whenever \<open>sftp_put\<close> returns with both files open, it returns 1, and the remote file is a prefix
  of the local one, the whole file if the library never answers with an error.
\<close>

theorem sftp_put_sends_prefix:
  assumes "connected s" and "sftp_put (Some f) True ws s = Some (r, remote, s')"
  shows "r = 1 \<and> (\<exists>out. remote = Some out \<and> prefix out f \<and> ((\<forall>w \<in> set ws. 0 \<le> w) \<longrightarrow> out = f))"
proof -
  obtain out where "put_loop 102400 f ws = Some out" "r = 1" "remote = Some out"
    using assms by (auto simp: sftp_put_def split: option.splits)
  then show ?thesis using put_loop_prefix by simp
qed

lemma sftp_put_stops_early:
  assumes "connected s"
  shows "sftp_put (Some ''abc'') True [2, -1] s = Some (1, Some ''ab'', s\<lparr>open_handles := open_handles s + 1\<rparr>)"
  using assms by (simp add: sftp_put_def put_loop.simps)

lemma sftp_put_in_two:
  assumes "connected s"
  shows "sftp_put (Some ''abc'') True [2, 1] s = Some (1, Some ''abc'', s\<lparr>open_handles := open_handles s + 1\<rparr>)"
  using assms by (simp add: sftp_put_def put_loop.simps)

theorem sftp_put_sends_prefix_witness:
  "\<exists>a b s1 s2. sftp_put (Some ''abc'') True [2, -1] (sftp_new\<lparr>connected := True\<rparr>) = Some (1, Some a, s1) \<and> prefix a ''abc'' \<and> a \<noteq> ''abc'' \<and>
     sftp_put (Some ''abc'') True [2, 1] (sftp_new\<lparr>connected := True\<rparr>) = Some (1, Some b, s2) \<and> b = ''abc''"
proof -
  let ?s = "sftp_new\<lparr>connected := True\<rparr>"
  have c: "connected ?s" by simp
  obtain s1 s2 where r: "sftp_put (Some ''abc'') True [2, -1] ?s = Some (1, Some ''ab'', s1)"
    "sftp_put (Some ''abc'') True [2, 1] ?s = Some (1, Some ''abc'', s2)"
    using sftp_put_stops_early [OF c] sftp_put_in_two [OF c] by blast
  have "prefix ''ab'' ''abc''" using sftp_put_sends_prefix [OF c r(1)] by simp
  moreover have "\<exists>out. Some ''abc'' = Some out \<and> out = ''abc''" using sftp_put_sends_prefix [OF c r(2)] by simp
  ultimately show ?thesis using r by (intro exI [of _ "''ab''"] exI [of _ "''abc''"] exI [of _ s1] exI [of _ s2]) simp
qed

text \<open>A library that takes no byte keeps the upload going for ever.\<close>

lemma sftp_put_never_ends: "connected s \<Longrightarrow> sftp_put (Some ''abc'') True (replicate n 0) s = None"
proof -
  have "put_block ''abc'' (replicate n 0) = None" by (induction n) simp_all
  then show "connected s \<Longrightarrow> ?thesis" by (simp add: sftp_put_def put_loop.simps)
qed

section \<open>Downloads\<close>

lemma get_loop_whole:
  "get_loop (map ReadData bs @ ReadEof # rs) [] = concat bs" if "\<forall>b \<in> set bs. b \<noteq> []"
  using that by (induction bs) auto

text \<open>
  A download cannot fail once the files are open. Whatever the reads and the disk answer,
  \<open>sftp_get\<close> returns 1; a read error ends the file as if it had ended there. Only when every read before the end of the file succeeds and the disk
  takes everything does the local file have the remote file's content.
\<close>

theorem sftp_get_cannot_fail:
  assumes "connected s" and "\<forall>b \<in> set bs. b \<noteq> []" and "e = ReadEof \<or> e = ReadError"
  shows "fst (sftp_get True True rs ks s) = 1 \<and>
    sftp_get True True (map ReadData bs @ e # rs') [] s = (1, Some (concat bs), s\<lparr>open_handles := open_handles s + 1\<rparr>)"
proof -
  have "get_loop (map ReadData bs @ e # rs') [] = concat bs" using assms(2,3) by (induction bs) auto
  then show ?thesis using assms(1) by (simp add: sftp_get_def)
qed

theorem sftp_get_cannot_fail_witness:
  "sftp_get True True (map ReadData [''ab''] @ ReadError # []) [] (sftp_new\<lparr>connected := True\<rparr>) =
     (1, Some (concat [''ab'']), sftp_new\<lparr>connected := True, open_handles := 1\<rparr>)"
  using sftp_get_cannot_fail [of "sftp_new\<lparr>connected := True\<rparr>" "[''ab'']" ReadError "[]" "[]" "[]"] by (simp add: sftp_new_def)

section \<open>Sessions and listings\<close>

text \<open>A listing has one line per entry but \<open>.\<close> and \<open>..\<close>.\<close>

lemma sftp_list_lines:
  assumes "connected s" and "\<forall>(n, l) \<in> set es. l \<noteq> []"
  shows "sftp_list True (Some es) s =
    (1, Some (concat (map (\<lambda>(n, l). l @ [LF]) (filter (\<lambda>(n, l). n \<noteq> ''.'' \<and> n \<noteq> ''..'') es))))"
proof -
  have "concat (map (\<lambda>l. l @ [LF]) (concat (map (ls_entry 7) es))) =
    concat (map (\<lambda>(n, l). l @ [LF]) (filter (\<lambda>(n, l). n \<noteq> ''.'' \<and> n \<noteq> ''..'') es))"
    using assms(2) by (induction es) (auto simp: ls_entry_def FILTER_FILE_def FILTER_PATH_def FILTER_LONG_def)
  then show ?thesis using assms(1) by (simp add: sftp_list_def ls_def FILTER_FILE_def FILTER_PATH_def FILTER_LONG_def)
qed

text \<open>A session that was opened and closed leaves no socket; one that could not be opened keeps its socket until the object is deleted.\<close>

lemma session_closes:
  assumes "open_session srv fd sftp_new = Some (True, s)" and "0 < fd"
  shows "connected s \<and> close_session s = sftp_new"
  using assms by (auto simp: open_session_def connect_to_def close_session_def ssh_disconnect_def sftp_new_def Let_def split: if_splits option.splits bind_splits)

lemma failed_session_keeps_socket:
  assumes "\<not> can_connect srv" and "0 < fd"
  shows "open_session srv fd sftp_new = Some (False, sftp_new\<lparr>sock := fd, open_socks := [fd]\<rparr>)"
    "close_session (sftp_new\<lparr>sock := fd, open_socks := [fd]\<rparr>) = sftp_new\<lparr>sock := fd, open_socks := [fd]\<rparr>"
    "open_socks (sftp_delete (sftp_new\<lparr>sock := fd, open_socks := [fd]\<rparr>)) = []"
  using assms by (simp_all add: open_session_def connect_to_def close_session_def ssh_disconnect_def sftp_delete_def ssh_delete_disconnects sftp_new_def)

text \<open>A server that grants access without authentication crashes the client.\<close>

lemma no_auth_list_crashes:
  "can_connect srv \<Longrightarrow> init_ok srv \<Longrightarrow> handshake srv = 0 \<Longrightarrow> auth_list srv = None \<Longrightarrow> open_session srv fd sftp_new = None"
  by (simp add: open_session_def connect_to_def sftp_new_def)

end
