(* ===== verification/Support.thy ===== *)
theory Support
  imports Trans_Path Task_Data
begin

text \<open>
  Smaller files: the log of \<open>logprocess.c\<close>, regular expressions of \<open>regexpress.c\<close>, exceptions of \<open>exception.c\<close>, error texts
  of \<open>definitions.c\<close> and conversions of \<open>frame_utils.c\<close>.
\<close>

section \<open>The log\<close>

text \<open>The parts of a time that go into a file name, each with its width; how many depends on the type, 1 to 4.\<close>

definition log_fields :: "tm \<Rightarrow> (nat \<times> int) list" where
  "log_fields t = [(4, tm_year t + 1900), (2, tm_mon t + 1), (2, tm_mday t), (2, tm_hour t)]"

definition log_name :: "cstring \<Rightarrow> int \<Rightarrow> tm \<Rightarrow> cstring" where
  "log_name file ty t = file @ concat (map (\<lambda>(n, v). pad_int n v) (take (nat ty) (log_fields t)))"

definition log_stamp :: "tm \<Rightarrow> cstring" where
  "log_stamp t =
     ''['' @ show_int (tm_year t + 1900) @ ''-'' @ pad_int 2 (tm_mon t + 1) @ ''-'' @ pad_int 2 (tm_mday t) @ '' '' @
     pad_int 2 (tm_hour t) @ '':'' @ pad_int 2 (tm_min t) @ '':'' @ pad_int 2 (tm_sec t) @ '']:''"

text \<open>
  What \<open>log_msg\<close> appends to which file: the inner \<^const>\<open>None\<close> when the type is none of the four or the file does not
  open, the outer one when the name does not fit. \<open>fmt\<close> is the format, \<open>s\<close> the text it makes.
\<close>

definition log_msg :: "bool \<Rightarrow> cstring \<Rightarrow> int \<Rightarrow> tm \<Rightarrow> cstring \<Rightarrow> cstring \<Rightarrow> (cstring \<times> cstring) option option" where
  "log_msg opens file ty t fmt s =
     (if ty \<notin> {1, 2, 3, 4} then Some None
      else if 256 \<le> length (log_name file ty t) then None
      else if \<not> opens then Some None
      else Some (Some (log_name file ty t, log_stamp t @ s @ (if LF \<in> set fmt then [] else [LF]))))"

section \<open>Regular expressions\<close>

text \<open>\<open>regcomp\<close>'s and \<open>regexec\<close>'s codes; a pattern that does not compile is matched all the same: \<^const>\<open>None\<close>.\<close>

definition cmp_reg_exp :: "int \<Rightarrow> int \<Rightarrow> int option" where
  "cmp_reg_exp compiled r = (if compiled \<noteq> 0 then None else if r = 1 then Some 0 else if r \<noteq> 0 then Some 0 else Some 1)"

section \<open>Exceptions\<close>

abbreviation (input) "EMPTY_ERROR_NO \<equiv> 32767 :: int"
abbreviation (input) "EMPTY_LINE \<equiv> -1 :: int"

record c_exception =
  ex_no :: int
  ex_msg :: cstring
  ex_file :: cstring
  ex_line :: int

definition exception_new :: "int option \<Rightarrow> cstring option \<Rightarrow> cstring option \<Rightarrow> int option \<Rightarrow> c_exception" where
  "exception_new no msg file line =
     \<lparr>ex_no = (case no of None \<Rightarrow> EMPTY_ERROR_NO | Some n \<Rightarrow> n), ex_msg = (case msg of None \<Rightarrow> [] | Some s \<Rightarrow> s),
      ex_file = (case file of None \<Rightarrow> [] | Some s \<Rightarrow> s), ex_line = (case line of None \<Rightarrow> EMPTY_LINE | Some n \<Rightarrow> n)\<rparr>"

definition exception_text :: "c_exception \<Rightarrow> cstring" where
  "exception_text e =
     (if ex_no e \<noteq> EMPTY_ERROR_NO then show_int (ex_no e) @ '':'' else []) @ ex_msg e @
     (if ex_file e \<noteq> [] \<and> ex_line e \<noteq> EMPTY_ERROR_NO then '' ['' @ ex_file e @ '':'' @ show_int (ex_line e) @ '']'' else [])"

text \<open>
  The classes derived from \<open>CException\<close>, thrown with a text and perhaps a place but no number. Each has its own output operator, which
  passes the exception on as a \<open>CException\<close>.
\<close>

datatype exception_class = CMemException | CFileException | CFileLockException | CHtmlException | CSemException | CShmException |
  CSocketException | CThreadException | CNBTcpSvrException | CPreforkSvrException | CDBException

record thrown = c_exception +
  ex_class :: exception_class

definition derived_new :: "exception_class \<Rightarrow> cstring option \<Rightarrow> cstring option \<Rightarrow> int option \<Rightarrow> thrown" where
  "derived_new cls msg file line = c_exception.extend (exception_new None msg file line) \<lparr>ex_class = cls\<rparr>"

definition derived_text :: "thrown \<Rightarrow> cstring" where
  "derived_text t = exception_text (c_exception.truncate t)"

text \<open>What is printed does not tell the class.\<close>

lemma derived_text_class: "derived_text (derived_new cls msg file line) = exception_text (exception_new None msg file line)"
  by (simp add: derived_text_def derived_new_def c_exception.defs exception_new_def)

text \<open>The line is compared with the wrong constant: without one the text ends in \<open>:-1\<close>, and line 32767 is left out.\<close>

lemma exception_without_line:
  "exception_text (exception_new None (Some ''busy'') (Some ''a.c'') None) = ''busy [a.c:-1]''"
  "exception_text (exception_new None (Some ''busy'') (Some ''a.c'') (Some 32767)) = ''busy''"
  by (simp_all add: exception_text_def exception_new_def show_int_def show_nat.simps digit_char_def char_of_def bit_simps)

section \<open>Error texts and conversions\<close>

fun errcode2str :: "tERROR \<Rightarrow> cstring" where
  "errcode2str ERR_OK = ''ERR_OK: Kein Fehler aufgetreten.''"
| "errcode2str ERR_Mutex = ''ERR_Mutex: Fehler bei Arbeit mit einem Mutex oder einer Semaphore.''"
| "errcode2str ERR_NotImplemented = ''ERR_NotImplemented: Aufruf einer nicht-implementieren Funktion/Methode.''"

definition int2str :: "int \<Rightarrow> cstring" where
  "int2str v = show_int v"

definition str2int :: "cstring \<Rightarrow> int" where
  "str2int s = atoi s"

definition str2short :: "cstring \<Rightarrow> int" where
  "str2short s = sint (word_of_int (atoi s) :: 16 word)"

lemma str2short_wraps: "str2short (int2str v) = v \<longleftrightarrow> - (2 ^ 15) \<le> v \<and> v < 2 ^ 15"
proof
  assume "str2short (int2str v) = v"
  then have "sint (word_of_int v :: 16 word) = v" by (simp add: str2short_def int2str_def)
  then show "- (2 ^ 15) \<le> v \<and> v < 2 ^ 15"
    using sint_lt [of "word_of_int v :: 16 word"] sint_ge [of "word_of_int v :: 16 word"] by simp
qed (simp add: str2short_def int2str_def signed_of_int signed_take_bit_int_eq_self)

section \<open>Log files\<close>

lemma pad_int_val:
  assumes "0 \<le> v" and "v < 10 ^ n" and "0 < n"
  shows "digits_val 0 (pad_int n v) = v"
proof -
  have z: "digits_val 0 (replicate k (CHR ''0'') @ s) = digits_val 0 s" for k s
    by (induction k) (simp_all add: is_digit_def digit_val_def)
  show ?thesis using assms digits_val_show_nat [of "nat v"] by (simp add: pad_int_def z show_int_def)
qed

lemma pad_int_exact: "0 \<le> v \<Longrightarrow> v < 10 ^ n \<Longrightarrow> 0 < n \<Longrightarrow> length (pad_int n v) = n"
  using show_int_length [of v n] by (simp add: pad_int_def)

text \<open>
  The times of a period, and only they, share a log file: with a type from 1 to 4 two times have the same
  file exactly when they agree in year, month, day and hour as far as the type says.
\<close>

definition log_time :: "tm \<Rightarrow> bool" where
  "log_time t = (0 \<le> tm_year t + 1900 \<and> tm_year t + 1900 < 10000 \<and> tm_mon t \<in> {0..<12} \<and> tm_mday t \<in> {1..31} \<and> tm_hour t \<in> {0..<24})"

lemma padded_same:
  assumes "list_all2 (\<lambda>(n, v) (m, w). n = m \<and> 0 < n \<and> 0 \<le> v \<and> v < 10 ^ n \<and> 0 \<le> w \<and> w < 10 ^ n) xs ys"
  shows "concat (map (\<lambda>(n, v). pad_int n v) xs) = concat (map (\<lambda>(n, v). pad_int n v) ys) \<longleftrightarrow> xs = ys"
  using assms
proof (induction xs ys rule: list_all2_induct)
  case (Cons x xs y ys)
  obtain n v w where xy: "x = (n, v)" "y = (n, w)" "0 < n" "0 \<le> v" "v < 10 ^ n" "0 \<le> w" "w < 10 ^ n"
    using Cons(1) by (cases x; cases y) auto
  then have "length (pad_int n v) = n" "length (pad_int n w) = n" using pad_int_exact by auto
  moreover have "pad_int n v = pad_int n w \<longleftrightarrow> v = w" using pad_int_val xy by metis
  ultimately show ?case using Cons(3) xy by auto
qed simp

theorem log_files_by_period:
  assumes "log_time t" and "log_time t'" and "ty \<in> {1, 2, 3, 4}"
  shows "log_name file ty t = log_name file ty t' \<longleftrightarrow>
    take (nat ty) [tm_year t, tm_mon t, tm_mday t, tm_hour t] = take (nat ty) [tm_year t', tm_mon t', tm_mday t', tm_hour t']"
proof -
  have "list_all2 (\<lambda>(n, v) (m, w). n = m \<and> 0 < n \<and> 0 \<le> v \<and> v < 10 ^ n \<and> 0 \<le> w \<and> w < 10 ^ n)
      (take (nat ty) (log_fields t)) (take (nat ty) (log_fields t'))"
    by (rule list_all2_takeI) (use assms(1,2) in \<open>simp add: log_fields_def log_time_def\<close>)
  from padded_same [OF this] show ?thesis
    using assms(3) by (auto simp: log_name_def log_fields_def numeral_eq_Suc)
qed

end
