(* ===== verification/Atomic_Counter.thy ===== *)
theory Atomic_Counter
  imports Prelude
begin

text \<open>
  The atomic counters of \<open>myatomic_1.h\<close>, which has one set of definitions for each platform. Three kinds of code make an operation atomic:
  a mutex, a loop around a compare-and-swap, and a loop around a conditional store; each is a step
  relation on any number of threads. On the other platforms an operation is one call of the system or of
  the compiler, an argument here.
\<close>

section \<open>What a counter promises\<close>

datatype counter_op = SetTo "32 word" | AddTo "32 word"

fun apply_op :: "counter_op \<Rightarrow> 32 word \<Rightarrow> 32 word" where
  "apply_op (SetTo v) c = v"
| "apply_op (AddTo d) c = c + d"

text \<open>
  The operations that have returned, in the order of their effects, each with its result: they explain a value
  when each result is that of the operation on the value the one before left.
\<close>

fun replay :: "32 word \<Rightarrow> (counter_op \<times> 32 word) list \<Rightarrow> 32 word option" where
  "replay c [] = Some c"
| "replay c ((op, r) # es) = (if r = apply_op op c then replay r es else None)"

lemma replay_append: "replay c (xs @ ys) = (case replay c xs of None \<Rightarrow> None | Some d \<Rightarrow> replay d ys)"
  by (induction c xs rule: replay.induct) auto

inductive runs :: "('s \<Rightarrow> 'p \<Rightarrow> 's \<Rightarrow> bool) \<Rightarrow> 's \<Rightarrow> 'p list \<Rightarrow> 's \<Rightarrow> bool" for step where
  stop: "runs step s [] s"
| next_step: "runs step s ps s1 \<Longrightarrow> step s1 p s' \<Longrightarrow> runs step s (ps @ [p]) s'"

text \<open>An implementation whose every step either changes nothing or is one operation.\<close>

locale atomic_counter =
  fixes step :: "'s \<Rightarrow> 'p \<Rightarrow> 's \<Rightarrow> bool" and inv :: "'s \<Rightarrow> bool" and counter :: "'s \<Rightarrow> 32 word"
    and history :: "'s \<Rightarrow> (counter_op \<times> 32 word) list"
  assumes inv_step: "inv s \<Longrightarrow> step s p s' \<Longrightarrow> inv s'"
    and one_effect: "inv s \<Longrightarrow> step s p s' \<Longrightarrow>
      counter s' = counter s \<and> history s' = history s \<or>
      (\<exists>op. counter s' = apply_op op (counter s) \<and> history s' = history s @ [(op, apply_op op (counter s))])"
begin

lemma inv_runs: "runs step s ps s' \<Longrightarrow> inv s \<Longrightarrow> inv s'"
  by (induction rule: runs.induct) (auto intro: inv_step)

lemma explained:
  "runs step s ps s' \<Longrightarrow> inv s \<Longrightarrow> replay c (history s) = Some (counter s) \<Longrightarrow> replay c (history s') = Some (counter s')"
proof (induction rule: runs.induct)
  case (next_step s ps s1 p s')
  have "inv s1" using inv_runs next_step.hyps(1) next_step.prems(1) by blast
  from one_effect [OF this next_step.hyps(2)] show ?case
    using next_step.IH next_step.prems by (auto simp: replay_append)
qed simp

end

section \<open>A mutex around each operation\<close>

text \<open>
  The version for threads: \<open>atomic_set\<close>, \<open>atomic_inc\<close>, \<open>atomic_dec\<close> and \<open>atomic_dec_and_test\<close> lock \<open>gasneti_atomicop_mutex\<close>, read, store and
  unlock. A thread is between two operations, before the lock, before it reads, before it stores, or before it unlocks.
  The mutex is a variable of \<open>myatomic_1.c\<close>: each process has its own, also when the counter is in memory the processes share. \<open>home\<close> gives the process of a
  thread.
\<close>

datatype mutex_pc = MIdle | MLock counter_op | MRead counter_op | MWrite counter_op "32 word" | MUnlock "32 word"

record ('p, 'q) mutex_counter =
  mc_ctr :: "32 word"
  mc_mutex :: "'q \<Rightarrow> 'p option"
  mc_pc :: "'p \<Rightarrow> mutex_pc"
  mc_log :: "(counter_op \<times> 32 word) list"

inductive mutex_step :: "('p \<Rightarrow> 'q) \<Rightarrow> ('p, 'q) mutex_counter \<Rightarrow> 'p \<Rightarrow> ('p, 'q) mutex_counter \<Rightarrow> bool" for home where
  call: "mc_pc s p = MIdle \<Longrightarrow> mutex_step home s p (s\<lparr>mc_pc := (mc_pc s)(p := MLock op)\<rparr>)"
| lock: "mc_pc s p = MLock op \<Longrightarrow> mc_mutex s (home p) = None \<Longrightarrow>
    mutex_step home s p (s\<lparr>mc_mutex := (mc_mutex s)(home p := Some p), mc_pc := (mc_pc s)(p := MRead op)\<rparr>)"
| read: "mc_pc s p = MRead op \<Longrightarrow> mutex_step home s p (s\<lparr>mc_pc := (mc_pc s)(p := MWrite op (apply_op op (mc_ctr s)))\<rparr>)"
| store: "mc_pc s p = MWrite op v \<Longrightarrow>
    mutex_step home s p (s\<lparr>mc_ctr := v, mc_log := mc_log s @ [(op, v)], mc_pc := (mc_pc s)(p := MUnlock v)\<rparr>)"
| unlock: "mc_pc s p = MUnlock v \<Longrightarrow>
    mutex_step home s p (s\<lparr>mc_mutex := (mc_mutex s)(home p := None), mc_pc := (mc_pc s)(p := MIdle)\<rparr>)"

definition mutex_start :: "32 word \<Rightarrow> ('p, 'q) mutex_counter" where
  "mutex_start v = \<lparr>mc_ctr = v, mc_mutex = (\<lambda>_. None), mc_pc = (\<lambda>_. MIdle), mc_log = []\<rparr>"

text \<open>The threads of one process.\<close>

definition one_process :: "'p \<Rightarrow> unit" where
  "one_process p = ()"

fun inside_mutex :: "mutex_pc \<Rightarrow> bool" where
  "inside_mutex MIdle = False"
| "inside_mutex (MLock _) = False"
| "inside_mutex _ = True"

definition mutex_inv :: "('p, unit) mutex_counter \<Rightarrow> bool" where
  "mutex_inv s \<longleftrightarrow> (\<forall>p. inside_mutex (mc_pc s p) \<longrightarrow> mc_mutex s () = Some p) \<and>
     (\<forall>p op v. mc_pc s p = MWrite op v \<longrightarrow> v = apply_op op (mc_ctr s))"

lemma mutex_inv_step:
  assumes "mutex_inv s" and "mutex_step one_process s p s'"
  shows "mutex_inv s'"
  using assms(2)
proof cases
  case (store op v)
  have m: "mc_mutex s () = Some p" using assms(1) store by (auto simp: mutex_inv_def)
  have "mc_pc s q \<noteq> MWrite op' v'" if "q \<noteq> p" for q op' v'
  proof
    assume "mc_pc s q = MWrite op' v'"
    then have "mc_mutex s () = Some q" using assms(1) by (auto simp: mutex_inv_def)
    then show False using m that by simp
  qed
  then show ?thesis using assms(1) store by (auto simp: mutex_inv_def)
next
  case (unlock v)
  have "mc_mutex s () = Some p" using assms(1) unlock by (auto simp: mutex_inv_def)
  then show ?thesis using assms(1) unlock by (auto simp: mutex_inv_def)
qed (use assms(1) in \<open>auto simp: mutex_inv_def one_process_def\<close>)

interpretation mutex_counter: atomic_counter "mutex_step one_process" mutex_inv mc_ctr mc_log
proof
  fix s s' :: "('p, unit) mutex_counter" and p
  assume i: "mutex_inv s" and "mutex_step one_process s p s'"
  then show "mutex_inv s'" by (rule mutex_inv_step)
  show "mc_ctr s' = mc_ctr s \<and> mc_log s' = mc_log s \<or>
      (\<exists>op. mc_ctr s' = apply_op op (mc_ctr s) \<and> mc_log s' = mc_log s @ [(op, apply_op op (mc_ctr s))])"
    using \<open>mutex_step one_process s p s'\<close> i by cases (auto simp: mutex_inv_def)
qed

section \<open>One instruction\<close>

text \<open>On x86 the increment and the decrement are one locked instruction, the assignment one store.\<close>

record instr_counter =
  ic_ctr :: "32 word"
  ic_log :: "(counter_op \<times> 32 word) list"

inductive instr_step :: "instr_counter \<Rightarrow> 'p \<Rightarrow> instr_counter \<Rightarrow> bool" where
  set_instr: "instr_step s p (s\<lparr>ic_ctr := v, ic_log := ic_log s @ [(SetTo v, v)]\<rparr>)"
| incl: "instr_step s p (s\<lparr>ic_ctr := ic_ctr s + 1, ic_log := ic_log s @ [(AddTo 1, ic_ctr s + 1)]\<rparr>)"
| decl: "instr_step s p (s\<lparr>ic_ctr := ic_ctr s - 1, ic_log := ic_log s @ [(AddTo (-1), ic_ctr s - 1)]\<rparr>)"

interpretation instr_counter: atomic_counter instr_step "\<lambda>_. True" ic_ctr ic_log
proof
  fix s s' :: instr_counter and p :: 'p
  assume "instr_step s p s'"
  then show "ic_ctr s' = ic_ctr s \<and> ic_log s' = ic_log s \<or>
      (\<exists>op. ic_ctr s' = apply_op op (ic_ctr s) \<and> ic_log s' = ic_log s @ [(op, apply_op op (ic_ctr s))])"
    by cases (force intro: exI [where x = "SetTo _"] exI [where x = "AddTo _"])+
qed simp

section \<open>Load and conditional store\<close>

text \<open>
  \<open>gasneti_atomic_addandfetch_32\<close> on Alpha (\<open>ldl_l\<close>, \<open>stl_c\<close>) and on PowerPC (\<open>lwarx\<close>, \<open>stwcx.\<close>), with \<open>atomic_inc\<close>, \<open>atomic_dec\<close> and
  \<open>atomic_dec_and_test\<close> on top: the load reserves the word for the thread, any store to it ends all reservations, the
  conditional store fails without one and may fail with one. A failed store starts again.
\<close>

datatype llsc_pc = LIdle | LLoad "32 word" | LStore "32 word" "32 word"

record 'p llsc_counter =
  ll_ctr :: "32 word"
  ll_reserved :: "'p set"
  ll_pc :: "'p \<Rightarrow> llsc_pc"
  ll_log :: "(counter_op \<times> 32 word) list"

inductive llsc_step :: "'p llsc_counter \<Rightarrow> 'p \<Rightarrow> 'p llsc_counter \<Rightarrow> bool" where
  plain_set: "ll_pc s p = LIdle \<Longrightarrow>
    llsc_step s p (s\<lparr>ll_ctr := v, ll_reserved := {}, ll_log := ll_log s @ [(SetTo v, v)]\<rparr>)"
| add_call: "ll_pc s p = LIdle \<Longrightarrow> llsc_step s p (s\<lparr>ll_pc := (ll_pc s)(p := LLoad d)\<rparr>)"
| load_locked: "ll_pc s p = LLoad d \<Longrightarrow>
    llsc_step s p (s\<lparr>ll_reserved := insert p (ll_reserved s), ll_pc := (ll_pc s)(p := LStore d (ll_ctr s + d))\<rparr>)"
| store_ok: "ll_pc s p = LStore d v \<Longrightarrow> p \<in> ll_reserved s \<Longrightarrow>
    llsc_step s p (s\<lparr>ll_ctr := v, ll_reserved := {}, ll_pc := (ll_pc s)(p := LIdle), ll_log := ll_log s @ [(AddTo d, v)]\<rparr>)"
| store_fails: "ll_pc s p = LStore d v \<Longrightarrow>
    llsc_step s p (s\<lparr>ll_reserved := ll_reserved s - {p}, ll_pc := (ll_pc s)(p := LLoad d)\<rparr>)"

definition llsc_start :: "32 word \<Rightarrow> 'p llsc_counter" where
  "llsc_start v = \<lparr>ll_ctr = v, ll_reserved = {}, ll_pc = (\<lambda>_. LIdle), ll_log = []\<rparr>"

definition llsc_inv :: "'p llsc_counter \<Rightarrow> bool" where
  "llsc_inv s \<longleftrightarrow> (\<forall>p \<in> ll_reserved s. \<exists>d. ll_pc s p = LStore d (ll_ctr s + d))"

interpretation llsc_counter: atomic_counter llsc_step llsc_inv ll_ctr ll_log
proof
  fix s s' :: "'p llsc_counter" and p
  assume i: "llsc_inv s" and st: "llsc_step s p s'"
  show "llsc_inv s'" using st i by cases (auto simp: llsc_inv_def)
  show "ll_ctr s' = ll_ctr s \<and> ll_log s' = ll_log s \<or>
      (\<exists>op. ll_ctr s' = apply_op op (ll_ctr s) \<and> ll_log s' = ll_log s @ [(op, apply_op op (ll_ctr s))])"
    using st
  proof cases
    case (plain_set v)
    then show ?thesis by (intro disjI2 exI [of _ "SetTo v"]) simp
  next
    case (store_ok d v)
    then have "v = ll_ctr s + d" using i by (auto simp: llsc_inv_def)
    then show ?thesis using store_ok by (intro disjI2 exI [of _ "AddTo d"]) simp
  qed auto
qed

section \<open>Compare and swap\<close>

text \<open>
  \<open>gasneti_cmpxchg\<close> for Itanium. The old value goes sign-extended to the 64-bit register that
  \<open>cmpxchg4\<close> compares with the zero-extended word of memory; the word found is the result.
\<close>

definition gasneti_cmpxchg :: "32 word \<Rightarrow> 32 word \<Rightarrow> 32 word \<Rightarrow> 32 word \<times> 32 word" where
  "gasneti_cmpxchg mem oldval newval =
     (let ccv = (scast oldval :: 64 word) in (mem, if (ucast mem :: 64 word) = ccv then newval else mem))"

datatype cas_pc = CIdle | CLoad "32 word" | CSwap "32 word" "32 word"

record 'p cas_counter =
  cc_ctr :: "32 word"
  cc_pc :: "'p \<Rightarrow> cas_pc"
  cc_log :: "(counter_op \<times> 32 word) list"

text \<open>The loop reads, swaps, and starts again unless the result is what it has read.\<close>

inductive cas_step :: "'p cas_counter \<Rightarrow> 'p \<Rightarrow> 'p cas_counter \<Rightarrow> bool" where
  plain_store: "cc_pc s p = CIdle \<Longrightarrow> cas_step s p (s\<lparr>cc_ctr := v, cc_log := cc_log s @ [(SetTo v, v)]\<rparr>)"
| add_start: "cc_pc s p = CIdle \<Longrightarrow> cas_step s p (s\<lparr>cc_pc := (cc_pc s)(p := CLoad d)\<rparr>)"
| old_read: "cc_pc s p = CLoad d \<Longrightarrow> cas_step s p (s\<lparr>cc_pc := (cc_pc s)(p := CSwap d (cc_ctr s))\<rparr>)"
| swap: "cc_pc s p = CSwap d c \<Longrightarrow> gasneti_cmpxchg (cc_ctr s) c (c + d) = (r, m) \<Longrightarrow>
    cas_step s p (if r = c then s\<lparr>cc_ctr := m, cc_pc := (cc_pc s)(p := CIdle), cc_log := cc_log s @ [(AddTo d, c + d)]\<rparr>
      else s\<lparr>cc_ctr := m, cc_pc := (cc_pc s)(p := CLoad d)\<rparr>)"

definition cas_start :: "32 word \<Rightarrow> 'p cas_counter" where
  "cas_start v = \<lparr>cc_ctr = v, cc_pc = (\<lambda>_. CIdle), cc_log = []\<rparr>"

text \<open>The old value and the word of memory as the instruction compares them.\<close>

lemma sint_cases: "sint (v :: 32 word) = uint v \<or> sint v = uint v - 2 ^ 32"
proof -
  have u: "uint v < 2 ^ 32" using uint_lt2p [of v] by simp
  have t: "take_bit 32 (uint v) = uint v" unfolding take_bit_eq_mod by (rule mod_pos_pos_trivial) (use u in simp_all)
  have "sint v = take_bit 32 (uint v) - 2 ^ 32 * of_bool (bit (uint v) 31)"
    unfolding sint_uint using signed_take_bit_eq_take_bit_minus [of 31 "uint v"] by simp
  then show ?thesis unfolding t by (cases "bit (uint v) 31") simp_all
qed

lemma uint_extended: "uint (ucast (w :: 32 word) :: 64 word) = uint w" "uint (scast w :: 64 word) = sint w mod 2 ^ 64"
proof -
  have "uint w < 2 ^ 64" using uint_lt2p [of w] by simp
  then show "uint (ucast w :: 64 word) = uint w" unfolding ucast_eq uint_word_of_int by (intro mod_pos_pos_trivial) simp_all
  show "uint (scast w :: 64 word) = sint w mod 2 ^ 64" unfolding scast_eq uint_word_of_int by simp
qed

lemma extended_equal: "((ucast (w :: 32 word) :: 64 word) = scast v) = (0 \<le> sint v \<and> w = v)"
proof -
  have b: "- (2 ^ 31) \<le> sint v" "sint v < 2 ^ 31" "uint w < 2 ^ 32" "0 \<le> uint w" "uint v < 2 ^ 32" "0 \<le> uint v"
    using sint_ge [of v] sint_lt [of v] uint_lt2p [of w] uint_lt2p [of v] by simp_all
  have e: "((ucast w :: 64 word) = scast v) = (uint w = sint v mod 2 ^ 64)"
    by (simp only: word_uint_eq_iff uint_extended)
  show ?thesis
  proof (cases "0 \<le> sint v")
    case True
    then have "sint v mod 2 ^ 64 = sint v" using b by (intro mod_pos_pos_trivial) simp_all
    moreover have "sint v = uint v" using sint_cases [of v] True b by auto
    ultimately show ?thesis using True e by (simp add: word_uint_eq_iff)
  next
    case False
    have "sint v mod 2 ^ 64 = (sint v + 2 ^ 64) mod 2 ^ 64" by simp
    also have "\<dots> = sint v + 2 ^ 64" using False b by (intro mod_pos_pos_trivial) simp_all
    finally show ?thesis using False b e by simp
  qed
qed

lemma cmpxchg_result: "gasneti_cmpxchg mem oldval newval = (mem, if 0 \<le> sint oldval \<and> mem = oldval then newval else mem)"
  by (simp add: gasneti_cmpxchg_def Let_def extended_equal)

text \<open>While the counter does not become negative, the loop is atomic.\<close>

definition cas_step_nonneg :: "'p cas_counter \<Rightarrow> 'p \<Rightarrow> 'p cas_counter \<Rightarrow> bool" where
  "cas_step_nonneg s p s' \<longleftrightarrow> cas_step s p s' \<and> 0 \<le> sint (cc_ctr s')"

definition cas_inv :: "'p cas_counter \<Rightarrow> bool" where
  "cas_inv s \<longleftrightarrow> 0 \<le> sint (cc_ctr s) \<and> (\<forall>p d c. cc_pc s p = CSwap d c \<longrightarrow> 0 \<le> sint c)"

interpretation cas_counter: atomic_counter cas_step_nonneg cas_inv cc_ctr cc_log
proof
  fix s s' :: "'p cas_counter" and p
  assume i: "cas_inv s" and "cas_step_nonneg s p s'"
  then have st: "cas_step s p s'" and n: "0 \<le> sint (cc_ctr s')" by (simp_all add: cas_step_nonneg_def)
  show "cas_inv s'" using st n i by cases (auto simp: cas_inv_def split: if_splits)
  show "cc_ctr s' = cc_ctr s \<and> cc_log s' = cc_log s \<or>
      (\<exists>op. cc_ctr s' = apply_op op (cc_ctr s) \<and> cc_log s' = cc_log s @ [(op, apply_op op (cc_ctr s))])"
    using st
  proof cases
    case (plain_store v)
    then show ?thesis by (intro disjI2 exI [of _ "SetTo v"]) simp
  next
    case (swap d c r m)
    then have c: "0 \<le> sint c" using i by (auto simp: cas_inv_def)
    show ?thesis
    proof (cases "r = c")
      case True
      then show ?thesis using swap c by (intro disjI2 exI [of _ "AddTo d"]) (auto simp: cmpxchg_result)
    next
      case False
      then show ?thesis using swap c by (auto simp: cmpxchg_result)
    qed
  qed auto
qed

text \<open>
  C15. The counters are atomic. Whatever the threads do and in whatever order their steps come, the value of a counter is explained by
  the operations that have returned, one after the other, each with the result it returned: with the mutex for the threads of one process, with the
  conditional store, and with the compare-and-swap as long as the counter is not negative.
\<close>

theorem counters_explained:
  assumes "runs (mutex_step one_process) (mutex_start v) ps s" and "runs llsc_step (llsc_start v) qs t"
    and "runs cas_step_nonneg (cas_start v) rs u" and "0 \<le> sint v"
  shows "replay v (mc_log s) = Some (mc_ctr s) \<and> replay v (ll_log t) = Some (ll_ctr t) \<and> replay v (cc_log u) = Some (cc_ctr u)"
proof (intro conjI)
  show "replay v (mc_log s) = Some (mc_ctr s)"
    by (rule mutex_counter.explained [OF assms(1)]) (simp_all add: mutex_start_def mutex_inv_def)
  show "replay v (ll_log t) = Some (ll_ctr t)"
    by (rule llsc_counter.explained [OF assms(2)]) (simp_all add: llsc_start_def llsc_inv_def)
  show "replay v (cc_log u) = Some (cc_ctr u)"
    by (rule cas_counter.explained [OF assms(3)]) (simp_all add: cas_start_def cas_inv_def assms(4))
qed

text \<open>An increment from 5 on each machine, alone.\<close>

lemma runs3: "step s p s1 \<Longrightarrow> step s1 p s2 \<Longrightarrow> step s2 p s3 \<Longrightarrow> runs step s [p, p, p] s3"
  using next_step [of step s "[p, p]" s2 p s3] next_step [of step s "[p]" s1 p s2] next_step [of step s "[]" s p s1] stop [of step s] by simp

lemma runs4: "step s p s1 \<Longrightarrow> step s1 p s2 \<Longrightarrow> step s2 p s3 \<Longrightarrow> step s3 p s4 \<Longrightarrow> runs step s [p, p, p, p] s4"
  using next_step [of step s "[p, p, p]" s3 p s4] runs3 [of step s p s1 s2 s3] by simp

lemma mutex_sample: "\<exists>s. runs (mutex_step home) (mutex_start 5) [p, p, p, p] s \<and> mc_log s = [(AddTo 1, 6)]"
proof -
  let ?pc = "\<lambda>x s. s\<lparr>mc_pc := (mc_pc s)(p := x)\<rparr>"
  let ?s1 = "?pc (MLock (AddTo 1)) (mutex_start 5)"
  let ?s2 = "?pc (MRead (AddTo 1)) (?s1\<lparr>mc_mutex := (\<lambda>_. None)(home p := Some p)\<rparr>)"
  let ?s3 = "?pc (MWrite (AddTo 1) 6) ?s2"
  let ?s4 = "?pc (MUnlock 6) (?s3\<lparr>mc_ctr := 6, mc_log := [(AddTo 1, 6)]\<rparr>)"
  have 1: "mutex_step home (mutex_start 5) p ?s1" by (rule call) (simp add: mutex_start_def)
  have 2: "mutex_step home ?s1 p ?s2" using lock [of ?s1 p "AddTo 1" home] by (simp add: mutex_start_def)
  have 3: "mutex_step home ?s2 p ?s3" using read [of ?s2 p "AddTo 1" home] by (simp add: mutex_start_def)
  have 4: "mutex_step home ?s3 p ?s4" using store [of ?s3 p "AddTo 1" 6 home] by (simp add: mutex_start_def)
  have "runs (mutex_step home) (mutex_start 5) [p, p, p, p] ?s4" by (rule runs4 [where step = "mutex_step home", OF 1 2 3 4])
  then show ?thesis by (intro exI [of _ ?s4]) (simp add: mutex_start_def)
qed

lemma llsc_sample: "\<exists>s. runs llsc_step (llsc_start 5) [p, p, p] s \<and> ll_log s = [(AddTo 1, 6)]"
proof -
  let ?pc = "\<lambda>x s. s\<lparr>ll_pc := (ll_pc s)(p := x)\<rparr>"
  let ?s1 = "?pc (LLoad 1) (llsc_start 5)"
  let ?s2 = "?pc (LStore 1 6) (?s1\<lparr>ll_reserved := {p}\<rparr>)"
  let ?s3 = "?pc LIdle (?s2\<lparr>ll_ctr := 6, ll_reserved := {}, ll_log := [(AddTo 1, 6)]\<rparr>)"
  have 1: "llsc_step (llsc_start 5) p ?s1" by (rule add_call) (simp add: llsc_start_def)
  have 2: "llsc_step ?s1 p ?s2" using load_locked [of ?s1 p 1] by (simp add: llsc_start_def)
  have 3: "llsc_step ?s2 p ?s3" using store_ok [of ?s2 p 1 6] by (simp add: llsc_start_def)
  have "runs llsc_step (llsc_start 5) [p, p, p] ?s3" by (rule runs3 [where step = llsc_step, OF 1 2 3])
  then show ?thesis by (intro exI [of _ ?s3]) (simp add: llsc_start_def)
qed

lemma cas_alone:
  "\<exists>s. runs cas_step (cas_start c) [p, p, p] s \<and> cc_ctr s = (if 0 \<le> sint c then c + d else c) \<and> cc_log s = [(AddTo d, c + d)] \<and>
    cc_pc s p = CIdle \<and> (0 \<le> sint c \<longrightarrow> 0 \<le> sint (c + d) \<longrightarrow> runs cas_step_nonneg (cas_start c) [p, p, p] s)"
proof -
  let ?m = "if 0 \<le> sint c then c + d else c"
  let ?pc = "\<lambda>x s. s\<lparr>cc_pc := (cc_pc s)(p := x)\<rparr>"
  let ?s0 = "cas_start c"
  let ?s1 = "?pc (CLoad d) ?s0"
  let ?s2 = "?pc (CSwap d c) ?s1"
  let ?s3 = "?s2\<lparr>cc_ctr := ?m, cc_pc := (cc_pc ?s2)(p := CIdle), cc_log := [(AddTo d, c + d)]\<rparr>"
  have 1: "cas_step ?s0 p ?s1" by (rule add_start) (simp add: cas_start_def)
  have 2: "cas_step ?s1 p ?s2" using old_read [of ?s1 p d] by (simp add: cas_start_def)
  have 3: "cas_step ?s2 p ?s3" using swap [of ?s2 p d c c ?m] by (simp add: cas_start_def cmpxchg_result)
  have r: "runs cas_step ?s0 [p, p, p] ?s3" by (rule runs3 [where step = cas_step, OF 1 2 3])
  have n: "runs cas_step_nonneg ?s0 [p, p, p] ?s3" if "0 \<le> sint c" "0 \<le> sint (c + d)"
  proof (rule runs3 [where step = cas_step_nonneg])
    show "cas_step_nonneg ?s0 p ?s1" using 1 that by (simp add: cas_step_nonneg_def cas_start_def)
    show "cas_step_nonneg ?s1 p ?s2" using 2 that by (simp add: cas_step_nonneg_def cas_start_def)
    show "cas_step_nonneg ?s2 p ?s3" using 3 that by (simp add: cas_step_nonneg_def)
  qed
  from r n show ?thesis by (intro exI [of _ ?s3]) (simp add: cas_start_def)
qed

theorem counters_explained_witness:
  "\<exists>s t u. runs (mutex_step one_process) (mutex_start 5) [0, 0, 0, 0] s \<and> runs llsc_step (llsc_start 5) [0, 0, 0] t \<and>
     runs cas_step_nonneg (cas_start 5) [0, 0, 0] u \<and> mc_log s = [(AddTo 1, 6)] \<and> replay 5 (mc_log s) = Some (mc_ctr (s :: (nat, unit) mutex_counter)) \<and>
     ll_log t = [(AddTo 1, 6)] \<and> replay 5 (ll_log t) = Some (ll_ctr (t :: nat llsc_counter)) \<and>
     cc_log u = [(AddTo 1, 6)] \<and> replay 5 (cc_log u) = Some (cc_ctr (u :: nat cas_counter))"
proof -
  have five: "0 \<le> sint (5 :: 32 word)" "0 \<le> sint (6 :: 32 word)" and six: "5 + 1 = (6 :: 32 word)" by simp_all
  obtain s where s: "runs (mutex_step one_process) (mutex_start 5) [0 :: nat, 0, 0, 0] s" "mc_log s = [(AddTo 1, 6)]" using mutex_sample [of one_process 0] by (elim exE conjE)
  obtain t where t: "runs llsc_step (llsc_start 5) [0 :: nat, 0, 0] t" "ll_log t = [(AddTo 1, 6)]" using llsc_sample [of 0] by (elim exE conjE)
  obtain u where u: "runs cas_step_nonneg (cas_start 5) [0 :: nat, 0, 0] u" "cc_log u = [(AddTo 1, 6)]"
    using cas_alone [of 5 "0 :: nat" 1] five unfolding six by blast
  note e = counters_explained [OF s(1) t(1) u(1) five(1)]
  show ?thesis by (intro exI conjI) (rule s(1) t(1) u(1) s(2) t(2) u(2) e [THEN conjunct1] e [THEN conjunct2, THEN conjunct1] e [THEN conjunct2, THEN conjunct2])+
qed

text \<open>
  On Itanium an increment of a negative counter gets lost: it returns as if it had been done, and the counter is
  what it was. The spin locks have negative counters as soon as two threads want the lock at the same time.
\<close>

lemma cas_loses_negative:
  "sint c < 0 \<Longrightarrow> \<exists>s. runs cas_step (cas_start c) [p, p, p] s \<and> cc_ctr s = c \<and> cc_log s = [(AddTo d, c + d)] \<and> cc_pc s p = CIdle"
  using cas_alone [of c p d] by auto

text \<open>
  Two processes with a counter in shared memory. Each locks its own mutex: both read 1, both store 0, both decrements find
  the counter at 0, so that two processes take the same \<open>tAtomicMutex\<close>.
\<close>

lemma runs_two: "runs step s ps s1 \<Longrightarrow> step s1 p s2 \<Longrightarrow> step s2 q s3 \<Longrightarrow> runs step s (ps @ [p, q]) s3"
  using next_step [of step s "ps @ [p]" s2 q s3] next_step [of step s ps s1 p s2] by simp

theorem two_processes_both_take:
  assumes "p \<noteq> q" and "home p \<noteq> home q"
  shows "\<exists>s. runs (mutex_step home) (mutex_start 1) [p, q, p, q, p, q, p, q] s \<and>
    mc_log s = [(AddTo (-1), 0), (AddTo (-1), 0)] \<and> mc_ctr s = 0 \<and> replay 1 (mc_log s) = None"
proof -
  let ?st = "mutex_step home"
  let ?s0 = "mutex_start 1"
  let ?mk = "\<lambda>m x y. ?s0\<lparr>mc_mutex := m, mc_pc := (\<lambda>_. MIdle)(p := x, q := y)\<rparr>"
  let ?d = "AddTo (-1)"
  let ?n = "\<lambda>_. None"
  let ?m1 = "?n(home p := Some p)"
  let ?m2 = "?n(home p := Some p, home q := Some q)"
  let ?b = "?mk ?m2 (MUnlock 0) (MWrite ?d 0)\<lparr>mc_ctr := 0, mc_log := [(?d, 0)]\<rparr>"
  let ?e = "?mk ?m2 (MUnlock 0) (MUnlock 0)\<lparr>mc_ctr := 0, mc_log := [(?d, 0), (?d, 0)]\<rparr>"
  note d = mutex_start_def assms assms [symmetric] fun_upd_twist [of q p]
  have 1: "?st ?s0 p (?mk ?n (MLock ?d) MIdle)" "?st (?mk ?n (MLock ?d) MIdle) q (?mk ?n (MLock ?d) (MLock ?d))"
    using call [of ?s0 p home ?d] call [of "?mk ?n (MLock ?d) MIdle" q home ?d] by (simp_all add: d fun_upd_idem)
  have 2: "?st (?mk ?n (MLock ?d) (MLock ?d)) p (?mk ?m1 (MRead ?d) (MLock ?d))"
    "?st (?mk ?m1 (MRead ?d) (MLock ?d)) q (?mk ?m2 (MRead ?d) (MRead ?d))"
    using lock [of "?mk ?n (MLock ?d) (MLock ?d)" p ?d home] lock [of "?mk ?m1 (MRead ?d) (MLock ?d)" q ?d home] by (simp_all add: d)
  have 3: "?st (?mk ?m2 (MRead ?d) (MRead ?d)) p (?mk ?m2 (MWrite ?d 0) (MRead ?d))"
    "?st (?mk ?m2 (MWrite ?d 0) (MRead ?d)) q (?mk ?m2 (MWrite ?d 0) (MWrite ?d 0))"
    using read [of "?mk ?m2 (MRead ?d) (MRead ?d)" p ?d home] read [of "?mk ?m2 (MWrite ?d 0) (MRead ?d)" q ?d home] by (simp_all add: d)
  have 4: "?st (?mk ?m2 (MWrite ?d 0) (MWrite ?d 0)) p ?b" "?st ?b q ?e"
    using store [of "?mk ?m2 (MWrite ?d 0) (MWrite ?d 0)" p ?d 0 home] store [of ?b q ?d 0 home] by (simp_all add: d)
  have "runs ?st ?s0 (((([] @ [p, q]) @ [p, q]) @ [p, q]) @ [p, q]) ?e"
    using runs_two [where step = ?st, OF _ 4] runs_two [where step = ?st, OF _ 3] runs_two [where step = ?st, OF _ 2]
      runs_two [where step = ?st, OF stop 1] by blast
  then show ?thesis by (intro exI [of _ ?e]) simp
qed

section \<open>The operations by platform\<close>

record 'w counter_ops =
  op_inc :: "'w \<Rightarrow> 'w"
  op_dec :: "'w \<Rightarrow> 'w"
  op_dec_and_test :: "'w \<Rightarrow> bool \<times> 'w"

text \<open>
  A built-in operation gives its result and the new value. \<open>long\<close> counters have 64 bits, the others 32. The x86 instruction sets its flag by the value it leaves.
\<close>

type_synonym 'w builtin = "'w \<Rightarrow> 'w \<times> 'w"

definition single_thread_ops :: "'n::len word counter_ops" where
  "single_thread_ops = \<lparr>op_inc = (\<lambda>c. c + 1), op_dec = (\<lambda>c. c - 1), op_dec_and_test = (\<lambda>c. (c - 1 = 0, c - 1))\<rparr>"

definition x86_ops :: "32 word counter_ops" where
  "x86_ops = \<lparr>op_inc = (\<lambda>c. c + 1), op_dec = (\<lambda>c. c - 1), op_dec_and_test = (\<lambda>c. let sete = (c - 1 = 0) in (sete, c - 1))\<rparr>"

definition icc_ops :: "32 word builtin \<Rightarrow> 32 word builtin \<Rightarrow> 32 word counter_ops" where
  "icc_ops InterlockedIncrement InterlockedDecrement =
     \<lparr>op_inc = (\<lambda>c. snd (InterlockedIncrement c)), op_dec = (\<lambda>c. snd (InterlockedDecrement c)),
       op_dec_and_test = (\<lambda>c. let (r, c') = InterlockedDecrement c in (r = 0, c'))\<rparr>"

definition freebsd_ops :: "(32 word \<Rightarrow> 32 word \<Rightarrow> 32 word) \<Rightarrow> (32 word \<Rightarrow> 32 word \<Rightarrow> 32 word) \<Rightarrow> 32 word counter_ops" where
  "freebsd_ops atomic_add_int atomic_subtract_int =
     \<lparr>op_inc = (\<lambda>c. atomic_add_int c 1), op_dec = (\<lambda>c. atomic_subtract_int c 1),
       op_dec_and_test = (\<lambda>c. let sete = (c - 1 = 0) in (sete, c - 1))\<rparr>"

definition cygwin_ops :: "32 word builtin \<Rightarrow> 32 word builtin \<Rightarrow> 32 word counter_ops" where
  "cygwin_ops InterlockedIncrement InterlockedDecrement =
     \<lparr>op_inc = (\<lambda>c. snd (InterlockedIncrement c)), op_dec = (\<lambda>c. snd (InterlockedDecrement c)),
       op_dec_and_test = (\<lambda>c. let (r, c') = InterlockedDecrement c in (r = 0, c'))\<rparr>"

definition aix_ops :: "(32 word \<Rightarrow> 32 word builtin) \<Rightarrow> 32 word counter_ops" where
  "aix_ops fetch_and_add =
     \<lparr>op_inc = (\<lambda>c. snd (fetch_and_add 1 c)), op_dec = (\<lambda>c. snd (fetch_and_add (-1) c)),
       op_dec_and_test = (\<lambda>c. let (r, c') = fetch_and_add (-1) c in (r = 1, c'))\<rparr>"

definition decc_ops :: "32 word builtin \<Rightarrow> 32 word builtin \<Rightarrow> 32 word counter_ops" where
  "decc_ops ATOMIC_INCREMENT_LONG ATOMIC_DECREMENT_LONG =
     \<lparr>op_inc = (\<lambda>c. snd (ATOMIC_INCREMENT_LONG c)), op_dec = (\<lambda>c. snd (ATOMIC_DECREMENT_LONG c)),
       op_dec_and_test = (\<lambda>c. let (r, c') = ATOMIC_DECREMENT_LONG c in (r = 1, c'))\<rparr>"

text \<open>The two loops above, run alone: Alpha and PowerPC, and Itanium.\<close>

definition addandfetch_ops :: "(32 word \<Rightarrow> 32 word builtin) \<Rightarrow> 32 word counter_ops" where
  "addandfetch_ops addandfetch_32 =
     \<lparr>op_inc = (\<lambda>c. snd (addandfetch_32 1 c)), op_dec = (\<lambda>c. snd (addandfetch_32 (-1) c)),
       op_dec_and_test = (\<lambda>c. let (r, c') = addandfetch_32 (-1) c in (r = 0, c'))\<rparr>"

definition llsc_addandfetch :: "32 word \<Rightarrow> 32 word builtin" where
  "llsc_addandfetch d c = (c + d, c + d)"

definition ia64_addandfetch :: "32 word \<Rightarrow> 32 word builtin" where
  "ia64_addandfetch d c = (let oldctr = c; newctr = oldctr + d; (r, c') = gasneti_cmpxchg c oldctr newctr in (newctr, c'))"

definition irix_ops :: "(32 word \<Rightarrow> 32 word builtin) \<Rightarrow> (32 word \<Rightarrow> 32 word builtin) \<Rightarrow> 32 word counter_ops" where
  "irix_ops test_then_add32 add_then_test32 =
     \<lparr>op_inc = (\<lambda>c. snd (test_then_add32 1 c)), op_dec = (\<lambda>c. snd (test_then_add32 (-1) c)),
       op_dec_and_test = (\<lambda>c. let (r, c') = add_then_test32 (-1) c in (r = 0, c'))\<rparr>"

definition crayx1_ops :: "(64 word \<Rightarrow> 64 word \<Rightarrow> 64 word) \<Rightarrow> (64 word \<Rightarrow> 64 word builtin) \<Rightarrow> 64 word counter_ops" where
  "crayx1_ops amo_aadd amo_afadd =
     \<lparr>op_inc = (\<lambda>c. amo_aadd c 1), op_dec = (\<lambda>c. amo_aadd c 1),
       op_dec_and_test = (\<lambda>c. let (r, c') = amo_afadd (-1) c in (r = 0, c'))\<rparr>"

definition sx_ops :: "(32 word \<Rightarrow> 32 word builtin) \<Rightarrow> 32 word counter_ops" where
  "sx_ops muadd =
     \<lparr>op_inc = (\<lambda>c. snd (muadd 1 c)), op_dec = (\<lambda>c. snd (muadd (-1) c)),
       op_dec_and_test = (\<lambda>c. let (r, c') = muadd (-1) c in (r = 0, c'))\<rparr>"

text \<open>Machine code on Mac OS: each routine is its load, its addition and its conditional store; the third also returns the sum.\<close>

definition xlc_ops :: "32 word counter_ops" where
  "xlc_ops = \<lparr>op_inc = (\<lambda>r3. let r2 = r3; r2 = r2 + 1 in r2), op_dec = (\<lambda>r3. let r2 = r3; r2 = r2 - 1 in r2),
     op_dec_and_test = (\<lambda>r3. let r2 = r3; r2 = r2 - 1 in (r2 = 0, r2))\<rparr>"

section \<open>The platforms agree\<close>

definition counts :: "'n::len word counter_ops \<Rightarrow> bool" where
  "counts ops \<longleftrightarrow> (\<forall>c. op_inc ops c = c + 1 \<and> op_dec ops c = c - 1 \<and> op_dec_and_test ops c = (c - 1 = 0, c - 1))"

definition returns_new :: "('n::len word) builtin \<Rightarrow> 'n word \<Rightarrow> bool" where
  "returns_new f d \<longleftrightarrow> (\<forall>c. f c = (c + d, c + d))"

definition returns_old :: "('n::len word) builtin \<Rightarrow> 'n word \<Rightarrow> bool" where
  "returns_old f d \<longleftrightarrow> (\<forall>c. f c = (c, c + d))"

named_theorems platform

lemmas [platform] = counts_def returns_new_def returns_old_def Let_def

lemma plain_platforms: "counts single_thread_ops" "counts x86_ops" "counts xlc_ops" "counts (addandfetch_ops llsc_addandfetch)"
  by (simp_all add: platform single_thread_ops_def x86_ops_def xlc_ops_def addandfetch_ops_def llsc_addandfetch_def)

lemma new_value_platforms:
  assumes "returns_new inc 1" and "returns_new dec (-1)"
  shows "counts (icc_ops inc dec)" "counts (cygwin_ops inc dec)"
  using assms by (simp_all add: platform icc_ops_def cygwin_ops_def)

lemma old_value_platforms:
  assumes "returns_old (add 1) 1" and "returns_old (add (-1)) (-1)"
  shows "counts (aix_ops add)" "counts (decc_ops (add 1) (add (-1)))"
  using assms by (simp_all add: platform aix_ops_def decc_ops_def)

text \<open>Only for a counter that is not negative is Itanium's loop an addition.\<close>

lemma ia64_alone: "ia64_addandfetch d c = (c + d, if 0 \<le> sint c then c + d else c)"
  by (simp add: ia64_addandfetch_def Let_def cmpxchg_result)

text \<open>On the Cray X1 \<open>atomic_dec\<close> counts up.\<close>

lemma crayx1_dec_counts_up: "(\<And>c d. amo_aadd c d = c + d) \<Longrightarrow> op_dec (crayx1_ops amo_aadd amo_afadd) c = c + 1"
  by (simp add: crayx1_ops_def)

section \<open>Which one is compiled\<close>

text \<open>The conditions of the header on the macros that are defined.\<close>

datatype atomic_branch = Hsl_lock | Pthread_lock | Single_thread | Icc_ia64 | X86_asm | Ia64_asm | Linux_header | Freebsd | Cygwin | Aix |
  Decc | Osf_gnuc | Osf_none | Irix | Crayx1 | Sx | Mac_xlc | Mac_gcc | No_platform

definition use_generic :: "(string \<Rightarrow> bool) \<Rightarrow> bool" where
  "use_generic def =
     (def ''SOLARIS'' \<or> def ''AIX'' \<or> def ''CRAYT3E'' \<or> def ''_SX'' \<or> def ''HPUX'' \<or> def ''__crayx1'' \<or>
      def ''__PGI'' \<and> def ''BROKEN_LINUX_ASM_ATOMIC_H'' \<or> def ''OSF'' \<and> \<not> def ''__DECC'' \<and> \<not> def ''__GNUC__'')"

definition atomic_branch :: "(string \<Rightarrow> bool) \<Rightarrow> atomic_branch" where
  "atomic_branch def =
     (if use_generic def then
        if def ''_INCLUDED_GASNET_H'' then Hsl_lock
        else if def ''_REENTRANT'' \<or> def ''_THREAD_SAFE'' \<or> def ''PTHREAD_MUTEX_INITIALIZER'' \<or> def ''HAVE_PTHREAD'' \<or> def ''HAVE_PTHREAD_H''
        then Pthread_lock
        else Single_thread
      else if def ''LINUX'' \<and> def ''__INTEL_COMPILER'' \<and> def ''__ia64__'' then Icc_ia64
      else if def ''LINUX'' then
        if def ''BROKEN_LINUX_ASM_ATOMIC_H'' \<or> \<not> def ''GASNETI_UNI_BUILD'' \<and> \<not> def ''CONFIG_SMP'' then
          if def ''__i386__'' \<or> def ''__x86_64__'' then X86_asm else if def ''__ia64__'' then Ia64_asm else No_platform
        else Linux_header
      else if def ''FREEBSD'' then if def ''__i386__'' then Freebsd else No_platform
      else if def ''CYGWIN'' then Cygwin
      else if def ''AIX'' then Aix
      else if def ''OSF'' then if def ''__DECC'' then Decc else if def ''__GNUC__'' then Osf_gnuc else Osf_none
      else if def ''IRIX'' then Irix
      else if def ''__crayx1'' then Crayx1
      else if def ''_SX'' then Sx
      else if def ''__APPLE__'' \<and> def ''__MACH__'' \<and> def ''__ppc__'' then if def ''__xlC__'' then Mac_xlc else Mac_gcc
      else No_platform)"

text \<open>The flags of the makefile.\<close>

definition makefile_flags :: "string \<Rightarrow> bool" where
  "makefile_flags m = (m = ''_THREAD_SAFE'' \<or> m = ''AIX'')"

lemma makefile_branch: "atomic_branch (\<lambda>m. makefile_flags m \<or> m \<in> compiler) \<in> {Hsl_lock, Pthread_lock}"
  by (simp add: atomic_branch_def use_generic_def makefile_flags_def)

text \<open>Three branches are never compiled, the first condition covers their platforms.\<close>

lemma dead_branches: "atomic_branch def \<notin> {Aix, Crayx1, Sx, Osf_none}"
proof (cases "use_generic def")
  case True
  then show ?thesis by (simp add: atomic_branch_def)
next
  case False
  then have "\<not> def ''AIX''" "\<not> def ''__crayx1''" "\<not> def ''_SX''" and osf: "def ''OSF'' \<Longrightarrow> \<not> def ''__DECC'' \<Longrightarrow> def ''__GNUC__''"
    by (unfold use_generic_def) blast+
  then show ?thesis using False osf by (simp add: atomic_branch_def)
qed

end
