(* ===== verification/Signals.thy ===== *)
theory Signals
  imports Support Task_Loop
begin

text \<open>
  Signals and messages: \<open>setsignal\<close> and \<open>sigcatch\<close> of \<open>schedule.c\<close>, which the scheduler and every task process call when they
  start, \<open>setsignalhandler\<close>, \<open>Alarm\<close>, \<open>debugprint\<close> and the conversions of times of \<open>frame_utils.c\<close>. What a signal does to a process is
  a function on its dispositions.
\<close>

section \<open>Dispositions\<close>

datatype signal = SIGINT | SIGCHLD | SIGILL | SIGFPE | SIGSEGV | SIGTERM | SIGALRM | SIGPIPE | SIGABRT | OtherSignal int

datatype disposition = SIG_DFL | SIG_IGN | SigCatch | OtherHandler nat

record process =
  sig_disp :: "signal \<Rightarrow> disposition"
  sig_log :: "cstring list"
  ended :: bool

definition set_signal :: "signal \<Rightarrow> disposition \<Rightarrow> process \<Rightarrow> process" where
  "set_signal s d p = p\<lparr>sig_disp := (sig_disp p)(s := d)\<rparr>"

definition setsignal :: "process \<Rightarrow> process" where
  "setsignal p =
     fold (\<lambda>(s, d). set_signal s d)
       [(SIGINT, SigCatch), (SIGCHLD, SIG_IGN), (SIGILL, SigCatch), (SIGFPE, SigCatch), (SIGSEGV, SigCatch), (SIGTERM, SigCatch),
        (SIGALRM, SigCatch), (SIGPIPE, SigCatch), (SIGABRT, SigCatch)] p"

text \<open>The old disposition, or nothing when \<open>sigaction\<close> fails; \<open>sa_flags\<close> is left as it is on the stack.\<close>

definition setsignalhandler :: "bool \<Rightarrow> signal \<Rightarrow> disposition \<Rightarrow> process \<Rightarrow> disposition option \<times> process" where
  "setsignalhandler ok s d p = (if ok then (Some (sig_disp p s), set_signal s d p) else (None, p))"

text \<open>The handler: a line in the log, and the signal is ignored from then on. \<open>num\<close> is the number of a signal.\<close>

fun signal_name :: "(signal \<Rightarrow> int) \<Rightarrow> signal \<Rightarrow> cstring" where
  "signal_name num SIGINT = ''SIGINT''"
| "signal_name num SIGILL = ''SIGILL''"
| "signal_name num SIGFPE = ''SIGFPE''"
| "signal_name num SIGSEGV = ''SIGSEGV''"
| "signal_name num SIGTERM = ''SIGTERM''"
| "signal_name num SIGALRM = ''SIGALRM''"
| "signal_name num SIGPIPE = ''SIGPIPE''"
| "signal_name num SIGABRT = ''SIGABRT''"
| "signal_name num s = show_int (num s)"

text \<open>The working directory, or whether its name is too long for the buffer of 256 bytes.\<close>

datatype cwd_result = Cwd cstring | TooLong | CwdError

fun cwd_text :: "cwd_result \<Rightarrow> cstring" where
  "cwd_text (Cwd d) = d"
| "cwd_text TooLong = ''<too long>''"
| "cwd_text CwdError = ''???''"

record sig_env =
  sg_num :: "signal \<Rightarrow> int"
  sg_pid :: int
  sg_cwd :: cwd_result
  sg_default_ends :: "signal \<Rightarrow> bool"

definition sigcatch :: "sig_env \<Rightarrow> signal \<Rightarrow> process \<Rightarrow> process" where
  "sigcatch env s p =
     set_signal s SIG_IGN
       (p\<lparr>sig_log := sig_log p @ [''pid:'' @ show_int (sg_pid env) @ '' catch signal:'' @ signal_name (sg_num env) s @ ''('' @
          show_int (sg_num env s) @ ''),child dir:'' @ cwd_text (sg_cwd env) @ '' process exit.'']\<rparr>)"

text \<open>A signal sent to the process, by \<open>kill\<close> for one. Handlers of other code are not followed.\<close>

definition deliver :: "sig_env \<Rightarrow> signal \<Rightarrow> process \<Rightarrow> process" where
  "deliver env s p =
     (if ended p then p
      else case sig_disp p s of
             SIG_DFL \<Rightarrow> if sg_default_ends env s then p\<lparr>ended := True\<rparr> else p
           | SIG_IGN \<Rightarrow> p
           | SigCatch \<Rightarrow> sigcatch env s p
           | OtherHandler n \<Rightarrow> p)"

definition caught :: "signal set" where
  "caught = {SIGINT, SIGILL, SIGFPE, SIGSEGV, SIGTERM, SIGALRM, SIGPIPE, SIGABRT}"

lemma setsignal_disp:
  "sig_disp (setsignal p) s = (if s \<in> caught then SigCatch else if s = SIGCHLD then SIG_IGN else sig_disp p s)"
  "sig_log (setsignal p) = sig_log p" "ended (setsignal p) = ended p"
  by (simp_all add: setsignal_def set_signal_def caught_def)

section \<open>What signals do to the processes\<close>

text \<open>
  After \<open>setsignal\<close>, signals do not end a process, whatever the log says: the first of each kind writes \<open>process exit.\<close> and
  returns, all others of the kind are ignored.
\<close>

lemma deliver_armed:
  assumes "\<not> ended p" and "\<forall>s \<in> caught. sig_disp p s = (if s \<in> gone then SIG_IGN else SigCatch)" and "sig_disp p SIGCHLD = SIG_IGN"
    and "set ss \<subseteq> insert SIGCHLD caught" and "finite gone"
  shows "\<not> ended (fold (deliver env) ss p) \<and>
    length (sig_log (fold (deliver env) ss p)) = length (sig_log p) + card (set ss \<inter> caught - gone)"
  using assms
proof (induction ss arbitrary: p gone)
  case (Cons s ss)
  show ?case
  proof (cases "s \<in> caught \<and> s \<notin> gone")
    case True
    then have d: "deliver env s p = sigcatch env s p" using Cons.prems(1,2) by (simp add: deliver_def)
    have n: "s \<noteq> SIGCHLD" using True by (auto simp: caught_def)
    have "\<not> ended (fold (deliver env) ss (sigcatch env s p)) \<and>
        length (sig_log (fold (deliver env) ss (sigcatch env s p))) =
          length (sig_log (sigcatch env s p)) + card (set ss \<inter> caught - insert s gone)"
      by (rule Cons.IH) (use Cons.prems n in \<open>auto simp: sigcatch_def set_signal_def\<close>)
    moreover have "set (s # ss) \<inter> caught - gone = insert s (set ss \<inter> caught - insert s gone)" using True by auto
    ultimately show ?thesis using d by (simp add: sigcatch_def set_signal_def)
  next
    case False
    then have "sig_disp p s = SIG_IGN" using Cons.prems(2-4) by auto
    then have d: "deliver env s p = p" by (simp add: deliver_def)
    have "set (s # ss) \<inter> caught - gone = set ss \<inter> caught - gone" using False by auto
    then show ?thesis using Cons.IH [of p gone] Cons.prems d by simp
  qed
qed simp

theorem signals_do_not_end:
  assumes "\<not> ended p" and "set ss \<subseteq> insert SIGCHLD caught"
  shows "\<not> ended (fold (deliver env) ss (setsignal p)) \<and>
    length (sig_log (fold (deliver env) ss (setsignal p))) = length (sig_log p) + card (set ss \<inter> caught)"
proof -
  have "SIGCHLD \<notin> caught" by (simp add: caught_def)
  then show ?thesis
    using deliver_armed [of "setsignal p" "{}" ss env] assms by (simp add: setsignal_disp)
qed

text \<open>
  A task with a script fails. With \<open>SIGCHLD\<close> ignored, as \<open>setsignal\<close> leaves it in every task process, \<open>system\<close> cannot wait for its child
  and returns -1 when the script has run, as POSIX says; the task then reports a failure whatever it has transferred.
\<close>

lemma script_reports_failure:
  assumes "\<And>disp cmd. disp SIGCHLD = SIG_IGN \<Longrightarrow> system_call disp cmd = (-1 :: int)"
    and "te_system env = (system_call (sig_disp (setsignal p)) (sh_file it) \<noteq> -1)" and "sh_file it \<noteq> ''NO''"
  shows "fst (task_finish env it ok) = 0"
proof -
  have "SIGCHLD \<notin> caught" by (simp add: caught_def)
  then have "\<not> te_system env" using assms(1,2) by (simp add: setsignal_disp)
  then show ?thesis using assms(3) by (simp add: task_finish_def)
qed

section \<open>Alarms and messages\<close>

text \<open>
  \<open>Alarm\<close>: the parent returns 0, the child runs the command in the directory. \<^const>\<open>None\<close> when the command does not fit its buffer.
\<close>

definition alarm_dir :: cstring where
  "alarm_dir = ''/home/oracle/program/alarm/command''"

definition Alarm :: "int \<Rightarrow> cstring \<Rightarrow> cstring \<Rightarrow> (int \<times> cstring \<times> cstring) option" where
  "Alarm ty mdl msg =
     (let cmd = ''./'' @ ''demo'' @ '' '' @ mdl @ '' '' @ show_int 2 @ '' '' @ show_int ty @ '' '' @ [CHR 0x22] @ msg @ [CHR 0x22]
      in if length cmd < 1024 then Some (0, alarm_dir, cmd) else None)"

text \<open>\<open>debugprint\<close> writes every message to the log, whatever its relevance.\<close>

definition debugprint :: "char \<Rightarrow> cstring \<Rightarrow> cstring \<Rightarrow> cstring" where
  "debugprint relevance subject func = ''['' @ func @ '']: '' @ subject"

definition debugprintunix :: "(int \<Rightarrow> cstring) \<Rightarrow> int \<Rightarrow> char \<Rightarrow> cstring \<Rightarrow> cstring \<Rightarrow> cstring" where
  "debugprintunix strerror errno relevance subject func =
     debugprint relevance (subject @ '': errno('' @ int2str errno @ ''): '' @ strerror errno) func"

section \<open>Times as text\<close>

text \<open>\<open>strftime\<close>, \<open>strptime\<close> and \<open>mktime\<close> are the library's; a result that does not fit is not copied.\<close>

definition time2str :: "(cstring \<Rightarrow> time_t \<Rightarrow> cstring) \<Rightarrow> time_t \<Rightarrow> cstring \<Rightarrow> cstring" where
  "time2str strftime t fmt = (if t \<le> 0 then [] else let s = strftime fmt t in if length s < 32 then s else [])"

definition str2time :: "(cstring \<Rightarrow> time_t) \<Rightarrow> cstring option \<Rightarrow> time_t" where
  "str2time parse str = (case str of None \<Rightarrow> 0 | Some s \<Rightarrow> if s = [] \<or> hd s = CHR ''0'' then 0 else parse s)"

text \<open>The two are inverse on times after 1970, given that the library's are and the text does not begin with a zero.\<close>

lemma str2time_time2str:
  assumes "0 < t" and "length (strftime fmt t) < 32" and "strftime fmt t \<noteq> []" and "hd (strftime fmt t) \<noteq> CHR ''0''"
    and "parse (strftime fmt t) = t"
  shows "str2time parse (Some (time2str strftime t fmt)) = t"
  using assms by (simp add: str2time_def time2str_def Let_def)

end
