(* ===== verification/Shm_Debug.thy ===== *)
theory Shm_Debug
  imports Shm_Pool
begin

text \<open>
  What is left of \<open>frame_memory.c\<close> and \<open>frame_memory.h\<close>: the printers for debugging, constructors and destructors, iterators by key,
  the adapter \<open>tSTLAllocator\<close>, and the blocks that \<open>setmalloc\<close> takes from the pool. \<open>ptr\<close> prints an address, \<open>body\<close> is the text found in
  a block's data; both are arguments.
\<close>

section \<open>Addresses\<close>

text \<open>Pointers are addresses; the pool lies at \<open>base\<close>, 0 is the null pointer and the null offset.\<close>

definition abs2offset :: "nat \<Rightarrow> nat \<Rightarrow> nat" where
  "abs2offset base pointer = (if pointer = 0 then 0 else pointer - base)"

definition offset2abs :: "nat \<Rightarrow> nat \<Rightarrow> nat" where
  "offset2abs base offset = (if offset = 0 then 0 else base + offset)"

lemma abs2offset_offset2abs: "abs2offset base (offset2abs base off) = off"
  by (simp add: abs2offset_def offset2abs_def)

lemma offset2abs_abs2offset: "base < pointer \<Longrightarrow> offset2abs base (abs2offset base pointer) = pointer"
  by (simp add: abs2offset_def offset2abs_def)

text \<open>A \<open>tBlock\<close> made from a header or, without one, from its data, as offsets: header, data and size.\<close>

record t_block =
  tb_header :: nat
  tb_data :: nat
  tb_size :: nat

definition tblock :: "nat \<Rightarrow> nat \<Rightarrow> pool \<Rightarrow> t_block option" where
  "tblock hdr data p =
     (let header = (if data \<noteq> 0 \<and> hdr = 0 then data - hdr_size else hdr)
      in if header = 0 then Some \<lparr>tb_header = 0, tb_data = 0, tb_size = 0\<rparr>
         else map_option (\<lambda>h. \<lparr>tb_header = header, tb_data = header + hdr_size, tb_size = datasize h\<rparr>) (header_at p header))"

lemma tblock_of_data: "header_at p b = Some h \<Longrightarrow> tblock 0 (b + hdr_size) p = tblock b 0 p"
  by (auto simp: tblock_def header_at_def split: if_splits)

section \<open>Printing\<close>

text \<open>\<open>int2str\<close> takes an \<open>int\<close>: an offset or a key passes through 32 bits.\<close>

definition as_int :: "int \<Rightarrow> int" where
  "as_int n = (let t = n mod 2 ^ 32 in if t < 2 ^ 31 then t else t - 2 ^ 32)"

lemma as_int_small: "0 \<le> n \<Longrightarrow> n < 2 ^ 31 \<Longrightarrow> as_int n = n"
  by (simp add: as_int_def Let_def)

definition num2str :: "nat \<Rightarrow> cstring" where
  "num2str n = show_int (as_int (int n))"

text \<open>The remarks of \<open>getinfo\<close>. Where it means the size of a header it takes that of the offset, 8 bytes.\<close>

definition block_flags :: "pool \<Rightarrow> nat \<Rightarrow> block_header \<Rightarrow> cstring list" where
  "block_flags p b h =
     map snd (filter fst
       [(b = blocks_head p, '' head''), (b = blocks_tail p, '' tail''), (b = keys_head p, '' keys.head''),
        (b = keys_tail p, '' keys.tail''), (b = mem_start p, '' memstart''), (b + 8 + datasize h = mem_end p, '' memfit''),
        (b < mem_start p, '' BUFFER UNDERRUN''), (mem_end p < b + 8 + datasize h, '' BUFFER OVERRUN'')])"

definition getinfo :: "(nat \<Rightarrow> cstring) \<Rightarrow> nat \<Rightarrow> (nat \<Rightarrow> cstring) \<Rightarrow> pool \<Rightarrow> nat \<Rightarrow> cstring option" where
  "getinfo ptr base body p b =
     (if b = 0 then Some ''Block is NULL''
      else map_option (\<lambda>h.
        ''At '' @ num2str b @ '' = '' @ ptr (offset2abs base b) @ '': '' @
        ''previous '' @ num2str (mem_prev h) @ '' next '' @ num2str (mem_next h) @ '': '' @
        ''previous key '' @ num2str (key_prev h) @ '' next key '' @ num2str (key_next h) @ '': '' @
        '' key value '' @ show_int (as_int (blk_key h)) @ '' datasize '' @ num2str (datasize h) @
        '' body size '' @ num2str (datasize h) @ '' body buf '' @ body (b + hdr_size) @ concat (block_flags p b h))
        (header_at p b))"

text \<open>\<open>dumpmeminfo\<close>.\<close>

definition dumpmeminfo :: "(nat \<Rightarrow> cstring) \<Rightarrow> nat \<Rightarrow> pool \<Rightarrow> cstring" where
  "dumpmeminfo ptr base p =
     '' blocks.head '' @ num2str (blocks_head p) @ '' blocks.tail '' @ num2str (blocks_tail p) @
     '' keys.head '' @ num2str (keys_head p) @ '' keys.tail '' @ num2str (keys_tail p) @
     '': baseaddr '' @ ptr base @ '' blockmem ('' @ num2str (mem_start p) @ ''='' @ ptr (offset2abs base (mem_start p)) @ '' to '' @
     num2str (mem_end p) @ ''='' @ ptr (offset2abs base (mem_end p)) @ '')''"

text \<open>\<open>dumpblocks\<close>: the lines of the blocks, their number and their sizes together.\<close>

partial_function (option) dump_from ::
  "(nat \<Rightarrow> cstring) \<Rightarrow> nat \<Rightarrow> (nat \<Rightarrow> cstring) \<Rightarrow> pool \<Rightarrow> nat \<Rightarrow> (cstring list \<times> nat \<times> nat) option" where
  "dump_from ptr base body p cur =
     (if cur = mem_end p \<or> cur = 0 then Some ([], 0, 0)
      else Option.bind (getinfo ptr base body p cur) (\<lambda>i.
        Option.bind (header_at p cur) (\<lambda>h.
          Option.bind (dump_from ptr base body p (mem_next h)) (\<lambda>r.
            Some (i # fst r, Suc (fst (snd r)), datasize h + snd (snd r))))))"

declare dump_from.simps [code]

definition dumpblocks :: "(nat \<Rightarrow> cstring) \<Rightarrow> nat \<Rightarrow> (nat \<Rightarrow> cstring) \<Rightarrow> pool \<Rightarrow> cstring list option" where
  "dumpblocks ptr base body p =
     map_option (\<lambda>(ls, n, total).
       [''MemoryAllocator-Memory-Chain: membaseaddr '' @ ptr base @ '' blocks ('' @ num2str (blocks_head p) @ ''-'' @
          num2str (blocks_tail p) @ ''):''] @
       (if blocks_head p = 0 then [''Memory-Chain is empty''] else []) @ ls @
       [''==> '' @ num2str n @ '' blocks with '' @ num2str total @ '' bytes of data.''])
       (dump_from ptr base body p (blocks_head p))"

text \<open>\<open>dumpkeys\<close>: the blocks of the key chain, with a remark where the hint points.\<close>

partial_function (option) dump_keys_from ::
  "(nat \<Rightarrow> cstring) \<Rightarrow> nat \<Rightarrow> (nat \<Rightarrow> cstring) \<Rightarrow> nat \<times> nat \<Rightarrow> pool \<Rightarrow> nat \<Rightarrow> cstring list option" where
  "dump_keys_from ptr base body hint p cur =
     (if cur = 0 then Some []
      else Option.bind (getinfo ptr base body p cur) (\<lambda>i.
        Option.bind (header_at p cur) (\<lambda>h.
          Option.bind (dump_keys_from ptr base body hint p (key_next h)) (\<lambda>ls.
            Some ((i @ (if cur = fst hint then '' keyhint.first'' else []) @ (if cur = snd hint then '' keyhint.last'' else [])) # ls)))))"

declare dump_keys_from.simps [code]

definition dumpkeys :: "(nat \<Rightarrow> cstring) \<Rightarrow> nat \<Rightarrow> (nat \<Rightarrow> cstring) \<Rightarrow> nat \<times> nat \<Rightarrow> pool \<Rightarrow> cstring list option" where
  "dumpkeys ptr base body hint p =
     map_option (\<lambda>ls.
       [''MemoryAllocator-Key-Chain: membaseaddr '' @ ptr base @ '' keys ('' @ num2str (keys_head p) @ ''-'' @
          num2str (keys_tail p) @ ''):''] @
       (if keys_head p = 0 then [''Key-Chain is empty''] else []) @ ls)
       (dump_keys_from ptr base body hint p (keys_head p))"

text \<open>\<open>getmeminfo\<close>; \<open>percent\<close> prints the quotient of two numbers as a percentage with two digits.\<close>

definition setw :: "nat \<Rightarrow> cstring \<Rightarrow> cstring" where
  "setw n s = replicate (n - length s) SPC @ s"

definition getmeminfo :: "(nat \<Rightarrow> nat \<Rightarrow> cstring) \<Rightarrow> pool option \<Rightarrow> cstring" where
  "getmeminfo percent mp =
     (case mp of
        None \<Rightarrow> ''NULL''
      | Some p \<Rightarrow>
          ''total: '' @ setw 11 (show_int (int (mem_end p))) @ '' used: '' @ setw 11 (show_int (int (blocks_tail p))) @
          ''('' @ setw 5 (percent (blocks_tail p) (mem_end p)) @ ''%)'' @
          ''   free: '' @ setw 11 (show_int ((int (mem_end p) - int (blocks_tail p)) mod 2 ^ 64)) @ ''(byte)'' @ [CHR 0x00])"

section \<open>What the printers show\<close>

text \<open>On a pool in order both walks end, and print every block once, in the order of the chain.\<close>

lemma dump_from_chain:
  "chained mem_links (headers p) q bs (mem_end p) \<Longrightarrow> mem_end p \<notin> set bs \<Longrightarrow>
   dump_from ptr base body p (hd (bs @ [mem_end p])) =
     Some (map (\<lambda>b. the (getinfo ptr base body p b)) bs, length bs, sum_list (map (blk_size (headers p)) bs))"
proof (induction bs arbitrary: q)
  case Nil
  then show ?case by (subst dump_from.simps) simp
next
  case (Cons b bs)
  then obtain h where h: "headers p b = Some h" "mem_next h = hd (bs @ [mem_end p])" "b \<noteq> 0" by (auto simp: mem_links_def)
  have IH: "dump_from ptr base body p (mem_next h) =
      Some (map (\<lambda>b. the (getinfo ptr base body p b)) bs, length bs, sum_list (map (blk_size (headers p)) bs))"
    unfolding h(2) using Cons.IH [of b] Cons.prems by simp
  show ?case
    using h(1,3) Cons.prems(2) by (subst dump_from.simps) (simp add: header_at_def getinfo_def IH blk_size_def)
qed

theorem dumpblocks_prints:
  assumes "mem_ok p bs"
  shows "dumpblocks ptr base body p = Some
    ([''MemoryAllocator-Memory-Chain: membaseaddr '' @ ptr base @ '' blocks ('' @ num2str (blocks_head p) @ ''-'' @
        num2str (blocks_tail p) @ ''):''] @
     map (\<lambda>b. the (getinfo ptr base body p b)) bs @
     [''==> '' @ num2str (length bs) @ '' blocks with '' @ num2str (sum_list (map (blk_size (headers p)) bs)) @ '' bytes of data.''])"
proof -
  have e: "mem_end p \<notin> set bs"
    using assms spaced_ge [of "headers p" "mem_start p" bs "mem_end p" "mem_end p"] by (auto simp: mem_ok_def)
  have "blocks_head p = hd (bs @ [mem_end p])" using assms by (simp add: mem_ok_def)
  moreover have "hd (bs @ [mem_end p]) \<noteq> 0"
    using assms spaced_le [of "headers p" "mem_start p" bs "mem_end p"] by (cases bs) (auto simp: mem_ok_def)
  ultimately show ?thesis
    using dump_from_chain [of p 0 bs ptr base body] e assms by (simp add: dumpblocks_def mem_ok_def)
qed

lemma dump_keys_chain:
  "chained key_links (headers p) q ks 0 \<Longrightarrow>
   dump_keys_from ptr base body hint p (hd (ks @ [0])) =
     Some (map (\<lambda>b. the (getinfo ptr base body p b) @ (if b = fst hint then '' keyhint.first'' else []) @
       (if b = snd hint then '' keyhint.last'' else [])) ks)"
proof (induction ks arbitrary: q)
  case Nil
  then show ?case by (subst dump_keys_from.simps) simp
next
  case (Cons b ks)
  then obtain h where h: "headers p b = Some h" "key_next h = hd (ks @ [0])" "b \<noteq> 0" by (auto simp: key_links_def)
  have IH: "dump_keys_from ptr base body hint p (key_next h) =
      Some (map (\<lambda>b. the (getinfo ptr base body p b) @ (if b = fst hint then '' keyhint.first'' else []) @
       (if b = snd hint then '' keyhint.last'' else [])) ks)"
    unfolding h(2) using Cons.IH [of b] Cons.prems by simp
  show ?case using h(1,3) by (subst dump_keys_from.simps) (simp add: header_at_def getinfo_def IH)
qed

text \<open>
  The remark \<open>BUFFER OVERRUN\<close> misses blocks that end up to 40 bytes behind the memory, and a block that fits exactly is
  not said to.
\<close>

lemma overrun_missed:
  assumes "mem_end p < b + hdr_size + datasize h" and "b + 8 + datasize h \<le> mem_end p"
  shows "'' BUFFER OVERRUN'' \<notin> set (block_flags p b h)"
  using assms by (simp add: block_flags_def)

lemma exact_fit_not_said: "b + hdr_size + datasize h = mem_end p \<Longrightarrow> '' memfit'' \<notin> set (block_flags p b h)"
  by (simp add: block_flags_def)

text \<open>What is shown as used is where the last block begins: after one allocation, of whatever size, it is the pool's header.\<close>

lemma used_is_last_start:
  assumes "sz + hdr_size \<le> memsize" and "shm_malloc sz (pool_reset memsize) = Some (Block b, p)"
  shows "blocks_tail p = pool_header_size"
  using assms
  by (auto simp: shm_malloc_def malloc_place_def link_block_def pool_reset_def wait_value_def split: if_splits bind_splits)

section \<open>Making and deleting\<close>

text \<open>
  The constructor of the allocator: the master writes the identifier and resets the pool, any other process only checks it. The first
  component is whether it complains. The semaphore, which \<open>reset\<close> makes or finds in both cases, is that of \<open>Mutex_Classes\<close>.
\<close>

definition allocator_new :: "bool \<Rightarrow> nat \<Rightarrow> bool \<Rightarrow> pool \<Rightarrow> bool \<times> pool" where
  "allocator_new mst memsize ident_ok p = (if mst then (False, pool_reset memsize) else (\<not> ident_ok, p))"

text \<open>Deleting the segment and the allocator: the system calls. The semaphore goes first, whether others use it or not.\<close>

datatype close_call = RemoveSem | DetachSegment | RemoveSegment

definition segment_delete :: "bool \<Rightarrow> bool \<Rightarrow> close_call list" where
  "segment_delete mst attached = (if attached then DetachSegment # (if mst then [RemoveSegment] else []) else [])"

definition allocator_delete :: "bool \<Rightarrow> bool \<Rightarrow> close_call list" where
  "allocator_delete mst attached = (if attached then [RemoveSem] else []) @ segment_delete mst attached"

section \<open>Iterators by key\<close>

text \<open>
  \<open>begin\<close> and \<open>end\<close>: the block is looked up first, as the argument of the constructor, which then takes the semaphore.
\<close>

definition iterator_begin :: "int \<Rightarrow> bool \<Rightarrow> pool \<Rightarrow> (nat \<times> pool) option" where
  "iterator_begin key match p = do { b \<leftarrow> getfirst key match p; Some (b, p\<lparr>pool_sem := iter_lock (pool_sem p)\<rparr>) }"

definition iterator_end :: "int \<Rightarrow> bool \<Rightarrow> pool \<Rightarrow> (nat \<times> pool) option" where
  "iterator_end key match p = do { b \<leftarrow> getlast key match p; Some (b, p\<lparr>pool_sem := iter_lock (pool_sem p)\<rparr>) }"


section \<open>The adapter without a map\<close>

text \<open>
  \<open>tSTLAllocator\<close>: the number of bytes goes through the \<open>int\<close> parameter of \<open>malloc\<close>; the model of \<open>malloc\<close> has no
  negative sizes, \<^const>\<open>None\<close>. \<open>max_size\<close> is computed in 64 bits.
\<close>

definition adapter_max_size :: "nat \<Rightarrow> nat" where
  "adapter_max_size sz = (2 ^ 64 - 1) div sz"

definition adapter_allocate :: "nat \<Rightarrow> nat \<Rightarrow> pool \<Rightarrow> (alloc_result \<times> pool) option" where
  "adapter_allocate num sz p = (let n = as_int (int (num * sz)) in if n < 0 then None else shm_malloc (nat n) p)"

definition adapter_deallocate :: "nat \<Rightarrow> pool \<Rightarrow> pool option" where
  "adapter_deallocate data p = shm_free (data - hdr_size) p"

text \<open>Two adapters are equal when they have the same allocator, which a copy shares.\<close>

record adapter =
  ad_malloc :: nat

definition adapter_copy :: "adapter \<Rightarrow> adapter" where
  "adapter_copy a = \<lparr>ad_malloc = ad_malloc a\<rparr>"

definition adapters_equal :: "adapter \<Rightarrow> adapter \<Rightarrow> bool" where
  "adapters_equal a b = (ad_malloc a = ad_malloc b)"

lemma adapter_copy_equal: "adapters_equal (adapter_copy a) a"
  by (simp add: adapters_equal_def adapter_copy_def)

lemma adapter_roundtrip: "adapter_deallocate (b + hdr_size) p = shm_free b p"
  by (simp add: adapter_deallocate_def)

text \<open>Of four gigabytes nothing is left: the request succeeds with the null pointer.\<close>

lemma adapter_null:
  assumes "num * sz = 2 ^ 32" and "0 < sz"
  shows "num \<le> adapter_max_size sz \<and> adapter_allocate num sz p = Some (NullBlock, p)"
proof -
  have "num * sz \<le> 2 ^ 64 - 1" using assms(1) by simp
  then have "num \<le> (2 ^ 64 - 1) div sz" using assms(2) by (simp add: less_eq_div_iff_mult_less_eq)
  then show ?thesis using assms by (simp add: adapter_max_size_def adapter_allocate_def as_int_def Let_def shm_malloc_def)
qed

section \<open>The blocks of the map\<close>

text \<open>
  \<open>setmalloc\<close> with the pool. The first process allocates the pointer to the map, the map, and a node per entry, 15 or 16 of them; any
  later one changes its entry under the semaphore, and an entry that is not there yet needs a node, from the same pool.
  \<open>map_size\<close> and \<open>node_size\<close> are those of the library.
\<close>

fun mallocs :: "nat list \<Rightarrow> pool \<Rightarrow> (bool \<times> pool) option" where
  "mallocs [] p = Some (True, p)"
| "mallocs (sz # szs) p =
     do { (r, p1) \<leftarrow> shm_malloc sz p; if r = NoMemory then Some (False, p1) else mallocs szs p1 }"

definition setmalloc_pool :: "nat \<Rightarrow> nat \<Rightarrow> int \<Rightarrow> 'a \<Rightarrow> 'a alloc_map option \<Rightarrow> pool \<Rightarrow> (bool \<times> 'a alloc_map \<times> pool) option" where
  "setmalloc_pool map_size node_size i a cur p =
     (case cur of
        None \<Rightarrow> do {
          (ok, p1) \<leftarrow> mallocs ([8, map_size] @ replicate (if 0 \<le> i \<and> i < 15 then 15 else 16) node_size) p;
          Some (ok, setmalloc i a None, p1) }
      | Some m \<Rightarrow> do {
          (_, v) \<leftarrow> wait_value (-1) (pool_sem p);
          (ok, p1) \<leftarrow> (if m i = None then mallocs [node_size] (p\<lparr>pool_sem := v\<rparr>) else Some (True, p\<lparr>pool_sem := v\<rparr>));
          Some (ok, setmalloc i a (Some m), p1\<lparr>pool_sem := pool_sem p1 + 1\<rparr>) })"

text \<open>
  A process whose number is not in the map hangs in \<open>setmalloc\<close>, and with it the semaphore: the node for its entry is allocated while
  it holds the semaphore that \<open>malloc\<close> waits for. The map starts with the numbers 0 to 14 and that of the process
  that made it; \<open>start\<close> uses the program's id as its number. With a semaphore whose value \<open>malloc_key\<close> has raised, as it does by
  mistake, both get through.
\<close>

theorem new_number_hangs:
  assumes "pool_sem p \<le> 1" and "m i = None" and "0 < node_size"
  shows "setmalloc_pool map_size node_size i a (Some m) p = None"
  using assms by (auto simp: setmalloc_pool_def shm_malloc_def wait_value_def split: bind_splits if_splits)

lemma new_number_passes:
  assumes "2 \<le> pool_sem p" and "m i = None" and "shm_malloc node_size (p\<lparr>pool_sem := pool_sem p - 1\<rparr>) = Some (Block b, q)"
  shows "setmalloc_pool map_size node_size i a (Some m) p = Some (True, m(i \<mapsto> Some a), q\<lparr>pool_sem := pool_sem q + 1\<rparr>)"
  using assms by (simp add: setmalloc_pool_def wait_value_def setmalloc_def)

lemma start_after_tool_hangs:
  assumes "pool_sem p \<le> 1" and "0 < node_size" and "i < 0 \<or> 15 \<le> i"
  shows "setmalloc_pool map_size node_size i b (Some (setmalloc 10 a None)) p = None"
  by (rule new_number_hangs [OF assms(1) _ assms(2)]) (use assms(3) in \<open>auto simp: setmalloc_def\<close>)

section \<open>The adapter with the map\<close>

text \<open>
  \<open>tSTLShMemAllocator\<close>: the block with the pointer to the map of allocators, and whether this object made it. Only the maker
  deletes the map: its nodes, the map, and the pointer, each with \<open>free\<close>. A copy is never the maker.
\<close>

record shared_adapter =
  sa_map :: "nat option"
  sa_master :: bool

definition shared_adapter_new :: shared_adapter where
  "shared_adapter_new = \<lparr>sa_map = None, sa_master = False\<rparr>"

definition shared_adapter_copy :: "shared_adapter \<Rightarrow> shared_adapter" where
  "shared_adapter_copy a = \<lparr>sa_map = sa_map a, sa_master = False\<rparr>"

definition shared_adapters_equal :: "shared_adapter \<Rightarrow> shared_adapter \<Rightarrow> bool" where
  "shared_adapters_equal a b = (sa_map a = sa_map b)"

fun frees :: "nat list \<Rightarrow> pool \<Rightarrow> pool option" where
  "frees [] p = Some p"
| "frees (b # bs) p = Option.bind (shm_free b p) (frees bs)"

definition shared_adapter_delete :: "nat list \<Rightarrow> nat \<Rightarrow> shared_adapter \<Rightarrow> pool \<Rightarrow> pool option" where
  "shared_adapter_delete nodes map_block a p =
     (if sa_master a then
        (case sa_map a of
           None \<Rightarrow> None
         | Some ptr_block \<Rightarrow> Option.bind (frees nodes p) (\<lambda>p1. Option.bind (shm_free map_block p1) (shm_free ptr_block)))
      else Some p)"

lemma frees_append: "frees (xs @ ys) p = Option.bind (frees xs p) (frees ys)"
  by (induction xs arbitrary: p) (auto split: bind_splits)

lemma frees_ok:
  "pool_ok p bs ks \<Longrightarrow> set fs \<subseteq> set bs \<Longrightarrow> distinct fs \<Longrightarrow> 0 < pool_sem p \<Longrightarrow>
   \<exists>p' ks'. frees fs p = Some p' \<and> pool_ok p' (filter (\<lambda>b. b \<notin> set fs) bs) ks' \<and> pool_sem p' = pool_sem p"
proof (induction fs arbitrary: p bs ks)
  case (Cons f fs)
  have d: "distinct bs" using Cons.prems(1) by (auto simp: pool_ok_def dest: mem_ok_distinct)
  have fb: "f \<in> set bs" using Cons.prems(2) by simp
  obtain p1 where p1: "shm_free f p = Some p1" "pool_ok p1 (remove1 f bs) (remove1 f ks)" "pool_sem p1 = pool_sem p"
    using shm_free_ok [OF Cons.prems(1) fb Cons.prems(4)] by blast
  have "set fs \<subseteq> set (remove1 f bs)" using Cons.prems(2,3) d by auto
  then obtain p' ks' where "frees fs p1 = Some p'" "pool_ok p' (filter (\<lambda>b. b \<notin> set fs) (remove1 f bs)) ks'" "pool_sem p' = pool_sem p"
    using Cons.IH [OF p1(2)] Cons.prems(3,4) p1(3) by auto
  moreover have "filter (\<lambda>b. b \<notin> set fs) (remove1 f bs) = filter (\<lambda>b. b \<notin> set (f # fs)) bs"
    using d by (simp add: distinct_remove1_removeAll removeAll_filter_not_eq filter_filter conj_commute eq_commute)
  ultimately show ?case using p1(1) by auto
qed auto

text \<open>
  Deleting an object that is not the maker changes nothing; the maker's leaves the pool in order without the blocks of the map, and with
  all others.
\<close>

theorem shared_adapter_gives_back:
  assumes "pool_ok p bs ks" and "distinct (nodes @ [map_block, ptr_block])" and "set (nodes @ [map_block, ptr_block]) \<subseteq> set bs"
    and "0 < pool_sem p"
  shows "\<exists>p' ks'. shared_adapter_delete nodes map_block \<lparr>sa_map = Some ptr_block, sa_master = True\<rparr> p = Some p' \<and>
    pool_ok p' (filter (\<lambda>b. b \<notin> set (nodes @ [map_block, ptr_block])) bs) ks'"
proof -
  have "shared_adapter_delete nodes map_block \<lparr>sa_map = Some ptr_block, sa_master = True\<rparr> p = frees (nodes @ [map_block, ptr_block]) p"
    by (auto simp: shared_adapter_delete_def frees_append split: bind_splits)
  then show ?thesis using frees_ok [OF assms(1,3,2,4)] by (metis (no_types))
qed

lemma copy_deletes_nothing: "shared_adapter_delete nodes mb (shared_adapter_copy a) p = Some p" "shared_adapters_equal (shared_adapter_copy a) a"
  by (simp_all add: shared_adapter_delete_def shared_adapter_copy_def shared_adapters_equal_def)

end
