(* ===== verification/Task_Listing.thy ===== *)
theory Task_Listing
  imports Get_Task Put_Task Shm_Debug
begin

text \<open>
  Listings: the temporary file a server's listing goes through (\<open>taskitem.c\<close>), and the table that \<open>list_task\<close> prints.
\<close>

section \<open>The temporary file\<close>

text \<open>The first name that no file has, counting from 0; a name has to fit 128 bytes.\<close>

definition list_tmp_name :: "cstring \<Rightarrow> int \<Rightarrow> nat \<Rightarrow> cstring" where
  "list_tmp_name exec_path sid i = exec_path @ ''/log/TASK_ID_'' @ show_int sid @ ''_LIST_TMP_'' @ show_int (int i)"

partial_function (option) list_tmp_from :: "(cstring \<Rightarrow> bool) \<Rightarrow> cstring \<Rightarrow> int \<Rightarrow> nat \<Rightarrow> cstring option" where
  "list_tmp_from ex exec_path sid i =
     Option.bind (sprintf_buf 128 (list_tmp_name exec_path sid i)) (\<lambda>s.
       if ex s then list_tmp_from ex exec_path sid (Suc i) else Some s)"

declare list_tmp_from.simps [code]

text \<open>
  The whole routine: \<open>fetch\<close> is the client's, which writes the listing to the file, or does not; its result is not looked at. The last
  component is the file removed.
\<close>

definition list_via_file ::
  "(cstring \<Rightarrow> bool) \<Rightarrow> cstring \<Rightarrow> int \<Rightarrow> (cstring \<Rightarrow> cstring option) \<Rightarrow> int \<Rightarrow> time_t \<Rightarrow> (FTP_FILE_INFO list \<times> cstring option) option" where
  "list_via_file ex exec_path sid fetch tz now =
     do {
       tmp \<leftarrow> list_tmp_from ex exec_path sid 0;
       l \<leftarrow> get_ftp_file_list tz now (fetch tmp);
       Some (l, if fetch tmp = None then None else Some tmp)
     }"

lemma list_tmp_name_inj: "list_tmp_name e sid i = list_tmp_name e sid j \<Longrightarrow> i = j"
  using show_int_inj [of "int i" "int j"] by (simp add: list_tmp_name_def)

text \<open>
  With finitely many files there is a free name, and the loop finds the first one, provided the names up to it fit.
\<close>

lemma list_tmp_from_first:
  assumes "\<forall>k < n. ex (list_tmp_name e sid (i + k))" and "\<not> ex (list_tmp_name e sid (i + n))"
    and "\<forall>k \<le> n. length (list_tmp_name e sid (i + k)) < 128"
  shows "list_tmp_from ex e sid i = Some (list_tmp_name e sid (i + n))"
  using assms
proof (induction n arbitrary: i)
  case 0
  then show ?case by (subst list_tmp_from.simps) (simp add: sprintf_buf_def)
next
  case (Suc n)
  have "ex (list_tmp_name e sid i)" "length (list_tmp_name e sid i) < 128" using Suc.prems(1,3) by fastforce+
  then have "list_tmp_from ex e sid i = list_tmp_from ex e sid (Suc i)"
    by (subst list_tmp_from.simps) (simp add: sprintf_buf_def)
  moreover have "list_tmp_from ex e sid (Suc i) = Some (list_tmp_name e sid (Suc i + n))"
  proof (rule Suc.IH)
    show "\<forall>k<n. ex (list_tmp_name e sid (Suc i + k))" using Suc.prems(1) by (metis Suc_less_eq add_Suc_shift)
    show "\<not> ex (list_tmp_name e sid (Suc i + n))" using Suc.prems(2) by simp
    show "\<forall>k\<le>n. length (list_tmp_name e sid (Suc i + k)) < 128" using Suc.prems(3) by (metis Suc_le_mono add_Suc_shift)
  qed
  ultimately show ?case by simp
qed

theorem list_tmp_found:
  assumes "finite {s. ex s}" and "\<forall>i. length (list_tmp_name e sid i) < 128 \<or> card {s. ex s} < i"
  shows "\<exists>n \<le> card {s. ex s}. list_tmp_from ex e sid 0 = Some (list_tmp_name e sid n) \<and> \<not> ex (list_tmp_name e sid n)"
proof -
  let ?c = "card {s. ex s}"
  have "\<exists>n \<le> ?c. \<not> ex (list_tmp_name e sid n)"
  proof (rule ccontr)
    assume "\<not> ?thesis"
    then have "list_tmp_name e sid ` {..?c} \<subseteq> {s. ex s}" by auto
    then have "card (list_tmp_name e sid ` {..?c}) \<le> ?c" by (rule card_mono [OF assms(1)])
    moreover have "inj_on (list_tmp_name e sid) {..?c}" by (auto intro: inj_onI list_tmp_name_inj)
    ultimately show False by (simp add: card_image)
  qed
  then obtain m where m: "m \<le> ?c" "\<not> ex (list_tmp_name e sid m)" by blast
  define n where "n = (LEAST n. \<not> ex (list_tmp_name e sid n))"
  have n: "\<not> ex (list_tmp_name e sid n)" "n \<le> m" using LeastI [of "\<lambda>n. \<not> ex (list_tmp_name e sid n)", OF m(2)] Least_le m(2)
    by (auto simp: n_def)
  have "\<forall>k < n. ex (list_tmp_name e sid (0 + k))" using not_less_Least n_def by fastforce
  moreover have "\<forall>k \<le> n. length (list_tmp_name e sid (0 + k)) < 128" using assms(2) m(1) n(2) by (metis add_0 leD le_trans)
  ultimately have "list_tmp_from ex e sid 0 = Some (list_tmp_name e sid (0 + n))" using n(1) by (intro list_tmp_from_first) auto
  moreover have "n \<le> ?c" using n(2) m(1) by simp
  ultimately show ?thesis using n(1) by (intro exI [of _ n]) simp
qed

text \<open>
  When the server's listing cannot be fetched the list is empty, as if the server had no files: an upload then
  takes all of its files for new ones.
\<close>

lemma failed_listing_empty:
  assumes "list_tmp_from ex e sid 0 = Some tmp" and "fetch tmp = None"
  shows "list_via_file ex e sid fetch tz now = Some ([], None)"
  using assms by (simp add: list_via_file_def get_ftp_file_list_def)

section \<open>The table of tasks\<close>

definition dashes :: cstring where
  "dashes = replicate 86 (CHR ''-'')"

definition task_line :: "TASK_ITEM \<Rightarrow> cstring" where
  "task_line t =
     concat (map (\<lambda>s. s @ ''--'')
       [show_int (sch_id (sch_item t)), sch_month (sch_item t), sch_day (sch_item t), sch_hour (sch_item t), sch_min (sch_item t),
        ftp_host t, ftp_path t, local_path t, show_int (direction t), show_int (del_src t), task_file t, sh_file t]) @ son_dir_mask t"

definition list_task :: "TASK_ITEM list \<Rightarrow> cstring option \<Rightarrow> cstring \<Rightarrow> nat \<Rightarrow> cstring list" where
  "list_task task_list ini meminfo map_size =
     [dashes, ''|TASK ID--MONTH--DAY--HOUR--MIN--FTP HOST--FTP PATH--DIRECTION--DEL SRC--FILE--SH FILE--SON DIR MASK|'', dashes] @
     map task_line task_list @
     [''--------------------------------TOTAL ['' @ show_int (int (length task_list)) @ ''] TASK----------------------------------------'',
      ''Scheduler Infor: MSG_ID '' @ show_int (read_ini_int ini ''TaskList'' ''SCHEDULE_MSG_ID'' 0) @ '', P_ID '' @
        show_int (read_ini_int ini ''TaskList'' ''SCHEDULE_P_ID'' 0),
      ''share memory used:'', meminfo @ '', map size:'' @ show_int (int map_size)]"

lemma list_task_lines: "length (list_task ts ini m n) = length ts + 7" "set (map task_line ts) \<subseteq> set (list_task ts ini m n)"
  by (auto simp: list_task_def)

end
