(* ===== verification/Spec2Isabelle.thy ===== *)
theory Spec2Isabelle
  imports File_Process Ftp_Facts Ftp_Passive Ftp_Type Shm_Spec Shm_Pool Mem_Spec RW_Lock Db_Load Sftp_Client Support
    Atomic_Counter Signals Task_Listing
begin

text \<open>
  filecollection moves files between a host and FTP or SFTP servers on crontab-like schedules. This
  development models its C and C++ code under \<open>src/src/\<close> and proves what makes the parts correct, or
  where they are not, what exactly happens.

  \<^bold>\<open>The program.\<close> A scheduler process (\<open>schedule.c\<close>) keeps a list of tasks and forks a process for each
  task that is due. Tasks come from an ini file or from the rows of a database table and the scheduler
  hears of changes by messages. A task's process (\<open>taskmanager.c\<close>) lists a directory twice, leaves out files that still grow,
  that are too young or too old or do not match, asks the table of transferred files whether it had a file before,
  transfers it through \<open>ftpprocess.c\<close> or \<open>sftp.cpp\<close>, records it, and passes statements to the
  database writer. The table of transferred files lies in shared memory: an open-addressing hash
  table with history files behind it (\<open>taskitem.c\<close>), in blocks of the allocator \<open>frame_memory.c\<close>, under the
  semaphores of \<open>frame_mutex.c\<close>. Strings live in the memory pools of \<open>memmanager.c\<close>.

  \<^bold>\<open>Theories and sources.\<close>
  \<^item> \<open>Prelude\<close>, \<open>C_Strings\<close>: reading arrays with \<^const>\<open>None\<close> for out-of-range, folds that may fail, and the C library
    functions on strings that the sources use (\<open>atoi\<close>, \<open>sscanf\<close>, \<open>fgets\<close>, \<open>strchr\<close>, \<open>printf\<close>
    conversions). \<open>Calendar\<close>: \<open>localtime\<close> and \<open>mktime\<close>.
  \<^item> \<open>Frame_Utils\<close> (\<open>frame_utils.c\<close>): CRC, hash, trimming, \<open>GetValue\<close>. \<open>G_String\<close> (\<open>g_string.c\<close>): words, replacing, substrings.
    \<open>Ini_File\<close> (\<open>iniprocess.c\<close>), \<open>File_Process\<close> (\<open>fileprocess.c\<close>).
  \<^item> \<open>Task_Data\<close>: the records of \<open>taskitem.h\<close>, \<open>schedule.h\<close>, \<open>definitions.h\<close>, \<open>ftpprocess.h\<close>. \<open>Task_Item\<close>, \<open>Trans_Path\<close>
    (\<open>taskitem.c\<close>): task list, listings, host strings, date marks in paths.
  \<^item> \<open>Ftped_Map\<close>, \<open>Ftped_Files\<close>, \<open>Transfer_Log\<close> (\<open>taskitem.c\<close>): the table of transferred files, its history
    files, and the contract a transfer task needs of them.
  \<^item> \<open>Task_Loop\<close>, \<open>Put_Task\<close>, \<open>Get_Task\<close>, \<open>Task_Manager\<close> (\<open>taskmanager.c\<close>): the four transfer tasks and the
    commands. \<open>Task_Listing\<close>: the listing through a temporary file and the command that shows the tasks.
  \<^item> \<open>Cron\<close>, \<open>Schedule\<close>, \<open>Schedule_Run\<close>, \<open>Schedule_Reload\<close> (\<open>schedule.c\<close>): times, list, messages, main loop; the
    whole system of scheduler, task processes and command line as a step relation.
  \<^item> \<open>Db_Process\<close>, \<open>Db_Facts\<close> (\<open>dbprocess.c\<close>): statements, rows as tasks, the writer process. \<open>Db_Statement\<close>: the call blocks
    that the precompiler fills before each call of \<open>sqlcxt\<close>, field by field; \<open>Db_Query\<close>: the queries of the two
    cursors as expressions over a table's rows and as the text that \<open>sqlcud0\<close> holds, and the host variables that a fetch writes;
    \<open>Db_Load\<close>: blocks, queries and rows put together, from the table to the tasks.
  \<^item> \<open>Ftp_Reply\<close>, \<open>Ftp_Client\<close>, \<open>Ftp_Facts\<close>, \<open>Ftp_Passive\<close>, \<open>Ftp_Type\<close> (\<open>ftpprocess.c\<close>) and \<open>Sftp_Client\<close> (\<open>sftp.cpp\<close>,
    \<open>ssh.cpp\<close>): the clients.
  \<^item> \<open>Main_Program\<close> (\<open>main.c\<close>): what every command goes through before it does its work, and which command it is.
  \<^item> \<open>Sem_Lock\<close> (\<open>frame_mutex.c\<close>, \<open>thread.h\<close>), \<open>Counting\<close>, \<open>RW_Lock\<close> (\<open>thread.c\<close>), \<open>Atomic_Lock\<close> (\<open>frame_utils.h\<close>, \<open>myatomic_1.h\<close>),
    \<open>Mutex_Classes\<close> (\<open>frame_mutex.c\<close>, \<open>frame_utils.c\<close>, \<open>thread.c\<close>): locks, the first three with any number of processes or
    threads interleaved. \<open>Atomic_Counter\<close> (\<open>myatomic_1.h\<close>, \<open>makefile\<close>): the counter's versions for all platforms, those of several steps as
    steps, and the one the makefile selects.
  \<^item> \<open>Shm_Alloc\<close>, \<open>Shm_Chain\<close>, \<open>Shm_Facts\<close>, \<open>Shm_Keys\<close>, \<open>Shm_Spec\<close>, \<open>Shm_Pool\<close>, \<open>Shm_Debug\<close> (\<open>frame_memory.c\<close>, \<open>frame_memory.h\<close>); \<open>Mem_Pool\<close>, \<open>Mem_Facts\<close>,
    \<open>Mem_Clear\<close>, \<open>Mem_Strings\<close>, \<open>Mem_Spec\<close> (\<open>memmanager.c\<close>): the two allocators.
  \<^item> \<open>Support\<close> (\<open>logprocess.c\<close>, \<open>regexpress.c\<close>, \<open>exception.c\<close>, \<open>definitions.c\<close>): log files, exceptions, conversions. \<open>Signals\<close> (\<open>schedule.c\<close>,
    \<open>frame_utils.c\<close>): a process's dispositions, the handler, alarms and debug lines.

  \<^bold>\<open>How code becomes definitions.\<close> Structs are records, enums datatypes, linked lists lists (with the
  exception of the allocators' chains, which are headers in a store). A character array is the string it holds;
  where a source copies more than the array holds, or reads behind it, the definition is \<^const>\<open>None\<close>.
  So are a null pointer that is followed, a \<open>throw\<close>, an \<open>exit\<close> and a loop that never ends, as the
  text before the definition says. System calls, libraries and servers are scripts of answers that the theorems quantify over; behind
  a script's end calls succeed unless a text says otherwise. Effects on the outside are lists of events. Integers
  that wrap where it matters are words or conversions written out.

  \<^bold>\<open>Interfaces.\<close> Six contracts are locales, each interpreted on the code's model: \<open>file_set\<close> (\<open>Ftped_Map\<close>),
  the table of transferred files as a set of triples; \<open>transfer_log\<close> (\<open>Transfer_Log\<close>), what a
  transfer task relies on, from which the loops of all four tasks get that no file is moved twice; \<open>task_table\<close>
  (\<open>Schedule_Run\<close>), the scheduler's list as a finite map; \<open>allocator\<close> and \<open>freeing_allocator\<close> (\<open>Alloc_Spec\<close>), from which
  both allocators get that the areas they hand out stay apart; \<open>atomic_counter\<close> (\<open>Atomic_Counter\<close>), from which four ways to count get
  that every run is one of its operations in some order.

  \<^bold>\<open>What is shown.\<close> Across components: no file is transferred twice over two runs of a task, whatever the
  server does, as long as locks, history file and table are in order and the names are ones the table keeps apart
  (\<open>Task_Manager\<close>); each task has at most one live process (\<open>Schedule_Run\<close>); the periodic look at the database brings
  the scheduler in step with its rows (\<open>Db_Facts\<close>). Per component: the table of transferred files refines a set, never
  forgets and survives restarts; tasks move only eligible files, from and to their own directories (\<open>Task_Manager\<close>); the scheduler's list refines a map;
  replies are read in whatever segments they arrive; downloads and uploads that report success are complete under
  stated conditions, and the FTP client never takes its loops for text (\<open>Ftp_Type\<close>); both allocators keep blocks apart and their chains well-formed; both reader-writer
  locks exclude, the one on condition variables loses no wake-up; a second scheduler does not start beside the first; the counter's versions for
  several steps behave as if each operation were one. Where the code fails, lemmas
  say how: a download's result ignores the disk, two replies in one segment merge, a pool's first
  block may end behind the segment, a failed statement is reported as a success, two upgrades
  of the spin lock deadlock, two processes that create a semaphore at the same time both get in, a missing value in one
  row hides all tasks behind it.

  \<^bold>\<open>Bounds and fuel.\<close> No definition takes fuel. Loops are structural, or have a measure (the rest of a buffer or file,
  the number of free slots), or are \<open>partial_function (option)\<close>, for which the theorems show that
  a result exists (\<open>insert_probe\<close>, \<open>reply_loop\<close>, \<open>clear_pool\<close>). A shared pool in order (\<open>pool_ok\<close>) ends below \<open>2 ^ 31\<close>, since
  \<open>malloc\<close> passes offsets through \<open>int\<close>; the default size in \<open>main.c\<close> does not keep to that (\<open>default_pool_second_malloc\<close>). Requests to a
  memory pool (\<open>mem_request\<close>) are of at most \<open>2 ^ 31 - 8\<close> bytes, above which \<open>palloc\<close> wraps (\<open>palloc_size_wraps\<close>).

  \<^bold>\<open>Steps and layouts chosen.\<close> A task's process that posts its end and the \<open>exit\<close> behind the post are one step
  (\<open>kid_exit\<close>). The integers of a message lie in memory with the low byte first (\<open>int_bytes\<close>). The steps of
  \<open>sem_step\<close> are the successful and failing calls of \<open>wait\<close> and \<open>release\<close> (\<open>take_is_wait\<close> and the lemmas behind it). The streams
  of a transfer as text are taken to be unbuffered.

  \<^bold>\<open>Not modelled.\<close> What is printed where no theorem needs it, \<open>fork\<close>, waiting times, the nodes that the shared map of allocators takes for
  itself, \<open>strptime\<close> and conversions of doubles and pointers, the check counter of debug builds in the counter for Itanium,
  memory ordering (an atomic instruction is one step), and the libraries behind \<open>regcomp\<close>, \<open>libssh2\<close> and \<open>sqlcxt\<close>: how the
  database evaluates a statement is an argument, what the code hands over and what it does with the answer is modelled.
\<close>

end
